(* ===== verification/Prelude.thy ===== *)
theory Prelude
  imports Complex_Main "HOL-Library.Word"
begin

text \<open>
  Shared vocabulary of the development: names for the machine types of the C++ sources, the
  conversions between them (the build passes \<^verbatim>\<open>-fno-strict-overflow\<close>, so signed arithmetic
  wraps), checked array access, and the generic lemmas on words, lists and powers of two that the
  component theories use. The collections \<open>word_unat\<close> and \<open>c_int\<close> carry the conversion lemmas.
\<close>

unbundle bit_operations_syntax

named_theorems word_unat \<open>readings of word operations as natural numbers\<close>
named_theorems c_int \<open>conversions between C integer types\<close>

section \<open>Machine types\<close>

type_synonym u8 = "8 word"
type_synonym u16 = "16 word"
type_synonym u32 = "32 word"
type_synonym f32 = "32 word"
type_synonym size_t = nat
type_synonym ptr = "nat option"

abbreviation nullptr :: ptr where
  "nullptr \<equiv> None"

section \<open>Integer conversions\<close>

text \<open>A value stored in a two's complement integer of \<open>w\<close> bits.\<close>

definition wrap_int :: "nat \<Rightarrow> int \<Rightarrow> int" where
  "wrap_int w x = signed_take_bit (w - 1) x"

text \<open>The conversion of an \<open>int\<close> to \<open>size_t\<close> (64 bits), and \<open>size_t\<close> arithmetic.\<close>

definition to_size :: "int \<Rightarrow> size_t" where
  "to_size x = nat (x mod 2 ^ 64)"

definition size_add :: "size_t \<Rightarrow> size_t \<Rightarrow> size_t" where
  "size_add a b = (a + b) mod 2 ^ 64"

definition size_sub :: "size_t \<Rightarrow> size_t \<Rightarrow> size_t" where
  "size_sub a b = nat ((int a - int b) mod 2 ^ 64)"

definition size_mul :: "size_t \<Rightarrow> size_t \<Rightarrow> size_t" where
  "size_mul a b = (a * b) mod 2 ^ 64"

text \<open>C++ integer division truncates towards zero.\<close>

definition c_div :: "int \<Rightarrow> int \<Rightarrow> int" where
  "c_div n d = (let q = \<bar>n\<bar> div \<bar>d\<bar> in if (n < 0) = (d < 0) then q else - q)"

lemma wrap_int_id [c_int]:
  assumes "0 < w" "- (2 ^ (w - 1)) \<le> x" "x < 2 ^ (w - 1)"
  shows "wrap_int w x = x"
  using assms by (simp add: wrap_int_def signed_take_bit_int_eq_self)

lemma wrap_int_ge [c_int]: "- (2 ^ (w - 1)) \<le> wrap_int w x"
  by (simp add: wrap_int_def signed_take_bit_int_greater_eq_minus_exp)

lemma wrap_int_less [c_int]: "wrap_int w x < 2 ^ (w - 1)"
  by (simp add: wrap_int_def signed_take_bit_int_less_exp)

lemma to_size_id [c_int]: "0 \<le> x \<Longrightarrow> x < 2 ^ 64 \<Longrightarrow> to_size x = nat x"
  by (simp add: to_size_def)

lemma size_add_id [c_int]: "a + b < 2 ^ 64 \<Longrightarrow> size_add a b = a + b"
  by (simp add: size_add_def)

lemma size_sub_id: "b \<le> a \<Longrightarrow> a < 2 ^ 64 \<Longrightarrow> size_sub a b = a - b"
  by (simp add: size_sub_def nat_diff_distrib flip: of_nat_diff)

lemma size_mul_id [c_int]: "a * b < 2 ^ 64 \<Longrightarrow> size_mul a b = a * b"
  by (simp add: size_mul_def)

lemma c_div_nonneg [c_int]: "0 \<le> a \<Longrightarrow> 0 < b \<Longrightarrow> c_div a b = a div b"
  by (simp add: c_div_def)

section \<open>Checked array access\<close>

text \<open>
  Reading or writing past the end of an array is undefined in C++: it is \<^term>\<open>None\<close> here, and every
  loop that does it has no result.
\<close>

definition array_get :: "'a list \<Rightarrow> int \<Rightarrow> 'a option" where
  "array_get xs i = (if 0 \<le> i \<and> nat i < length xs then Some (xs ! nat i) else None)"

definition array_set :: "'a list \<Rightarrow> int \<Rightarrow> 'a \<Rightarrow> 'a list option" where
  "array_set xs i v = (if 0 \<le> i \<and> nat i < length xs then Some (xs[nat i := v]) else None)"

lemma array_get_nat [simp]: "i < length xs \<Longrightarrow> array_get xs (int i) = Some (xs ! i)"
  by (simp add: array_get_def)

lemma array_set_nat [simp]: "i < length xs \<Longrightarrow> array_set xs (int i) v = Some (xs[i := v])"
  by (simp add: array_set_def)

lemma array_set_length: "array_set xs i v = Some ys \<Longrightarrow> length ys = length xs"
  by (auto simp: array_set_def split: if_splits)

lemma those_Some_map: "those (map Some xs) = Some xs"
  by (induction xs) simp_all

text \<open>A loop \<open>for (i = 0; i < n; ++i)\<close> whose body may fail, as a fold over the indices.\<close>

fun loop_opt :: "('i \<Rightarrow> 's \<Rightarrow> 's option) \<Rightarrow> 'i list \<Rightarrow> 's \<Rightarrow> 's option" where
  "loop_opt body [] s = Some s"
| "loop_opt body (i # is) s = Option.bind (body i s) (loop_opt body is)"

lemma loop_opt_append:
  "loop_opt body (is @ js) s = Option.bind (loop_opt body is s) (loop_opt body js)"
  by (induction "is" arbitrary: s) (auto split: bind_splits)

lemma loop_opt_total:
  assumes "\<And>i s. i \<in> set is \<Longrightarrow> P s \<Longrightarrow> \<exists>s'. body i s = Some s' \<and> P s'" and "P s"
  shows "\<exists>s'. loop_opt body is s = Some s' \<and> P s'"
  using assms
proof (induction "is" arbitrary: s)
  case (Cons i "is")
  from Cons.prems obtain t where t: "body i s = Some t" "P t" by (metis list.set_intros(1))
  with Cons show ?case by auto
qed simp

lemma loop_opt_invariant:
  assumes "loop_opt body is s = Some s'" and "P s"
    and "\<And>i s t. i \<in> set is \<Longrightarrow> P s \<Longrightarrow> body i s = Some t \<Longrightarrow> P t"
  shows "P s'"
  using assms
proof (induction "is" arbitrary: s)
  case (Cons i "is")
  from Cons.prems obtain t where t: "body i s = Some t" "loop_opt body is t = Some s'"
    by (auto split: bind_splits)
  with Cons.prems have "P t" by (metis list.set_intros(1))
  with t Cons.IH Cons.prems(3) show ?case by (metis list.set_intros(2))
qed simp

section \<open>Ranges of C integers\<close>

text \<open>The values of a loop variable \<open>for (int i = a; i < b; ++i)\<close> are \<open>[a..b - 1]\<close>.\<close>

lemma upto_int_upt: "[int a..int b - 1] = map int [a..<b]"
proof (induction "b - a" arbitrary: a)
  case 0
  then show ?case by simp
next
  case (Suc n)
  then have "[int (Suc a)..int b - 1] = map int [Suc a..<b]" by (intro Suc.hyps) simp
  moreover have "a < b" using Suc.hyps(2) by simp
  ultimately show ?case by (subst upto.simps) (simp add: upt_conv_Cons add.commute)
qed

lemma upto_0_int: "[0..int b - 1] = map int [0..<b]"
  using upto_int_upt [of 0 b] by simp

lemma loop_opt_map: "loop_opt body (map g is) s = loop_opt (\<lambda>i. body (g i)) is s"
  by (induction "is" arbitrary: s) (auto split: bind_splits)

lemma loop_opt_cong:
  assumes "\<And>i s. i \<in> set is \<Longrightarrow> f i s = g i s"
  shows "loop_opt f is s = loop_opt g is s"
  using assms by (induction "is" arbitrary: s) (auto split: bind_splits)

text \<open>A loop whose body always succeeds is a fold.\<close>

lemma loop_opt_fold:
  assumes "\<And>i s. i \<in> set is \<Longrightarrow> P s \<Longrightarrow> body i s = Some (f i s) \<and> P (f i s)" and "P s"
  shows "loop_opt body is s = Some (fold f is s) \<and> P (fold f is s)"
  using assms by (induction "is" arbitrary: s) auto

section \<open>Writes to an array\<close>

text \<open>A sequence of writes to an array, and what it leaves there when no cell is written twice.\<close>

definition write_all :: "(nat \<times> 'a) list \<Rightarrow> 'a list \<Rightarrow> 'a list" where
  "write_all ws a = fold (\<lambda>(i, v) a. a[i := v]) ws a"

lemma write_all_simps [simp]:
  "write_all [] a = a"
  "write_all ((i, v) # ws) a = write_all ws (a[i := v])"
  by (simp_all add: write_all_def)

lemma write_all_append [simp]: "write_all (us @ vs) a = write_all vs (write_all us a)"
  by (simp add: write_all_def)

lemma length_write_all [simp]: "length (write_all ws a) = length a"
  by (induction ws arbitrary: a) auto

lemma write_all_other: "i \<notin> fst ` set ws \<Longrightarrow> write_all ws a ! i = a ! i"
  by (induction ws arbitrary: a) auto

lemma write_all_nth:
  "distinct (map fst ws) \<Longrightarrow> (i, v) \<in> set ws \<Longrightarrow> i < length a \<Longrightarrow> write_all ws a ! i = v"
proof (induction ws arbitrary: a)
  case (Cons w ws)
  obtain j u where w: "w = (j, u)" by (cases w)
  show ?case
  proof (cases "(i, v) \<in> set ws")
    case True
    then show ?thesis using Cons w by simp
  next
    case False
    then have "i = j" "v = u" using Cons.prems(2) w by auto
    moreover have "i \<notin> fst ` set ws" using Cons.prems(1) w \<open>i = j\<close> by simp
    ultimately show ?thesis using Cons.prems(3) w by (simp add: write_all_other)
  qed
qed simp

text \<open>So the order of such writes does not matter.\<close>

lemma write_all_perm:
  assumes "distinct (map fst us)" "distinct (map fst vs)" "set us = set vs"
  shows "write_all us a = write_all vs a"
proof (rule nth_equalityI)
  fix i assume "i < length (write_all us a)"
  then have i: "i < length a" by simp
  show "write_all us a ! i = write_all vs a ! i"
  proof (cases "i \<in> fst ` set us")
    case True
    then obtain v where "(i, v) \<in> set us" by auto
    then show ?thesis using assms i by (simp add: write_all_nth)
  next
    case False
    then show ?thesis using assms(3) by (simp add: write_all_other)
  qed
qed simp

lemma fold_write_all: "fold (\<lambda>i. write_all (ws i)) is a = write_all (concat (map ws is)) a"
  by (induction "is" arbitrary: a) auto

section \<open>Parallel loops\<close>

text \<open>
  An OpenMP \<^verbatim>\<open>parallel for\<close> with a reduction. The schedule lists the iterations of each thread; a
  thread starts from the neutral private accumulator, and its result is combined with the shared
  one at the end. Without a reduction the accumulator is the unit value.
\<close>

definition omp_for ::
  "'i list list \<Rightarrow> ('i \<Rightarrow> 's \<times> 'p \<Rightarrow> ('s \<times> 'p) option) \<Rightarrow> ('p \<Rightarrow> 'p \<Rightarrow> 'p) \<Rightarrow> 'p \<Rightarrow> 's \<times> 'p
    \<Rightarrow> ('s \<times> 'p) option" where
  "omp_for threads body combine neutral =
     loop_opt (\<lambda>iterations (s, g).
       map_option (\<lambda>(s', p). (s', combine g p)) (loop_opt body iterations (s, neutral))) threads"

text \<open>A schedule runs every iteration once; with a false \<^verbatim>\<open>if\<close> clause one thread runs them in order.\<close>

type_synonym schedule = "int \<Rightarrow> int list list"

definition schedule_ok :: "schedule \<Rightarrow> bool" where
  "schedule_ok sched \<longleftrightarrow> (\<forall>n. distinct (concat (sched n)) \<and> set (concat (sched n)) = {0..<n})"

definition omp_threads :: "schedule \<Rightarrow> bool \<Rightarrow> int \<Rightarrow> int list list" where
  "omp_threads sched cond n = (if cond then sched n else [[0..n - 1]])"

lemma omp_threads_ok:
  assumes "schedule_ok sched"
  shows "distinct (concat (omp_threads sched cond n)) \<and> set (concat (omp_threads sched cond n)) = {0..<n}"
  using assms by (auto simp: omp_threads_def schedule_ok_def)

text \<open>The shared state after a loop whose iterations act on it by themselves.\<close>

lemma loop_opt_fold_acc:
  assumes "\<And>i s p. i \<in> set is \<Longrightarrow> P s \<Longrightarrow> \<exists>p'. body i (s, p) = Some (f i s, p') \<and> P (f i s)" and "P s"
  shows "\<exists>p'. loop_opt body is (s, p) = Some (fold f is s, p') \<and> P (fold f is s)"
  using assms
proof (induction "is" arbitrary: s p)
  case (Cons i "is")
  obtain p' where p': "body i (s, p) = Some (f i s, p')" "P (f i s)"
    using Cons.prems(1) [of i s p] Cons.prems(2) by auto
  have "\<exists>q. loop_opt body is (f i s, p') = Some (fold f is (f i s), q) \<and> P (fold f is (f i s))"
    using Cons.prems(1) p'(2) by (intro Cons.IH) auto
  then show ?case using p'(1) by simp
qed simp

lemma omp_for_fold:
  assumes "\<And>i s p. i \<in> set (concat threads) \<Longrightarrow> P s \<Longrightarrow> \<exists>p'. body i (s, p) = Some (f i s, p') \<and> P (f i s)"
    and "P s"
  shows "\<exists>g'. omp_for threads body combine neutral (s, g) = Some (fold f (concat threads) s, g')
           \<and> P (fold f (concat threads) s)"
  using assms
proof (induction threads arbitrary: s g)
  case (Cons t ts)
  obtain p' where p': "loop_opt body t (s, neutral) = Some (fold f t s, p')" "P (fold f t s)"
    using loop_opt_fold_acc [of t P body f s neutral] Cons.prems by auto
  have "\<exists>g'. omp_for ts body combine neutral (fold f t s, combine g p')
      = Some (fold f (concat ts) (fold f t s), g') \<and> P (fold f (concat ts) (fold f t s))"
    using Cons.prems(1) p'(2) by (intro Cons.IH) auto
  then show ?case using p'(1) by (simp add: omp_for_def)
qed (simp add: omp_for_def)

text \<open>Loops without an accumulator, run by threads.\<close>

lemma omp_for_unit:
  assumes "\<And>i s. i \<in> set (concat threads) \<Longrightarrow> P s \<Longrightarrow> body i s = Some (f i s) \<and> P (f i s)" and "P s"
  shows "map_option fst (omp_for threads (\<lambda>i (s, u). map_option (\<lambda>s'. (s', u)) (body i s)) (\<lambda>_ _. ()) () (s, ()))
           = Some (fold f (concat threads) s) \<and> P (fold f (concat threads) s)"
  using omp_for_fold [of threads P "\<lambda>i (s, u). map_option (\<lambda>s'. (s', u)) (body i s)" f s "\<lambda>_ _. ()" "()" "()"] assms
  by auto

text \<open>Every line of a parallel loop runs over the same inner indices.\<close>

definition line_pairs :: "nat \<Rightarrow> int list \<Rightarrow> (nat \<times> nat) list" where
  "line_pairs n lines = concat (map (\<lambda>l. map (Pair (nat l)) [0..<n]) lines)"

lemma fold_line_pairs: "fold (\<lambda>l. fold f (map (Pair (nat l)) [0..<n])) lines = fold f (line_pairs n lines)"
  by (induction lines) (auto simp: line_pairs_def fun_eq_iff)

lemma line_pairs_set:
  assumes "set lines = {0..<int m}"
  shows "set (line_pairs n lines) = {..<m} \<times> {..<n}"
proof -
  have "nat ` {0..<int m} = {..<m}"
    by (auto simp: image_iff) (metis atLeastLessThan_iff nat_int of_nat_0_le_iff of_nat_less_iff)
  moreover have "set (line_pairs n lines) = nat ` set lines \<times> {..<n}" by (auto simp: line_pairs_def)
  ultimately show ?thesis using assms by simp
qed

lemma line_pairs_distinct:
  assumes "distinct lines" "\<forall>l \<in> set lines. 0 \<le> l"
  shows "distinct (line_pairs n lines)"
  using assms
proof (induction lines)
  case (Cons l ls)
  have "nat l \<notin> nat ` set ls" using Cons.prems by (auto simp: eq_nat_nat_iff)
  then show ?case using Cons by (auto simp: line_pairs_def distinct_map inj_on_def)
qed (simp add: line_pairs_def)

section \<open>Words as natural numbers\<close>

lemma unat_and_mask [word_unat]: "unat (x AND mask n :: 'a::len word) = unat x mod 2 ^ n"
  by (simp add: unsigned_take_bit_eq flip: take_bit_eq_mask take_bit_eq_mod)

lemma unat_drop_bit_div [word_unat]: "unat (drop_bit n x :: 'a::len word) = unat x div 2 ^ n"
  by (simp add: unat_drop_bit_eq flip: drop_bit_eq_div)

lemma unat_push_bit_mod [word_unat]: "unat (push_bit n x :: 'a::len word) = unat x * 2 ^ n mod 2 ^ LENGTH('a)"
  unfolding unsigned_push_bit_eq by (simp add: push_bit_eq_mult take_bit_eq_mod)

lemma unat_less_32: "unat (x :: 32 word) < 4294967296"
  using unsigned_less [of x, where 'a = nat] by simp

section \<open>Powers of two\<close>

lemma powi_split: "a \<le> b \<Longrightarrow> (2 :: real) powi b = 2 ^ nat (b - a) * 2 powi a"
proof -
  assume "a \<le> b"
  then have b: "b = int (nat (b - a)) + a" by simp
  have "(2 :: real) powi (int (nat (b - a)) + a) = 2 ^ nat (b - a) * 2 powi a"
    by (subst power_int_add) (simp_all only: power_int_of_nat, simp)
  with b show ?thesis by simp
qed

end
