(* ===== verification/Float32.thy ===== *)
theory Float32
  imports Prelude
begin

text \<open>
  The C++ type \<^verbatim>\<open>float\<close> (IEEE 754 binary32) as its 32-bit pattern, with the operations the sources
  use: addition, subtraction, multiplication, division, \<^verbatim>\<open>std::sqrt\<close>, \<^verbatim>\<open>std::round\<close>, comparison,
  \<^verbatim>\<open>std::max\<close>, and the conversions from and to integers. Every operation rounds its exact result
  once, to nearest with ties to even. The arithmetic is on integers throughout, so that it
  evaluates; \<open>f32_val\<close> gives the real number a pattern stands for, and the lemmas relate the two.
\<close>

named_theorems f32_simps \<open>fields and values of float patterns\<close>

section \<open>Fields\<close>

definition f32_sign :: "f32 \<Rightarrow> bool" where
  "f32_sign x = bit x 31"

text \<open>The pattern without its sign bit, as a number.\<close>

definition f32_mag :: "f32 \<Rightarrow> nat" where
  "f32_mag x = unat (x AND 0x7FFFFFFF)"

definition f32_exp :: "f32 \<Rightarrow> nat" where
  "f32_exp x = unat (drop_bit 23 (x AND 0x7FFFFFFF) AND 0xFF)"

definition f32_frac :: "f32 \<Rightarrow> nat" where
  "f32_frac x = unat (x AND 0x7FFFFF)"

definition f32_pack :: "bool \<Rightarrow> nat \<Rightarrow> f32" where
  "f32_pack s b = word_of_nat ((if s then 2 ^ 31 else 0) + b)"

definition f32_is_nan :: "f32 \<Rightarrow> bool" where
  "f32_is_nan x \<longleftrightarrow> f32_exp x = 255 \<and> f32_frac x \<noteq> 0"

definition f32_is_inf :: "f32 \<Rightarrow> bool" where
  "f32_is_inf x \<longleftrightarrow> f32_exp x = 255 \<and> f32_frac x = 0"

definition f32_is_zero :: "f32 \<Rightarrow> bool" where
  "f32_is_zero x \<longleftrightarrow> f32_exp x = 0 \<and> f32_frac x = 0"

definition f32_finite :: "f32 \<Rightarrow> bool" where
  "f32_finite x \<longleftrightarrow> f32_exp x < 255"

definition f32_inf :: "bool \<Rightarrow> f32" where
  "f32_inf s = f32_pack s (255 * 2 ^ 23)"

definition f32_zero :: "bool \<Rightarrow> f32" where
  "f32_zero s = f32_pack s 0"

definition f32_nan :: f32 where
  "f32_nan = 0x7FC00000"

text \<open>A finite pattern stands for \<open>f32_sig x * 2 ^ f32_lexp x\<close>, with its sign.\<close>

definition f32_sig :: "f32 \<Rightarrow> nat" where
  "f32_sig x = (if f32_exp x = 0 then f32_frac x else 2 ^ 23 + f32_frac x)"

definition f32_lexp :: "f32 \<Rightarrow> int" where
  "f32_lexp x = int (max 1 (f32_exp x)) - 150"

definition f32_val :: "f32 \<Rightarrow> real" where
  "f32_val x = (if f32_sign x then - 1 else 1) * real (f32_sig x) * 2 powi f32_lexp x"

section \<open>Rounding\<close>

text \<open>The number of binary digits of a natural number.\<close>

fun bit_len :: "nat \<Rightarrow> nat" where
  "bit_len n = (if n = 0 then 0 else Suc (bit_len (n div 2)))"

declare bit_len.simps [simp del]

text \<open>
  The exponent of the last place of the float nearest to \<open>m * 2 ^ e\<close>: 24 digits of precision, and
  never below the last place of the subnormal numbers.
\<close>

definition f32_ulp_exp :: "nat \<Rightarrow> int \<Rightarrow> int" where
  "f32_ulp_exp m e = max (e + int (bit_len m) - 24) (- 149)"

text \<open>Division by a power of two, to nearest with ties to even.\<close>

definition round_shift :: "nat \<Rightarrow> nat \<Rightarrow> nat" where
  "round_shift m sh =
     (let q = m div 2 ^ sh; r = m mod 2 ^ sh
      in if 2 * r > 2 ^ sh \<or> (2 * r = 2 ^ sh \<and> odd q) then Suc q else q)"

definition f32_round_sig :: "nat \<Rightarrow> int \<Rightarrow> nat" where
  "f32_round_sig m e =
     (let q = f32_ulp_exp m e
      in if q \<le> e then m * 2 ^ nat (e - q) else round_shift m (nat (q - e)))"

definition f32_round :: "bool \<Rightarrow> nat \<Rightarrow> int \<Rightarrow> f32" where
  "f32_round s m e =
     (if m = 0 then f32_zero s
      else let b = nat (f32_ulp_exp m e + 149) * 2 ^ 23 + f32_round_sig m e
           in if b \<ge> 255 * 2 ^ 23 then f32_inf s else f32_pack s b)"

section \<open>Operations\<close>

definition f32_neg :: "f32 \<Rightarrow> f32" where
  "f32_neg x = x XOR 0x80000000"

text \<open>The signed significand of \<open>x\<close> in units of \<open>2 ^ e\<close>, for \<open>e\<close> at most its own exponent.\<close>

definition f32_int_at :: "f32 \<Rightarrow> int \<Rightarrow> int" where
  "f32_int_at x e =
     (if f32_sign x then - 1 else 1) * (int (f32_sig x) * 2 ^ nat (f32_lexp x - e))"

definition f32_add :: "f32 \<Rightarrow> f32 \<Rightarrow> f32" where
  "f32_add x y =
     (if f32_is_nan x \<or> f32_is_nan y then f32_nan
      else if f32_is_inf x then
        (if f32_is_inf y \<and> f32_sign x \<noteq> f32_sign y then f32_nan else x)
      else if f32_is_inf y then y
      else let e = min (f32_lexp x) (f32_lexp y);
               t = f32_int_at x e + f32_int_at y e
           in if t = 0 then f32_zero (f32_sign x \<and> f32_sign y)
              else f32_round (t < 0) (nat \<bar>t\<bar>) e)"

definition f32_sub :: "f32 \<Rightarrow> f32 \<Rightarrow> f32" where
  "f32_sub x y = (if f32_is_nan y then f32_nan else f32_add x (f32_neg y))"

definition f32_mul :: "f32 \<Rightarrow> f32 \<Rightarrow> f32" where
  "f32_mul x y =
     (let s = (f32_sign x \<noteq> f32_sign y)
      in if f32_is_nan x \<or> f32_is_nan y then f32_nan
         else if f32_is_inf x \<or> f32_is_inf y then
           (if f32_is_zero x \<or> f32_is_zero y then f32_nan else f32_inf s)
         else f32_round s (f32_sig x * f32_sig y) (f32_lexp x + f32_lexp y))"

text \<open>
  Quotient and square root are computed to more than 40 digits, with a last digit that is 1 when
  digits were dropped (a sticky digit), and rounded from there.
\<close>

definition f32_div :: "f32 \<Rightarrow> f32 \<Rightarrow> f32" where
  "f32_div x y =
     (let s = (f32_sign x \<noteq> f32_sign y)
      in if f32_is_nan x \<or> f32_is_nan y then f32_nan
         else if f32_is_inf x then (if f32_is_inf y then f32_nan else f32_inf s)
         else if f32_is_inf y then f32_zero s
         else if f32_is_zero y then (if f32_is_zero x then f32_nan else f32_inf s)
         else let n = f32_sig x * 2 ^ 64; q = n div f32_sig y
              in f32_round s (2 * q + (if n mod f32_sig y = 0 then 0 else 1))
                   (f32_lexp x - f32_lexp y - 65))"

fun isqrt :: "nat \<Rightarrow> nat" where
  "isqrt n = (if n = 0 then 0
              else let r = 2 * isqrt (n div 4) in if (r + 1) * (r + 1) \<le> n then r + 1 else r)"

declare isqrt.simps [simp del]

definition f32_sqrt :: "f32 \<Rightarrow> f32" where
  "f32_sqrt x =
     (if f32_is_nan x then f32_nan
      else if f32_is_zero x then x
      else if f32_sign x then f32_nan
      else if f32_is_inf x then x
      else let k = (if even (f32_lexp x) then 64 else 65 :: nat);
               n = f32_sig x * 2 ^ k; r = isqrt n
           in f32_round False (2 * r + (if r * r = n then 0 else 1))
                ((f32_lexp x - int k) div 2 - 1))"

text \<open>Order; comparisons with a NaN are false and the two zeros are equal.\<close>

definition f32_less :: "f32 \<Rightarrow> f32 \<Rightarrow> bool" where
  "f32_less x y \<longleftrightarrow>
     \<not> f32_is_nan x \<and> \<not> f32_is_nan y \<and>
     (if f32_sign x = f32_sign y
      then (if f32_sign x then f32_mag y < f32_mag x else f32_mag x < f32_mag y)
      else f32_sign x \<and> (f32_mag x \<noteq> 0 \<or> f32_mag y \<noteq> 0))"

text \<open>\<^verbatim>\<open>std::max(a, b)\<close> is \<^verbatim>\<open>a < b ? b : a\<close>.\<close>

definition f32_max :: "f32 \<Rightarrow> f32 \<Rightarrow> f32" where
  "f32_max x y = (if f32_less x y then y else x)"

definition f32_of_int :: "int \<Rightarrow> f32" where
  "f32_of_int i = f32_round (i < 0) (nat \<bar>i\<bar>) 0"

text \<open>\<^verbatim>\<open>std::round\<close>: to the nearest integer, halfway cases away from zero.\<close>

definition f32_cround :: "f32 \<Rightarrow> f32" where
  "f32_cround x =
     (if f32_exp x = 255 \<or> f32_lexp x \<ge> 0 then x
      else let sh = nat (- f32_lexp x)
           in f32_round (f32_sign x) ((2 * f32_sig x + 2 ^ sh) div 2 ^ Suc sh) 0)"

text \<open>
  Conversion to a signed integer of \<open>w\<close> bits truncates; a value outside the type's range (or an
  infinity or NaN) is undefined.
\<close>

definition f32_trunc :: "f32 \<Rightarrow> int" where
  "f32_trunc x =
     (if f32_sign x then - 1 else 1) *
     (if f32_lexp x \<ge> 0 then int (f32_sig x) * 2 ^ nat (f32_lexp x)
      else int (f32_sig x div 2 ^ nat (- f32_lexp x)))"

definition f32_to_int :: "nat \<Rightarrow> f32 \<Rightarrow> int option" where
  "f32_to_int w x =
     (if f32_exp x = 255 then None
      else let i = f32_trunc x
           in if - (2 ^ (w - 1)) \<le> i \<and> i < 2 ^ (w - 1) then Some i else None)"

section \<open>Fields of packed patterns\<close>

lemma word_mask_literals:
  "(0x7FFFFFFF :: 32 word) = mask 31" "(0xFF :: 32 word) = mask 8" "(0x7FFFFF :: 32 word) = mask 23"
  by (simp_all add: mask_eq_exp_minus_1)

lemma f32_mag_unat: "f32_mag x = unat x mod 2 ^ 31"
  unfolding f32_mag_def word_mask_literals unat_and_mask by (rule refl)

lemma f32_mag_less [simp]: "f32_mag x < 2147483648"
  by (simp add: f32_mag_unat)

lemma f32_exp_mag: "f32_exp x = f32_mag x div 2 ^ 23"
proof -
  have "f32_exp x = f32_mag x div 2 ^ 23 mod 2 ^ 8"
    unfolding f32_exp_def f32_mag_def word_mask_literals unat_and_mask unat_drop_bit_div
    by (rule refl)
  moreover have "f32_mag x div 2 ^ 23 < 2 ^ 8"
    using f32_mag_less [of x] by (intro less_mult_imp_div_less) simp
  ultimately show ?thesis by simp
qed

lemma f32_frac_mag: "f32_frac x = f32_mag x mod 2 ^ 23"
proof -
  have "unat x mod 2 ^ 31 mod 2 ^ 23 = unat x mod 2 ^ 23"
    by (rule mod_mod_cancel) (simp add: le_imp_power_dvd)
  then show ?thesis unfolding f32_frac_def f32_mag_unat word_mask_literals unat_and_mask by simp
qed

lemma f32_sign_unat: "f32_sign x \<longleftrightarrow> 2 ^ 31 \<le> unat x"
proof -
  have "bit x 31 \<longleftrightarrow> bit (unat x) 31" by (simp add: bit_unsigned_iff)
  then have "bit x 31 \<longleftrightarrow> odd (unat x div 2 ^ 31)" by (simp only: bit_iff_odd)
  moreover have "unat x div 2 ^ 31 < 2"
    using unat_less_32 [of x] by (intro less_mult_imp_div_less) simp
  moreover have "odd n \<longleftrightarrow> 0 < n" if "n < 2" for n :: nat using that by presburger
  ultimately show ?thesis unfolding f32_sign_def by (simp only: div_greater_zero_iff) simp
qed

lemma f32_frac_less [simp]: "f32_frac x < 8388608"
  by (simp add: f32_frac_mag)

lemma f32_sig_less [simp]: "f32_sig x < 16777216"
  by (auto simp: f32_sig_def intro: less_trans [OF f32_frac_less])

lemma f32_exp_le [simp]: "f32_exp x \<le> 255"
proof -
  have "f32_mag x div 2 ^ 23 < 256"
    using f32_mag_less [of x] by (intro less_mult_imp_div_less) simp
  then show ?thesis by (simp add: f32_exp_mag)
qed

lemma unat_f32_pack:
  "b < 2 ^ 31 \<Longrightarrow> unat (f32_pack s b) = (if s then 2 ^ 31 else 0) + b"
  unfolding f32_pack_def by (subst unat_of_nat) (auto simp: take_bit_nat_eq_self)

lemma f32_mag_pack [f32_simps]: "b < 2 ^ 31 \<Longrightarrow> f32_mag (f32_pack s b) = b"
  by (simp add: f32_mag_unat unat_f32_pack)

lemma f32_sign_pack [f32_simps]: "b < 2 ^ 31 \<Longrightarrow> f32_sign (f32_pack s b) = s"
  by (simp add: f32_sign_unat unat_f32_pack)

lemma f32_pack_fields: "f32_pack (f32_sign x) (f32_mag x) = x"
proof -
  have "(if 2 ^ 31 \<le> unat x then 2 ^ 31 else 0) + unat x mod 2 ^ 31 = unat x"
    using unat_less_32 [of x] by (auto simp: le_mod_geq)
  then show ?thesis
    unfolding f32_pack_def f32_sign_unat f32_mag_unat by simp
qed

lemma f32_eqI: "f32_sign x = f32_sign y \<Longrightarrow> f32_mag x = f32_mag y \<Longrightarrow> x = y"
  by (rule box_equals [OF _ f32_pack_fields f32_pack_fields]) (simp only:)

lemma f32_mag_exp_frac: "f32_mag x = f32_exp x * 2 ^ 23 + f32_frac x"
  by (simp add: f32_exp_mag f32_frac_mag)

lemma f32_zero_fields [simp]:
  "f32_mag (f32_zero s) = 0" "f32_sign (f32_zero s) = s" "f32_val (f32_zero s) = 0"
proof -
  show mag: "f32_mag (f32_zero s) = 0" and "f32_sign (f32_zero s) = s"
    by (simp_all add: f32_zero_def f32_simps)
  then show "f32_val (f32_zero s) = 0"
    by (simp add: f32_val_def f32_sig_def f32_exp_mag f32_frac_mag)
qed

section \<open>The value of a packed pattern\<close>

definition sgn_of :: "bool \<Rightarrow> real" where
  "sgn_of s = (if s then - 1 else 1)"

lemma sgn_of_simps [simp]: "\<bar>sgn_of s\<bar> = 1" "sgn_of True = - 1" "sgn_of False = 1"
  "sgn_of s * sgn_of s = 1"
  by (simp_all add: sgn_of_def)

lemma f32_val_sgn: "f32_val x = sgn_of (f32_sign x) * (real (f32_sig x) * 2 powi f32_lexp x)"
  by (simp add: f32_val_def sgn_of_def)

text \<open>
  A last place \<open>2 ^ (k - 149)\<close> and a significand of at most 24 digits (more than 23, unless \<open>k\<close> is
  0), packed as \<open>k * 2 ^ 23 + g\<close>, stand for \<open>g * 2 ^ (k - 149)\<close>: the carry into the exponent field
  is right in every case.
\<close>

lemma f32_val_pack:
  assumes "g \<le> 2 ^ 24" and "k = 0 \<or> 2 ^ 23 \<le> g" and "k * 2 ^ 23 + g < 255 * 2 ^ 23"
  shows "f32_val (f32_pack s (k * 2 ^ 23 + g)) = sgn_of s * (real g * 2 powi (int k - 149))"
proof -
  let ?b = "k * 2 ^ 23 + g"
  have b: "?b < 2 ^ 31" using assms(3) by simp
  have ex: "f32_exp (f32_pack s ?b) = ?b div 2 ^ 23" and fr: "f32_frac (f32_pack s ?b) = ?b mod 2 ^ 23"
    using b by (simp_all add: f32_exp_mag f32_frac_mag f32_mag_pack)
  have dm: "?b div 2 ^ 23 = k + g div 2 ^ 23" "?b mod 2 ^ 23 = g mod 2 ^ 23" by simp_all
  consider "g < 2 ^ 23" "k = 0" | "2 ^ 23 \<le> g" "g < 2 ^ 24" | "g = 2 ^ 24"
    using assms(1,2) by linarith
  then have "real (f32_sig (f32_pack s ?b)) * 2 powi f32_lexp (f32_pack s ?b)
      = real g * 2 powi (int k - 149)"
  proof cases
    case 1
    with ex fr have "f32_sig (f32_pack s ?b) = g" "f32_lexp (f32_pack s ?b) = - 149"
      by (simp_all add: f32_sig_def f32_lexp_def)
    with 1 show ?thesis by simp
  next
    case 2
    then have "g div 2 ^ 23 = 1" "g mod 2 ^ 23 = g - 2 ^ 23"
      by (simp_all add: div_nat_eqI le_mod_geq)
    with 2 dm ex fr have "f32_sig (f32_pack s ?b) = g" "f32_lexp (f32_pack s ?b) = int k - 149"
      by (simp_all add: f32_sig_def f32_lexp_def)
    then show ?thesis by simp
  next
    case 3
    then have "g div 2 ^ 23 = 2" "g mod 2 ^ 23 = 0" by simp_all
    with dm ex fr have "f32_sig (f32_pack s ?b) = 2 ^ 23" "f32_lexp (f32_pack s ?b) = int k - 148"
      by (simp_all add: f32_sig_def f32_lexp_def)
    moreover have "(2 :: real) powi (int k - 148) = 2 * 2 powi (int k - 149)"
      using power_int_add_1 [of "2 :: real" "int k - 149"] by simp
    ultimately show ?thesis using 3 by simp
  qed
  then show ?thesis by (simp only: f32_val_sgn f32_sign_pack [OF b])
qed

section \<open>Rounding is exact or within half a unit in the last place\<close>

lemma bit_len_0 [simp]: "bit_len 0 = 0"
  by (simp add: bit_len.simps)

lemma bit_len_pos: "0 < m \<Longrightarrow> bit_len m = Suc (bit_len (m div 2))"
  by (subst bit_len.simps) simp

lemma bit_len_less: "m < 2 ^ bit_len m"
proof (induction m rule: bit_len.induct)
  case (1 n)
  then show ?case by (cases "n = 0") (auto simp: bit_len_pos)
qed

lemma bit_len_ge: "0 < m \<Longrightarrow> 2 ^ bit_len m \<le> 2 * m"
proof (induction m rule: bit_len.induct)
  case (1 n)
  show ?case
  proof (cases "n div 2 = 0")
    case True
    with "1.prems" show ?thesis by (simp add: bit_len_pos)
  next
    case False
    with 1 have "2 ^ bit_len (n div 2) \<le> 2 * (n div 2)" by simp
    with "1.prems" show ?thesis by (simp add: bit_len_pos)
  qed
qed

lemma bit_len_le_iff: "bit_len m \<le> n \<longleftrightarrow> m < 2 ^ n"
proof
  assume "bit_len m \<le> n"
  then have "(2 :: nat) ^ bit_len m \<le> 2 ^ n" by simp
  with bit_len_less [of m] show "m < 2 ^ n" by linarith
next
  assume m: "m < 2 ^ n"
  show "bit_len m \<le> n"
  proof (cases "m = 0")
    case False
    with bit_len_ge [of m] m have "(2 :: nat) ^ bit_len m < 2 ^ Suc n" by simp
    then show ?thesis by (simp only: power_strict_increasing_iff)
  qed simp
qed

lemma round_shift_error: "2 * \<bar>int (round_shift m sh) * 2 ^ sh - int m\<bar> \<le> 2 ^ sh"
proof -
  let ?q = "m div 2 ^ sh" and ?r = "m mod 2 ^ sh"
  have "int (?q * 2 ^ sh + ?r) = int m" by (simp only: div_mult_mod_eq)
  then have m: "int m = int ?q * 2 ^ sh + int ?r"
    by (simp only: of_nat_add of_nat_mult of_nat_power of_nat_numeral)
  have "?r < 2 ^ sh" by simp
  then have r: "int ?r < 2 ^ sh" by (simp only: of_nat_less_numeral_power_cancel_iff)
  show ?thesis
  proof (cases "2 * ?r > 2 ^ sh \<or> (2 * ?r = 2 ^ sh \<and> odd ?q)")
    case True
    then have "2 * int ?r \<ge> 2 ^ sh"
      by (metis le_eq_less_or_eq of_nat_le_iff of_nat_mult of_nat_numeral of_nat_power)
    with True m r show ?thesis by (simp add: round_shift_def Let_def algebra_simps)
  next
    case False
    then have "2 * int ?r \<le> 2 ^ sh"
      by (metis not_le_imp_less of_nat_le_iff of_nat_mult of_nat_numeral of_nat_power)
    moreover have "round_shift m sh = ?q" using False by (auto simp: round_shift_def Let_def)
    ultimately show ?thesis using m by simp
  qed
qed

lemma round_shift_dvd: "2 ^ sh dvd m \<Longrightarrow> round_shift m sh = m div 2 ^ sh"
  by (simp add: round_shift_def Let_def)

lemma round_shift_le: "m < 2 ^ (a + sh) \<Longrightarrow> round_shift m sh \<le> 2 ^ a"
proof -
  assume "m < 2 ^ (a + sh)"
  then have "m div 2 ^ sh < 2 ^ a" by (simp add: less_mult_imp_div_less power_add)
  then show ?thesis by (auto simp: round_shift_def Let_def)
qed

lemma round_shift_ge: "2 ^ (a + sh) \<le> m \<Longrightarrow> 2 ^ a \<le> round_shift m sh"
proof -
  assume "2 ^ (a + sh) \<le> m"
  then have "2 ^ (a + sh) div 2 ^ sh \<le> m div 2 ^ sh" by (rule div_le_mono)
  then have "2 ^ a \<le> m div 2 ^ sh" by (simp add: power_add)
  then show ?thesis by (auto simp: round_shift_def Let_def)
qed

text \<open>The rounded significand has the shape \<open>f32_val_pack\<close> asks for.\<close>

lemma f32_round_sig_le:
  assumes "0 < m" shows "f32_round_sig m e \<le> 2 ^ 24"
proof (cases "f32_ulp_exp m e \<le> e")
  case True
  let ?d = "nat (e - f32_ulp_exp m e)"
  have "bit_len m + ?d \<le> 24" using True by (auto simp: f32_ulp_exp_def)
  moreover have "m * 2 ^ ?d \<le> 2 ^ (bit_len m + ?d)"
    using bit_len_less [of m] by (simp add: power_add)
  moreover have "(2 :: nat) ^ (bit_len m + ?d) \<le> 2 ^ 24" if "bit_len m + ?d \<le> 24"
    using that by (rule power_increasing) simp
  ultimately show ?thesis using True by (simp add: f32_round_sig_def Let_def)
next
  case False
  let ?sh = "nat (f32_ulp_exp m e - e)"
  have "bit_len m \<le> 24 + ?sh" using False by (auto simp: f32_ulp_exp_def)
  then have "m < 2 ^ (24 + ?sh)" by (simp only: bit_len_le_iff)
  then show ?thesis using False round_shift_le [of m 24 ?sh]
    by (simp add: f32_round_sig_def Let_def)
qed

lemma f32_round_sig_ge:
  assumes "0 < m" and "- 149 < f32_ulp_exp m e" shows "2 ^ 23 \<le> f32_round_sig m e"
proof -
  have q: "f32_ulp_exp m e = e + int (bit_len m) - 24"
    using assms(2) by (auto simp: f32_ulp_exp_def max_def split: if_splits)
  have half: "2 ^ bit_len m \<le> 2 * m" using assms(1) by (rule bit_len_ge)
  show ?thesis
  proof (cases "f32_ulp_exp m e \<le> e")
    case True
    let ?d = "nat (e - f32_ulp_exp m e)"
    have "bit_len m + ?d = 24" using True q by linarith
    then have "2 * (m * 2 ^ ?d) \<ge> 2 ^ 24" using half
      by (metis mult.assoc mult_le_mono1 power_add)
    then show ?thesis using True by (simp add: f32_round_sig_def Let_def)
  next
    case False
    let ?sh = "nat (f32_ulp_exp m e - e)"
    have "bit_len m = Suc (23 + ?sh)" using False q by linarith
    with half have "2 * 2 ^ (23 + ?sh) \<le> 2 * m" by (simp only: power_Suc)
    then have "2 ^ (23 + ?sh) \<le> m" by simp
    then show ?thesis using False round_shift_ge [of 23 ?sh m]
      by (simp add: f32_round_sig_def Let_def)
  qed
qed

lemma f32_round_val:
  assumes "0 < m" and "e + int (bit_len m) \<le> 127"
  shows "f32_val (f32_round s m e) = sgn_of s * (real (f32_round_sig m e) * 2 powi f32_ulp_exp m e)"
proof -
  let ?q = "f32_ulp_exp m e" and ?g = "f32_round_sig m e"
  define k where "k = nat (?q + 149)"
  have q: "- 149 \<le> ?q" "?q \<le> 103" using assms(2) by (simp_all add: f32_ulp_exp_def)
  then have k: "int k - 149 = ?q" "k \<le> 252" by (simp_all add: k_def)
  have g: "?g \<le> 2 ^ 24" using assms(1) by (rule f32_round_sig_le)
  have g': "k = 0 \<or> 2 ^ 23 \<le> ?g"
    using f32_round_sig_ge [OF assms(1), of e] q by (cases "- 149 < ?q") (auto simp: k_def)
  have b: "k * 2 ^ 23 + ?g < 255 * 2 ^ 23" using k(2) g by simp
  have "f32_round s m e = f32_pack s (k * 2 ^ 23 + ?g)"
    using b assms(1) unfolding f32_round_def k_def by (simp add: Let_def)
  then show ?thesis using f32_val_pack [OF g g' b, of s] k(1) by simp
qed

lemma f32_round_exact:
  assumes "e + int (bit_len m) \<le> 127"
    and "f32_ulp_exp m e \<le> e \<or> 2 ^ nat (f32_ulp_exp m e - e) dvd m"
  shows "f32_val (f32_round s m e) = sgn_of s * (real m * 2 powi e)"
proof (cases "m = 0")
  case True
  then show ?thesis by (simp add: f32_round_def)
next
  case False
  let ?q = "f32_ulp_exp m e"
  have "real (f32_round_sig m e) * 2 powi ?q = real m * 2 powi e"
  proof (cases "?q \<le> e")
    case True
    then have "(2 :: real) ^ nat (e - ?q) * 2 powi ?q = 2 powi e"
      by (simp only: powi_split)
    with True show ?thesis by (simp add: f32_round_sig_def Let_def)
  next
    case nle: False
    let ?sh = "nat (?q - e)"
    from nle assms(2) have dvd: "2 ^ ?sh dvd m" by simp
    have "(2 :: real) powi ?q = 2 ^ ?sh * 2 powi e"
      using nle by (intro powi_split) simp
    moreover have "real (m div 2 ^ ?sh) * 2 ^ ?sh = real m"
      using dvd by (metis dvd_div_mult_self of_nat_mult of_nat_numeral of_nat_power)
    ultimately show ?thesis using nle dvd
      by (simp add: f32_round_sig_def Let_def round_shift_dvd flip: mult.assoc)
  qed
  with False assms(1) show ?thesis by (simp add: f32_round_val)
qed

text \<open>The rounding error is at most half a unit in the last place.\<close>

lemma f32_round_error:
  assumes "0 < m" and "e + int (bit_len m) \<le> 127"
  shows "\<bar>f32_val (f32_round s m e) - sgn_of s * (real m * 2 powi e)\<bar> \<le> 2 powi (f32_ulp_exp m e - 1)"
proof (cases "f32_ulp_exp m e \<le> e")
  case True
  with assms show ?thesis by (simp add: f32_round_exact)
next
  case False
  let ?q = "f32_ulp_exp m e" and ?g = "f32_round_sig m e"
  let ?sh = "nat (?q - e)"
  have g: "?g = round_shift m ?sh" using False by (simp add: f32_round_sig_def Let_def)
  have pq: "(2 :: real) powi ?q = 2 ^ ?sh * 2 powi e"
    using False by (intro powi_split) simp
  have "2 * \<bar>real_of_int (int ?g * 2 ^ ?sh - int m)\<bar> \<le> real_of_int (2 ^ ?sh)"
    using round_shift_error [of m ?sh] unfolding g by linarith
  then have err: "\<bar>real ?g * 2 ^ ?sh - real m\<bar> \<le> 2 ^ ?sh / 2" by simp
  have "f32_val (f32_round s m e) - sgn_of s * (real m * 2 powi e)
      = sgn_of s * ((real ?g * 2 ^ ?sh - real m) * 2 powi e)"
    using assms pq by (simp add: f32_round_val algebra_simps)
  then have "\<bar>f32_val (f32_round s m e) - sgn_of s * (real m * 2 powi e)\<bar>
      = \<bar>real ?g * 2 ^ ?sh - real m\<bar> * 2 powi e"
    by (simp add: abs_mult)
  also have "\<dots> \<le> 2 ^ ?sh / 2 * 2 powi e" using err by (intro mult_right_mono) simp_all
  also have "\<dots> = 2 powi (?q - 1)" using pq by (simp add: power_int_diff)
  finally show ?thesis .
qed

section \<open>Correctness of the operations\<close>

lemma f32_finite_not [simp]:
  assumes "f32_finite x"
  shows "\<not> f32_is_nan x" "\<not> f32_is_inf x"
  using assms by (simp_all add: f32_finite_def f32_is_nan_def f32_is_inf_def)

text \<open>Multiplication is exact where the product has a float.\<close>

lemma f32_mul_exact:
  fixes x y
  defines "m \<equiv> f32_sig x * f32_sig y" and "e \<equiv> f32_lexp x + f32_lexp y"
  assumes "f32_finite x" "f32_finite y" and "e + int (bit_len m) \<le> 127"
    and "f32_ulp_exp m e \<le> e \<or> 2 ^ nat (f32_ulp_exp m e - e) dvd m"
  shows "f32_val (f32_mul x y) = f32_val x * f32_val y"
proof -
  have sgn: "sgn_of (f32_sign x \<noteq> f32_sign y) = sgn_of (f32_sign x) * sgn_of (f32_sign y)"
    by (auto simp: sgn_of_def)
  have "f32_mul x y = f32_round (f32_sign x \<noteq> f32_sign y) m e"
    using assms(3,4) by (simp add: f32_mul_def Let_def m_def e_def)
  then have "f32_val (f32_mul x y) = sgn_of (f32_sign x \<noteq> f32_sign y) * (real m * 2 powi e)"
    using f32_round_exact [OF assms(5,6)] by simp
  also have "\<dots> = f32_val x * f32_val y"
    unfolding sgn by (simp add: f32_val_sgn m_def e_def power_int_add)
  finally show ?thesis .
qed

text \<open>Integers of at most 24 digits convert exactly.\<close>

lemma f32_of_int_exact:
  assumes "\<bar>i\<bar> < 2 ^ 24"
  shows "f32_val (f32_of_int i) = real_of_int i"
proof -
  have "bit_len (nat \<bar>i\<bar>) \<le> 24" using assms by (simp add: bit_len_le_iff nat_less_iff)
  then have "f32_val (f32_of_int i) = sgn_of (i < 0) * (real (nat \<bar>i\<bar>) * 2 powi 0)"
    unfolding f32_of_int_def by (intro f32_round_exact) (simp_all add: f32_ulp_exp_def)
  also have "\<dots> = real_of_int i" by (auto simp: sgn_of_def)
  finally show ?thesis .
qed

text \<open>The integer square root.\<close>

lemma isqrt_bounds: "isqrt n * isqrt n \<le> n \<and> n < (isqrt n + 1) * (isqrt n + 1)"
proof (induction n rule: isqrt.induct)
  case (1 n)
  show ?case
  proof (cases "n = 0")
    case True
    then show ?thesis by (simp add: isqrt.simps)
  next
    case False
    define s where "s = isqrt (n div 4)"
    from 1 False have s: "s * s \<le> n div 4" "n div 4 < (s + 1) * (s + 1)" by (simp_all add: s_def)
    then have "4 * (s * s) \<le> n" and "n < 4 * ((s + 1) * (s + 1))" by linarith+
    with False show ?thesis
      by (subst (1 2 3 4) isqrt.simps) (simp add: s_def [symmetric] Let_def algebra_simps)
  qed
qed

text \<open>Zero is neutral for addition, and scaling zero gives zero.\<close>

lemma f32_mul_zero: "f32_is_zero x \<Longrightarrow> f32_finite y \<Longrightarrow>
    f32_mul x y = f32_zero (f32_sign x \<noteq> f32_sign y)"
  by (simp add: f32_mul_def f32_is_zero_def f32_is_nan_def f32_is_inf_def f32_finite_def Let_def
      f32_round_def f32_sig_def)


section \<open>Evaluation\<close>

text \<open>The definitions that evaluate an operation on literal patterns.\<close>

lemmas bit_len_numeral = bit_len.simps [of "numeral k" for k] bit_len.simps [of 1] bit_len.simps [of "Suc 0"]

lemmas f32_eval =
  f32_sign_def f32_mag_def f32_exp_def f32_frac_def f32_sig_def f32_lexp_def f32_pack_def
  f32_is_nan_def f32_is_inf_def f32_is_zero_def f32_finite_def f32_zero_def f32_inf_def f32_nan_def
  f32_ulp_exp_def f32_round_sig_def round_shift_def f32_round_def f32_int_at_def f32_add_def f32_mul_def
  f32_div_def f32_of_int_def f32_cround_def f32_trunc_def f32_to_int_def Let_def bit_len_numeral

lemma f32_add_zero:
  assumes "f32_exp x \<le> 253" "f32_is_zero y"
  shows "f32_val (f32_add x y) = f32_val x"
proof -
  have y: "f32_sig y = 0" "f32_lexp y = - 149" "\<not> f32_is_nan y" "\<not> f32_is_inf y"
    using assms(2) by (simp_all add: f32_is_zero_def f32_sig_def f32_lexp_def f32_exp_mag f32_frac_mag f32_is_nan_def f32_is_inf_def)
  have x: "\<not> f32_is_nan x" "\<not> f32_is_inf x" "- 149 \<le> f32_lexp x" "f32_lexp x \<le> 103"
    using assms(1) by (auto simp: f32_is_nan_def f32_is_inf_def f32_lexp_def)
  let ?k = "nat (f32_lexp x + 149)"
  let ?m = "f32_sig x * 2 ^ ?k" and ?s = "if f32_sign x then - 1 else 1 :: int"
  have add: "f32_add x y = (if ?s * int ?m = 0 then f32_zero (f32_sign x \<and> f32_sign y)
      else f32_round (?s * int ?m < 0) (nat \<bar>?s * int ?m\<bar>) (- 149))"
    using x y by (simp add: f32_add_def Let_def f32_int_at_def min_def)
  show ?thesis
  proof (cases "f32_sig x = 0")
    case True
    then have "f32_val x = 0" by (simp add: f32_val_def)
    with True show ?thesis unfolding add by simp
  next
    case False
    then have pos: "0 < int ?m" by simp
    have "nat \<bar>?s * int ?m\<bar> = ?m" "(?s * int ?m < 0) = f32_sign x" "(?s * int ?m = 0) = False"
      using pos by (simp_all only: abs_mult abs_of_nat nat_int) (auto simp del: of_nat_mult)
    then have r: "f32_add x y = f32_round (f32_sign x) ?m (- 149)" unfolding add by (simp only: if_False)
    have "f32_sig x < 2 ^ 24" by simp
    then have "?m < 2 ^ (24 + ?k)" by (simp add: power_add)
    then have len: "bit_len ?m \<le> 24 + ?k" by (simp add: bit_len_le_iff)
    then have "nat (f32_ulp_exp ?m (- 149) + 149) \<le> ?k" using x(3) by (simp add: f32_ulp_exp_def)
    then have "(2 :: nat) ^ nat (f32_ulp_exp ?m (- 149) + 149) dvd 2 ^ ?k" by (rule le_imp_power_dvd)
    then have dvd: "2 ^ nat (f32_ulp_exp ?m (- 149) - - 149) dvd ?m" by simp
    have "int (bit_len ?m) \<le> 24 + (f32_lexp x + 149)" using len x(3) by linarith
    then have top: "- 149 + int (bit_len ?m) \<le> 127" using x(4) by linarith
    have p: "(2 :: real) powi f32_lexp x = 2 ^ ?k * 2 powi (- 149)"
      using x(3) by (subst powi_split [of "- 149"]) simp_all
    show ?thesis unfolding r using f32_round_exact [OF top disjI2 [OF dvd], of "f32_sign x"]
      by (simp add: f32_val_sgn p)
  qed
qed

end
