(* ===== verification/StochasticRound.thy ===== *)
theory StochasticRound
  imports Float32
begin

text \<open>
  The numeric kernel of \<^verbatim>\<open>fixedpoint.h\<close> (lines 15 to 81): the xorshift generator, powers of two
  written as bit patterns, the fixed-point value of a float's significand, stochastic rounding of
  one float, and the unrolled loop that rounds an array with four generators. The lemmas give the
  rounding in terms of the float's real value, show that it is unbiased over the noise, and reduce
  the loop to one rounding per index with an explicit noise.
\<close>

section \<open>Definitions\<close>

text \<open>The generator updates its argument and returns it: both are the result.\<close>

definition xorshift32 :: "u32 \<Rightarrow> u32" where
  "xorshift32 state =
     (let s1 = state XOR push_bit 13 state;
          s2 = s1 XOR drop_bit 17 s1;
          s3 = s2 XOR push_bit 5 s2
      in s3)"

text \<open>The union of an \<open>int32_t\<close> and a \<open>float\<close>: the pattern is the shifted integer.\<close>

definition fast_pow2 :: "int \<Rightarrow> f32" where
  "fast_pow2 shift = push_bit 23 (word_of_int (127 + shift))"

definition calculate_scaled_fixed_value :: "u32 \<Rightarrow> int \<Rightarrow> u32" where
  "calculate_scaled_fixed_value mantissa bit_shift =
     (let right_shift_amount = (if bit_shift \<ge> 0 then nat bit_shift else 0);
          left_shift_amount = (if bit_shift < 0 then nat (- bit_shift) else 0);
          right_scaled = (if bit_shift < 32 then drop_bit right_shift_amount mantissa else 0);
          left_scaled = (if bit_shift > - 32 then push_bit left_shift_amount mantissa else 0)
      in if bit_shift \<ge> 0 then right_scaled else left_scaled)"

text \<open>
  One float, with the noise of this index. The template parameter \<^verbatim>\<open>OutType\<close> is its width \<open>w\<close> in
  bits; the result is the converted value and the flag \<^verbatim>\<open>is_zero\<close> the caller reads.
\<close>

definition process_single_stochastic_round :: "nat \<Rightarrow> f32 \<Rightarrow> u32 \<Rightarrow> nat \<Rightarrow> u32 \<Rightarrow> int \<times> bool" where
  "process_single_stochastic_round w input_value noise precision fractional_mask =
     (let raw_bits = input_value;
          absolute_raw_bits = raw_bits AND 0x7FFFFFFF;
          exponent_bits = drop_bit 23 absolute_raw_bits AND 0xFF;
          is_zero = (exponent_bits = 0);
          random_bits = noise AND fractional_mask;
          mantissa_value = push_bit 23 1 OR (absolute_raw_bits AND 0x7FFFFF);
          bit_shift = 150 - int precision - uint exponent_bits;
          scaled_fixed_value = calculate_scaled_fixed_value mantissa_value bit_shift;
          fractional_bits_mask = scaled_fixed_value AND fractional_mask;
          integer_part_value = drop_bit precision scaled_fixed_value;
          rounded_magnitude =
            integer_part_value + drop_bit precision (fractional_bits_mask + random_bits);
          sign_bit_mask = signed_drop_bit 31 raw_bits;
          rounded_integer = (rounded_magnitude + sign_bit_mask) XOR sign_bit_mask
      in (wrap_int w (sint rounded_integer), is_zero))"

text \<open>The body of both loops of \<^verbatim>\<open>stochastic_round_array\<close>: round one element and store it.\<close>

definition round_store ::
  "nat \<Rightarrow> f32 list \<Rightarrow> nat \<Rightarrow> u32 \<Rightarrow> int \<Rightarrow> u32 \<Rightarrow> int list \<Rightarrow> int list option" where
  "round_store w input_array precision fractional_mask flat_index noise output_array =
     Option.bind (array_get input_array flat_index) (\<lambda>x.
       let (result, is_zero) = process_single_stochastic_round w x noise precision fractional_mask
       in array_set output_array flat_index (if is_zero then 0 else result))"

function round_main_loop ::
  "nat \<Rightarrow> f32 list \<Rightarrow> nat \<Rightarrow> u32 \<Rightarrow> int \<Rightarrow> int \<Rightarrow> u32 \<times> u32 \<times> u32 \<times> u32 \<Rightarrow> int list
    \<Rightarrow> ((u32 \<times> u32 \<times> u32 \<times> u32) \<times> int list) option" where
  "round_main_loop w input_array precision fractional_mask array_size i (r0, r1, r2, r3) output_array =
     (if i < array_size - 3 then
        (let noise0 = xorshift32 r0; noise1 = xorshift32 r1;
             noise2 = xorshift32 r2; noise3 = xorshift32 r3
         in Option.bind
              (loop_opt (\<lambda>(j, noise). round_store w input_array precision fractional_mask (i + j) noise)
                 [(0, noise0), (1, noise1), (2, noise2), (3, noise3)] output_array)
              (round_main_loop w input_array precision fractional_mask array_size (i + 4)
                 (noise0, noise1, noise2, noise3)))
      else Some ((r0, r1, r2, r3), output_array))"
  by pat_completeness auto
termination
  by (relation "measure (\<lambda>(w, x, p, m, n, i, r, out). nat (n - i))") auto

function round_rest_loop ::
  "nat \<Rightarrow> f32 list \<Rightarrow> nat \<Rightarrow> u32 \<Rightarrow> int \<Rightarrow> int \<Rightarrow> u32 \<Rightarrow> int list \<Rightarrow> int list option" where
  "round_rest_loop w input_array precision fractional_mask array_size i r0 output_array =
     (if i < array_size then
        (let noise = xorshift32 r0
         in Option.bind (round_store w input_array precision fractional_mask i noise output_array)
              (round_rest_loop w input_array precision fractional_mask array_size (i + 1) noise))
      else Some output_array)"
  by pat_completeness auto
termination
  by (relation "measure (\<lambda>(w, x, p, m, n, i, r, out). nat (n - i))") auto

declare round_main_loop.simps [simp del] round_rest_loop.simps [simp del]

text \<open>A shift by 32 or more is undefined, so the array is rounded only with a smaller precision.\<close>

definition stochastic_round_array ::
  "nat \<Rightarrow> f32 list \<Rightarrow> int list \<Rightarrow> int \<Rightarrow> nat \<Rightarrow> int list option" where
  "stochastic_round_array w input_array output_array array_size precision =
     (if 32 \<le> precision then None else
      let r0 = 2463534242; r1 = 4123546731; r2 = 1290384712; r3 = 3812403981;
          fractional_mask = push_bit precision 1 - 1
      in Option.bind
           (round_main_loop w input_array precision fractional_mask array_size 0 (r0, r1, r2, r3)
              output_array)
           (\<lambda>((r0, r1, r2, r3), output_array).
             let remainder_start = c_div array_size 4 * 4
             in round_rest_loop w input_array precision fractional_mask array_size remainder_start
                  r0 output_array))"

section \<open>The generator\<close>

text \<open>Each of the three steps is a bijection, with an explicit inverse.\<close>

lemma xor_push_bit_inj:
  fixes x y :: u32
  assumes "0 < n" "x XOR push_bit n x = y XOR push_bit n y"
  shows "x = y"
proof (rule bit_word_eqI)
  fix k assume "k < LENGTH(32)"
  then show "bit x k = bit y k"
  proof (induction k rule: less_induct)
    case (less k)
    have "bit (x XOR push_bit n x) k = bit (y XOR push_bit n y) k" using assms(2) by simp
    moreover have "n \<le> k \<Longrightarrow> bit x (k - n) = bit y (k - n)"
      using less assms(1) by simp
    ultimately show ?case using less.prems by (auto simp: bit_xor_iff bit_push_bit_iff)
  qed
qed

lemma xor_drop_bit_inj:
  fixes x y :: u32
  assumes "0 < n" "x XOR drop_bit n x = y XOR drop_bit n y"
  shows "x = y"
proof (rule bit_word_eqI)
  fix k assume "k < LENGTH(32)"
  then show "bit x k = bit y k"
  proof (induction "32 - k" arbitrary: k rule: less_induct)
    case less
    have e: "bit (x XOR drop_bit n x) k = bit (y XOR drop_bit n y) k" using assms(2) by simp
    have "bit x (n + k) = bit y (n + k)"
    proof (cases "n + k < 32")
      case True
      with less assms(1) show ?thesis by simp
    next
      case False
      then show ?thesis by (auto dest: bit_imp_le_length)
    qed
    with e show ?case by (auto simp: bit_xor_iff bit_drop_bit_eq)
  qed
qed

lemma xorshift32_inj: "xorshift32 x = xorshift32 y \<Longrightarrow> x = y"
  unfolding xorshift32_def Let_def
  by (drule xor_push_bit_inj [rotated], simp)+
     (drule xor_drop_bit_inj [rotated], simp, drule xor_push_bit_inj [rotated], simp, assumption)

lemma xorshift32_zero [simp]: "xorshift32 0 = 0"
  by (simp add: xorshift32_def Let_def)

lemma xorshift32_funpow_nonzero: "s \<noteq> 0 \<Longrightarrow> (xorshift32 ^^ k) s \<noteq> 0"
proof (induction k)
  case (Suc k)
  then show ?case using xorshift32_inj [of "(xorshift32 ^^ k) s" 0] by auto
qed simp

section \<open>Powers of two as patterns\<close>

lemma fast_pow2_pack:
  assumes "- 127 \<le> shift" "shift \<le> 128"
  shows "fast_pow2 shift = f32_pack False (nat (127 + shift) * 2 ^ 23)"
proof -
  have "word_of_int (127 + shift) = (word_of_nat (nat (127 + shift)) :: 32 word)"
    using assms(1) by (simp add: of_nat_nat)
  then show ?thesis unfolding fast_pow2_def f32_pack_def push_bit_eq_mult
    by simp
qed

lemma fast_pow2_fields:
  assumes "- 127 \<le> shift" "shift \<le> 128"
  shows "f32_exp (fast_pow2 shift) = nat (127 + shift)" and "f32_frac (fast_pow2 shift) = 0"
    and "\<not> f32_sign (fast_pow2 shift)"
proof -
  have b: "nat (127 + shift) * 2 ^ 23 < 2 ^ 31" using assms(2) by simp
  show "f32_exp (fast_pow2 shift) = nat (127 + shift)" and "f32_frac (fast_pow2 shift) = 0"
    and "\<not> f32_sign (fast_pow2 shift)"
    using b by (simp_all add: fast_pow2_pack [OF assms] f32_exp_mag f32_frac_mag f32_simps)
qed

text \<open>Inside the exponent range of normal floats the pattern is the power of two.\<close>

lemma fast_pow2_val:
  assumes "- 126 \<le> shift" "shift \<le> 127"
  shows "f32_val (fast_pow2 shift) = 2 powi shift" and "f32_finite (fast_pow2 shift)"
    and "f32_sig (fast_pow2 shift) = 2 ^ 23" and "f32_lexp (fast_pow2 shift) = shift - 23"
proof -
  have r: "- 127 \<le> shift" "shift \<le> 128" using assms by simp_all
  show fin: "f32_finite (fast_pow2 shift)" and sig: "f32_sig (fast_pow2 shift) = 2 ^ 23"
    and lexp: "f32_lexp (fast_pow2 shift) = shift - 23"
    using assms by (simp_all add: f32_finite_def f32_sig_def f32_lexp_def fast_pow2_fields [OF r])
  have "(2 :: real) powi shift = 2 ^ 23 * 2 powi (shift - 23)"
    using powi_split [of "shift - 23" shift] by simp
  then show "f32_val (fast_pow2 shift) = 2 powi shift"
    by (simp add: f32_val_sgn fast_pow2_fields [OF r] sig lexp)
qed

text \<open>Scaling a float by a power of two is exact as long as its last place stays representable.\<close>

lemma f32_mul_fast_pow2:
  assumes "f32_finite x" "- 126 \<le> shift" "shift \<le> 127"
    and "- 149 \<le> f32_lexp x + shift"
    and "f32_lexp x + shift + int (bit_len (f32_sig x)) \<le> 127"
  shows "f32_val (f32_mul x (fast_pow2 shift)) = f32_val x * 2 powi shift"
proof -
  let ?y = "fast_pow2 shift"
  let ?m = "f32_sig x * 2 ^ 23" and ?e = "f32_lexp x + (shift - 23)"
  note y = fast_pow2_val [OF assms(2,3)]
  have len: "bit_len ?m \<le> bit_len (f32_sig x) + 23"
    using bit_len_less [of "f32_sig x"] by (simp add: bit_len_le_iff power_add)
  have "bit_len (f32_sig x) \<le> 24" by (simp add: bit_len_le_iff)
  then have "nat (f32_ulp_exp ?m ?e - ?e) \<le> 23"
    using len assms(4) by (auto simp: f32_ulp_exp_def)
  then have "(2 :: nat) ^ nat (f32_ulp_exp ?m ?e - ?e) dvd 2 ^ 23" by (rule le_imp_power_dvd)
  then have dvd: "2 ^ nat (f32_ulp_exp ?m ?e - ?e) dvd ?m" by (rule dvd_mult)
  have top: "?e + int (bit_len ?m) \<le> 127" using assms(5) len by linarith
  have "f32_val (f32_mul x ?y) = f32_val x * f32_val ?y"
    using f32_mul_exact [of x ?y, unfolded y(3,4), OF assms(1) y(2) top] dvd by blast
  then show ?thesis by (simp only: y)
qed

section \<open>The fixed-point value of a float\<close>

lemma unat_scaled:
  "unat (calculate_scaled_fixed_value m bs)
     = (if 0 \<le> bs then unat m div 2 ^ nat bs else unat m * 2 ^ nat (- bs) mod 2 ^ 32)"
proof -
  consider "0 \<le> bs" "bs < 32" | "32 \<le> bs" | "bs < 0" "- 32 < bs" | "bs \<le> - 32" by linarith
  then show ?thesis
  proof cases
    case 1
    then show ?thesis by (simp add: calculate_scaled_fixed_value_def unat_drop_bit_div)
  next
    case 2
    then have "(2 :: nat) ^ 32 \<le> 2 ^ nat bs" by (intro power_increasing) auto
    then have "unat m div 2 ^ nat bs = 0" using unat_less_32 [of m] by simp
    with 2 show ?thesis by (simp add: calculate_scaled_fixed_value_def)
  next
    case 3
    then show ?thesis by (simp add: calculate_scaled_fixed_value_def unat_push_bit_mod)
  next
    case 4
    then have "(2 :: nat) ^ 32 dvd 2 ^ nat (- bs)" by (intro le_imp_power_dvd) auto
    then have "2 ^ 32 dvd unat m * 2 ^ nat (- bs)" by (rule dvd_mult)
    with 4 show ?thesis by (simp add: calculate_scaled_fixed_value_def dvd_imp_mod_0)
  qed
qed

text \<open>
  \<open>fixed_value x p\<close> is the magnitude of \<open>x\<close> in units of \<open>2 ^ - p\<close>, cut off: what the code calls
  \<^verbatim>\<open>scaled_fixed_value\<close>, as long as it fits 32 bits.
\<close>

definition fixed_value :: "f32 \<Rightarrow> nat \<Rightarrow> nat" where
  "fixed_value x p = nat \<lfloor>\<bar>f32_val x\<bar> * 2 ^ p\<rfloor>"

lemma fixed_value_shift:
  fixes x :: f32 and p :: nat
  assumes "0 < f32_exp x"
  defines "bs \<equiv> 150 - int p - int (f32_exp x)"
  shows "fixed_value x p
     = (if 0 \<le> bs then f32_sig x div 2 ^ nat bs else f32_sig x * 2 ^ nat (- bs))"
proof -
  have v: "\<bar>f32_val x\<bar> * 2 ^ p = real (f32_sig x) * 2 powi (- bs)"
  proof -
    have "f32_lexp x + int p = - bs" using assms by (simp add: f32_lexp_def)
    moreover have "(2 :: real) powi (f32_lexp x + int p) = 2 powi f32_lexp x * 2 ^ p"
      by (simp add: power_int_add power_int_of_nat)
    ultimately show ?thesis by (simp add: f32_val_sgn abs_mult)
  qed
  show ?thesis
  proof (cases "0 \<le> bs")
    case True
    then have "(2 :: real) powi (- bs) = 1 / 2 ^ nat bs"
      by (metis divide_inverse mult_1 nat_0_le power_int_minus power_int_of_nat)
    then have "\<bar>f32_val x\<bar> * 2 ^ p = real (f32_sig x) / real (2 ^ nat bs)" using v by simp
    then have "fixed_value x p = nat \<lfloor>real (f32_sig x) / real (2 ^ nat bs)\<rfloor>"
      unfolding fixed_value_def by (simp only:)
    also have "\<dots> = f32_sig x div 2 ^ nat bs"
      unfolding floor_divide_of_nat_eq by simp
    finally show ?thesis using True by simp
  next
    case False
    then have "(2 :: real) powi (- bs) = 2 ^ nat (- bs)"
      using powi_split [of 0 "- bs"] by simp
    then have "\<bar>f32_val x\<bar> * 2 ^ p = real (f32_sig x * 2 ^ nat (- bs))" using v by simp
    then have "fixed_value x p = nat \<lfloor>real (f32_sig x * 2 ^ nat (- bs))\<rfloor>"
      unfolding fixed_value_def by (simp only:)
    also have "\<dots> = f32_sig x * 2 ^ nat (- bs)" unfolding floor_of_nat nat_int by (rule refl)
    finally show ?thesis using False by simp
  qed
qed

lemma mantissa_bits:
  assumes "0 < f32_exp x"
  shows "unat (push_bit 23 1 OR ((x AND 0x7FFFFFFF) AND 0x7FFFFF)) = f32_sig x"
proof -
  have low: "(x AND 0x7FFFFFFF) AND 0x7FFFFF = x AND 0x7FFFFF"
    by (simp add: and.assoc)
  have "push_bit n (1 :: u32) AND (x AND mask n) = 0" for n
    by (rule bit_word_eqI) (auto simp: bit_simps)
  then have "push_bit 23 1 AND (x AND 0x7FFFFF) = 0" unfolding word_mask_literals .
  then have "push_bit 23 1 OR (x AND 0x7FFFFF) = push_bit 23 1 + (x AND 0x7FFFFF)"
    by (simp add: disjunctive_add_eq_or)
  moreover have "unat (push_bit 23 1 + (x AND 0x7FFFFF)) = 2 ^ 23 + f32_frac x"
    using f32_frac_less [of x] unfolding f32_frac_def by (subst unat_word_ariths) simp
  ultimately show ?thesis using assms low by (simp add: f32_sig_def)
qed

section \<open>Stochastic rounding of one float\<close>

lemma frac_mask: "(push_bit p 1 - 1 :: u32) = mask p"
  by (simp add: mask_eq_exp_minus_1)

text \<open>Adding the noise below the binary point and cutting off is one addition and one division.\<close>

lemma split_round: "r < 2 ^ p \<Longrightarrow> F div 2 ^ p + (F mod 2 ^ p + r) div 2 ^ p = (F + r) div (2 :: nat) ^ p"
  by (subst div_add1_eq) simp

lemma sign_fold:
  fixes g :: u32
  assumes "unat g < 2 ^ 31"
  shows "sint ((g + signed_drop_bit 31 x) XOR signed_drop_bit 31 x)
     = (if f32_sign x then - int (unat g) else int (unat g))"
proof -
  have "signed_take_bit 31 (int n) = int n" if "n < 2 ^ 31" for n
    using that by (intro signed_take_bit_int_eq_self) simp_all
  from this [OF assms] have g: "sint g = int (unat g)" by (simp add: sint_uint)
  show ?thesis
  proof (cases "f32_sign x")
    case True
    have m: "signed_drop_bit 31 x = - 1"
      using True by (intro bit_word_eqI) (auto simp: bit_simps f32_sign_def min_def
          Suc_le_eq)
    have "(g + - 1) XOR - 1 = NOT (g - 1)" by simp
    also have "\<dots> = - g" by (simp only: minus_eq_not_minus_1)
    finally have "(g + - 1) XOR - 1 = - g" .
    with m have "(g + signed_drop_bit 31 x) XOR signed_drop_bit 31 x = - g" by simp
    moreover have "signed_take_bit 31 (- int n) = - int n" if "n < 2 ^ 31" for n
      using that by (intro signed_take_bit_int_eq_self) simp_all
    from this [OF assms] have "sint (- g) = - int (unat g)"
      using g by (simp add: sint_word_ariths)
    ultimately show ?thesis using True by simp
  next
    case False
    have "signed_drop_bit 31 x = 0"
      using False by (intro bit_word_eqI) (auto simp: bit_simps f32_sign_def min_def
          Suc_le_eq)
    with g False show ?thesis by simp
  qed
qed

lemma unat_add_no_overflow:
  fixes a b :: u32
  shows "unat a + unat b < 2 ^ 32 \<Longrightarrow> unat (a + b) = unat a + unat b"
  by (simp add: unat_word_ariths)

text \<open>
  The result in terms of the float's value: with \<open>F\<close> the magnitude in units of \<open>2 ^ - p\<close> and \<open>R\<close> the
  low \<open>p\<close> bits of the noise, it is \<open>(F + R) div 2 ^ p\<close> with the float's sign.
\<close>

lemma process_single_value:
  assumes e: "0 < f32_exp x" and fits: "fixed_value x p + 2 ^ p \<le> 2 ^ 31"
  shows "process_single_stochastic_round w x noise p (mask p)
     = (wrap_int w ((if f32_sign x then - 1 else 1)
          * int ((fixed_value x p + unat noise mod 2 ^ p) div 2 ^ p)), False)"
proof -
  let ?F = "fixed_value x p" and ?R = "unat noise mod 2 ^ p"
  define ex where "ex = drop_bit 23 (x AND 0x7FFFFFFF) AND (0xFF :: u32)"
  define m where "m = push_bit 23 1 OR ((x AND 0x7FFFFFFF) AND (0x7FFFFF :: u32))"
  define v where "v = calculate_scaled_fixed_value m (150 - int p - uint ex)"
  define g where "g = drop_bit p v + drop_bit p ((v AND mask p) + (noise AND mask p))"
  have ue: "uint ex = int (f32_exp x)" by (simp add: ex_def f32_exp_def)
  have ex0: "ex \<noteq> 0" using e by (auto simp: f32_exp_def ex_def)
  have m: "unat m = f32_sig x" unfolding m_def using e by (rule mantissa_bits)
  have F: "?F < 2 ^ 32" using fits by simp
  have v: "unat v = ?F"
    using F fixed_value_shift [OF e, of p] unfolding v_def unat_scaled m ue
    by (auto split: if_splits)
  have R: "?R < 2 ^ p" by simp
  have p: "p \<le> 31" using fits by (metis add_leD2 power_le_imp_le_exp one_less_numeral_iff
        semiring_norm(76))
  have low: "unat ((v AND mask p) + (noise AND mask p)) = ?F mod 2 ^ p + ?R"
  proof -
    have "?F mod 2 ^ p < 2 ^ p" by simp
    moreover have "(2 :: nat) ^ p \<le> 2 ^ 31" using p by (intro power_increasing) simp_all
    ultimately have "?F mod 2 ^ p + ?R < 2 ^ 31 + 2 ^ 31" using R by linarith
    then show ?thesis by (subst unat_add_no_overflow) (simp_all add: unat_and_mask v)
  qed
  have "(?F + ?R) div 2 ^ p \<le> ?F + ?R" by simp
  then have g31: "(?F + ?R) div 2 ^ p < 2 ^ 31" using fits R by linarith
  have g: "unat g = (?F + ?R) div 2 ^ p"
    unfolding g_def using g31
    by (subst unat_add_no_overflow)
       (simp_all only: unat_drop_bit_div low v split_round [OF R], simp)
  have "sint ((g + signed_drop_bit 31 x) XOR signed_drop_bit 31 x)
      = (if f32_sign x then - 1 else 1) * int ((?F + ?R) div 2 ^ p)"
    using sign_fold [of g x] g g31 by simp
  then show ?thesis using ex0
    unfolding process_single_stochastic_round_def Let_def ex_def [symmetric] m_def [symmetric]
      v_def [symmetric] g_def [symmetric] by simp
qed

text \<open>Averaged over the noise, the division by \<open>2 ^ p\<close> is exact.\<close>

lemma sum_div_shift: "0 < n \<Longrightarrow> (\<Sum>r<n. (F + r) div n) = (F :: nat)"
proof (induction F)
  case 0
  then show ?case by simp
next
  case (Suc F)
  have "(\<Sum>r<n. (Suc F + r) div n) + F div n = (\<Sum>r<Suc n. (F + r) div n)"
    by (subst sum.lessThan_Suc_shift) (simp add: add.commute)
  also have "\<dots> = (\<Sum>r<n. (F + r) div n) + (F + n) div n" by simp
  also have "\<dots> = F + Suc (F div n)" using Suc by simp
  finally show ?case by simp
qed

section \<open>The array loop\<close>

text \<open>
  The reference definition: element \<open>i\<close> of \<open>n\<close> is rounded once, with the noise of its lane. The
  first \<open>4 * (n div 4)\<close> indices use generator \<open>i mod 4\<close>, which has by then been advanced
  \<open>i div 4 + 1\<close> times; the rest go on with the first generator.
\<close>

definition lane_seed :: "nat \<Rightarrow> u32" where
  "lane_seed j = [2463534242, 4123546731, 1290384712, 3812403981] ! j"

definition noise_at :: "nat \<Rightarrow> nat \<Rightarrow> u32" where
  "noise_at n i =
     (if i < 4 * (n div 4) then (xorshift32 ^^ Suc (i div 4)) (lane_seed (i mod 4))
      else (xorshift32 ^^ Suc (n div 4 + (i - 4 * (n div 4)))) (lane_seed 0))"

definition round_elem :: "nat \<Rightarrow> nat \<Rightarrow> f32 \<Rightarrow> u32 \<Rightarrow> int" where
  "round_elem w p x noise =
     (let (r, z) = process_single_stochastic_round w x noise p (mask p) in if z then 0 else r)"

definition rounded_upto :: "nat \<Rightarrow> nat \<Rightarrow> f32 list \<Rightarrow> nat \<Rightarrow> int list \<Rightarrow> int list" where
  "rounded_upto w p xs i out =
     map (\<lambda>i. round_elem w p (xs ! i) (noise_at (length xs) i)) [0..<i] @ drop i out"

lemma rounded_upto_0 [simp]: "rounded_upto w p xs 0 out = out"
  by (simp add: rounded_upto_def)

lemma length_rounded_upto: "i \<le> length out \<Longrightarrow> length (rounded_upto w p xs i out) = length out"
  by (simp add: rounded_upto_def)

lemma round_store_step:
  assumes "i < length xs" "length xs \<le> length out" "noise = noise_at (length xs) i"
  shows "round_store w xs p (mask p) (int i) noise (rounded_upto w p xs i out)
     = Some (rounded_upto w p xs (Suc i) out)"
proof -
  let ?f = "\<lambda>i. round_elem w p (xs ! i) (noise_at (length xs) i)"
  obtain r z where rz: "process_single_stochastic_round w (xs ! i) noise p (mask p) = (r, z)"
    by (cases "process_single_stochastic_round w (xs ! i) noise p (mask p)")
  have i: "i < length out" using assms by simp
  then have "array_set (rounded_upto w p xs i out) (int i) (?f i)
      = Some (map ?f [0..<i] @ (drop i out)[0 := ?f i])"
    by (simp add: rounded_upto_def list_update_append)
  also have "(drop i out)[0 := ?f i] = ?f i # drop (Suc i) out"
    using i by (simp add: Cons_nth_drop_Suc [symmetric])
  finally have "array_set (rounded_upto w p xs i out) (int i) (?f i)
      = Some (rounded_upto w p xs (Suc i) out)"
    by (simp add: rounded_upto_def)
  with rz assms show ?thesis by (simp add: round_store_def round_elem_def)
qed

lemma noise_at_lane:
  "j < 4 \<Longrightarrow> k < n div 4 \<Longrightarrow> noise_at n (4 * k + j) = (xorshift32 ^^ Suc k) (lane_seed j)"
  by (simp add: noise_at_def)

lemma noise_at_rest:
  "noise_at n (4 * (n div 4) + j) = (xorshift32 ^^ Suc (n div 4 + j)) (lane_seed 0)"
  by (simp add: noise_at_def)

definition lanes :: "nat \<Rightarrow> u32 \<times> u32 \<times> u32 \<times> u32" where
  "lanes k = ((xorshift32 ^^ k) (lane_seed 0), (xorshift32 ^^ k) (lane_seed 1),
              (xorshift32 ^^ k) (lane_seed 2), (xorshift32 ^^ k) (lane_seed 3))"

lemma round_main_loop_spec:
  assumes "length xs \<le> length out" "k \<le> length xs div 4"
  defines "n \<equiv> length xs"
  shows "round_main_loop w xs p (mask p) (int n) (int (4 * k)) (lanes k) (rounded_upto w p xs (4 * k) out)
     = Some (lanes (n div 4), rounded_upto w p xs (4 * (n div 4)) out)"
  using assms(2)
proof (induction "n div 4 - k" arbitrary: k)
  case 0
  then have k: "k = n div 4" by (simp add: n_def)
  have "\<not> int (4 * k) < int n - 3" by (simp add: k)
  then show ?case unfolding lanes_def by (subst round_main_loop.simps) (simp add: k)
next
  case (Suc d)
  then have k: "k < n div 4" and d: "d = n div 4 - Suc k" by simp_all
  have guard: "int (4 * k) < int n - 3" using k by linarith
  let ?g = "\<lambda>j. xorshift32 ((xorshift32 ^^ k) (lane_seed j))" and ?R = "\<lambda>i. rounded_upto w p xs i out"
  have step: "round_store w xs p (mask p) (4 * int k + int j) (?g j) (?R (4 * k + j)) = Some (?R (4 * k + j'))"
    if "j < 4" "j' = Suc j" for j j'
  proof -
    have "4 * k + j < n" using k that by linarith
    then show ?thesis using round_store_step [of "4 * k + j" xs out] assms(1) k that noise_at_lane
      by (simp add: n_def)
  qed
  have small0: "(0 :: nat) < 4" "(1 :: nat) = Suc 0" and small1: "(1 :: nat) < 4" "(2 :: nat) = Suc 1"
    and small2: "(2 :: nat) < 4" "(3 :: nat) = Suc 2" and small3: "(3 :: nat) < 4" "(4 :: nat) = Suc 3"
    by simp_all
  have s0: "round_store w xs p (mask p) (4 * int k) (?g 0) (?R (4 * k)) = Some (?R (4 * k + 1))"
    using step [OF small0] by simp
  have s1: "round_store w xs p (mask p) (4 * int k + 1) (?g 1) (?R (4 * k + 1)) = Some (?R (4 * k + 2))"
    using step [OF small1] by (simp only: of_nat_1 of_nat_numeral)
  have s2: "round_store w xs p (mask p) (4 * int k + 2) (?g 2) (?R (4 * k + 2)) = Some (?R (4 * k + 3))"
    using step [OF small2] by (simp only: of_nat_1 of_nat_numeral)
  have s3: "round_store w xs p (mask p) (4 * int k + 3) (?g 3) (?R (4 * k + 3)) = Some (?R (4 * k + 4))"
    using step [OF small3] by (simp only: of_nat_1 of_nat_numeral)
  have rest: "round_main_loop w xs p (mask p) (int n) (4 * int k + 4) (?g 0, ?g 1, ?g 2, ?g 3) (?R (4 * k + 4))
      = Some (lanes (n div 4), ?R (4 * (n div 4)))"
    using Suc.hyps(1) [OF d] k by (simp add: n_def lanes_def add.commute)
  have idx: "int (4 * k) = 4 * int k" by simp
  show ?case
    unfolding lanes_def [of k] idx
    by (subst round_main_loop.simps)
       (simp only: guard [unfolded idx] if_True Let_def loop_opt.simps prod.case add_0_right
         s0 s1 s2 s3 rest bind.bind_lunit)
qed

lemma round_rest_loop_spec:
  assumes "length xs \<le> length out" "4 * (length xs div 4) + j \<le> length xs"
  defines "n \<equiv> length xs"
  shows "round_rest_loop w xs p (mask p) (int n) (int (4 * (n div 4) + j))
       ((xorshift32 ^^ (n div 4 + j)) (lane_seed 0)) (rounded_upto w p xs (4 * (n div 4) + j) out)
     = Some (rounded_upto w p xs n out)"
  using assms(2)
proof (induction "n - (4 * (n div 4) + j)" arbitrary: j)
  case 0
  then have e: "4 * (n div 4) + j = n" by (simp add: n_def)
  show ?case unfolding e by (subst round_rest_loop.simps) (simp only: less_irrefl if_False)
next
  case (Suc d)
  let ?i = "4 * (n div 4) + j"
  have i: "?i < n" and d: "d = n - (4 * (n div 4) + Suc j)" using Suc.hyps(2) by simp_all
  have guard: "int ?i < int n" using i by simp
  have noise: "noise_at n ?i = xorshift32 ((xorshift32 ^^ (n div 4 + j)) (lane_seed 0))"
    by (simp add: noise_at_rest)
  have s: "round_store w xs p (mask p) (int ?i) (xorshift32 ((xorshift32 ^^ (n div 4 + j)) (lane_seed 0)))
      (rounded_upto w p xs ?i out) = Some (rounded_upto w p xs (Suc ?i) out)"
    using round_store_step [of ?i xs out] i assms(1) noise by (simp add: n_def)
  have "round_rest_loop w xs p (mask p) (int n) (int (4 * (n div 4) + Suc j))
      ((xorshift32 ^^ (n div 4 + Suc j)) (lane_seed 0)) (rounded_upto w p xs (4 * (n div 4) + Suc j) out)
      = Some (rounded_upto w p xs n out)"
    using Suc.hyps(1) [OF d] i by (simp only: n_def add_Suc_right Suc_le_eq)
  moreover have "int (4 * (n div 4) + Suc j) = int ?i + 1" by simp
  ultimately have rest: "round_rest_loop w xs p (mask p) (int n) (int ?i + 1)
      (xorshift32 ((xorshift32 ^^ (n div 4 + j)) (lane_seed 0))) (rounded_upto w p xs (Suc ?i) out)
      = Some (rounded_upto w p xs n out)"
    by (simp only: add_Suc_right funpow.simps comp_apply)
  show ?case
    by (subst round_rest_loop.simps)
       (simp only: guard if_True Let_def s rest bind.bind_lunit)
qed

lemma stochastic_round_array_spec:
  assumes "length xs \<le> length out" and p: "p < 32"
  shows "stochastic_round_array w xs out (int (length xs)) p = Some (rounded_upto w p xs (length xs) out)"
proof -
  let ?n = "length xs"
  have seeds: "(2463534242, 4123546731, 1290384712, 3812403981) = lanes 0"
    by (simp add: lanes_def lane_seed_def)
  have "round_main_loop w xs p (mask p) (int ?n) (int (4 * 0)) (lanes 0) (rounded_upto w p xs (4 * 0) out)
      = Some (lanes (?n div 4), rounded_upto w p xs (4 * (?n div 4)) out)"
    using assms by (intro round_main_loop_spec) simp_all
  then have main: "round_main_loop w xs p (mask p) (int ?n) 0 (lanes 0) out
      = Some (lanes (?n div 4), rounded_upto w p xs (4 * (?n div 4)) out)"
    by simp
  have start: "c_div (int ?n) 4 * 4 = int (4 * (?n div 4) + 0)"
    by (simp add: c_div_nonneg zdiv_int)
  have "round_rest_loop w xs p (mask p) (int ?n) (int (4 * (?n div 4) + 0))
       ((xorshift32 ^^ (?n div 4 + 0)) (lane_seed 0)) (rounded_upto w p xs (4 * (?n div 4) + 0) out)
     = Some (rounded_upto w p xs ?n out)"
    using assms by (intro round_rest_loop_spec) simp_all
  then have rest: "round_rest_loop w xs p (mask p) (int ?n) (c_div (int ?n) 4 * 4)
       ((xorshift32 ^^ (?n div 4)) (lane_seed 0)) (rounded_upto w p xs (4 * (?n div 4)) out)
     = Some (rounded_upto w p xs ?n out)"
    by (simp only: start add_0_right)
  from p have p': "32 \<le> p \<longleftrightarrow> False" by simp
  show ?thesis
    unfolding stochastic_round_array_def p' if_False frac_mask Let_def seeds main bind.bind_lunit
      lanes_def [of "?n div 4"] prod.case rest ..
qed

section \<open>Properties\<close>

text \<open>
  The generator is a bijection on 32-bit words and a non-zero state never reaches zero, however
  often it is advanced: the noise does not get stuck.
\<close>

theorem xorshift32_bij_nonzero:
  "bij xorshift32 \<and> (\<forall>s k. (xorshift32 ^^ k) s = 0 \<longleftrightarrow> s = 0)"
proof
  have "inj xorshift32" by (rule injI) (rule xorshift32_inj)
  then show "bij xorshift32" by (simp add: bij_def finite_UNIV_inj_surj)
  have "(xorshift32 ^^ k) 0 = 0" for k by (induction k) simp_all
  then show "\<forall>s k. (xorshift32 ^^ k) s = 0 \<longleftrightarrow> s = 0"
    using xorshift32_funpow_nonzero by blast
qed

text \<open>
  \<open>fast_pow2\<close> is the power of two exactly on the exponents of normal floats. One below, it is
  zero; one above, it is infinity; at \<open>-128\<close>, where the shift wraps into the sign bit, it is minus
  infinity.
\<close>

theorem fast_pow2_range:
  "(\<forall>shift. - 126 \<le> shift \<and> shift \<le> 127 \<longrightarrow>
      f32_finite (fast_pow2 shift) \<and> f32_val (fast_pow2 shift) = 2 powi shift)
   \<and> fast_pow2 (- 127) = f32_zero False \<and> fast_pow2 128 = f32_inf False
   \<and> fast_pow2 (- 128) = f32_inf True"
  by (auto simp: fast_pow2_val)
     (simp_all add: fast_pow2_def f32_zero_def f32_inf_def f32_pack_def push_bit_eq_mult)

theorem fast_pow2_range_witness:
  "f32_finite (fast_pow2 5) \<and> f32_val (fast_pow2 5) = 2 powi 5"
  using fast_pow2_range [THEN conjunct1, rule_format, of 5] by simp

text \<open>
  Stochastic rounding of one normal float with \<open>p\<close> bits of noise, as long as the fixed-point
  magnitude fits: the result is the float's sign times \<open>(F + R) div 2 ^ p\<close>, where \<open>F\<close> is the float's
  magnitude in units of \<open>2 ^ - p\<close> and \<open>R\<close> the low bits of the noise; so it is the integer below the
  magnitude or the one above it, and the zero flag is off.
\<close>

theorem process_single_rounds:
  assumes "0 < f32_exp x" and "fixed_value x p + 2 ^ p \<le> 2 ^ 31"
  shows "\<exists>k. process_single_stochastic_round 32 x noise p (mask p)
               = ((if f32_sign x then - 1 else 1) * int k, False)
           \<and> k = (fixed_value x p + unat noise mod 2 ^ p) div 2 ^ p
           \<and> (int k = \<lfloor>\<bar>f32_val x\<bar>\<rfloor> \<or> int k = \<lfloor>\<bar>f32_val x\<bar>\<rfloor> + 1)"
proof -
  let ?F = "fixed_value x p" and ?R = "unat noise mod 2 ^ p"
  let ?k = "(?F + ?R) div 2 ^ p" and ?s = "if f32_sign x then - 1 else 1 :: int"
  have k31: "int ?k < 2 ^ 31"
  proof -
    have "?k \<le> ?F + ?R" by simp
    moreover have "?R < 2 ^ p" by simp
    ultimately have "?k < 2 ^ 31" using assms(2) by linarith
    then show ?thesis by (simp only: of_nat_less_numeral_power_cancel_iff)
  qed
  have "wrap_int 32 (?s * int ?k) = ?s * int ?k" using k31 by (intro wrap_int_id) auto
  then have v: "process_single_stochastic_round 32 x noise p (mask p) = (?s * int ?k, False)"
    using process_single_value [OF assms] by simp
  have "\<lfloor>\<bar>f32_val x\<bar> * 2 ^ p\<rfloor> div 2 ^ p = \<lfloor>\<bar>f32_val x\<bar> * 2 ^ p / real (2 ^ p)\<rfloor>"
    using floor_divide_real_eq_div [of "2 ^ p" "\<bar>f32_val x\<bar> * 2 ^ p"] by simp
  then have "int (?F div 2 ^ p) = \<lfloor>\<bar>f32_val x\<bar>\<rfloor>"
    by (simp add: fixed_value_def zdiv_int)
  moreover have "?k = ?F div 2 ^ p + (?F mod 2 ^ p + ?R) div 2 ^ p" by (simp add: split_round)
  moreover have "(?F mod 2 ^ p + ?R) div 2 ^ p \<le> 1"
  proof -
    have "?F mod 2 ^ p < 2 ^ p" "?R < 2 ^ p" by simp_all
    then have "?F mod 2 ^ p + ?R < 2 * 2 ^ p" by linarith
    then have "(?F mod 2 ^ p + ?R) div 2 ^ p < 2" by (rule less_mult_imp_div_less)
    then show ?thesis by simp
  qed
  ultimately have "int ?k = \<lfloor>\<bar>f32_val x\<bar>\<rfloor> \<or> int ?k = \<lfloor>\<bar>f32_val x\<bar>\<rfloor> + 1" by linarith
  with v show ?thesis by blast
qed

theorem process_single_rounds_witness:
  "fst (process_single_stochastic_round 32 0x40600000 200 8 (mask 8)) = 4"
proof -
  have e: "0 < f32_exp 0x40600000" by (simp add: f32_exp_def)
  have F: "fixed_value 0x40600000 8 = 896"
    by (subst fixed_value_shift [OF e]) (simp add: f32_exp_def f32_sig_def f32_frac_def)
  show ?thesis
    using process_single_rounds [of "0x40600000" 8 200] e F by (auto simp: f32_sign_def)
qed

text \<open>
  C14: Stochastic rounding is unbiased: summed over all \<open>2 ^ p\<close> values of the noise bits, the results
  add up to \<open>2 ^ p\<close> times the float's value cut off after \<open>p\<close> fractional bits, with its sign.
\<close>

theorem stochastic_round_unbiased:
  assumes "0 < f32_exp x" and "fixed_value x p + 2 ^ p \<le> 2 ^ 31"
  shows "(\<Sum>r<2 ^ p. fst (process_single_stochastic_round 32 x (word_of_nat r) p (mask p)))
     = (if f32_sign x then - 1 else 1) * int (fixed_value x p)"
proof -
  let ?F = "fixed_value x p" and ?s = "if f32_sign x then - 1 else 1 :: int"
  have p: "(2 :: nat) ^ p \<le> 2 ^ 31" using assms(2) by linarith
  have "fst (process_single_stochastic_round 32 x (word_of_nat r) p (mask p)) = ?s * int ((?F + r) div 2 ^ p)"
    if "r < 2 ^ p" for r
  proof -
    have "r < 2 ^ 31" using that p by linarith
    then have "r < 2 ^ 32" by simp
    then have u: "unat (word_of_nat r :: u32) = r" by (simp add: unat_of_nat take_bit_nat_eq_self)
    have "(?F + r) div 2 ^ p \<le> ?F + r" by simp
    then have "(?F + r) div 2 ^ p < 2 ^ 31" using that assms(2) by linarith
    then have "int ((?F + r) div 2 ^ p) < 2 ^ 31" by (simp only: of_nat_less_numeral_power_cancel_iff)
    then have "wrap_int 32 (?s * int ((?F + r) div 2 ^ p)) = ?s * int ((?F + r) div 2 ^ p)"
      by (intro wrap_int_id) auto
    then show ?thesis using that u by (simp add: process_single_value [OF assms])
  qed
  then have "(\<Sum>r<2 ^ p. fst (process_single_stochastic_round 32 x (word_of_nat r) p (mask p)))
      = (\<Sum>r<2 ^ p. ?s * int ((?F + r) div 2 ^ p))"
    by (intro sum.cong) auto
  also have "\<dots> = ?s * int (\<Sum>r<2 ^ p. (?F + r) div 2 ^ p)" by (simp add: sum_distrib_left)
  also have "(\<Sum>r<2 ^ p. (?F + r) div 2 ^ p) = ?F" by (rule sum_div_shift) simp
  finally show ?thesis .
qed

theorem stochastic_round_unbiased_witness:
  "(\<Sum>r<2 ^ 8. fst (process_single_stochastic_round 32 0x40600000 (word_of_nat r) 8 (mask 8))) = 896"
proof -
  have e: "0 < f32_exp 0x40600000" by (simp add: f32_exp_def)
  have F: "fixed_value 0x40600000 8 = 896"
    by (subst fixed_value_shift [OF e]) (simp add: f32_exp_def f32_sig_def f32_frac_def)
  show ?thesis using stochastic_round_unbiased [OF e, of 8] F by (simp add: f32_sign_def)
qed

text \<open>
  C4: The unrolled loop of \<open>stochastic_round_array\<close> writes every element of the output exactly once
  and nothing past the array's end: its result is the element-wise rounding of the reference
  definition (with the noise of each index's lane), for every array size, and it reads and writes
  in bounds.
\<close>

theorem stochastic_round_array_elementwise:
  assumes "length input_array \<le> length output_array" and "p < 32"
  defines "n \<equiv> length input_array"
  shows "\<exists>out. stochastic_round_array w input_array output_array (int n) p = Some out
     \<and> length out = length output_array
     \<and> (\<forall>i<n. out ! i = round_elem w p (input_array ! i) (noise_at n i))
     \<and> (\<forall>i. n \<le> i \<longrightarrow> i < length output_array \<longrightarrow> out ! i = output_array ! i)"
proof -
  let ?out = "rounded_upto w p input_array n output_array"
  have "stochastic_round_array w input_array output_array (int n) p = Some ?out"
    unfolding n_def using assms(1,2) by (rule stochastic_round_array_spec)
  moreover have "length ?out = length output_array"
    using assms(1) by (simp add: length_rounded_upto n_def)
  moreover have "\<forall>i<n. ?out ! i = round_elem w p (input_array ! i) (noise_at n i)"
    by (simp add: rounded_upto_def nth_append n_def)
  moreover have "\<forall>i. n \<le> i \<longrightarrow> i < length output_array \<longrightarrow> ?out ! i = output_array ! i"
    by (auto simp: rounded_upto_def nth_append n_def)
  ultimately show ?thesis by blast
qed

theorem stochastic_round_array_elementwise_witness:
  "\<exists>out. stochastic_round_array 16 [0x3F000000, 0xBF000000] [7, 8, 9] 2 8 = Some out \<and> length out = 3
     \<and> out ! 2 = 9"
  using stochastic_round_array_elementwise [of "[0x3F000000, 0xBF000000]" "[7, 8, 9]" 8 16] by auto

end
