(* ===== verification/Rpcmem.thy ===== *)
theory Rpcmem
  imports Prelude
begin

text \<open>
  The shared-memory library of the DSP, as \<^verbatim>\<open>utils/execution.h\<close> loads it (lines 20 to 48), and the
  process's view of the memory outside the scratchpad. The dynamic linker, \<^verbatim>\<open>rpcmem_alloc\<close> and
  \<^verbatim>\<open>posix_memalign\<close> are outside the repository: an \<open>os_env\<close> gives their answers, as functions of
  the calls made so far, and the log records every call, latest first.
\<close>

section \<open>The environment and the log of calls\<close>

datatype os_event =
    RpcInit
  | RpcAlloc int ptr
  | RpcFree nat
  | PosixMemalign nat size_t ptr
  | OsFree nat

record os_env =
  env_dlopen :: "string \<Rightarrow> bool"
  env_dlsym :: "string \<Rightarrow> string \<Rightarrow> bool"
  env_rpcmem_alloc :: "os_event list \<Rightarrow> int \<Rightarrow> ptr"
  env_posix_memalign :: "os_event list \<Rightarrow> size_t \<Rightarrow> ptr"
  env_rpcmem_to_fd :: "nat \<Rightarrow> int"

text \<open>
  The regions the process holds from the system, by the log: address and size of each block
  allocated and not freed.
\<close>

fun os_live :: "os_event list \<Rightarrow> (nat \<times> nat) list" where
  "os_live [] = []"
| "os_live (RpcInit # l) = os_live l"
| "os_live (RpcAlloc n p # l) = (case p of None \<Rightarrow> os_live l | Some a \<Rightarrow> (a, nat n) # os_live l)"
| "os_live (PosixMemalign al n p # l) = (case p of None \<Rightarrow> os_live l | Some a \<Rightarrow> (a, n) # os_live l)"
| "os_live (RpcFree a # l) = filter (\<lambda>(b, n). b \<noteq> a) (os_live l)"
| "os_live (OsFree a # l) = filter (\<lambda>(b, n). b \<noteq> a) (os_live l)"

section \<open>Loading the library once\<close>

text \<open>The global function pointers (whether each is set), the flag and the once-flag.\<close>

record rpcmem =
  rpc_once :: bool
  global_rpcmem_alloc :: bool
  global_rpcmem_free :: bool
  global_rpcmem_to_fd :: bool
  rpcmem_loaded :: bool

definition rpcmem_init_state :: rpcmem where
  "rpcmem_init_state =
     \<lparr>rpc_once = False, global_rpcmem_alloc = False, global_rpcmem_free = False,
      global_rpcmem_to_fd = False, rpcmem_loaded = False\<rparr>"

definition load_rpcmem_once :: "os_env \<Rightarrow> rpcmem \<times> os_event list \<Rightarrow> rpcmem \<times> os_event list" where
  "load_rpcmem_once env = (\<lambda>(r, log).
     if rpc_once r then (r, log)
     else
       let handle = (if env_dlopen env ''libcdsprpc.so'' then Some ''libcdsprpc.so''
                     else if env_dlopen env ''libadsprpc.so'' then Some ''libadsprpc.so''
                     else None)
       in case handle of
            None \<Rightarrow> (r\<lparr>rpc_once := True\<rparr>, log)
          | Some lib \<Rightarrow>
              let al = env_dlsym env lib ''rpcmem_alloc'';
                  fr = env_dlsym env lib ''rpcmem_free'';
                  fd = env_dlsym env lib ''rpcmem_to_fd'';
                  log' = (if env_dlsym env lib ''rpcmem_init'' then RpcInit # log else log)
              in (r\<lparr>rpc_once := True, global_rpcmem_alloc := al, global_rpcmem_free := fr,
                    global_rpcmem_to_fd := fd, rpcmem_loaded := rpcmem_loaded r \<or> (al \<and> fr)\<rparr>, log'))"

section \<open>Properties of the loader\<close>

lemma load_rpcmem_once_done [simp]: "rpc_once (fst (load_rpcmem_once env (r, l)))"
  by (auto simp: load_rpcmem_once_def Let_def split: option.splits)

lemma load_rpcmem_once_idem:
  "load_rpcmem_once env (load_rpcmem_once env x) = load_rpcmem_once env x"
  by (cases x) (auto simp: load_rpcmem_once_def Let_def split: option.splits)

lemma load_rpcmem_once_os_live [simp]:
  "os_live (snd (load_rpcmem_once env (r, l))) = os_live l"
  by (auto simp: load_rpcmem_once_def Let_def split: option.splits)

lemma os_live_free_subset: "set (os_live (OsFree a # l)) \<subseteq> set (os_live l)"
  by auto

text \<open>
  The flag is only ever set together with both function pointers, so a call of
  \<^verbatim>\<open>global_rpcmem_alloc\<close> or \<^verbatim>\<open>global_rpcmem_free\<close> that it guards never calls a null pointer.
\<close>

definition rpcmem_wf :: "rpcmem \<Rightarrow> bool" where
  "rpcmem_wf r \<longleftrightarrow> (rpcmem_loaded r \<longrightarrow> rpc_once r \<and> global_rpcmem_alloc r \<and> global_rpcmem_free r)"

lemma rpcmem_wf_init [simp]: "rpcmem_wf rpcmem_init_state"
  by (simp add: rpcmem_wf_def rpcmem_init_state_def)

lemma rpcmem_wf_load: "rpcmem_wf r \<Longrightarrow> rpcmem_wf (fst (load_rpcmem_once env (r, l)))"
  by (auto simp: rpcmem_wf_def load_rpcmem_once_def Let_def split: option.splits)

end
