(* ===== verification/Scratchpad.thy ===== *)
theory Scratchpad
  imports Rpcmem
begin

text \<open>
  The scratchpad allocator of \<^verbatim>\<open>fixedpoint.h\<close> (lines 82 to 194): a first-fit allocator over one
  buffer, with a doubly linked list of headers kept inside the buffer, splitting on allocation and
  coalescing on release, and the system allocator as its fallback. Headers are in an explicit heap
  (a partial map from addresses), since the code reaches them through \<^verbatim>\<open>next\<close> and \<^verbatim>\<open>prev\<close>. An operation
  is \<^term>\<open>None\<close> where the code follows a dangling pointer or does not return.
\<close>

section \<open>State\<close>

record BlockHeader =
  bh_size :: size_t
  bh_is_free :: bool
  bh_next :: ptr
  bh_prev :: ptr

type_synonym header_heap = "nat \<rightharpoonup> BlockHeader"

text \<open>\<^verbatim>\<open>sizeof(BlockHeader)\<close>: 32 bytes of fields, aligned to 128.\<close>

abbreviation header_size :: nat where
  "header_size \<equiv> 128"

record scratchpad =
  rpc :: rpcmem
  memory_buffer :: ptr
  total_size :: size_t
  head_block :: ptr
  headers :: header_heap
  os_log :: "os_event list"

definition scratchpad_init :: scratchpad where
  "scratchpad_init =
     \<lparr>rpc = rpcmem_init_state, memory_buffer = nullptr, total_size = 32 * 1024 * 1024,
      head_block = nullptr, headers = Map.empty, os_log = []\<rparr>"

section \<open>Operations\<close>

definition sp_load_rpcmem :: "os_env \<Rightarrow> scratchpad \<Rightarrow> scratchpad" where
  "sp_load_rpcmem env s =
     (let (r, log) = load_rpcmem_once env (rpc s, os_log s) in s\<lparr>rpc := r, os_log := log\<rparr>)"

definition initialize_if_needed :: "os_env \<Rightarrow> scratchpad \<Rightarrow> scratchpad" where
  "initialize_if_needed env s =
     (if memory_buffer s \<noteq> nullptr then s
      else
        let s1 = sp_load_rpcmem env s;
            s2 = (if rpcmem_loaded (rpc s1) then
                    (let n = wrap_int 32 (int (total_size s1));
                         raw_mem = env_rpcmem_alloc env (os_log s1) n
                     in s1\<lparr>os_log := RpcAlloc n raw_mem # os_log s1, memory_buffer := raw_mem\<rparr>)
                  else s1);
            s3 = (if memory_buffer s2 = nullptr then
                    (let raw_mem = env_posix_memalign env (os_log s2) (total_size s2)
                     in s2\<lparr>os_log := PosixMemalign 128 (total_size s2) raw_mem # os_log s2,
                           memory_buffer := raw_mem\<rparr>)
                  else s2)
        in case memory_buffer s3 of
             None \<Rightarrow> s3
           | Some b \<Rightarrow>
               s3\<lparr>head_block := Some b,
                  headers := (headers s3)(b \<mapsto>
                    \<lparr>bh_size = size_sub (total_size s3) header_size, bh_is_free = True,
                     bh_next = nullptr, bh_prev = nullptr\<rparr>)\<rparr>)"

text \<open>\<^verbatim>\<open>set_size\<close> gives the buffer back (to the shared-memory library when that is loaded).\<close>

definition set_size :: "os_env \<Rightarrow> scratchpad \<Rightarrow> size_t \<Rightarrow> scratchpad" where
  "set_size env s new_size =
     (let s' = (case memory_buffer s of
                  None \<Rightarrow> s
                | Some b \<Rightarrow>
                    let s1 = sp_load_rpcmem env s;
                        ev = (if rpcmem_loaded (rpc s1) then RpcFree b else OsFree b)
                    in s1\<lparr>os_log := ev # os_log s1, memory_buffer := nullptr,
                          head_block := nullptr, headers := Map.empty\<rparr>)
      in s'\<lparr>total_size := new_size\<rparr>)"

text \<open>
  The descriptor and offset of a pointer into the buffer. \<^verbatim>\<open>global_rpcmem_to_fd\<close> is called without a
  test for null: the call is undefined when the library does not export it.
\<close>

definition get_fd_and_offset :: "os_env \<Rightarrow> scratchpad \<Rightarrow> nat \<Rightarrow> ((int \<times> u32) \<times> scratchpad) option" where
  "get_fd_and_offset env s p =
     (let s1 = sp_load_rpcmem env s
      in case memory_buffer s1 of
           None \<Rightarrow> Some ((- 1, 0), s1)
         | Some b \<Rightarrow>
             if rpcmem_loaded (rpc s1) \<and> b \<le> p \<and> p < b + total_size s1 then
               (if global_rpcmem_to_fd (rpc s1)
                then Some ((env_rpcmem_to_fd env b, word_of_nat (p - b)), s1)
                else None)
             else Some ((- 1, 0), s1))"

text \<open>\<^verbatim>\<open>size = (size + 127) & ~127\<close>, in 64 bits.\<close>

definition align128 :: "size_t \<Rightarrow> size_t" where
  "align128 sz = unat ((word_of_nat (size_add sz 127) :: 64 word) AND NOT 127)"

text \<open>The walk over the list: the first free block that is large enough.\<close>

partial_function (option) find_block :: "header_heap \<Rightarrow> ptr \<Rightarrow> size_t \<Rightarrow> ptr option" where
  "find_block h current_block sz =
     (case current_block of
        None \<Rightarrow> Some nullptr
      | Some a \<Rightarrow>
          (case h a of
             None \<Rightarrow> None
           | Some b \<Rightarrow>
               if bh_is_free b \<and> bh_size b \<ge> sz then Some (Some a)
               else find_block h (bh_next b) sz))"

text \<open>Writing a field of the header at an address; undefined where there is no header.\<close>

definition upd_header :: "header_heap \<Rightarrow> nat \<Rightarrow> (BlockHeader \<Rightarrow> BlockHeader) \<Rightarrow> header_heap option" where
  "upd_header h a f = map_option (\<lambda>b. h(a \<mapsto> f b)) (h a)"

definition upd_header_if :: "header_heap \<Rightarrow> ptr \<Rightarrow> (BlockHeader \<Rightarrow> BlockHeader) \<Rightarrow> header_heap option" where
  "upd_header_if h p f = (case p of None \<Rightarrow> Some h | Some a \<Rightarrow> upd_header h a f)"

text \<open>Taking the block at \<open>a\<close>: split off the rest when it can hold a header and 128 bytes.\<close>

definition take_block :: "header_heap \<Rightarrow> nat \<Rightarrow> size_t \<Rightarrow> header_heap option" where
  "take_block h a sz =
     Option.bind (h a) (\<lambda>b.
       Option.bind
         (if bh_size b \<ge> size_add (size_add sz header_size) 128 then
            let n = a + header_size + sz;
                h1 = h(n \<mapsto> \<lparr>bh_size = size_sub (size_sub (bh_size b) sz) header_size,
                             bh_is_free = True, bh_next = bh_next b, bh_prev = Some a\<rparr>)
            in Option.bind (upd_header_if h1 (bh_next b) (\<lambda>x. x\<lparr>bh_prev := Some n\<rparr>)) (\<lambda>h2.
                 upd_header h2 a (\<lambda>x. x\<lparr>bh_next := Some n, bh_size := sz\<rparr>))
          else Some h)
         (\<lambda>h3. upd_header h3 a (\<lambda>x. x\<lparr>bh_is_free := False\<rparr>)))"

definition alloc :: "os_env \<Rightarrow> scratchpad \<Rightarrow> size_t \<Rightarrow> (ptr \<times> scratchpad) option" where
  "alloc env s0 sz0 =
     (let s = initialize_if_needed env s0;
          sz = align128 sz0
      in Option.bind (find_block (headers s) (head_block s) sz) (\<lambda>found.
           case found of
             Some a \<Rightarrow>
               Option.bind (take_block (headers s) a sz) (\<lambda>h.
                 Some (Some (a + header_size), s\<lparr>headers := h\<rparr>))
           | None \<Rightarrow>
               let raw_mem = env_posix_memalign env (os_log s) sz
               in Some (raw_mem, s\<lparr>os_log := PosixMemalign 128 sz raw_mem # os_log s\<rparr>)))"

text \<open>Releasing the block at \<open>a\<close>: merge with a free successor, then with a free predecessor.\<close>

definition merge_next :: "header_heap \<Rightarrow> nat \<Rightarrow> header_heap option" where
  "merge_next h a =
     Option.bind (h a) (\<lambda>b.
       case bh_next b of
         None \<Rightarrow> Some h
       | Some n \<Rightarrow>
           Option.bind (h n) (\<lambda>nb.
             if bh_is_free nb then
               Option.bind
                 (upd_header h a (\<lambda>x. x\<lparr>bh_size := size_add (bh_size x) (size_add header_size (bh_size nb)),
                                        bh_next := bh_next nb\<rparr>))
                 (\<lambda>h1. upd_header_if h1 (bh_next nb) (\<lambda>x. x\<lparr>bh_prev := Some a\<rparr>))
             else Some h))"

definition merge_prev :: "header_heap \<Rightarrow> nat \<Rightarrow> header_heap option" where
  "merge_prev h a =
     Option.bind (h a) (\<lambda>b.
       case bh_prev b of
         None \<Rightarrow> Some h
       | Some p \<Rightarrow>
           Option.bind (h p) (\<lambda>pb.
             if bh_is_free pb then
               Option.bind
                 (upd_header h p (\<lambda>x. x\<lparr>bh_size := size_add (bh_size x) (size_add header_size (bh_size b)),
                                        bh_next := bh_next b\<rparr>))
                 (\<lambda>h1. upd_header_if h1 (bh_next b) (\<lambda>x. x\<lparr>bh_prev := Some p\<rparr>))
             else Some h))"

definition release_block :: "header_heap \<Rightarrow> nat \<Rightarrow> header_heap option" where
  "release_block h a =
     Option.bind (upd_header h a (\<lambda>x. x\<lparr>bh_is_free := True\<rparr>)) (\<lambda>h1.
       Option.bind (merge_next h1 a) (\<lambda>h2. merge_prev h2 a))"

definition sp_free :: "os_env \<Rightarrow> scratchpad \<Rightarrow> ptr \<Rightarrow> scratchpad option" where
  "sp_free env s allocated_pointer =
     (case allocated_pointer of
        None \<Rightarrow> Some s
      | Some p \<Rightarrow>
          (case memory_buffer s of
             Some m \<Rightarrow>
               if m \<le> p \<and> p < m + total_size s then
                 (if p < header_size then None
                  else map_option (\<lambda>h. s\<lparr>headers := h\<rparr>) (release_block (headers s) (p - header_size)))
               else Some (s\<lparr>os_log := OsFree p # os_log s\<rparr>)
           | None \<Rightarrow> Some (s\<lparr>os_log := OsFree p # os_log s\<rparr>)))"

text \<open>The RAII buffer of \<open>size\<close> floats: its constructor and destructor.\<close>

definition ScratchpadBuffer_new :: "os_env \<Rightarrow> scratchpad \<Rightarrow> size_t \<Rightarrow> (ptr \<times> scratchpad) option" where
  "ScratchpadBuffer_new env s sz = alloc env s (size_mul sz 4)"

definition ScratchpadBuffer_delete :: "os_env \<Rightarrow> scratchpad \<Rightarrow> ptr \<Rightarrow> scratchpad option" where
  "ScratchpadBuffer_delete env s pointer = sp_free env s pointer"

end
