(* ===== verification/FixedPoint.thy ===== *)
theory FixedPoint
  imports StochasticRound Scratchpad
begin

text \<open>
  The block floating point format of \<^verbatim>\<open>fixedpoint.h\<close> (lines 200 to 512): a matrix whose rows (or
  columns, without \<^verbatim>\<open>block_columns\<close>) are cut into blocks, each with an exponent, a mean, a standard
  deviation and a precision. The arrays live in the scratchpad: the record keeps the pointer of
  each and its contents, which are empty behind a null pointer. The two halves of every method
  differ only in which index runs along the block; a definition below has the index expressions
  of both. Every floating point operation is rounded on its own.
\<close>

section \<open>The block and its indices\<close>

abbreviation i32 :: "int \<Rightarrow> int" where
  "i32 x \<equiv> wrap_int 32 x"

record FixedPointBlock =
  mantissa_ptr :: ptr
  exponents_ptr :: ptr
  means_ptr :: ptr
  std_devs_ptr :: ptr
  precisions_ptr :: ptr
  mantissa :: "int list"
  exponents :: "int list"
  means :: "f32 list"
  std_devs :: "f32 list"
  precisions :: "int list"
  rows :: int
  cols :: int
  block_size :: int
  block_columns :: bool
  num_blocks :: int
  mean :: f32
  std_dev :: f32

text \<open>\<^verbatim>\<open>(n + block_size - 1) / block_size\<close>; a division by zero has no result.\<close>

definition blocks_of :: "int \<Rightarrow> int \<Rightarrow> int option" where
  "blocks_of n bs = (if bs = 0 then None else Some (c_div (i32 (i32 (n + bs) - 1)) bs))"

text \<open>The length across the blocks, the length along them, and the number of blocks along it.\<close>

definition outer_count :: "FixedPointBlock \<Rightarrow> int" where
  "outer_count blk = (if block_columns blk then rows blk else cols blk)"

definition inner_count :: "FixedPointBlock \<Rightarrow> int" where
  "inner_count blk = (if block_columns blk then cols blk else rows blk)"

definition num_blocks_count :: "FixedPointBlock \<Rightarrow> int option" where
  "num_blocks_count blk = blocks_of (inner_count blk) (block_size blk)"

definition block_flat_idx :: "FixedPointBlock \<Rightarrow> int \<Rightarrow> int \<Rightarrow> int \<Rightarrow> int" where
  "block_flat_idx blk nb outer block_index =
     (if block_columns blk then i32 (i32 (outer * nb) + block_index)
      else i32 (i32 (block_index * cols blk) + outer))"

text \<open>The position of element \<open>k\<close> along the block of line \<open>outer\<close>.\<close>

definition elem_idx :: "FixedPointBlock \<Rightarrow> int \<Rightarrow> int \<Rightarrow> int" where
  "elem_idx blk outer k =
     (if block_columns blk then i32 (i32 (outer * cols blk) + k)
      else i32 (i32 (k * cols blk) + outer))"

definition start_of :: "FixedPointBlock \<Rightarrow> int \<Rightarrow> int" where
  "start_of blk block_index = i32 (block_index * block_size blk)"

definition end_of :: "FixedPointBlock \<Rightarrow> int \<Rightarrow> int" where
  "end_of blk start =
     (if i32 (start + block_size blk) < inner_count blk then i32 (start + block_size blk)
      else inner_count blk)"

section \<open>Construction and destruction\<close>

text \<open>
  The contents of a fresh array: whatever the memory holds, given by \<open>junk\<close> at each address, for
  as many elements as the request has room for.
\<close>

definition fresh_array :: "(nat \<Rightarrow> 'a) \<Rightarrow> ptr \<Rightarrow> size_t \<Rightarrow> nat \<Rightarrow> 'a list" where
  "fresh_array junk p bytes elem_size =
     (case p of None \<Rightarrow> [] | Some a \<Rightarrow> map (\<lambda>i. junk (a + i * elem_size)) [0..<bytes div elem_size])"

definition FixedPointBlock_new ::
  "nat \<Rightarrow> (nat \<Rightarrow> u32) \<Rightarrow> os_env \<Rightarrow> scratchpad \<Rightarrow> int \<Rightarrow> int \<Rightarrow> int \<Rightarrow> bool \<Rightarrow> size_t
    \<Rightarrow> (FixedPointBlock \<times> scratchpad) option" where
  "FixedPointBlock_new w junk env s0 num_rows num_columns target_block_size use_block_columns min_bytes =
     (let elem = w div 8;
          as_t = (\<lambda>a. wrap_int w (sint (junk a)));
          as_int = (\<lambda>a. sint (junk a));
          n = size_mul (to_size (i32 (num_rows * num_columns))) elem;
          alloc_bytes = (if min_bytes > n then min_bytes else n)
      in Option.bind (alloc env s0 alloc_bytes) (\<lambda>(pm, s1).
         Option.bind (blocks_of (if use_block_columns then num_columns else num_rows) target_block_size) (\<lambda>nb.
         let total_blocks = (if use_block_columns then i32 (num_rows * nb) else i32 (nb * num_columns));
             block_bytes = size_mul (to_size total_blocks) 4
         in Option.bind (alloc env s1 block_bytes) (\<lambda>(pe, s2).
            Option.bind (alloc env s2 block_bytes) (\<lambda>(pmean, s3).
            Option.bind (alloc env s3 block_bytes) (\<lambda>(pstd, s4).
            Option.bind (alloc env s4 block_bytes) (\<lambda>(pprec, s5).
              Some (\<lparr>mantissa_ptr = pm, exponents_ptr = pe, means_ptr = pmean, std_devs_ptr = pstd,
                     precisions_ptr = pprec,
                     mantissa = fresh_array as_t pm alloc_bytes elem,
                     exponents = fresh_array as_int pe block_bytes 4,
                     means = fresh_array junk pmean block_bytes 4,
                     std_devs = fresh_array junk pstd block_bytes 4,
                     precisions = fresh_array as_int pprec block_bytes 4,
                     rows = num_rows, cols = num_columns, block_size = target_block_size,
                     block_columns = use_block_columns, num_blocks = nb,
                     mean = junk 0, std_dev = junk 4\<rparr>, s5))))))))"

definition FixedPointBlock_delete :: "os_env \<Rightarrow> scratchpad \<Rightarrow> FixedPointBlock \<Rightarrow> scratchpad option" where
  "FixedPointBlock_delete env s blk =
     Option.bind (sp_free env s (mantissa_ptr blk)) (\<lambda>s1.
     Option.bind (sp_free env s1 (exponents_ptr blk)) (\<lambda>s2.
     Option.bind (sp_free env s2 (means_ptr blk)) (\<lambda>s3.
     Option.bind (sp_free env s3 (std_devs_ptr blk)) (\<lambda>s4.
       sp_free env s4 (precisions_ptr blk)))))"

section \<open>Fitting the exponents\<close>

record fit_acc =
  max_biased :: u32
  block_sum :: f32
  block_sum_squares :: f32
  block_n :: int

record fit_global =
  global_sum :: f32
  global_sum_squares :: f32
  global_n :: int

abbreviation (input) f32_0 :: f32 where "f32_0 \<equiv> 0"
abbreviation (input) f32_1 :: f32 where "f32_1 \<equiv> 0x3F800000"

definition fit_acc_init :: fit_acc where
  "fit_acc_init = \<lparr>max_biased = 0, block_sum = f32_0, block_sum_squares = f32_0, block_n = 0\<rparr>"

definition fit_global_init :: fit_global where
  "fit_global_init = \<lparr>global_sum = f32_0, global_sum_squares = f32_0, global_n = 0\<rparr>"

text \<open>The body of the innermost loop, on the element it reads.\<close>

definition fit_elem :: "f32 \<Rightarrow> fit_acc \<times> fit_global \<Rightarrow> fit_acc \<times> fit_global" where
  "fit_elem val = (\<lambda>(b, g).
     let absolute_raw_bits = val AND 0x7FFFFFFF;
         biased = drop_bit 23 absolute_raw_bits AND 0xFF
     in (\<lparr>max_biased = (if max_biased b < biased then biased else max_biased b),
          block_sum = f32_add (block_sum b) val,
          block_sum_squares = f32_add (block_sum_squares b) (f32_mul val val),
          block_n = block_n b + 1\<rparr>,
         \<lparr>global_sum = f32_add (global_sum g) val,
          global_sum_squares = f32_add (global_sum_squares g) (f32_mul val val),
          global_n = global_n g + 1\<rparr>))"

text \<open>The mean and the standard deviation of a sum, a sum of squares and a count.\<close>

definition mean_of :: "f32 \<Rightarrow> int \<Rightarrow> f32" where
  "mean_of acc n = (if n > 0 then f32_div acc (f32_of_int n) else f32_0)"

definition std_of :: "f32 \<Rightarrow> f32 \<Rightarrow> int \<Rightarrow> f32" where
  "std_of m squares n =
     (if n > 0 then
        (let variance = f32_sub (f32_div squares (f32_of_int n)) (f32_mul m m)
         in f32_sqrt (f32_max f32_0 variance))
      else f32_0)"

definition exponent_of :: "u32 \<Rightarrow> int" where
  "exponent_of mb = (if mb > 0 then uint mb - 127 + 1 else - 127)"

text \<open>One block: read its elements, then store its exponent, mean and standard deviation.\<close>

definition fit_block ::
  "f32 list \<Rightarrow> int \<Rightarrow> int \<Rightarrow> int \<Rightarrow> FixedPointBlock \<times> fit_global \<Rightarrow> (FixedPointBlock \<times> fit_global) option" where
  "fit_block values nb outer block_index = (\<lambda>(blk, g).
     let start = start_of blk block_index
     in Option.bind
          (loop_opt (\<lambda>k acc. map_option (\<lambda>val. fit_elem val acc) (array_get values (elem_idx blk outer k)))
             [start..end_of blk start - 1] (fit_acc_init, g))
          (\<lambda>(b, g').
            let flat = block_flat_idx blk nb outer block_index;
                m = mean_of (block_sum b) (block_n b)
            in Option.bind (array_set (exponents blk) flat (exponent_of (max_biased b))) (\<lambda>es.
               Option.bind (array_set (means blk) flat m) (\<lambda>ms.
               Option.bind (array_set (std_devs blk) flat (std_of m (block_sum_squares b) (block_n b))) (\<lambda>ss.
                 Some (blk\<lparr>exponents := es, means := ms, std_devs := ss\<rparr>, g'))))))"

definition combine_global :: "fit_global \<Rightarrow> fit_global \<Rightarrow> fit_global" where
  "combine_global a b =
     \<lparr>global_sum = f32_add (global_sum a) (global_sum b),
      global_sum_squares = f32_add (global_sum_squares a) (global_sum_squares b),
      global_n = global_n a + global_n b\<rparr>"

definition fit_exponent :: "schedule \<Rightarrow> f32 list \<Rightarrow> FixedPointBlock \<Rightarrow> FixedPointBlock option" where
  "fit_exponent sched values blk =
     Option.bind (num_blocks_count blk) (\<lambda>nb.
     Option.bind
       (omp_for (omp_threads sched (outer_count blk > 1) (outer_count blk))
          (\<lambda>outer. loop_opt (fit_block values nb outer) [0..nb - 1])
          combine_global fit_global_init (blk, fit_global_init))
       (\<lambda>(blk', g).
         let m = mean_of (global_sum g) (global_n g)
         in Some (blk'\<lparr>mean := m, std_dev := std_of m (global_sum_squares g) (global_n g)\<rparr>)))"

section \<open>Quantisation\<close>

text \<open>The estimate of the output's deviation for a precision, and whether the accumulator holds it.\<close>

definition std_dev_output :: "int \<Rightarrow> f32 \<Rightarrow> int \<Rightarrow> f32 \<Rightarrow> int \<Rightarrow> f32" where
  "std_dev_output count other_std_dev other_exponent b_std_dev_norm bits_of_precision =
     f32_mul
       (f32_mul (f32_sqrt (f32_of_int count))
          (f32_mul other_std_dev (f32_sub (fast_pow2 (i32 (other_exponent - 1))) f32_1)))
       (f32_mul b_std_dev_norm (fast_pow2 bits_of_precision))"

definition does_not_fit :: "f32 \<Rightarrow> int \<Rightarrow> f32 \<Rightarrow> int \<Rightarrow> f32 \<Rightarrow> int \<Rightarrow> bool" where
  "does_not_fit z_sigma count other_std_dev other_exponent b_std_dev_norm bits_of_precision =
     f32_less 0x46FFFE00
       (f32_mul z_sigma (std_dev_output count other_std_dev other_exponent b_std_dev_norm bits_of_precision))"

function precision_loop :: "(int \<Rightarrow> bool) \<Rightarrow> int \<Rightarrow> int" where
  "precision_loop overflows bits_of_precision =
     (if bits_of_precision > 1 \<and> overflows bits_of_precision
      then precision_loop overflows (bits_of_precision - 1)
      else bits_of_precision)"
  by pat_completeness auto
termination
  by (relation "measure (\<lambda>(f, b). nat b)") auto

declare precision_loop.simps [simp del]

definition fitted_precision :: "nat \<Rightarrow> f32 \<Rightarrow> int \<Rightarrow> f32 \<Rightarrow> f32 \<Rightarrow> int \<Rightarrow> int \<Rightarrow> int" where
  "fitted_precision w z_sigma other_exponent other_std_dev std exponent_val count =
     precision_loop
       (does_not_fit z_sigma count other_std_dev other_exponent (f32_div std (fast_pow2 exponent_val)))
       (int w - 1)"

text \<open>
  The source of element \<open>k\<close> of a block, through \<^verbatim>\<open>source_ptr\<close>, and the scaled copy of the block in
  the temporary buffer.
\<close>

definition source_idx :: "FixedPointBlock \<Rightarrow> int \<Rightarrow> int \<Rightarrow> int \<Rightarrow> int" where
  "source_idx blk outer start k =
     (if block_columns blk then i32 (outer * cols blk) + start + k
      else i32 (start * cols blk) + outer + i32 (k * cols blk))"

definition scaled_block :: "f32 list \<Rightarrow> FixedPointBlock \<Rightarrow> int \<Rightarrow> int \<Rightarrow> int \<Rightarrow> f32 \<Rightarrow> f32 list option" where
  "scaled_block floats_array blk outer start count exponent_scale =
     those (map (\<lambda>k. map_option (\<lambda>x. f32_mul x exponent_scale) (array_get floats_array (source_idx blk outer start k)))
       [0..count - 1])"

text \<open>
  Storing a rounded block less its mean. Along rows the rounding writes into the mantissa array
  itself and the mean is subtracted there; along columns a temporary array holds the block.
\<close>

definition store_row_block ::
  "nat \<Rightarrow> FixedPointBlock \<Rightarrow> int \<Rightarrow> int \<Rightarrow> int \<Rightarrow> f32 list \<Rightarrow> int \<Rightarrow> f32 \<Rightarrow> int list \<Rightarrow> int list option" where
  "store_row_block w blk outer start count temporary_buffer bits integer_mean_float m =
     (let off = i32 (i32 (outer * cols blk) + start)
      in if off < 0 \<or> int (length m) < off then None
         else Option.bind (stochastic_round_array w temporary_buffer (drop (nat off) m) count (nat bits)) (\<lambda>r.
              Option.bind (f32_to_int w (f32_cround integer_mean_float)) (\<lambda>integer_mean.
                loop_opt (\<lambda>k m.
                    let i = i32 (i32 (i32 (outer * cols blk) + start) + k)
                    in Option.bind (array_get m i) (\<lambda>x. array_set m i (wrap_int w (x - integer_mean))))
                  [0..count - 1] (take (nat off) m @ r))))"

definition store_column_block ::
  "nat \<Rightarrow> FixedPointBlock \<Rightarrow> int \<Rightarrow> int \<Rightarrow> int \<Rightarrow> f32 list \<Rightarrow> int \<Rightarrow> f32 \<Rightarrow> int list \<Rightarrow> int list option" where
  "store_column_block w blk outer start count temporary_buffer bits integer_mean_float m =
     Option.bind (stochastic_round_array w temporary_buffer (replicate (nat count) 0) count (nat bits)) (\<lambda>column_mantissa.
     Option.bind (f32_to_int w (f32_cround integer_mean_float)) (\<lambda>integer_mean.
       loop_opt (\<lambda>k m. Option.bind (array_get column_mantissa k) (\<lambda>x.
           array_set m (i32 (i32 (i32 (start + k) * cols blk) + outer)) (wrap_int w (x - integer_mean))))
         [0..count - 1] m))"

record quant_args =
  q_fixed_exponent :: int
  q_force_precision :: int
  q_z_sigma :: f32
  q_other_exponent :: int
  q_other_std_dev :: f32
  q_other_mean :: f32

text \<open>The default arguments of \<^verbatim>\<open>floats_to_mantissa\<close>, after the exponent and the precision.\<close>

definition quant_default :: "int \<Rightarrow> int \<Rightarrow> quant_args" where
  "quant_default fe fp =
     \<lparr>q_fixed_exponent = fe, q_force_precision = fp, q_z_sigma = 0x40400000, q_other_exponent = 8,
      q_other_std_dev = 0x3F000000, q_other_mean = f32_0\<rparr>"

definition quantise_block ::
  "nat \<Rightarrow> f32 list \<Rightarrow> quant_args \<Rightarrow> int \<Rightarrow> int \<Rightarrow> int \<Rightarrow> FixedPointBlock \<Rightarrow> FixedPointBlock option" where
  "quantise_block w floats_array q nb outer block_index blk =
     (let flat = block_flat_idx blk nb outer block_index;
          start = start_of blk block_index;
          count = end_of blk start - start
      in Option.bind (if q_fixed_exponent q \<noteq> 0 then Some (q_fixed_exponent q) else array_get (exponents blk) flat)
           (\<lambda>exponent_val.
         Option.bind (if q_force_precision q > 0 then Some (q_force_precision q)
                      else map_option (\<lambda>std. fitted_precision w (q_z_sigma q) (q_other_exponent q)
                             (q_other_std_dev q) std exponent_val count) (array_get (std_devs blk) flat))
           (\<lambda>bits.
            Option.bind (array_set (precisions blk) flat bits) (\<lambda>ps.
            Option.bind (scaled_block floats_array blk outer start count (fast_pow2 (i32 (- exponent_val)))) (\<lambda>tmp.
            Option.bind (array_get (means blk) flat) (\<lambda>m.
            let integer_mean_float = f32_mul m (fast_pow2 (i32 (i32 (- exponent_val) + bits)))
            in map_option (\<lambda>mant. blk\<lparr>precisions := ps, mantissa := mant\<rparr>)
                 ((if block_columns blk then store_row_block else store_column_block)
                    w blk outer start count tmp bits integer_mean_float (mantissa blk))))))))"

definition floats_to_mantissa ::
  "nat \<Rightarrow> schedule \<Rightarrow> f32 list \<Rightarrow> quant_args \<Rightarrow> FixedPointBlock \<Rightarrow> FixedPointBlock option" where
  "floats_to_mantissa w sched floats_array q blk =
     Option.bind (num_blocks_count blk) (\<lambda>nb.
       map_option fst
         (omp_for (omp_threads sched (outer_count blk > 1) (outer_count blk))
            (\<lambda>outer (blk, u). map_option (\<lambda>blk'. (blk', u))
               (loop_opt (quantise_block w floats_array q nb outer) [0..nb - 1] blk))
            (\<lambda>_ _. ()) () (blk, ())))"

section \<open>Dequantisation\<close>

text \<open>
  Both methods write \<open>mantissa * scale + offset\<close> to every element of a block, with a scale and an
  offset of the block.
\<close>

definition dequantise_block ::
  "(int \<Rightarrow> int \<Rightarrow> f32) \<Rightarrow> (f32 \<Rightarrow> f32) \<Rightarrow> FixedPointBlock \<Rightarrow> int \<Rightarrow> int \<Rightarrow> int \<Rightarrow> f32 list \<Rightarrow> f32 list option" where
  "dequantise_block scale offset blk nb outer block_index output_array =
     (let flat = block_flat_idx blk nb outer block_index;
          start = start_of blk block_index
      in Option.bind (array_get (exponents blk) flat) (\<lambda>exponent_val.
         Option.bind (array_get (precisions blk) flat) (\<lambda>precision.
         Option.bind (array_get (means blk) flat) (\<lambda>m.
         let exponent_scale = scale exponent_val precision
         in loop_opt (\<lambda>k out. Option.bind (array_get (mantissa blk) (elem_idx blk outer k)) (\<lambda>x.
                array_set out (elem_idx blk outer k)
                  (f32_add (f32_mul (f32_of_int x) exponent_scale) (offset m))))
              [start..end_of blk start - 1] output_array))))"

definition dequantise ::
  "(int \<Rightarrow> int \<Rightarrow> f32) \<Rightarrow> (f32 \<Rightarrow> f32) \<Rightarrow> schedule \<Rightarrow> FixedPointBlock \<Rightarrow> f32 list \<Rightarrow> f32 list option" where
  "dequantise scale offset sched blk output_array =
     Option.bind (num_blocks_count blk) (\<lambda>nb.
       map_option fst
         (omp_for (omp_threads sched (outer_count blk > 1) (outer_count blk))
            (\<lambda>outer (out, u). map_option (\<lambda>out'. (out', u))
               (loop_opt (dequantise_block scale offset blk nb outer) [0..nb - 1] out))
            (\<lambda>_ _. ()) () (output_array, ())))"

definition mantissa_to_floats :: "schedule \<Rightarrow> FixedPointBlock \<Rightarrow> f32 list \<Rightarrow> f32 list option" where
  "mantissa_to_floats sched blk output_array =
     dequantise (\<lambda>e p. fast_pow2 (i32 (e - p))) (\<lambda>m. m) sched blk output_array"

definition mantissa_to_floats_product :: "schedule \<Rightarrow> FixedPointBlock \<Rightarrow> f32 list \<Rightarrow> int \<Rightarrow> f32 list option" where
  "mantissa_to_floats_product sched blk output_array other_exponent =
     dequantise (\<lambda>e p. fast_pow2 (i32 (i32 (e - p) - other_exponent)))
       (\<lambda>m. f32_mul m (fast_pow2 (i32 (- other_exponent)))) sched blk output_array"

end
