(* ===== verification/FixedPointGeometry.thy ===== *)
theory FixedPointGeometry
  imports FixedPoint
begin

text \<open>
  The index arithmetic of \<open>FixedPointBlock\<close>: for a block whose matrix has fewer than \<open>2 ^ 31\<close> elements
  no index expression wraps, every element lies in exactly one block, and the positions of the
  elements and of the blocks' parameters are distinct and inside the arrays.
\<close>

section \<open>Well-formed blocks\<close>

definition fp_dims :: "FixedPointBlock \<Rightarrow> int \<times> int \<times> int \<times> bool" where
  "fp_dims blk = (rows blk, cols blk, block_size blk, block_columns blk)"

definition outer_n :: "FixedPointBlock \<Rightarrow> nat" where
  "outer_n blk = nat (outer_count blk)"

definition inner_n :: "FixedPointBlock \<Rightarrow> nat" where
  "inner_n blk = nat (inner_count blk)"

definition bs_n :: "FixedPointBlock \<Rightarrow> nat" where
  "bs_n blk = nat (block_size blk)"

definition blocks_n :: "FixedPointBlock \<Rightarrow> nat" where
  "blocks_n blk = (inner_n blk + bs_n blk - 1) div bs_n blk"

definition fp_shape :: "FixedPointBlock \<Rightarrow> bool" where
  "fp_shape blk \<longleftrightarrow> 0 \<le> rows blk \<and> 0 \<le> cols blk \<and> 0 < block_size blk
     \<and> rows blk < 2 ^ 31 \<and> cols blk < 2 ^ 31
     \<and> rows blk * cols blk < 2 ^ 31 \<and> inner_count blk + block_size blk < 2 ^ 31"

definition fp_wf :: "FixedPointBlock \<Rightarrow> bool" where
  "fp_wf blk \<longleftrightarrow> fp_shape blk
     \<and> outer_n blk * inner_n blk \<le> length (mantissa blk)
     \<and> outer_n blk * blocks_n blk \<le> length (exponents blk)
     \<and> outer_n blk * blocks_n blk \<le> length (means blk)
     \<and> outer_n blk * blocks_n blk \<le> length (std_devs blk)
     \<and> outer_n blk * blocks_n blk \<le> length (precisions blk)"

text \<open>Positions as natural numbers.\<close>

definition epos :: "FixedPointBlock \<Rightarrow> nat \<Rightarrow> nat \<Rightarrow> nat" where
  "epos blk o' k = (if block_columns blk then o' * inner_n blk + k else k * outer_n blk + o')"

definition fpos :: "FixedPointBlock \<Rightarrow> nat \<Rightarrow> nat \<Rightarrow> nat" where
  "fpos blk o' b = (if block_columns blk then o' * blocks_n blk + b else b * outer_n blk + o')"

definition bstart :: "FixedPointBlock \<Rightarrow> nat \<Rightarrow> nat" where
  "bstart blk b = b * bs_n blk"

definition bend :: "FixedPointBlock \<Rightarrow> nat \<Rightarrow> nat" where
  "bend blk b = min (b * bs_n blk + bs_n blk) (inner_n blk)"

lemma fp_dims_cong:
  assumes "fp_dims x = fp_dims y"
  shows "outer_n x = outer_n y" "inner_n x = inner_n y" "bs_n x = bs_n y" "blocks_n x = blocks_n y"
    "epos x = epos y" "fpos x = fpos y" "bstart x = bstart y" "bend x = bend y" "fp_shape x = fp_shape y"
    "block_columns x = block_columns y"
  using assms
  by (auto simp: fp_dims_def outer_n_def inner_n_def outer_count_def inner_count_def bs_n_def blocks_n_def
      epos_def fpos_def bstart_def bend_def fp_shape_def fun_eq_iff)

section \<open>No index wraps\<close>

lemma i32_id: "- 2147483648 \<le> x \<Longrightarrow> x < 2147483648 \<Longrightarrow> i32 x = x"
  by (simp add: wrap_int_id)

lemma fp_shapeD:
  assumes "fp_shape blk"
  shows "0 < bs_n blk" "outer_count blk = int (outer_n blk)" "inner_count blk = int (inner_n blk)"
    "block_size blk = int (bs_n blk)" "outer_n blk * inner_n blk < 2147483648"
    "inner_n blk + bs_n blk < 2147483648"
    "cols blk = int (if block_columns blk then inner_n blk else outer_n blk)"
proof -
  show "0 < bs_n blk" "outer_count blk = int (outer_n blk)" "inner_count blk = int (inner_n blk)"
    "block_size blk = int (bs_n blk)" "inner_n blk + bs_n blk < 2147483648"
    "cols blk = int (if block_columns blk then inner_n blk else outer_n blk)"
    using assms by (auto simp: fp_shape_def bs_n_def outer_n_def inner_n_def outer_count_def inner_count_def split: if_splits)
  have "int (outer_n blk * inner_n blk) < 2147483648"
    using assms by (auto simp: fp_shape_def outer_n_def inner_n_def outer_count_def inner_count_def mult.commute)
  then show "outer_n blk * inner_n blk < 2147483648" by linarith
qed

lemma blocks_n_bounds:
  assumes "0 < bs_n blk"
  shows "blocks_n blk \<le> inner_n blk" "b < blocks_n blk \<longleftrightarrow> bstart blk b < inner_n blk"
proof -
  let ?d = "bs_n blk" and ?n = "inner_n blk"
  have iff: "b < (?n + ?d - 1) div ?d \<longleftrightarrow> b * ?d < ?n" for b
  proof -
    have "b < (?n + ?d - 1) div ?d \<longleftrightarrow> Suc b \<le> (?n + ?d - 1) div ?d" by auto
    also have "\<dots> \<longleftrightarrow> Suc b * ?d \<le> ?n + ?d - 1" by (rule less_eq_div_iff_mult_less_eq [OF assms])
    also have "\<dots> \<longleftrightarrow> b * ?d < ?n" using assms by (cases ?d) auto
    finally show ?thesis .
  qed
  show "b < blocks_n blk \<longleftrightarrow> bstart blk b < inner_n blk"
    unfolding blocks_n_def bstart_def by (rule iff)
  have "\<not> ?n < blocks_n blk" unfolding blocks_n_def iff [of ?n] using assms by (cases ?d) auto
  then show "blocks_n blk \<le> ?n" by simp
qed

lemma num_blocks_count_eq:
  assumes "fp_shape blk"
  shows "num_blocks_count blk = Some (int (blocks_n blk))"
proof -
  note s = fp_shapeD [OF assms]
  have "i32 (i32 (inner_count blk + block_size blk) - 1) = int (inner_n blk + bs_n blk - 1)"
    using s by (simp add: i32_id of_nat_diff)
  then show ?thesis
    using s(1,4) by (simp add: num_blocks_count_def blocks_of_def c_div_nonneg blocks_n_def zdiv_int)
qed

lemma mult_add_less:
  assumes "(a :: nat) < m" "b < n"
  shows "a * n + b < m * n"
proof -
  have "a * n + b < Suc a * n" using assms(2) by simp
  also have "\<dots> \<le> m * n" using assms(1) by (intro mult_le_mono1) simp
  finally show ?thesis .
qed

lemma epos_less:
  assumes "o' < outer_n blk" "k < inner_n blk"
  shows "epos blk o' k < outer_n blk * inner_n blk"
  using mult_add_less [OF assms] mult_add_less [OF assms(2,1)] by (simp add: epos_def mult.commute)

lemma fpos_less:
  assumes "o' < outer_n blk" "b < blocks_n blk"
  shows "fpos blk o' b < outer_n blk * blocks_n blk"
  using mult_add_less [OF assms] mult_add_less [OF assms(2,1)] by (simp add: fpos_def mult.commute)

lemma i32_mult_add:
  assumes "a * n + b < 2147483648"
  shows "i32 (i32 (int a * int n) + int b) = int (a * n + b)" "i32 (int a * int n) = int (a * n)"
proof -
  have less: "int (a * n) + int b < 2147483648" using assms by linarith
  show an: "i32 (int a * int n) = int (a * n)"
    unfolding of_nat_mult [symmetric] using less by (intro i32_id) linarith+
  show "i32 (i32 (int a * int n) + int b) = int (a * n + b)"
    unfolding an of_nat_add using less by (intro i32_id) linarith+
qed

lemma elem_idx_eq:
  assumes "fp_shape blk" "o' < outer_n blk" "k < inner_n blk"
  shows "elem_idx blk (int o') (int k) = int (epos blk o' k)"
proof -
  note s = fp_shapeD [OF assms(1)]
  have "epos blk o' k < 2147483648" using epos_less [OF assms(2,3)] s(5) by simp
  then show ?thesis using i32_mult_add unfolding elem_idx_def epos_def s(7) by (simp split: if_splits)
qed

lemma block_flat_idx_eq:
  assumes "fp_shape blk" "o' < outer_n blk" "b < blocks_n blk"
  shows "block_flat_idx blk (int (blocks_n blk)) (int o') (int b) = int (fpos blk o' b)"
proof -
  note s = fp_shapeD [OF assms(1)]
  have "outer_n blk * blocks_n blk \<le> outer_n blk * inner_n blk"
    using blocks_n_bounds(1) [OF s(1)] by (rule mult_le_mono2)
  then have "fpos blk o' b < 2147483648" using fpos_less [OF assms(2,3)] s(5) by linarith
  then show ?thesis using i32_mult_add unfolding block_flat_idx_def fpos_def s(7) by (simp split: if_splits)
qed

lemma start_end_eq:
  assumes "fp_shape blk" "b < blocks_n blk"
  shows "start_of blk (int b) = int (bstart blk b)" "end_of blk (int (bstart blk b)) = int (bend blk b)"
    "bstart blk b < bend blk b" "bend blk b \<le> inner_n blk"
proof -
  note s = fp_shapeD [OF assms(1)]
  have st: "bstart blk b < inner_n blk" using blocks_n_bounds(2) [OF s(1)] assms(2) by simp
  then show "bstart blk b < bend blk b" "bend blk b \<le> inner_n blk"
    using s(1) by (auto simp: bstart_def bend_def)
  show "start_of blk (int b) = int (bstart blk b)"
    using st s i32_mult_add(2) [of b "bs_n blk" 0] by (simp add: start_of_def bstart_def)
  have "i32 (int (bstart blk b) + int (bs_n blk)) = int (bstart blk b + bs_n blk)"
    unfolding of_nat_add using st s(6) by (intro i32_id) linarith+
  then have "end_of blk (int (bstart blk b))
      = (if int (bstart blk b + bs_n blk) < int (inner_n blk) then int (bstart blk b + bs_n blk)
         else int (inner_n blk))"
    unfolding end_of_def s(3,4) by simp
  also have "\<dots> = int (min (bstart blk b + bs_n blk) (inner_n blk))"
    unfolding of_nat_less_iff by (simp only: min_def if_distrib [of int, symmetric]) auto
  finally show "end_of blk (int (bstart blk b)) = int (bend blk b)"
    by (simp only: bend_def bstart_def)
qed

section \<open>Positions are distinct\<close>

lemma mult_add_inj:
  assumes "(a :: nat) * n + b = c * n + d" "b < n" "d < n"
  shows "a = c \<and> b = d"
proof -
  have "(a * n + b) div n = a" "(c * n + d) div n = c" using assms(2,3) by simp_all
  then have "a = c" using assms(1) by simp
  then show ?thesis using assms(1) by simp
qed

lemma epos_inj:
  assumes "epos blk o1 k1 = epos blk o2 k2"
    and "o1 < outer_n blk" "o2 < outer_n blk" "k1 < inner_n blk" "k2 < inner_n blk"
  shows "o1 = o2 \<and> k1 = k2"
  using assms mult_add_inj [of o1 "inner_n blk" k1 o2 k2] mult_add_inj [of k1 "outer_n blk" o1 k2 o2]
  by (auto simp: epos_def split: if_splits)

lemma fpos_inj:
  assumes "fpos blk o1 b1 = fpos blk o2 b2"
    and "o1 < outer_n blk" "o2 < outer_n blk" "b1 < blocks_n blk" "b2 < blocks_n blk"
  shows "o1 = o2 \<and> b1 = b2"
  using assms mult_add_inj [of o1 "blocks_n blk" b1 o2 b2] mult_add_inj [of b1 "outer_n blk" o1 b2 o2]
  by (auto simp: fpos_def split: if_splits)

text \<open>The block an element lies in.\<close>

lemma block_of_elem:
  assumes "0 < bs_n blk" "k < inner_n blk"
  shows "k div bs_n blk < blocks_n blk" "bstart blk (k div bs_n blk) \<le> k" "k < bend blk (k div bs_n blk)"
proof -
  show "bstart blk (k div bs_n blk) \<le> k" by (simp add: bstart_def)
  then show "k div bs_n blk < blocks_n blk" using assms blocks_n_bounds(2) [OF assms(1)] by simp
  show "k < bend blk (k div bs_n blk)"
    using assms(2) dividend_less_div_times [OF assms(1), of k] by (simp add: bend_def add.commute)
qed

end
