(* ===== verification/FixedPointFit.thy ===== *)
theory FixedPointFit
  imports FixedPointGeometry
begin

text \<open>
  What \<open>fit_exponent\<close> computes: the parameters of every block are functions of the block's elements
  alone, whatever the schedule of the parallel loop, and the exponent is the least one that bounds
  every element.
\<close>

section \<open>The parameters of one block\<close>

definition block_vals :: "FixedPointBlock \<Rightarrow> f32 list \<Rightarrow> nat \<Rightarrow> nat \<Rightarrow> f32 list" where
  "block_vals blk values o' b = map (\<lambda>k. values ! epos blk o' k) [bstart blk b..<bend blk b]"

definition block_acc :: "f32 list \<Rightarrow> fit_acc" where
  "block_acc xs = fst (fold fit_elem xs (fit_acc_init, fit_global_init))"

definition block_exponent :: "f32 list \<Rightarrow> int" where
  "block_exponent xs = exponent_of (max_biased (block_acc xs))"

definition block_mean :: "f32 list \<Rightarrow> f32" where
  "block_mean xs = mean_of (block_sum (block_acc xs)) (block_n (block_acc xs))"

definition block_std :: "f32 list \<Rightarrow> f32" where
  "block_std xs = std_of (block_mean xs) (block_sum_squares (block_acc xs)) (block_n (block_acc xs))"

lemma fit_elem_fst: "fst (fit_elem x (b, g)) = fst (fit_elem x (b, g'))"
  by (simp add: fit_elem_def Let_def)

lemma fold_fit_elem_fst: "fst (fold fit_elem xs (b, g)) = fst (fold fit_elem xs (b, g'))"
proof (induction xs arbitrary: b g g')
  case (Cons x xs)
  have "fit_elem x (b, g) = (fst (fit_elem x (b, g')), snd (fit_elem x (b, g)))"
    using fit_elem_fst by (metis prod.collapse)
  then show ?case using Cons by (metis fold_simps(2) prod.collapse)
qed simp

lemma fit_elem_fields:
  "uint (max_biased (fst (fit_elem x bg))) = max (uint (max_biased (fst bg))) (int (f32_exp x))"
  "block_n (fst (fit_elem x bg)) = block_n (fst bg) + 1"
  by (cases bg; auto simp: fit_elem_def Let_def f32_exp_def max_def word_less_def)+

lemma fold_fit_elem_max:
  "int n = uint (max_biased (fst (fold fit_elem xs bg))) \<Longrightarrow>
     (\<forall>x \<in> set xs. f32_exp x \<le> n) \<and> uint (max_biased (fst bg)) \<le> int n
     \<and> (uint (max_biased (fst bg)) = int n \<or> (\<exists>x \<in> set xs. f32_exp x = n))"
proof (induction xs arbitrary: bg)
  case (Cons x xs)
  have "int n = uint (max_biased (fst (fold fit_elem xs (fit_elem x bg))))"
    using Cons.prems by simp
  from Cons.IH [OF this] show ?case by (auto simp: fit_elem_fields max_def split: if_splits)
qed simp

lemma block_acc_max:
  "(\<forall>x \<in> set xs. f32_exp x \<le> unat (max_biased (block_acc xs)))
   \<and> (max_biased (block_acc xs) = 0 \<or> (\<exists>x \<in> set xs. f32_exp x = unat (max_biased (block_acc xs))))"
proof -
  have "int (unat (max_biased (block_acc xs))) = uint (max_biased (fst (fold fit_elem xs (fit_acc_init, fit_global_init))))"
    by (simp add: block_acc_def)
  from fold_fit_elem_max [OF this] show ?thesis by (auto simp: fit_acc_init_def uint_0_iff)
qed

lemma block_acc_n: "block_n (block_acc xs) = int (length xs)"
proof -
  have "block_n (fst (fold fit_elem xs bg)) = block_n (fst bg) + int (length xs)" for bg
    by (induction xs arbitrary: bg) (simp_all add: fit_elem_fields)
  then show ?thesis by (simp add: block_acc_def fit_acc_init_def)
qed

section \<open>Bounds of the exponent\<close>

lemma f32_abs_val: "\<bar>f32_val x\<bar> = real (f32_sig x) * 2 powi f32_lexp x"
  by (simp add: f32_val_sgn abs_mult)

lemma f32_abs_less:
  assumes "f32_exp x \<le> n" "0 < n"
  shows "\<bar>f32_val x\<bar> < 2 powi (int n - 126)"
proof -
  have le: "f32_lexp x \<le> int n - 150" using assms by (auto simp: f32_lexp_def)
  have "\<bar>f32_val x\<bar> < 2 ^ 24 * 2 powi f32_lexp x"
    unfolding f32_abs_val by (intro mult_strict_right_mono) simp_all
  also have "\<dots> \<le> 2 ^ 24 * 2 powi (int n - 150)"
    using le by (intro mult_left_mono power_int_increasing) simp_all
  also have "\<dots> = 2 powi (int n - 126)" by (simp add: powi_split [of "int n - 150" "int n - 126"])
  finally show ?thesis .
qed

lemma f32_abs_ge:
  assumes "0 < f32_exp x"
  shows "2 powi (int (f32_exp x) - 127) \<le> \<bar>f32_val x\<bar>"
proof -
  have l: "f32_lexp x = int (f32_exp x) - 150" using assms by (simp add: f32_lexp_def)
  have "(2 :: real) powi (int (f32_exp x) - 127) = 2 ^ 23 * 2 powi f32_lexp x"
    unfolding l by (subst powi_split [of "int (f32_exp x) - 150"]) simp_all
  also have "\<dots> \<le> \<bar>f32_val x\<bar>"
    unfolding f32_abs_val using assms by (intro mult_right_mono) (simp_all add: f32_sig_def)
  finally show ?thesis .
qed

lemma block_exponent_bounds:
  assumes "\<exists>x \<in> set xs. 0 < f32_exp x"
  shows "\<forall>x \<in> set xs. \<bar>f32_val x\<bar> < 2 powi (block_exponent xs)"
    and "\<exists>x \<in> set xs. 2 powi (block_exponent xs - 1) \<le> \<bar>f32_val x\<bar>"
    and "- 125 \<le> block_exponent xs"
proof -
  let ?n = "unat (max_biased (block_acc xs))"
  have pos: "0 < ?n" using assms block_acc_max [of xs] by force
  then have e: "block_exponent xs = int ?n - 126"
    by (simp add: block_exponent_def exponent_of_def word_less_nat_alt)
  show "- 125 \<le> block_exponent xs" using pos unfolding e by linarith
  show "\<forall>x \<in> set xs. \<bar>f32_val x\<bar> < 2 powi (block_exponent xs)"
    using block_acc_max [of xs] pos unfolding e by (blast intro: f32_abs_less)
  obtain x where x: "x \<in> set xs" "f32_exp x = ?n" using block_acc_max [of xs] pos by force
  then show "\<exists>x \<in> set xs. 2 powi (block_exponent xs - 1) \<le> \<bar>f32_val x\<bar>"
    using f32_abs_ge [of x] pos unfolding e by (intro bexI [of _ x]) simp_all
qed

section \<open>The loops\<close>

definition set_params :: "f32 list \<Rightarrow> FixedPointBlock \<Rightarrow> nat \<times> nat \<Rightarrow> FixedPointBlock \<Rightarrow> FixedPointBlock" where
  "set_params values blk0 = (\<lambda>(o', b) blk.
     let xs = block_vals blk0 values o' b; i = fpos blk0 o' b
     in blk\<lparr>exponents := (exponents blk)[i := block_exponent xs], means := (means blk)[i := block_mean xs],
            std_devs := (std_devs blk)[i := block_std xs]\<rparr>)"

lemma fit_block_eq:
  assumes "fp_wf blk" "fp_dims blk = fp_dims blk0" "outer_n blk * inner_n blk \<le> length values"
    and o: "o' < outer_n blk" and b: "b < blocks_n blk"
  shows "\<exists>g'. fit_block values (int (blocks_n blk)) (int o') (int b) (blk, g)
           = Some (set_params values blk0 (o', b) blk, g')"
proof -
  have sh: "fp_shape blk" using assms(1) by (simp add: fp_wf_def)
  note se = start_end_eq [OF sh b]
  note d = fp_dims_cong [OF assms(2)]
  let ?xs = "block_vals blk values o' b"
  have get: "array_get values (elem_idx blk (int o') (int k)) = Some (values ! epos blk o' k)"
    if "k \<in> set [bstart blk b..<bend blk b]" for k
  proof -
    have "k < inner_n blk" using that se(4) by simp
    moreover have "epos blk o' k < length values" using epos_less [OF o calculation] assms(3) by linarith
    ultimately show ?thesis by (simp add: elem_idx_eq [OF sh o])
  qed
  have "loop_opt (\<lambda>k acc. map_option (\<lambda>val. fit_elem val acc) (array_get values (elem_idx blk (int o') (int k))))
      [bstart blk b..<bend blk b] (fit_acc_init, g)
    = Some (fold (\<lambda>k. fit_elem (values ! epos blk o' k)) [bstart blk b..<bend blk b] (fit_acc_init, g))"
    using get by (intro loop_opt_fold [where P = "\<lambda>_. True", THEN conjunct1]) simp_all
  also have "fold (\<lambda>k. fit_elem (values ! epos blk o' k)) [bstart blk b..<bend blk b] (fit_acc_init, g)
      = fold fit_elem ?xs (fit_acc_init, g)"
    by (simp add: block_vals_def fold_map comp_def)
  finally have loop: "loop_opt (\<lambda>k acc. map_option (\<lambda>val. fit_elem val acc) (array_get values (elem_idx blk (int o') k)))
      [int (bstart blk b)..int (bend blk b) - 1] (fit_acc_init, g) = Some (block_acc ?xs, snd (fold fit_elem ?xs (fit_acc_init, g)))"
    unfolding upto_int_upt loop_opt_map block_acc_def using fold_fit_elem_fst by (metis prod.collapse)
  have f: "fpos blk o' b < length (exponents blk)" "fpos blk o' b < length (means blk)"
    "fpos blk o' b < length (std_devs blk)"
    using fpos_less [OF o b] assms(1) by (simp_all add: fp_wf_def)
  show ?thesis
    unfolding fit_block_def prod.case se(1) Let_def se(2) loop bind.bind_lunit block_flat_idx_eq [OF sh o b]
      array_set_nat [OF f(1)] array_set_nat [OF f(2)] array_set_nat [OF f(3)]
    by (simp add: set_params_def Let_def d block_exponent_def block_mean_def block_std_def block_vals_def)
qed

text \<open>The parameters are written once each, at their positions.\<close>

lemma fold_set_params:
  "fold (set_params values blk0) ps blk =
     blk\<lparr>exponents := write_all (map (\<lambda>(o', b). (fpos blk0 o' b, block_exponent (block_vals blk0 values o' b))) ps) (exponents blk),
         means := write_all (map (\<lambda>(o', b). (fpos blk0 o' b, block_mean (block_vals blk0 values o' b))) ps) (means blk),
         std_devs := write_all (map (\<lambda>(o', b). (fpos blk0 o' b, block_std (block_vals blk0 values o' b))) ps) (std_devs blk)\<rparr>"
  by (induction ps arbitrary: blk) (auto simp: set_params_def Let_def)

lemma set_params_keeps:
  "fp_dims (set_params values blk0 p blk) = fp_dims blk" "fp_wf (set_params values blk0 p blk) = fp_wf blk"
proof -
  show d: "fp_dims (set_params values blk0 p blk) = fp_dims blk"
    by (cases p) (simp add: set_params_def Let_def fp_dims_def)
  show "fp_wf (set_params values blk0 p blk) = fp_wf blk"
    using fp_dims_cong [OF d] by (cases p) (simp add: fp_wf_def set_params_def Let_def)
qed


text \<open>All the blocks, line by line in the order of the schedule.\<close>

lemma fit_loops:
  assumes "fp_wf blk" "outer_n blk * inner_n blk \<le> length values" "set (concat threads) \<subseteq> {0..<int (outer_n blk)}"
  shows "\<exists>g. omp_for threads (\<lambda>outer. loop_opt (fit_block values (int (blocks_n blk)) outer) [0..int (blocks_n blk) - 1])
           combine_global fit_global_init (blk, fit_global_init)
         = Some (fold (set_params values blk) (line_pairs (blocks_n blk) (concat threads)) blk, g)"
proof -
  let ?P = "\<lambda>s. fp_wf s \<and> fp_dims s = fp_dims blk" and ?n = "blocks_n blk"
  let ?line = "\<lambda>l. fold (set_params values blk) (map (Pair (nat l)) [0..<?n])"
  have line: "\<exists>p'. loop_opt (fit_block values (int ?n) l) [0..int ?n - 1] (s, p) = Some (?line l s, p') \<and> ?P (?line l s)"
    if l: "l \<in> set (concat threads)" and s: "?P s" for l s p
  proof -
    have "l \<in> {0..<int (outer_n blk)}" using l assms(3) by blast
    then have lo: "0 \<le> l" "nat l < outer_n blk" by auto
    have "\<exists>p'. loop_opt (\<lambda>b. fit_block values (int ?n) l (int b)) [0..<?n] (s, p)
        = Some (fold (\<lambda>b. set_params values blk (nat l, b)) [0..<?n] s, p')
        \<and> ?P (fold (\<lambda>b. set_params values blk (nat l, b)) [0..<?n] s)"
    proof (rule loop_opt_fold_acc [where P = ?P])
      show "?P s" by (rule s)
    next
      fix b t q assume b: "b \<in> set [0..<?n]" and t: "?P t"
      note d = fp_dims_cong [OF t [THEN conjunct2]]
      show "\<exists>p'. fit_block values (int ?n) l (int b) (t, q) = Some (set_params values blk (nat l, b) t, p')
          \<and> ?P (set_params values blk (nat l, b) t)"
        using fit_block_eq [of t blk "values" "nat l" b q] t b lo assms(2) by (auto simp: d set_params_keeps)
    qed
    then show ?thesis unfolding upto_0_int loop_opt_map by (simp add: fold_map comp_def)
  qed
  show ?thesis
    using omp_for_fold [where P = ?P and f = ?line and threads = threads and s = blk
        and body = "\<lambda>l. loop_opt (fit_block values (int ?n) l) [0..int ?n - 1]", OF line] assms(1)
    unfolding fold_line_pairs by blast
qed

definition fit_arrays :: "f32 list \<Rightarrow> FixedPointBlock \<Rightarrow> (f32 list \<Rightarrow> 'a) \<Rightarrow> (nat \<times> nat) list \<Rightarrow> 'a list \<Rightarrow> 'a list" where
  "fit_arrays values blk f ps a = write_all (map (\<lambda>(o', b). (fpos blk o' b, f (block_vals blk values o' b))) ps) a"

lemma fit_arrays_positions:
  assumes "distinct ps" "set ps = {..<outer_n blk} \<times> {..<blocks_n blk}"
  shows "distinct (map fst (map (\<lambda>(o', b). (fpos blk o' b, f (block_vals blk values o' b))) ps))"
proof -
  have "inj_on (\<lambda>(o', b). fpos blk o' b) (set ps)"
    unfolding assms(2) by (auto simp: inj_on_def dest: fpos_inj)
  moreover have "map fst (map (\<lambda>(o', b). (fpos blk o' b, f (block_vals blk values o' b))) ps) = map (\<lambda>(o', b). fpos blk o' b) ps"
    by auto
  ultimately show ?thesis using assms(1) by (simp only: distinct_map)
qed

lemma fit_arrays_nth:
  assumes "distinct ps" "set ps = {..<outer_n blk} \<times> {..<blocks_n blk}"
    and "o' < outer_n blk" "b < blocks_n blk" "outer_n blk * blocks_n blk \<le> length a"
  shows "fit_arrays values blk f ps a ! fpos blk o' b = f (block_vals blk values o' b)"
proof -
  have "(fpos blk o' b, f (block_vals blk values o' b)) \<in> set (map (\<lambda>(o', b). (fpos blk o' b, f (block_vals blk values o' b))) ps)"
    using assms(2,3,4) by force
  moreover have "fpos blk o' b < length a" using fpos_less [OF assms(3,4)] assms(5) by linarith
  ultimately show ?thesis
    unfolding fit_arrays_def by (intro write_all_nth fit_arrays_positions [OF assms(1,2)])
qed

lemma fit_arrays_perm:
  assumes "distinct ps" "set ps = {..<outer_n blk} \<times> {..<blocks_n blk}" "distinct qs" "set qs = set ps"
  shows "fit_arrays values blk f ps a = fit_arrays values blk f qs a"
  unfolding fit_arrays_def using assms
  by (intro write_all_perm fit_arrays_positions) auto

lemma fit_exponent_eq:
  assumes "fp_wf blk" "schedule_ok sched" "outer_n blk * inner_n blk \<le> length values"
  shows "\<exists>ps m sd. distinct ps \<and> set ps = {..<outer_n blk} \<times> {..<blocks_n blk}
     \<and> fit_exponent sched values blk = Some (blk\<lparr>exponents := fit_arrays values blk block_exponent ps (exponents blk),
           means := fit_arrays values blk block_mean ps (means blk),
           std_devs := fit_arrays values blk block_std ps (std_devs blk), mean := m, std_dev := sd\<rparr>)"
proof -
  have sh: "fp_shape blk" using assms(1) by (simp add: fp_wf_def)
  note oc = fp_shapeD(2) [OF sh]
  let ?t = "omp_threads sched (outer_count blk > 1) (outer_count blk)"
  have t: "distinct (concat ?t)" "set (concat ?t) = {0..<int (outer_n blk)}"
    using omp_threads_ok [OF assms(2)] oc by metis+
  let ?ps = "line_pairs (blocks_n blk) (concat ?t)"
  have ps: "distinct ?ps" "set ?ps = {..<outer_n blk} \<times> {..<blocks_n blk}"
    using t line_pairs_distinct line_pairs_set by auto
  obtain g where g: "omp_for ?t (\<lambda>outer. loop_opt (fit_block values (int (blocks_n blk)) outer) [0..int (blocks_n blk) - 1])
        combine_global fit_global_init (blk, fit_global_init) = Some (fold (set_params values blk) ?ps blk, g)"
    using fit_loops [OF assms(1,3), of ?t] t(2) by auto
  show ?thesis
    using ps unfolding fit_exponent_def num_blocks_count_eq [OF sh] bind.bind_lunit g prod.case Let_def fold_set_params
      fit_arrays_def by blast
qed

section \<open>Properties\<close>

text \<open>
  C15: \<open>fit_exponent\<close> on a well-formed block always succeeds without leaving its arrays, keeps the
  block well-formed and its mantissas untouched, and stores for every block of every line the
  exponent, mean and standard deviation that are computed from the elements of that block alone, in
  their order.
\<close>

theorem fit_exponent_params:
  assumes "fp_wf blk" and "schedule_ok sched" and "outer_n blk * inner_n blk \<le> length values"
  shows "\<exists>blk'. fit_exponent sched values blk = Some blk' \<and> fp_wf blk' \<and> fp_dims blk' = fp_dims blk
     \<and> mantissa blk' = mantissa blk
     \<and> (\<forall>l<outer_n blk. \<forall>b<blocks_n blk.
          exponents blk' ! fpos blk l b = block_exponent (block_vals blk values l b)
          \<and> means blk' ! fpos blk l b = block_mean (block_vals blk values l b)
          \<and> std_devs blk' ! fpos blk l b = block_std (block_vals blk values l b))"
proof -
  obtain ps m sd where ps: "distinct ps" "set ps = {..<outer_n blk} \<times> {..<blocks_n blk}" and
    e: "fit_exponent sched values blk = Some (blk\<lparr>exponents := fit_arrays values blk block_exponent ps (exponents blk),
           means := fit_arrays values blk block_mean ps (means blk),
           std_devs := fit_arrays values blk block_std ps (std_devs blk), mean := m, std_dev := sd\<rparr>)" (is "_ = Some ?b")
    using fit_exponent_eq [OF assms] by blast
  have d: "fp_dims ?b = fp_dims blk" by (simp add: fp_dims_def)
  have "fp_wf ?b" using assms(1) fp_dims_cong [OF d] by (simp add: fp_wf_def fit_arrays_def)
  then show ?thesis
    using e d assms(1) by (intro exI [of _ ?b]) (simp add: fit_arrays_nth [OF ps] fp_wf_def)
qed

text \<open>
  The parallel loop of \<open>fit_exponent\<close> has no race on the block: two schedules of its iterations,
  whatever their threads and orders, leave the same mantissas, exponents, means, deviations and
  precisions. Only the two summary fields \<open>mean\<close> and \<open>std_dev\<close>, sums of rounded partial sums,
  may depend on the schedule.
\<close>

theorem fit_exponent_schedule_independent:
  assumes "fp_wf blk" and "outer_n blk * inner_n blk \<le> length values"
    and "schedule_ok sched" and "schedule_ok sched'"
  shows "\<exists>a b. fit_exponent sched values blk = Some a \<and> fit_exponent sched' values blk = Some b
     \<and> b = a\<lparr>mean := mean b, std_dev := std_dev b\<rparr>"
proof -
  obtain ps m sd where ps: "distinct ps" "set ps = {..<outer_n blk} \<times> {..<blocks_n blk}" and
    e: "fit_exponent sched values blk = Some (blk\<lparr>exponents := fit_arrays values blk block_exponent ps (exponents blk),
           means := fit_arrays values blk block_mean ps (means blk),
           std_devs := fit_arrays values blk block_std ps (std_devs blk), mean := m, std_dev := sd\<rparr>)"
    using fit_exponent_eq [OF assms(1,3,2)] by blast
  obtain qs m' sd' where qs: "distinct qs" "set qs = {..<outer_n blk} \<times> {..<blocks_n blk}" and
    e': "fit_exponent sched' values blk = Some (blk\<lparr>exponents := fit_arrays values blk block_exponent qs (exponents blk),
           means := fit_arrays values blk block_mean qs (means blk),
           std_devs := fit_arrays values blk block_std qs (std_devs blk), mean := m', std_dev := sd'\<rparr>)"
    using fit_exponent_eq [OF assms(1,4,2)] by blast
  have p: "fit_arrays values blk f qs a = fit_arrays values blk f ps a" for f and a :: "'a list"
    using qs ps by (intro fit_arrays_perm) simp_all
  show ?thesis unfolding e e' p by simp
qed

text \<open>
  C16: The exponent that is stored for a block bounds the magnitude of every one of its elements
  strictly, and no smaller exponent does, as soon as the block has an element in the normal range.
\<close>

theorem fit_exponent_tight:
  assumes "fp_wf blk" and "schedule_ok sched" and "outer_n blk * inner_n blk \<le> length values"
    and "fit_exponent sched values blk = Some blk'" and "l < outer_n blk" and "b < blocks_n blk"
    and "\<exists>k \<in> {bstart blk b..<bend blk b}. 0 < f32_exp (values ! epos blk l k)"
  shows "(\<forall>k \<in> {bstart blk b..<bend blk b}. \<bar>f32_val (values ! epos blk l k)\<bar> < 2 powi (exponents blk' ! fpos blk l b))
     \<and> (\<exists>k \<in> {bstart blk b..<bend blk b}. 2 powi (exponents blk' ! fpos blk l b - 1) \<le> \<bar>f32_val (values ! epos blk l k)\<bar>)"
proof -
  obtain ps m sd where ps: "distinct ps" "set ps = {..<outer_n blk} \<times> {..<blocks_n blk}" and
    e: "fit_exponent sched values blk = Some (blk\<lparr>exponents := fit_arrays values blk block_exponent ps (exponents blk),
           means := fit_arrays values blk block_mean ps (means blk),
           std_devs := fit_arrays values blk block_std ps (std_devs blk), mean := m, std_dev := sd\<rparr>)"
    using fit_exponent_eq [OF assms(1,2,3)] by blast
  have x: "exponents blk' ! fpos blk l b = block_exponent (block_vals blk values l b)"
    using e assms(1,4) by (auto simp: fp_wf_def fit_arrays_nth [OF ps assms(5,6)])
  have v: "set (block_vals blk values l b) = (\<lambda>k. values ! epos blk l k) ` {bstart blk b..<bend blk b}"
    by (simp add: block_vals_def)
  have "\<exists>x \<in> set (block_vals blk values l b). 0 < f32_exp x" using assms(7) unfolding v by blast
  from block_exponent_bounds(1,2) [OF this] show ?thesis unfolding x v by blast
qed


text \<open>A two by two matrix in blocks of one row each, and two schedules.\<close>

definition small_block :: FixedPointBlock where
  "small_block = \<lparr>mantissa_ptr = Some 128, exponents_ptr = Some 512, means_ptr = Some 896,
     std_devs_ptr = Some 1280, precisions_ptr = Some 1664, mantissa = [9, 9, 9, 9], exponents = [9, 9],
     means = [9, 9], std_devs = [9, 9], precisions = [9, 9], rows = 2, cols = 2, block_size = 2,
     block_columns = True, num_blocks = 1, mean = 9, std_dev = 9\<rparr>"

definition small_values :: "f32 list" where
  "small_values = [0x3F800000, 0xC0400000, 0x3F000000, 0]"

definition sequential :: schedule where
  "sequential n = [[0..n - 1]]"

definition one_thread_each :: schedule where
  "one_thread_each n = map (\<lambda>i. [i]) (rev [0..n - 1])"

lemma schedules_ok: "schedule_ok sequential" "schedule_ok one_thread_each"
proof -
  show "schedule_ok sequential" by (auto simp: schedule_ok_def sequential_def)
  have "concat (map (\<lambda>i. [i]) xs) = xs" for xs :: "int list" by (induction xs) auto
  then show "schedule_ok one_thread_each"
    unfolding schedule_ok_def one_thread_each_def by (auto simp del: map_map)
qed

lemma small_block_shape:
  "fp_wf small_block" "outer_n small_block = 2" "inner_n small_block = 2" "blocks_n small_block = 1"
  "bstart small_block 0 = 0" "bend small_block 0 = 2" "epos small_block 0 0 = 0" "epos small_block 0 (Suc 0) = 1"
  "fpos small_block 0 0 = 0" "length small_values = 4"
  by (simp_all add: fp_wf_def fp_shape_def outer_n_def inner_n_def blocks_n_def bs_n_def outer_count_def
      inner_count_def small_block_def bstart_def bend_def epos_def fpos_def small_values_def)

theorem fit_exponent_params_witness:
  "\<exists>blk'. fit_exponent one_thread_each small_values small_block = Some blk' \<and> fp_wf blk'
     \<and> exponents blk' ! 0 = block_exponent [0x3F800000, 0xC0400000]"
proof -
  have "block_vals small_block small_values 0 0 = [0x3F800000, 0xC0400000]"
    by (simp add: block_vals_def small_block_shape upt_rec small_values_def)
  then show ?thesis
    using fit_exponent_params [OF small_block_shape(1) schedules_ok(2), of small_values]
    by (force simp: small_block_shape)
qed

theorem fit_exponent_schedule_independent_witness:
  "\<exists>a b. fit_exponent sequential small_values small_block = Some a
     \<and> fit_exponent one_thread_each small_values small_block = Some b \<and> exponents b = exponents a"
proof -
  obtain a b where "fit_exponent sequential small_values small_block = Some a"
    "fit_exponent one_thread_each small_values small_block = Some b" "b = a\<lparr>mean := mean b, std_dev := std_dev b\<rparr>"
    using fit_exponent_schedule_independent [OF small_block_shape(1) _ schedules_ok, of small_values]
    by (auto simp: small_block_shape)
  moreover from this(3) have "exponents b = exponents a"
    by (metis (mono_tags) FixedPointBlock.select_convs(7) FixedPointBlock.surjective FixedPointBlock.update_convs(16,17))
  ultimately show ?thesis by blast
qed

theorem fit_exponent_tight_witness:
  "\<exists>blk'. fit_exponent sequential small_values small_block = Some blk'
     \<and> (\<forall>k \<in> {0..<2}. \<bar>f32_val (small_values ! epos small_block 0 k)\<bar> < 2 powi (exponents blk' ! 0))"
proof -
  obtain blk' where e: "fit_exponent sequential small_values small_block = Some blk'"
    using fit_exponent_eq [OF small_block_shape(1) schedules_ok(1), of small_values]
    by (auto simp: small_block_shape)
  have "0 < f32_exp (small_values ! epos small_block 0 0)"
    by (simp add: small_block_shape small_values_def f32_exp_def)
  then have "\<exists>k \<in> {bstart small_block 0..<bend small_block 0}. 0 < f32_exp (small_values ! epos small_block 0 k)"
    by (intro bexI [of _ 0]) (simp_all add: small_block_shape)
  then show ?thesis
    using fit_exponent_tight [OF small_block_shape(1) schedules_ok(1) _ e, of 0 0] e
    by (simp add: small_block_shape)
qed

end
