(* ===== verification/FixedPointQuant.thy ===== *)
theory FixedPointQuant
  imports FixedPointFit
begin

text \<open>
  What \<open>floats_to_mantissa\<close> and the two methods that read the mantissas back compute: one value
  per element, from the element and the parameters of its block, independent of the schedule.
\<close>

section \<open>The precision search\<close>

lemma precision_loop_spec:
  assumes "1 \<le> n"
  shows "1 \<le> precision_loop f n \<and> precision_loop f n \<le> n
     \<and> (precision_loop f n = 1 \<or> \<not> f (precision_loop f n)) \<and> (\<forall>m. precision_loop f n < m \<longrightarrow> m \<le> n \<longrightarrow> f m)"
  using assms
proof (induction f n rule: precision_loop.induct)
  case (1 f n)
  show ?case
  proof (cases "n > 1 \<and> f n")
    case True
    then have s: "precision_loop f n = precision_loop f (n - 1)" by (subst precision_loop.simps) simp
    have f: "f m" if "precision_loop f (n - 1) < m" "m \<le> n" for m
      using "1.IH" [OF True] True that by (cases "m = n") auto
    show ?thesis using "1.IH" [OF True] True f unfolding s by auto
  next
    case False
    then have "precision_loop f n = n" by (subst precision_loop.simps) auto
    then show ?thesis using False "1.prems" by auto
  qed
qed

section \<open>Updating an array in place\<close>

lemma loop_opt_update:
  assumes "distinct (map pos ks)" "\<forall>k \<in> set ks. pos k < length m"
  shows "loop_opt (\<lambda>k m. Option.bind (array_get m (int (pos k))) (\<lambda>x. array_set m (int (pos k)) (f x))) ks m
    = Some (write_all (map (\<lambda>k. (pos k, f (m ! pos k))) ks) m)"
  using assms
proof (induction ks arbitrary: m)
  case (Cons k ks)
  have e: "map (\<lambda>j. (pos j, f (m[pos k := f (m ! pos k)] ! pos j))) ks = map (\<lambda>j. (pos j, f (m ! pos j))) ks"
    using Cons.prems(1) by (intro map_cong) (auto, metis image_eqI nth_list_update_neq)
  have "loop_opt (\<lambda>k m. Option.bind (array_get m (int (pos k))) (\<lambda>x. array_set m (int (pos k)) (f x))) ks (m[pos k := f (m ! pos k)])
      = Some (write_all (map (\<lambda>j. (pos j, f (m[pos k := f (m ! pos k)] ! pos j))) ks) (m[pos k := f (m ! pos k)]))"
    using Cons.prems by (intro Cons.IH) simp_all
  then show ?case using Cons.prems unfolding e by simp
qed simp

lemma loop_opt_write:
  assumes "\<forall>k \<in> set ks. pos k < length m"
  shows "loop_opt (\<lambda>k m. array_set m (int (pos k)) (v k)) ks m = Some (write_all (map (\<lambda>k. (pos k, v k)) ks) m)"
  using assms by (induction ks arbitrary: m) auto

lemma write_all_cover:
  assumes "distinct (map fst ws)" "length a = length b" "\<forall>i < length a. i \<notin> fst ` set ws \<longrightarrow> a ! i = b ! i"
  shows "write_all ws a = write_all ws b"
proof (rule nth_equalityI)
  fix i assume "i < length (write_all ws a)"
  then have i: "i < length a" by simp
  show "write_all ws a ! i = write_all ws b ! i"
  proof (cases "i \<in> fst ` set ws")
    case True
    then obtain v where "(i, v) \<in> set ws" by auto
    then show ?thesis using assms i by (simp add: write_all_nth)
  next
    case False
    then show ?thesis using assms(3) i by (simp add: write_all_other)
  qed
qed (simp add: assms)

section \<open>One block\<close>

text \<open>The exponent, precision, mean and mantissas the code uses for block \<open>b\<close> of line \<open>l\<close>.\<close>

definition used_exponent :: "quant_args \<Rightarrow> FixedPointBlock \<Rightarrow> nat \<Rightarrow> nat \<Rightarrow> int" where
  "used_exponent q blk l b =
     (if q_fixed_exponent q \<noteq> 0 then q_fixed_exponent q else exponents blk ! fpos blk l b)"

definition used_bits :: "nat \<Rightarrow> quant_args \<Rightarrow> FixedPointBlock \<Rightarrow> nat \<Rightarrow> nat \<Rightarrow> int" where
  "used_bits w q blk l b =
     (if q_force_precision q > 0 then q_force_precision q
      else fitted_precision w (q_z_sigma q) (q_other_exponent q) (q_other_std_dev q)
             (std_devs blk ! fpos blk l b) (used_exponent q blk l b) (int (bend blk b - bstart blk b)))"

definition mean_float :: "nat \<Rightarrow> quant_args \<Rightarrow> FixedPointBlock \<Rightarrow> nat \<Rightarrow> nat \<Rightarrow> f32" where
  "mean_float w q blk l b =
     f32_mul (means blk ! fpos blk l b) (fast_pow2 (i32 (i32 (- used_exponent q blk l b) + used_bits w q blk l b)))"

definition integer_mean :: "nat \<Rightarrow> quant_args \<Rightarrow> FixedPointBlock \<Rightarrow> nat \<Rightarrow> nat \<Rightarrow> int option" where
  "integer_mean w q blk l b = f32_to_int w (f32_cround (mean_float w q blk l b))"

definition scaled_vals :: "f32 list \<Rightarrow> quant_args \<Rightarrow> FixedPointBlock \<Rightarrow> nat \<Rightarrow> nat \<Rightarrow> f32 list" where
  "scaled_vals xs q blk l b =
     map (\<lambda>x. f32_mul x (fast_pow2 (i32 (- used_exponent q blk l b)))) (block_vals blk xs l b)"

definition quant_value :: "nat \<Rightarrow> f32 list \<Rightarrow> quant_args \<Rightarrow> FixedPointBlock \<Rightarrow> nat \<Rightarrow> nat \<Rightarrow> nat \<Rightarrow> int" where
  "quant_value w xs q blk l b j =
     wrap_int w (round_elem w (nat (used_bits w q blk l b)) (scaled_vals xs q blk l b ! j)
                   (noise_at (bend blk b - bstart blk b) j) - the (integer_mean w q blk l b))"

text \<open>The conversions the code relies on: a shift below 32 and a mean that fits the type.\<close>

definition quant_ok :: "nat \<Rightarrow> quant_args \<Rightarrow> FixedPointBlock \<Rightarrow> bool" where
  "quant_ok w q blk \<longleftrightarrow> (\<forall>l<outer_n blk. \<forall>b<blocks_n blk.
     integer_mean w q blk l b \<noteq> None \<and> 0 \<le> used_bits w q blk l b \<and> used_bits w q blk l b < 32)"

lemma quant_okD:
  assumes "quant_ok w q blk" "l < outer_n blk" "b < blocks_n blk"
  shows "integer_mean w q blk l b = Some (the (integer_mean w q blk l b))" "nat (used_bits w q blk l b) < 32"
proof -
  have u: "integer_mean w q blk l b \<noteq> None" "0 \<le> used_bits w q blk l b" "used_bits w q blk l b < 32"
    using assms by (auto simp: quant_ok_def)
  then show "integer_mean w q blk l b = Some (the (integer_mean w q blk l b))" by simp
  show "nat (used_bits w q blk l b) < 32" using u by linarith
qed

lemma block_vals_length [simp]: "length (block_vals blk xs l b) = bend blk b - bstart blk b"
  by (simp add: block_vals_def)

lemma epos_block:
  assumes "fp_shape blk" "l < outer_n blk" "b < blocks_n blk" "j < bend blk b - bstart blk b"
  shows "bstart blk b + j < inner_n blk" "epos blk l (bstart blk b + j) < outer_n blk * inner_n blk"
    "block_vals blk xs l b ! j = xs ! epos blk l (bstart blk b + j)"
proof -
  show k: "bstart blk b + j < inner_n blk" using start_end_eq(3,4) [OF assms(1,3)] assms(4) by linarith
  show "epos blk l (bstart blk b + j) < outer_n blk * inner_n blk" by (rule epos_less [OF assms(2) k])
  show "block_vals blk xs l b ! j = xs ! epos blk l (bstart blk b + j)"
    using assms(4) by (simp add: block_vals_def)
qed

lemma epos_block_distinct:
  assumes "fp_shape blk" "l < outer_n blk" "b < blocks_n blk"
  shows "distinct (map (\<lambda>j. epos blk l (bstart blk b + j)) [0..<bend blk b - bstart blk b])"
proof -
  have "inj_on (\<lambda>j. epos blk l (bstart blk b + j)) {0..<bend blk b - bstart blk b}"
  proof (rule inj_onI)
    fix i j assume "i \<in> {0..<bend blk b - bstart blk b}" "j \<in> {0..<bend blk b - bstart blk b}"
      and "epos blk l (bstart blk b + i) = epos blk l (bstart blk b + j)"
    then have "bstart blk b + i = bstart blk b + j"
      using epos_inj [of blk l "bstart blk b + i" l "bstart blk b + j"] epos_block(1) [OF assms] assms(2) by simp
    then show "i = j" by simp
  qed
  then show ?thesis by (simp add: distinct_map)
qed

lemma source_idx_eq:
  assumes "fp_shape blk" "l < outer_n blk" "b < blocks_n blk" "j < bend blk b - bstart blk b"
  shows "source_idx blk (int l) (int (bstart blk b)) (int j) = int (epos blk l (bstart blk b + j))"
proof -
  note s = fp_shapeD [OF assms(1)]
  have e: "epos blk l (bstart blk b + j) < 2147483648"
    using epos_block(2) [OF assms] s(5) by linarith
  show ?thesis
  proof (cases "block_columns blk")
    case True
    then have "l * inner_n blk + 0 < 2147483648" using e by (simp add: epos_def)
    then show ?thesis using i32_mult_add(2) [of l "inner_n blk" 0] True by (simp add: source_idx_def epos_def s(7))
  next
    case False
    then have "(bstart blk b + j) * outer_n blk + l < 2147483648" using e by (simp add: epos_def)
    then have "bstart blk b * outer_n blk + 0 < 2147483648" "j * outer_n blk + 0 < 2147483648"
      by (simp_all add: add_mult_distrib)
    then show ?thesis
      using i32_mult_add(2) [of "bstart blk b" "outer_n blk" 0] i32_mult_add(2) [of j "outer_n blk" 0] False
      by (simp add: source_idx_def epos_def s(7) add_mult_distrib)
  qed
qed

lemma those_map_Some: "(\<And>x. x \<in> set xs \<Longrightarrow> f x = Some (g x)) \<Longrightarrow> those (map f xs) = Some (map g xs)"
  by (induction xs) auto

lemma scaled_block_eq:
  assumes "fp_shape blk" "l < outer_n blk" "b < blocks_n blk" "outer_n blk * inner_n blk \<le> length xs"
  shows "scaled_block xs blk (int l) (int (bstart blk b)) (int (bend blk b - bstart blk b)) s
    = Some (map (\<lambda>x. f32_mul x s) (block_vals blk xs l b))"
proof -
  let ?n = "bend blk b - bstart blk b"
  have "array_get xs (source_idx blk (int l) (int (bstart blk b)) (int j)) = Some (block_vals blk xs l b ! j)"
    if "j < ?n" for j
    using that epos_block(2,3) [OF assms(1-3) that] assms(4) by (simp add: source_idx_eq [OF assms(1-3) that])
  then have "those (map (\<lambda>j. map_option (\<lambda>x. f32_mul x s) (array_get xs (source_idx blk (int l) (int (bstart blk b)) (int j)))) [0..<?n])
      = Some (map (\<lambda>j. f32_mul (block_vals blk xs l b ! j) s) [0..<?n])"
    by (intro those_map_Some) simp
  also have "map (\<lambda>j. f32_mul (block_vals blk xs l b ! j) s) [0..<?n] = map (\<lambda>x. f32_mul x s) (block_vals blk xs l b)"
    by (rule nth_equalityI) simp_all
  finally show ?thesis unfolding scaled_block_def upto_0_int by (simp add: comp_def)
qed


definition block_writes :: "nat \<Rightarrow> f32 list \<Rightarrow> quant_args \<Rightarrow> FixedPointBlock \<Rightarrow> nat \<times> nat \<Rightarrow> (nat \<times> int) list" where
  "block_writes w xs q blk = (\<lambda>(l, b).
     map (\<lambda>j. (epos blk l (bstart blk b + j), quant_value w xs q blk l b j)) [0..<bend blk b - bstart blk b])"

lemma store_row_block_eq:
  assumes "fp_wf blk" "l < outer_n blk" "b < blocks_n blk" "block_columns blk"
    and "quant_ok w q blk" "length m = length (mantissa blk)"
  shows "store_row_block w blk (int l) (int (bstart blk b)) (int (bend blk b - bstart blk b)) (scaled_vals xs q blk l b)
      (used_bits w q blk l b) (mean_float w q blk l b) m = Some (write_all (block_writes w xs q blk (l, b)) m)"
proof -
  have sh: "fp_shape blk" using assms(1) by (simp add: fp_wf_def)
  note s = fp_shapeD [OF sh]
  let ?n = "bend blk b - bstart blk b" and ?off = "epos blk l (bstart blk b)" and ?sv = "scaled_vals xs q blk l b"
  let ?p = "nat (used_bits w q blk l b)" and ?im = "the (integer_mean w q blk l b)"
  have n: "0 < ?n" using start_end_eq(3) [OF sh assms(3)] by simp
  have pos: "epos blk l (bstart blk b + j) = ?off + j" for j using assms(4) by (simp add: epos_def)
  have fit: "?off + j < length m" if "j < ?n" for j
    using epos_block(2) [OF sh assms(2,3) that] assms(1,6) pos by (simp add: fp_wf_def)
  have lim: "l * inner_n blk + bstart blk b + j < 2147483648" if "j < ?n" for j
    using epos_block(2) [OF sh assms(2,3) that] s(5) assms(4) by (simp add: epos_def)
  have off: "i32 (i32 (int l * cols blk) + int (bstart blk b)) = int ?off"
    using i32_mult_add(1) [of l "inner_n blk" "bstart blk b"] lim [OF n] assms(4) by (simp add: s(7) epos_def)
  have at: "i32 (int ?off + int j) = int (?off + j)" if "j < ?n" for j
  proof -
    have "?off + j < 2147483648" using lim [OF that] assms(4) by (simp add: epos_def)
    then show ?thesis unfolding of_nat_add [symmetric] by (intro i32_id) linarith+
  qed
  have sv: "length ?sv = ?n" by (simp add: scaled_vals_def)
  have last: "?off + ?n \<le> length m" using fit [of "?n - 1"] n by linarith
  have ok: "f32_to_int w (f32_cround (mean_float w q blk l b)) = Some ?im" "?p < 32"
    unfolding integer_mean_def [symmetric] by (rule quant_okD [OF assms(5,2,3)])+
  let ?r = "rounded_upto w ?p ?sv ?n (drop ?off m)" and ?f = "\<lambda>x. wrap_int w (x - ?im)"
  have r: "stochastic_round_array w ?sv (drop ?off m) (int ?n) ?p = Some ?r"
    using stochastic_round_array_spec [of ?sv "drop ?off m" ?p w] ok(2) last sv by simp
  have len: "length (take ?off m @ ?r) = length m"
    using last by (simp add: length_rounded_upto)
  have "loop_opt (\<lambda>j m. let i = i32 (i32 (i32 (int l * cols blk) + int (bstart blk b)) + int j)
          in Option.bind (array_get m i) (\<lambda>x. array_set m i (?f x))) [0..<?n] (take ?off m @ ?r)
      = loop_opt (\<lambda>j m. Option.bind (array_get m (int (?off + j))) (\<lambda>x. array_set m (int (?off + j)) (?f x))) [0..<?n] (take ?off m @ ?r)"
    by (rule loop_opt_cong) (simp add: off at Let_def del: of_nat_add)
  also have "\<dots> = Some (write_all (map (\<lambda>j. (?off + j, ?f ((take ?off m @ ?r) ! (?off + j)))) [0..<?n]) (take ?off m @ ?r))"
    using len fit by (intro loop_opt_update) (simp_all add: distinct_map)
  also have "map (\<lambda>j. (?off + j, ?f ((take ?off m @ ?r) ! (?off + j)))) [0..<?n] = block_writes w xs q blk (l, b)"
    using last n by (simp add: block_writes_def pos quant_value_def rounded_upto_def nth_append sv)
  also have "write_all (block_writes w xs q blk (l, b)) (take ?off m @ ?r) = write_all (block_writes w xs q blk (l, b)) m"
  proof (rule write_all_cover)
    have fs: "map fst (block_writes w xs q blk (l, b)) = map (\<lambda>j. epos blk l (bstart blk b + j)) [0..<?n]"
      by (simp add: block_writes_def comp_def)
    show "distinct (map fst (block_writes w xs q blk (l, b)))"
      unfolding fs by (rule epos_block_distinct [OF sh assms(2,3)])
    show "length (take ?off m @ ?r) = length m" by (rule len)
    have cov: "fst ` set (block_writes w xs q blk (l, b)) = {?off..<?off + ?n}"
      unfolding set_map [symmetric] fs unfolding pos by (auto simp: image_iff Bex_def le_iff_add)
    show "\<forall>i<length (take ?off m @ ?r). i \<notin> fst ` set (block_writes w xs q blk (l, b)) \<longrightarrow> (take ?off m @ ?r) ! i = m ! i"
      unfolding cov len using last by (auto simp: nth_append rounded_upto_def sv not_less)
  qed
  finally show ?thesis
    unfolding store_row_block_def off Let_def upto_0_int loop_opt_map
    using last r ok(1) by (simp add: off)
qed


lemma store_column_block_eq:
  assumes "fp_wf blk" "l < outer_n blk" "b < blocks_n blk" "\<not> block_columns blk"
    and "quant_ok w q blk" "length m = length (mantissa blk)"
  shows "store_column_block w blk (int l) (int (bstart blk b)) (int (bend blk b - bstart blk b)) (scaled_vals xs q blk l b)
      (used_bits w q blk l b) (mean_float w q blk l b) m = Some (write_all (block_writes w xs q blk (l, b)) m)"
proof -
  have sh: "fp_shape blk" using assms(1) by (simp add: fp_wf_def)
  note s = fp_shapeD [OF sh]
  let ?n = "bend blk b - bstart blk b" and ?sv = "scaled_vals xs q blk l b" and ?st = "bstart blk b"
  let ?p = "nat (used_bits w q blk l b)" and ?im = "the (integer_mean w q blk l b)"
  have ok: "f32_to_int w (f32_cround (mean_float w q blk l b)) = Some ?im" "?p < 32"
    unfolding integer_mean_def [symmetric] by (rule quant_okD [OF assms(5,2,3)])+
  have sv: "length ?sv = ?n" by (simp add: scaled_vals_def)
  let ?r = "rounded_upto w ?p ?sv ?n (replicate ?n 0)"
  have r: "stochastic_round_array w ?sv (replicate ?n 0) (int ?n) ?p = Some ?r"
    using stochastic_round_array_spec [of ?sv "replicate ?n 0" ?p w] ok(2) sv by simp
  have idx: "i32 (i32 (i32 (int ?st + int j) * cols blk) + int l) = int (epos blk l (?st + j))" if "j < ?n" for j
  proof -
    have k: "?st + j < inner_n blk" by (rule epos_block(1) [OF sh assms(2,3) that])
    have "i32 (int ?st + int j) = int (?st + j)"
      unfolding of_nat_add [symmetric] using k s(6) by (intro i32_id) linarith+
    then show ?thesis using elem_idx_eq [OF sh assms(2) k] assms(4) by (simp add: elem_idx_def)
  qed
  have fit: "epos blk l (?st + j) < length m" if "j < ?n" for j
    using epos_block(2) [OF sh assms(2,3) that] assms(1,6) by (simp add: fp_wf_def)
  have "loop_opt (\<lambda>j m. Option.bind (array_get ?r (int j)) (\<lambda>x.
           array_set m (i32 (i32 (i32 (int ?st + int j) * cols blk) + int l)) (wrap_int w (x - ?im)))) [0..<?n] m
      = loop_opt (\<lambda>j m. array_set m (int (epos blk l (?st + j))) (quant_value w xs q blk l b j)) [0..<?n] m"
  proof (rule loop_opt_cong)
    fix j m assume j: "j \<in> set [0..<?n]"
    then have "array_get ?r (int j) = Some (round_elem w ?p (?sv ! j) (noise_at ?n j))"
      by (subst array_get_nat) (simp_all add: length_rounded_upto, simp add: rounded_upto_def nth_append sv)
    then show "Option.bind (array_get ?r (int j)) (\<lambda>x.
           array_set m (i32 (i32 (i32 (int ?st + int j) * cols blk) + int l)) (wrap_int w (x - ?im)))
        = array_set m (int (epos blk l (?st + j))) (quant_value w xs q blk l b j)"
      using j by (simp add: idx quant_value_def)
  qed
  also have "\<dots> = Some (write_all (block_writes w xs q blk (l, b)) m)"
    unfolding block_writes_def prod.case using fit by (intro loop_opt_write) simp
  finally show ?thesis
    unfolding store_column_block_def upto_0_int loop_opt_map using r ok(1) by simp
qed

definition set_block :: "nat \<Rightarrow> f32 list \<Rightarrow> quant_args \<Rightarrow> FixedPointBlock \<Rightarrow> nat \<times> nat \<Rightarrow> FixedPointBlock \<Rightarrow> FixedPointBlock" where
  "set_block w xs q blk0 p blk =
     blk\<lparr>precisions := (precisions blk)[fpos blk0 (fst p) (snd p) := used_bits w q blk0 (fst p) (snd p)],
         mantissa := write_all (block_writes w xs q blk0 p) (mantissa blk)\<rparr>"

text \<open>The loop reads the parameters that the fit has set, which it does not change.\<close>

definition same_params :: "FixedPointBlock \<Rightarrow> FixedPointBlock \<Rightarrow> bool" where
  "same_params x y \<longleftrightarrow> fp_dims x = fp_dims y \<and> exponents x = exponents y \<and> means x = means y \<and> std_devs x = std_devs y"

lemma same_params_cong:
  assumes "same_params x y"
  shows "used_exponent q x = used_exponent q y" "used_bits w q x = used_bits w q y" "mean_float w q x = mean_float w q y"
    "integer_mean w q x = integer_mean w q y" "scaled_vals xs q x = scaled_vals xs q y"
    "block_vals x xs = block_vals y xs" "quant_value w xs q x = quant_value w xs q y"
    "block_writes w xs q x = block_writes w xs q y" "quant_ok w q x = quant_ok w q y"
proof -
  note d = fp_dims_cong [of x y]
  have p: "fp_dims x = fp_dims y" "exponents x = exponents y" "means x = means y" "std_devs x = std_devs y"
    using assms by (auto simp: same_params_def)
  show e: "used_exponent q x = used_exponent q y" by (simp add: used_exponent_def p d [OF p(1)] fun_eq_iff)
  show b: "used_bits w q x = used_bits w q y" by (simp add: used_bits_def e p d [OF p(1)] fun_eq_iff)
  show m: "mean_float w q x = mean_float w q y" by (simp add: mean_float_def e b p d [OF p(1)] fun_eq_iff)
  show i: "integer_mean w q x = integer_mean w q y" by (simp add: integer_mean_def m fun_eq_iff)
  show v: "block_vals x xs = block_vals y xs" by (simp add: block_vals_def d [OF p(1)] fun_eq_iff)
  show s: "scaled_vals xs q x = scaled_vals xs q y" by (simp add: scaled_vals_def e v fun_eq_iff)
  show qv: "quant_value w xs q x = quant_value w xs q y" by (simp add: quant_value_def s b i d [OF p(1)] fun_eq_iff)
  show "block_writes w xs q x = block_writes w xs q y" by (simp add: block_writes_def qv d [OF p(1)] fun_eq_iff)
  show "quant_ok w q x = quant_ok w q y" by (simp add: quant_ok_def i b d [OF p(1)])
qed


section \<open>All blocks\<close>

lemma set_block_keeps:
  "same_params (set_block w xs q blk0 p blk) blk0 = same_params blk blk0"
  "fp_wf (set_block w xs q blk0 p blk) = fp_wf blk"
  "length (mantissa (set_block w xs q blk0 p blk)) = length (mantissa blk)"
proof -
  have d: "fp_dims (set_block w xs q blk0 p blk) = fp_dims blk" by (simp add: set_block_def fp_dims_def)
  show "same_params (set_block w xs q blk0 p blk) blk0 = same_params blk blk0"
    unfolding same_params_def d by (simp add: set_block_def)
  show "fp_wf (set_block w xs q blk0 p blk) = fp_wf blk"
    unfolding fp_wf_def fp_dims_cong [OF d] by (simp add: set_block_def)
  show "length (mantissa (set_block w xs q blk0 p blk)) = length (mantissa blk)" by (simp add: set_block_def)
qed

lemma quantise_block_eq:
  assumes "fp_wf blk" "same_params blk blk0" "quant_ok w q blk0" "outer_n blk * inner_n blk \<le> length xs"
    and l: "l < outer_n blk" and b: "b < blocks_n blk"
  shows "quantise_block w xs q (int (blocks_n blk)) (int l) (int b) blk = Some (set_block w xs q blk0 (l, b) blk)"
proof -
  have sh: "fp_shape blk" using assms(1) by (simp add: fp_wf_def)
  note se = start_end_eq [OF sh b] and c = same_params_cong [OF assms(2)]
  have d: "fp_dims blk = fp_dims blk0" using assms(2) by (simp add: same_params_def)
  have f: "fpos blk l b < length (exponents blk)" "fpos blk l b < length (means blk)"
    "fpos blk l b < length (std_devs blk)" "fpos blk l b < length (precisions blk)"
    using fpos_less [OF l b] assms(1) by (simp_all add: fp_wf_def)
  have cnt: "int (bend blk b) - int (bstart blk b) = int (bend blk b - bstart blk b)"
    using se(3) by simp
  have ok: "quant_ok w q blk" using assms(3) c(9) by simp
  have ev: "(if q_fixed_exponent q \<noteq> 0 then Some (q_fixed_exponent q) else array_get (exponents blk) (int (fpos blk l b)))
      = Some (used_exponent q blk l b)"
    using f(1) by (simp add: used_exponent_def)
  have bits: "(if q_force_precision q > 0 then Some (q_force_precision q)
        else map_option (\<lambda>std. fitted_precision w (q_z_sigma q) (q_other_exponent q) (q_other_std_dev q) std
               (used_exponent q blk l b) (int (bend blk b - bstart blk b))) (array_get (std_devs blk) (int (fpos blk l b))))
      = Some (used_bits w q blk l b)"
    using f(3) by (simp add: used_bits_def)
  have store: "(if block_columns blk then store_row_block else store_column_block)
      w blk (int l) (int (bstart blk b)) (int (bend blk b - bstart blk b)) (scaled_vals xs q blk l b)
      (used_bits w q blk l b) (mean_float w q blk l b) (mantissa blk) = Some (write_all (block_writes w xs q blk (l, b)) (mantissa blk))"
    using store_row_block_eq [OF assms(1) l b _ ok] store_column_block_eq [OF assms(1) l b _ ok] by auto
  show ?thesis
    unfolding quantise_block_def Let_def se(1,2) cnt block_flat_idx_eq [OF sh l b] ev bits bind.bind_lunit
      array_set_nat [OF f(4)] scaled_block_eq [OF sh l b assms(4)] array_get_nat [OF f(2)]
      scaled_vals_def [symmetric] mean_float_def [symmetric] store
    by (simp add: set_block_def c fp_dims_cong [OF d])
qed

lemma fold_set_block:
  "fold (set_block w xs q blk0) ps blk =
     blk\<lparr>precisions := write_all (map (\<lambda>(l, b). (fpos blk0 l b, used_bits w q blk0 l b)) ps) (precisions blk),
         mantissa := write_all (concat (map (block_writes w xs q blk0) ps)) (mantissa blk)\<rparr>"
  by (induction ps arbitrary: blk) (auto simp: set_block_def)

lemma quant_loops:
  assumes "fp_wf blk" "quant_ok w q blk" "outer_n blk * inner_n blk \<le> length xs"
    and "set (concat threads) \<subseteq> {0..<int (outer_n blk)}"
  shows "map_option fst
      (omp_for threads (\<lambda>outer (blk', u). map_option (\<lambda>b. (b, u))
          (loop_opt (quantise_block w xs q (int (blocks_n blk)) outer) [0..int (blocks_n blk) - 1] blk'))
        (\<lambda>_ _. ()) () (blk, ()))
    = Some (fold (set_block w xs q blk) (line_pairs (blocks_n blk) (concat threads)) blk)"
proof -
  let ?P = "\<lambda>s. fp_wf s \<and> same_params s blk" and ?n = "blocks_n blk"
  let ?line = "\<lambda>l. fold (set_block w xs q blk) (map (Pair (nat l)) [0..<?n])"
  have line: "loop_opt (quantise_block w xs q (int ?n) l) [0..int ?n - 1] s = Some (?line l s) \<and> ?P (?line l s)"
    if l: "l \<in> set (concat threads)" and s: "?P s" for l s
  proof -
    have "l \<in> {0..<int (outer_n blk)}" using l assms(4) by blast
    then have lo: "0 \<le> l" "nat l < outer_n blk" by auto
    have "loop_opt (\<lambda>b. quantise_block w xs q (int ?n) l (int b)) [0..<?n] s
        = Some (fold (\<lambda>b. set_block w xs q blk (nat l, b)) [0..<?n] s) \<and> ?P (fold (\<lambda>b. set_block w xs q blk (nat l, b)) [0..<?n] s)"
    proof (rule loop_opt_fold [where P = ?P])
      show "?P s" by (rule s)
    next
      fix b t assume b: "b \<in> set [0..<?n]" and t: "?P t"
      have "fp_dims t = fp_dims blk" using t by (simp add: same_params_def)
      note d = fp_dims_cong [OF this]
      show "quantise_block w xs q (int ?n) l (int b) t = Some (set_block w xs q blk (nat l, b) t)
          \<and> ?P (set_block w xs q blk (nat l, b) t)"
        using quantise_block_eq [of t blk w q xs "nat l" b] t b lo assms(2,3) by (simp add: d set_block_keeps)
    qed
    then show ?thesis unfolding upto_0_int loop_opt_map by (simp add: fold_map comp_def)
  qed
  show ?thesis
    using omp_for_unit [where P = ?P and f = ?line and threads = threads and s = blk
        and body = "\<lambda>l. loop_opt (quantise_block w xs q (int ?n) l) [0..int ?n - 1]", OF line] assms(1)
    unfolding fold_line_pairs by (simp add: same_params_def)
qed

lemma distinct_concat_map:
  assumes "distinct ps" "\<And>p. p \<in> set ps \<Longrightarrow> distinct (map fst (f p))"
    and "\<And>p q. p \<in> set ps \<Longrightarrow> q \<in> set ps \<Longrightarrow> p \<noteq> q \<Longrightarrow> fst ` set (f p) \<inter> fst ` set (f q) = {}"
  shows "distinct (map fst (concat (map f ps)))"
  using assms
proof (induction ps)
  case (Cons p ps)
  have "fst ` set (f p) \<inter> (\<Union>q \<in> set ps. fst ` set (f q)) = {}"
    using Cons.prems(1) Cons.prems(3) [of p] by fastforce
  moreover have "distinct (map fst (concat (map f ps)))" using Cons.prems by (intro Cons.IH) auto
  ultimately show ?case using Cons.prems(2) [of p] by (auto simp: image_UN)
qed simp

lemma block_positions_distinct:
  assumes "fp_shape blk" "distinct ps" "set ps \<subseteq> {..<outer_n blk} \<times> {..<blocks_n blk}"
    and fst: "\<And>l b. map fst (f (l, b)) = map (\<lambda>j. epos blk l (bstart blk b + j)) [0..<bend blk b - bstart blk b]"
  shows "distinct (map fst (concat (map f ps)))"
proof (rule distinct_concat_map [OF assms(2)])
  fix p assume "p \<in> set ps"
  then show "distinct (map fst (f p))"
    using epos_block_distinct [OF assms(1)] assms(3) by (cases p) (auto simp: fst)
next
  fix p p' assume p: "p \<in> set ps" "p' \<in> set ps" "p \<noteq> p'"
  obtain l b l' b' where q: "p = (l, b)" "p' = (l', b')" by (cases p; cases p')
  have r: "l < outer_n blk" "b < blocks_n blk" "l' < outer_n blk" "b' < blocks_n blk"
    using p q assms(3) by auto
  have False if j: "j < bend blk b - bstart blk b" "j' < bend blk b' - bstart blk b'"
    and e: "epos blk l (bstart blk b + j) = epos blk l' (bstart blk b' + j')" for j j'
  proof -
    have "l = l' \<and> bstart blk b + j = bstart blk b' + j'"
      using epos_inj [OF e r(1,3)] epos_block(1) [OF assms(1) r(1,2) j(1)] epos_block(1) [OF assms(1) r(3,4) j(2)] by simp
    moreover have "(bstart blk b + j) div bs_n blk = b" "(bstart blk b' + j') div bs_n blk = b'"
      using j by (simp_all add: bstart_def bend_def div_add1_eq)
    ultimately show False using p(3) q by metis
  qed
  then have "set (map fst (f p)) \<inter> set (map fst (f p')) = {}" unfolding q fst by auto
  then show "fst ` set (f p) \<inter> fst ` set (f p') = {}" by simp
qed


lemma block_writes_fst:
  "map fst (block_writes w xs q blk (l, b)) = map (\<lambda>j. epos blk l (bstart blk b + j)) [0..<bend blk b - bstart blk b]"
  by (simp add: block_writes_def comp_def)

lemma write_blocks_nth:
  assumes "fp_shape blk" "distinct ps" "set ps = {..<outer_n blk} \<times> {..<blocks_n blk}"
    and "outer_n blk * inner_n blk \<le> length a"
    and "l < outer_n blk" "b < blocks_n blk" "j < bend blk b - bstart blk b"
    and f: "\<And>l b. f (l, b) = map (\<lambda>j. (epos blk l (bstart blk b + j), v l b j)) [0..<bend blk b - bstart blk b]"
  shows "write_all (concat (map f ps)) a ! epos blk l (bstart blk b + j) = v l b j"
proof (rule write_all_nth)
  show "distinct (map fst (concat (map f ps)))"
    using assms(1-3) by (intro block_positions_distinct) (auto simp: f comp_def)
  have "(epos blk l (bstart blk b + j), v l b j) \<in> set (f (l, b))" using assms(7) by (auto simp: f)
  then show "(epos blk l (bstart blk b + j), v l b j) \<in> set (concat (map f ps))" using assms(3,5,6) by force
  show "epos blk l (bstart blk b + j) < length a" using epos_block(2) [OF assms(1,5,6,7)] assms(4) by linarith
qed

text \<open>The pairs of line and block that a schedule runs through.\<close>

lemma schedule_pairs:
  assumes "fp_shape blk" "schedule_ok sched"
  defines "t \<equiv> omp_threads sched (outer_count blk > 1) (outer_count blk)"
  shows "set (concat t) = {0..<int (outer_n blk)}" "distinct (line_pairs (blocks_n blk) (concat t))"
    "set (line_pairs (blocks_n blk) (concat t)) = {..<outer_n blk} \<times> {..<blocks_n blk}"
proof -
  have t: "distinct (concat t)" "set (concat t) = {0..<int (outer_n blk)}"
    using omp_threads_ok [OF assms(2)] fp_shapeD(2) [OF assms(1)] unfolding t_def by metis+
  then show "set (concat t) = {0..<int (outer_n blk)}" "distinct (line_pairs (blocks_n blk) (concat t))"
    "set (line_pairs (blocks_n blk) (concat t)) = {..<outer_n blk} \<times> {..<blocks_n blk}"
    using line_pairs_distinct line_pairs_set by auto
qed

lemma floats_to_mantissa_eq:
  assumes "fp_wf blk" "schedule_ok sched" "quant_ok w q blk" "outer_n blk * inner_n blk \<le> length xs"
  shows "\<exists>ps. distinct ps \<and> set ps = {..<outer_n blk} \<times> {..<blocks_n blk}
     \<and> floats_to_mantissa w sched xs q blk = Some (fold (set_block w xs q blk) ps blk)"
proof -
  have sh: "fp_shape blk" using assms(1) by (simp add: fp_wf_def)
  note sp = schedule_pairs [OF sh assms(2)]
  have "floats_to_mantissa w sched xs q blk
      = Some (fold (set_block w xs q blk) (line_pairs (blocks_n blk) (concat (omp_threads sched (outer_count blk > 1) (outer_count blk)))) blk)"
    unfolding floats_to_mantissa_def num_blocks_count_eq [OF sh] bind.bind_lunit
    by (rule quant_loops [OF assms(1,3,4)]) (simp only: sp(1) order_refl)
  with sp(2,3) show ?thesis by blast
qed

lemma floats_to_mantissa_result:
  assumes "fp_wf blk" "schedule_ok sched" "quant_ok w q blk" "outer_n blk * inner_n blk \<le> length xs"
  shows "\<exists>blk'. floats_to_mantissa w sched xs q blk = Some blk' \<and> fp_wf blk' \<and> same_params blk' blk
     \<and> (\<forall>l<outer_n blk. \<forall>b<blocks_n blk. precisions blk' ! fpos blk l b = used_bits w q blk l b
          \<and> (\<forall>j<bend blk b - bstart blk b.
               mantissa blk' ! epos blk l (bstart blk b + j) = quant_value w xs q blk l b j))"
proof -
  have sh: "fp_shape blk" using assms(1) by (simp add: fp_wf_def)
  obtain ps where ps: "distinct ps" "set ps = {..<outer_n blk} \<times> {..<blocks_n blk}" and
    e: "floats_to_mantissa w sched xs q blk = Some (fold (set_block w xs q blk) ps blk)"
    using floats_to_mantissa_eq [OF assms] by blast
  let ?b = "fold (set_block w xs q blk) ps blk"
  have keep: "fp_wf (fold (set_block w xs q blk) rs c) = fp_wf c" "same_params (fold (set_block w xs q blk) rs c) blk = same_params c blk" for rs c
    by (induction rs arbitrary: c) (simp_all add: set_block_keeps)
  have prec: "precisions ?b ! fpos blk l b = used_bits w q blk l b" if "l < outer_n blk" "b < blocks_n blk" for l b
  proof -
    have "distinct (map fst (map (\<lambda>(l, b). (fpos blk l b, used_bits w q blk l b)) ps))"
    proof -
      have "inj_on (\<lambda>(l, b). fpos blk l b) (set ps)" unfolding ps(2) by (auto simp: inj_on_def dest: fpos_inj)
      then show ?thesis using ps(1) by (auto simp: distinct_map inj_on_def split_beta)
    qed
    moreover have "(fpos blk l b, used_bits w q blk l b) \<in> set (map (\<lambda>(l, b). (fpos blk l b, used_bits w q blk l b)) ps)"
      using that ps(2) by force
    moreover have "fpos blk l b < length (precisions blk)"
      using fpos_less [OF that] assms(1) by (simp add: fp_wf_def)
    ultimately show ?thesis unfolding fold_set_block by (simp add: write_all_nth)
  qed
  have mant: "mantissa ?b ! epos blk l (bstart blk b + j) = quant_value w xs q blk l b j"
    if "l < outer_n blk" "b < blocks_n blk" "j < bend blk b - bstart blk b" for l b j
    using write_blocks_nth [OF sh ps _ that, of "mantissa blk" "block_writes w xs q blk"] assms(1)
    unfolding fold_set_block by (simp add: fp_wf_def block_writes_def)
  show ?thesis using e keep assms(1) prec mant by (auto simp: same_params_def)
qed

lemma floats_to_mantissa_schedule:
  assumes "fp_wf blk" "quant_ok w q blk" "outer_n blk * inner_n blk \<le> length xs" "schedule_ok sched" "schedule_ok sched'"
  shows "floats_to_mantissa w sched xs q blk = floats_to_mantissa w sched' xs q blk"
proof -
  have sh: "fp_shape blk" using assms(1) by (simp add: fp_wf_def)
  obtain ps where ps: "distinct ps" "set ps = {..<outer_n blk} \<times> {..<blocks_n blk}" and
    e: "floats_to_mantissa w sched xs q blk = Some (fold (set_block w xs q blk) ps blk)"
    using floats_to_mantissa_eq [OF assms(1,4,2,3)] by blast
  obtain qs where qs: "distinct qs" "set qs = {..<outer_n blk} \<times> {..<blocks_n blk}" and
    e': "floats_to_mantissa w sched' xs q blk = Some (fold (set_block w xs q blk) qs blk)"
    using floats_to_mantissa_eq [OF assms(1,5,2,3)] by blast
  have "inj_on (\<lambda>(l, b). fpos blk l b) (set ps)" unfolding ps(2) by (auto simp: inj_on_def dest: fpos_inj)
  then have "distinct (map fst (map (\<lambda>(l, b). (fpos blk l b, used_bits w q blk l b)) rs))" if "distinct rs" "set rs = set ps" for rs
    using that by (auto simp: distinct_map inj_on_def split_beta)
  then have "write_all (map (\<lambda>(l, b). (fpos blk l b, used_bits w q blk l b)) ps) (precisions blk)
      = write_all (map (\<lambda>(l, b). (fpos blk l b, used_bits w q blk l b)) qs) (precisions blk)"
    using ps qs by (intro write_all_perm) auto
  moreover have "write_all (concat (map (block_writes w xs q blk) ps)) (mantissa blk)
      = write_all (concat (map (block_writes w xs q blk) qs)) (mantissa blk)"
    using ps qs block_positions_distinct [OF sh, of _ "block_writes w xs q blk"] by (intro write_all_perm) (auto simp: block_writes_fst)
  ultimately show ?thesis unfolding e e' fold_set_block by simp
qed

end
