(* ===== verification/FixedPointProps.thy ===== *)
theory FixedPointProps
  imports FixedPointQuant
begin

text \<open>
  The properties of the block format: what quantisation and dequantisation compute on every element,
  when they are defined, the precision search, and how much of a block a round trip keeps.
\<close>

section \<open>Dequantisation\<close>

definition dequant_value :: "(int \<Rightarrow> int \<Rightarrow> f32) \<Rightarrow> (f32 \<Rightarrow> f32) \<Rightarrow> FixedPointBlock \<Rightarrow> nat \<Rightarrow> nat \<Rightarrow> nat \<Rightarrow> f32" where
  "dequant_value scale offset blk l b k =
     f32_add (f32_mul (f32_of_int (mantissa blk ! epos blk l k))
                (scale (exponents blk ! fpos blk l b) (precisions blk ! fpos blk l b)))
             (offset (means blk ! fpos blk l b))"

definition dequant_writes :: "(int \<Rightarrow> int \<Rightarrow> f32) \<Rightarrow> (f32 \<Rightarrow> f32) \<Rightarrow> FixedPointBlock \<Rightarrow> nat \<times> nat \<Rightarrow> (nat \<times> f32) list" where
  "dequant_writes scale offset blk = (\<lambda>(l, b).
     map (\<lambda>j. (epos blk l (bstart blk b + j), dequant_value scale offset blk l b (bstart blk b + j)))
       [0..<bend blk b - bstart blk b])"

lemma dequantise_block_eq:
  assumes "fp_wf blk" "outer_n blk * inner_n blk \<le> length out" "l < outer_n blk" "b < blocks_n blk"
  shows "dequantise_block scale offset blk (int (blocks_n blk)) (int l) (int b) out
    = Some (write_all (dequant_writes scale offset blk (l, b)) out)"
proof -
  have sh: "fp_shape blk" using assms(1) by (simp add: fp_wf_def)
  note se = start_end_eq [OF sh assms(4)]
  have f: "fpos blk l b < length (exponents blk)" "fpos blk l b < length (means blk)" "fpos blk l b < length (precisions blk)"
    using fpos_less [OF assms(3,4)] assms(1) by (simp_all add: fp_wf_def)
  let ?v = "dequant_value scale offset blk l b" and ?r = "[bstart blk b..<bend blk b]"
  have k: "k < inner_n blk" "epos blk l k < length (mantissa blk)" "epos blk l k < length out" if "k \<in> set ?r" for k
  proof -
    show "k < inner_n blk" using that se(4) by simp
    from epos_less [OF assms(3) this] show "epos blk l k < length (mantissa blk)" "epos blk l k < length out"
      using assms(1,2) by (simp_all add: fp_wf_def)
  qed
  have "loop_opt (\<lambda>k out. Option.bind (array_get (mantissa blk) (elem_idx blk (int l) (int k))) (\<lambda>x.
          array_set out (elem_idx blk (int l) (int k))
            (f32_add (f32_mul (f32_of_int x) (scale (exponents blk ! fpos blk l b) (precisions blk ! fpos blk l b)))
               (offset (means blk ! fpos blk l b))))) ?r out
      = loop_opt (\<lambda>k out. array_set out (int (epos blk l k)) (?v k)) ?r out"
    using k by (intro loop_opt_cong) (simp add: elem_idx_eq [OF sh assms(3)] dequant_value_def)
  also have "\<dots> = Some (write_all (map (\<lambda>k. (epos blk l k, ?v k)) ?r) out)"
    using k(3) by (intro loop_opt_write) simp
  also have "map (\<lambda>k. (epos blk l k, ?v k)) ?r = dequant_writes scale offset blk (l, b)"
    by (rule nth_equalityI) (simp_all add: dequant_writes_def)
  finally show ?thesis
    unfolding dequantise_block_def Let_def se(1,2) block_flat_idx_eq [OF sh assms(3,4)] upto_int_upt loop_opt_map
      array_get_nat [OF f(1)] array_get_nat [OF f(2)] array_get_nat [OF f(3)] bind.bind_lunit .
qed

lemma dequantise_eq:
  assumes "fp_wf blk" "schedule_ok sched" "outer_n blk * inner_n blk \<le> length out"
  shows "\<exists>ps. distinct ps \<and> set ps = {..<outer_n blk} \<times> {..<blocks_n blk}
     \<and> dequantise scale offset sched blk out = Some (write_all (concat (map (dequant_writes scale offset blk) ps)) out)"
proof -
  have sh: "fp_shape blk" using assms(1) by (simp add: fp_wf_def)
  let ?t = "omp_threads sched (outer_count blk > 1) (outer_count blk)" and ?n = "blocks_n blk"
  let ?f = "\<lambda>p. write_all (dequant_writes scale offset blk p)"
  note sp = schedule_pairs [OF sh assms(2)]
  have line: "loop_opt (dequantise_block scale offset blk (int ?n) l) [0..int ?n - 1] s
      = Some (fold ?f (map (Pair (nat l)) [0..<?n]) s) \<and> length (fold ?f (map (Pair (nat l)) [0..<?n]) s) = length out"
    if l: "l \<in> set (concat ?t)" and s: "length s = length out" for l s
  proof -
    have "l \<in> {0..<int (outer_n blk)}" using l sp(1) by blast
    then have lo: "0 \<le> l" "nat l < outer_n blk" by auto
    have "loop_opt (\<lambda>b. dequantise_block scale offset blk (int ?n) l (int b)) [0..<?n] s
        = Some (fold (\<lambda>b. ?f (nat l, b)) [0..<?n] s) \<and> length (fold (\<lambda>b. ?f (nat l, b)) [0..<?n] s) = length out"
    proof (rule loop_opt_fold [where P = "\<lambda>s. length s = length out"])
      show "length s = length out" by (rule s)
    next
      fix b and t :: "f32 list" assume "b \<in> set [0..<?n]" "length t = length out"
      then show "dequantise_block scale offset blk (int ?n) l (int b) t = Some (?f (nat l, b) t)
          \<and> length (?f (nat l, b) t) = length out"
        using dequantise_block_eq [OF assms(1) _ lo(2), of t b scale offset] lo(1) assms(3) by simp
    qed
    then show ?thesis unfolding upto_0_int loop_opt_map by (simp add: fold_map comp_def)
  qed
  have "dequantise scale offset sched blk out = Some (fold ?f (line_pairs ?n (concat ?t)) out)"
    using omp_for_unit [where P = "\<lambda>s. length s = length out" and f = "\<lambda>l. fold ?f (map (Pair (nat l)) [0..<?n])" and threads = ?t
        and s = out and body = "\<lambda>l. loop_opt (dequantise_block scale offset blk (int ?n) l) [0..int ?n - 1]", OF line]
    unfolding fold_line_pairs dequantise_def num_blocks_count_eq [OF sh] bind.bind_lunit by blast
  then show ?thesis using sp(2,3) unfolding fold_write_all by blast
qed

lemma dequantise_result:
  assumes "fp_wf blk" "schedule_ok sched" "outer_n blk * inner_n blk \<le> length out"
  shows "\<exists>out'. dequantise scale offset sched blk out = Some out' \<and> length out' = length out
     \<and> (\<forall>l<outer_n blk. \<forall>k<inner_n blk. out' ! epos blk l k = dequant_value scale offset blk l (k div bs_n blk) k)
     \<and> (\<forall>i. outer_n blk * inner_n blk \<le> i \<longrightarrow> i < length out \<longrightarrow> out' ! i = out ! i)"
proof -
  have sh: "fp_shape blk" using assms(1) by (simp add: fp_wf_def)
  obtain ps where ps: "distinct ps" "set ps = {..<outer_n blk} \<times> {..<blocks_n blk}" and
    e: "dequantise scale offset sched blk out = Some (write_all (concat (map (dequant_writes scale offset blk) ps)) out)"
      (is "_ = Some ?out")
    using dequantise_eq [OF assms] by blast
  have in_range: "?out ! epos blk l k = dequant_value scale offset blk l (k div bs_n blk) k"
    if "l < outer_n blk" "k < inner_n blk" for l k
  proof -
    let ?b = "k div bs_n blk"
    note b = block_of_elem [OF fp_shapeD(1) [OF sh] that(2)]
    have "?out ! epos blk l (bstart blk ?b + (k - bstart blk ?b)) = dequant_value scale offset blk l ?b (bstart blk ?b + (k - bstart blk ?b))"
      using b by (intro write_blocks_nth [OF sh ps assms(3) that(1)]) (simp_all add: dequant_writes_def)
    then show ?thesis using b(2) by simp
  qed
  have beyond: "?out ! i = out ! i" if "outer_n blk * inner_n blk \<le> i" for i
  proof (rule write_all_other)
    have "epos blk l (bstart blk b + j) < i" if "l < outer_n blk" "b < blocks_n blk" "j < bend blk b - bstart blk b" for l b j
      using epos_block(2) [OF sh that] \<open>outer_n blk * inner_n blk \<le> i\<close> by linarith
    then show "i \<notin> fst ` set (concat (map (dequant_writes scale offset blk) ps))"
      using ps(2) by (fastforce simp: dequant_writes_def)
  qed
  show ?thesis using e in_range beyond by simp
qed


section \<open>When quantisation is defined\<close>

lemma loop_opt_ran:
  assumes "loop_opt body is s = Some t" "P s" "i \<in> set is"
    and "\<And>i s t. P s \<Longrightarrow> body i s = Some t \<Longrightarrow> P t"
  shows "\<exists>s t. P s \<and> body i s = Some t"
  using assms
proof (induction "is" arbitrary: s)
  case (Cons j "is")
  from Cons.prems(1) obtain u where u: "body j s = Some u" "loop_opt body is u = Some t"
    by (auto split: bind_splits)
  show ?case
  proof (cases "i = j")
    case True
    then show ?thesis using u(1) Cons.prems(2) by blast
  next
    case False
    then show ?thesis using Cons.IH [OF u(2) Cons.prems(4) [OF Cons.prems(2) u(1)]] Cons.prems(3,4) by simp
  qed
qed simp

lemma omp_for_ran:
  assumes "omp_for threads body combine neutral (s, g) = Some r" "P s" "i \<in> set (concat threads)"
    and step: "\<And>i s p s' p'. P s \<Longrightarrow> body i (s, p) = Some (s', p') \<Longrightarrow> P s'"
  shows "\<exists>s p r. P s \<and> body i (s, p) = Some r"
proof -
  have keep: "P (fst r)" if "loop_opt body is (s, p) = Some r" "P s" for "is" s p r
    using loop_opt_invariant [OF that(1), of "\<lambda>x. P (fst x)"] step that(2) by fastforce
  let ?run = "\<lambda>is (s, g). map_option (\<lambda>(s', p). (s', combine g p)) (loop_opt body is (s, neutral))"
  obtain chunk where c: "chunk \<in> set threads" "i \<in> set chunk" using assms(3) by auto
  have "\<exists>x y. P (fst x) \<and> ?run chunk x = Some y"
    using assms(1,2) c(1) keep unfolding omp_for_def
    by (intro loop_opt_ran [where body = ?run and P = "\<lambda>x. P (fst x)" and s = "(s, g)"])
      (auto simp: split_beta)
  then obtain x y where x: "P (fst x)" "loop_opt body chunk (fst x, neutral) = Some y" by (auto simp: split_beta)
  from loop_opt_ran [OF x(2), of "\<lambda>x. P (fst x)" i] show ?thesis using x(1) c(2) step by fastforce
qed

lemma quantise_block_defined:
  assumes "quantise_block w xs q nb outer bi blk = Some blk'"
  shows "same_params blk' blk0 = same_params blk blk0"
  using assms by (auto simp: quantise_block_def Let_def same_params_def fp_dims_def split: bind_splits)

lemma quantise_block_mean:
  assumes "quantise_block w xs q (int (blocks_n blk0)) (int l) (int b) blk = Some blk'" "fp_wf blk0" "same_params blk blk0"
    and "l < outer_n blk0" "b < blocks_n blk0"
  shows "integer_mean w q blk0 l b \<noteq> None \<and> nat (used_bits w q blk0 l b) < 32"
proof -
  have p: "fp_dims blk = fp_dims blk0" "exponents blk = exponents blk0" "means blk = means blk0" "std_devs blk = std_devs blk0"
    using assms(3) by (auto simp: same_params_def)
  note d = fp_dims_cong [OF p(1)]
  have sh: "fp_shape blk" using assms(2) by (simp add: fp_wf_def d)
  have l: "l < outer_n blk" and b: "b < blocks_n blk" using assms(4,5) by (simp_all add: d)
  have f: "fpos blk l b < length (exponents blk)" "fpos blk l b < length (means blk)" "fpos blk l b < length (std_devs blk)"
    using fpos_less [OF assms(4,5)] assms(2) unfolding p d by (simp_all add: fp_wf_def)
  note se = start_end_eq [OF sh b]
  have cnt: "int (bend blk b) - int (bstart blk b) = int (bend blk b - bstart blk b)" using se(3) by simp
  have "integer_mean w q blk l b \<noteq> None \<and> nat (used_bits w q blk l b) < 32"
    using assms(1) unfolding d(4) [symmetric]
    by (auto simp: quantise_block_def Let_def se(1,2) cnt block_flat_idx_eq [OF sh l b] f integer_mean_def mean_float_def
        used_exponent_def used_bits_def store_row_block_def store_column_block_def stochastic_round_array_def
        split: bind_splits if_splits)
  then show ?thesis by (simp add: same_params_cong [OF assms(3)])
qed


lemma used_bits_pos: "2 \<le> w \<Longrightarrow> 1 \<le> used_bits w q blk l b"
  using precision_loop_spec [of "int w - 1"] by (auto simp: used_bits_def fitted_precision_def)

lemma floats_to_mantissa_needs:
  assumes "fp_wf blk" "schedule_ok sched" "2 \<le> w" "floats_to_mantissa w sched xs q blk = Some blk'"
  shows "quant_ok w q blk"
proof -
  have sh: "fp_shape blk" using assms(1) by (simp add: fp_wf_def)
  let ?t = "omp_threads sched (outer_count blk > 1) (outer_count blk)" and ?n = "blocks_n blk"
  let ?P = "\<lambda>s. same_params s blk"
  let ?body = "\<lambda>outer (blk, u :: unit). map_option (\<lambda>b. (b, u)) (loop_opt (quantise_block w xs q (int ?n) outer) [0..int ?n - 1] blk)"
  have line: "?P s'" if "?P s" "loop_opt (quantise_block w xs q (int ?n) i) js s = Some s'" for i js s s'
    using loop_opt_invariant [OF that(2), of ?P] that(1) quantise_block_defined by blast
  obtain r where r: "omp_for ?t ?body (\<lambda>_ _. ()) () (blk, ()) = Some r"
    using assms(4) unfolding floats_to_mantissa_def num_blocks_count_eq [OF sh] bind.bind_lunit by auto
  have "integer_mean w q blk l b \<noteq> None \<and> nat (used_bits w q blk l b) < 32" if l: "l < outer_n blk" and b: "b < ?n" for l b
  proof -
    have "int l \<in> set (concat ?t)" unfolding schedule_pairs(1) [OF sh assms(2)] using l by simp
    have "\<exists>s p r. ?P s \<and> ?body (int l) (s, p) = Some r"
    proof (rule omp_for_ran [where P = ?P and body = ?body, OF r])
      show "?P blk" by (simp add: same_params_def)
      show "int l \<in> set (concat ?t)" by fact
      show "?P s'" if "?P s" "?body i (s, p) = Some (s', p')" for i s p s' p' using line that by auto
    qed
    then obtain s s' where
      s: "?P s" "loop_opt (quantise_block w xs q (int ?n) (int l)) [0..int ?n - 1] s = Some s'" by auto
    have "int b \<in> set [0..int ?n - 1]" using b by simp
    from loop_opt_ran [OF s(2), of ?P, OF s(1) this] quantise_block_defined obtain t t' where
      "?P t" "quantise_block w xs q (int ?n) (int l) (int b) t = Some t'" by blast
    then show ?thesis using quantise_block_mean assms(1) l b by blast
  qed
  moreover have "0 \<le> used_bits w q blk l b \<and> (nat (used_bits w q blk l b) < 32 \<longrightarrow> used_bits w q blk l b < 32)" for l b
    using used_bits_pos [OF assms(3), of q blk l b] by linarith
  ultimately show ?thesis unfolding quant_ok_def by blast
qed

section \<open>Scaled elements are below one\<close>

lemma bit_len_sig: "0 < f32_sig x \<Longrightarrow> (2 :: real) powi (int (bit_len (f32_sig x)) - 1 + e) \<le> real (f32_sig x) * 2 powi e"
proof -
  assume pos: "0 < f32_sig x"
  have "2 ^ bit_len (f32_sig x) \<le> 2 * f32_sig x" by (rule bit_len_ge [OF pos])
  then have "real (2 ^ bit_len (f32_sig x)) \<le> real (2 * f32_sig x)" by (rule of_nat_mono)
  then have "(2 :: real) powi int (bit_len (f32_sig x)) / 2 \<le> real (f32_sig x)" by (simp add: power_int_of_nat)
  then have "(2 :: real) powi (int (bit_len (f32_sig x)) - 1) \<le> real (f32_sig x)" by (simp add: power_int_diff)
  then show ?thesis by (simp add: power_int_add mult_right_mono)
qed

lemma f32_scale_less_one:
  assumes "f32_finite x" "- 126 \<le> shift" "shift \<le> 127" "\<bar>f32_val x\<bar> * 2 powi shift < 1"
  shows "\<bar>f32_val (f32_mul x (fast_pow2 shift))\<bar> < 1"
proof (cases "f32_sig x = 0")
  case True
  note y = fast_pow2_val [OF assms(2,3)]
  have "f32_mul x (fast_pow2 shift) = f32_zero (f32_sign x \<noteq> f32_sign (fast_pow2 shift))"
    using assms(1) y(2) True by (simp add: f32_mul_def Let_def f32_round_def)
  then show ?thesis by (simp add: f32_val_def f32_sig_def f32_exp_mag f32_frac_mag)
next
  case False
  have e: "\<bar>f32_val x\<bar> * 2 powi shift = real (f32_sig x) * 2 powi (f32_lexp x + shift)"
    by (simp add: f32_abs_val power_int_add)
  have "(2 :: real) powi (int (bit_len (f32_sig x)) - 1 + (f32_lexp x + shift)) < 1"
    using bit_len_sig [of x "f32_lexp x + shift"] False assms(4) unfolding e by simp
  then have neg: "int (bit_len (f32_sig x)) - 1 + (f32_lexp x + shift) < 0"
    using one_le_power_int [of "2 :: real" "int (bit_len (f32_sig x)) - 1 + (f32_lexp x + shift)"] by fastforce
  show ?thesis
  proof (cases "- 149 \<le> f32_lexp x + shift")
    case True
    then have "f32_val (f32_mul x (fast_pow2 shift)) = f32_val x * 2 powi shift"
      using assms(1-3) neg by (intro f32_mul_fast_pow2) simp_all
    then show ?thesis using assms(4) by (simp add: abs_mult)
  next
    case tiny: False
    note y = fast_pow2_val [OF assms(2,3)]
    let ?m = "f32_sig x * 2 ^ 23" and ?e = "f32_lexp x + (shift - 23)"
    let ?s = "f32_sign x \<noteq> f32_sign (fast_pow2 shift)"
    have mul: "f32_mul x (fast_pow2 shift) = f32_round ?s ?m ?e"
      using assms(1) y(2,3,4) by (simp add: f32_mul_def Let_def)
    have "?m < 2 ^ 47" using f32_sig_less [of x] by simp
    then have len: "bit_len ?m \<le> 47" by (simp add: bit_len_le_iff)
    then have top: "?e + int (bit_len ?m) \<le> - 126" using tiny by simp
    then have ulp: "f32_ulp_exp ?m ?e = - 149" by (simp add: f32_ulp_exp_def)
    have "real ?m * 2 powi ?e = \<bar>f32_val x\<bar> * 2 powi shift"
      unfolding f32_abs_val by (simp add: power_int_add power_int_diff)
    also have "\<dots> = real (f32_sig x) * 2 powi (f32_lexp x + shift)" by (rule e)
    also have "\<dots> \<le> 2 ^ 24 * 2 powi (- 150)"
      using tiny less_imp_le [OF f32_sig_less [of x]] by (intro mult_mono power_int_increasing) simp_all
    also have "\<dots> \<le> 1 / 2" by (simp add: power_int_minus)
    finally have half: "real ?m * 2 powi ?e \<le> 1 / 2" .
    have "\<bar>f32_val (f32_round ?s ?m ?e) - sgn_of ?s * (real ?m * 2 powi ?e)\<bar> \<le> 2 powi (- 149 - 1)"
      using f32_round_error [of ?m ?e ?s] False top unfolding ulp by simp
    also have "\<dots> < 1 / 2" by (simp add: power_int_minus)
    finally have "\<bar>f32_val (f32_round ?s ?m ?e)\<bar> < \<bar>sgn_of ?s * (real ?m * 2 powi ?e)\<bar> + 1 / 2" by linarith
    also have "\<bar>sgn_of ?s * (real ?m * 2 powi ?e)\<bar> = real ?m * 2 powi ?e" by (simp add: abs_mult)
    finally show ?thesis using half unfolding mul by linarith
  qed
qed

lemma round_elem_unit:
  assumes "\<bar>f32_val x\<bar> < 1" "p \<le> 30" "2 \<le> w"
  shows "round_elem w p x noise \<in> {- 1, 0, 1}"
proof (cases "f32_exp x = 0")
  case True
  then have "drop_bit 23 (x AND 0x7FFFFFFF) AND (0xFF :: u32) = 0"
    by (simp add: f32_exp_def unat_eq_zero)
  then have "snd (process_single_stochastic_round w x noise p (mask p))"
    by (simp add: process_single_stochastic_round_def Let_def)
  then show ?thesis by (simp add: round_elem_def split_beta Let_def)
next
  case False
  have "\<bar>f32_val x\<bar> * 2 ^ p < 1 * 2 ^ p" using assms(1) by (intro mult_strict_right_mono) simp_all
  then have "\<lfloor>\<bar>f32_val x\<bar> * 2 ^ p\<rfloor> < 2 ^ p" by (simp add: floor_less_iff)
  then have F: "fixed_value x p < 2 ^ p" by (simp add: fixed_value_def nat_less_iff)
  have "(2 :: nat) ^ p \<le> 1073741824" using power_increasing [of p 30 "2 :: nat"] assms(2) by simp
  then have fits: "fixed_value x p + 2 ^ p \<le> 2 ^ 31" using F by simp
  have "unat noise mod 2 ^ p < 2 ^ p" by simp
  then have "(fixed_value x p + unat noise mod 2 ^ p) div 2 ^ p < 2"
    using F by (intro less_mult_imp_div_less) linarith
  define k where "k = (if f32_sign x then - 1 else 1) * int ((fixed_value x p + unat noise mod 2 ^ p) div 2 ^ p)"
  have "int ((fixed_value x p + unat noise mod 2 ^ p) div 2 ^ p) \<in> {0, 1}"
    using \<open>(fixed_value x p + unat noise mod 2 ^ p) div 2 ^ p < 2\<close> by (simp only: insert_iff empty_iff) linarith
  then have k: "k \<in> {- 1, 0, 1}" by (auto simp: k_def)
  have "(2 :: int) ^ 1 \<le> 2 ^ (w - 1)" using assms(3) by (intro power_increasing) simp_all
  then have "wrap_int w k = k" using k assms(3) by (intro wrap_int_id) auto
  moreover have "round_elem w p x noise = wrap_int w k"
    unfolding k_def using process_single_value [of x p w noise] False fits by (simp add: round_elem_def)
  ultimately show ?thesis using k by simp
qed


section \<open>Properties\<close>

text \<open>
  C19: The precision search stops, with a precision between 1 and the width of the type less one; it
  is the largest precision whose estimated deviation fits the accumulator, or 1 when none does.
\<close>

theorem fitted_precision_largest:
  assumes "2 \<le> w" and "p = fitted_precision w z_sigma other_exponent other_std_dev std e count"
    and "overflows = does_not_fit z_sigma count other_std_dev other_exponent (f32_div std (fast_pow2 e))"
  shows "1 \<le> p \<and> p \<le> int w - 1 \<and> (p = 1 \<or> \<not> overflows p) \<and> (\<forall>m. p < m \<longrightarrow> m \<le> int w - 1 \<longrightarrow> overflows m)"
  using precision_loop_spec [of "int w - 1" overflows] assms by (simp add: fitted_precision_def)

theorem fitted_precision_largest_witness:
  "1 \<le> fitted_precision 16 0x40400000 8 0x3F000000 0x3F800000 1 64
   \<and> fitted_precision 16 0x40400000 8 0x3F000000 0x3F800000 1 64 \<le> 15"
  using fitted_precision_largest [OF _ refl refl, of 16 "0x40400000" 8 "0x3F000000" "0x3F800000" 1 64] by simp

text \<open>
  C17: \<open>floats_to_mantissa\<close> on a well-formed block succeeds inside its arrays, keeps the exponents,
  means and deviations, stores one precision per block, and stores for the \<open>j\<close>-th element of a block
  the stochastic rounding of the element times \<open>2 ^ - e\<close>, with the noise of place \<open>j\<close>, less the
  rounded mean, in the integer type; the result is the same for every schedule.
\<close>

theorem floats_to_mantissa_elementwise:
  assumes "fp_wf blk" and "schedule_ok sched" and "quant_ok w q blk" and "outer_n blk * inner_n blk \<le> length xs"
  shows "\<exists>blk'. (\<forall>s. schedule_ok s \<longrightarrow> floats_to_mantissa w s xs q blk = Some blk')
     \<and> fp_wf blk' \<and> same_params blk' blk
     \<and> (\<forall>l<outer_n blk. \<forall>b<blocks_n blk. precisions blk' ! fpos blk l b = used_bits w q blk l b
          \<and> (\<forall>j<bend blk b - bstart blk b.
               mantissa blk' ! epos blk l (bstart blk b + j) =
                 wrap_int w (round_elem w (nat (used_bits w q blk l b))
                     (f32_mul (xs ! epos blk l (bstart blk b + j)) (fast_pow2 (i32 (- used_exponent q blk l b))))
                     (noise_at (bend blk b - bstart blk b) j)
                   - the (f32_to_int w (f32_cround (mean_float w q blk l b))))))"
proof -
  obtain blk' where r: "floats_to_mantissa w sched xs q blk = Some blk'" "fp_wf blk'" "same_params blk' blk"
    "\<forall>l<outer_n blk. \<forall>b<blocks_n blk. precisions blk' ! fpos blk l b = used_bits w q blk l b
       \<and> (\<forall>j<bend blk b - bstart blk b. mantissa blk' ! epos blk l (bstart blk b + j) = quant_value w xs q blk l b j)"
    using floats_to_mantissa_result [OF assms] by blast
  have "\<forall>s. schedule_ok s \<longrightarrow> floats_to_mantissa w s xs q blk = Some blk'"
    using floats_to_mantissa_schedule [OF assms(1,3,4) _ assms(2)] r(1) by metis
  moreover have "quant_value w xs q blk l b j = wrap_int w (round_elem w (nat (used_bits w q blk l b))
       (f32_mul (xs ! epos blk l (bstart blk b + j)) (fast_pow2 (i32 (- used_exponent q blk l b))))
       (noise_at (bend blk b - bstart blk b) j) - the (f32_to_int w (f32_cround (mean_float w q blk l b))))"
    if "j < bend blk b - bstart blk b" for l b j
    using that by (simp add: quant_value_def scaled_vals_def integer_mean_def block_vals_def)
  ultimately show ?thesis using r by auto
qed

text \<open>
  C18: The conversions of \<open>floats_to_mantissa\<close> are defined exactly when every block's rounded mean fits
  the mantissa type and every shift is below 32: a mean outside the type makes the whole call
  undefined, whatever the schedule.
\<close>

theorem floats_to_mantissa_defined_iff:
  assumes "fp_wf blk" and "schedule_ok sched" and "outer_n blk * inner_n blk \<le> length xs" and "2 \<le> w"
  shows "floats_to_mantissa w sched xs q blk \<noteq> None \<longleftrightarrow>
     (\<forall>l<outer_n blk. \<forall>b<blocks_n blk. f32_to_int w (f32_cround (mean_float w q blk l b)) \<noteq> None
        \<and> used_bits w q blk l b < 32)"
proof -
  have ok: "quant_ok w q blk \<longleftrightarrow> (\<forall>l<outer_n blk. \<forall>b<blocks_n blk.
      f32_to_int w (f32_cround (mean_float w q blk l b)) \<noteq> None \<and> used_bits w q blk l b < 32)"
    using order_trans [OF _ used_bits_pos [OF assms(4)], of 0 q blk] unfolding quant_ok_def integer_mean_def by auto
  show ?thesis
    unfolding ok [symmetric]
    using floats_to_mantissa_needs [OF assms(1,2,4)] floats_to_mantissa_result [OF assms(1,2) _ assms(3)] by blast
qed

text \<open>
  \<open>mantissa_to_floats\<close> on a well-formed block writes \<open>mantissa * 2 ^ (exponent - precision) + mean\<close> to
  every element of the matrix, with the parameters of the element's block, for every schedule, and
  nothing past the matrix.
\<close>

theorem mantissa_to_floats_elementwise:
  assumes "fp_wf blk" and "schedule_ok sched" and "outer_n blk * inner_n blk \<le> length out"
  shows "\<exists>out'. mantissa_to_floats sched blk out = Some out' \<and> length out' = length out
     \<and> (\<forall>l<outer_n blk. \<forall>k<inner_n blk.
          out' ! epos blk l k =
            f32_add (f32_mul (f32_of_int (mantissa blk ! epos blk l k))
                       (fast_pow2 (i32 (exponents blk ! fpos blk l (k div bs_n blk) - precisions blk ! fpos blk l (k div bs_n blk)))))
                    (means blk ! fpos blk l (k div bs_n blk)))
     \<and> (\<forall>i. outer_n blk * inner_n blk \<le> i \<longrightarrow> i < length out \<longrightarrow> out' ! i = out ! i)"
  using dequantise_result [OF assms] unfolding mantissa_to_floats_def dequant_value_def .

text \<open>
  \<open>mantissa_to_floats_product\<close> writes the same with the scale and the mean of the product: both
  are divided by \<open>2 ^ other_exponent\<close>.
\<close>

theorem mantissa_to_floats_product_elementwise:
  assumes "fp_wf blk" and "schedule_ok sched" and "outer_n blk * inner_n blk \<le> length out"
  shows "\<exists>out'. mantissa_to_floats_product sched blk out oe = Some out' \<and> length out' = length out
     \<and> (\<forall>l<outer_n blk. \<forall>k<inner_n blk.
          out' ! epos blk l k =
            f32_add (f32_mul (f32_of_int (mantissa blk ! epos blk l k))
                       (fast_pow2 (i32 (i32 (exponents blk ! fpos blk l (k div bs_n blk) - precisions blk ! fpos blk l (k div bs_n blk)) - oe))))
                    (f32_mul (means blk ! fpos blk l (k div bs_n blk)) (fast_pow2 (i32 (- oe)))))
     \<and> (\<forall>i. outer_n blk * inner_n blk \<le> i \<longrightarrow> i < length out \<longrightarrow> out' ! i = out ! i)"
  using dequantise_result [OF assms] unfolding mantissa_to_floats_product_def dequant_value_def .

theorem mantissa_to_floats_elementwise_witness:
  "\<exists>out'. mantissa_to_floats one_thread_each small_block [0, 0, 0, 0, 7] = Some out' \<and> length out' = 5 \<and> out' ! 4 = 7"
  using mantissa_to_floats_elementwise [OF small_block_shape(1) schedules_ok(2), of "[0, 0, 0, 0, 7]"]
  by (force simp: small_block_shape)

theorem mantissa_to_floats_product_elementwise_witness:
  "\<exists>out'. mantissa_to_floats_product sequential small_block [0, 0, 0, 0, 7] 8 = Some out' \<and> length out' = 5 \<and> out' ! 4 = 7"
  using mantissa_to_floats_product_elementwise [OF small_block_shape(1) schedules_ok(1), of "[0, 0, 0, 0, 7]" 8]
  by (force simp: small_block_shape)

lemma small_block_quant: "quant_ok 16 (quant_default 0 8) small_block"
proof -
  have "f32_to_int 16 (f32_cround (f32_mul 9 (fast_pow2 (i32 (i32 (- 9) + 8))))) = Some 0"
    by (simp add: i32_id f32_eval fast_pow2_def)
  then have "integer_mean 16 (quant_default 0 8) small_block l 0 = Some 0" if "l = 0 \<or> l = 1" for l
    using that by (auto simp: integer_mean_def mean_float_def used_exponent_def used_bits_def quant_default_def
        fpos_def small_block_shape) (auto simp: small_block_def)
  then show ?thesis by (auto simp: quant_ok_def small_block_shape less_2_cases_iff used_bits_def quant_default_def)
qed

theorem floats_to_mantissa_elementwise_witness:
  "\<exists>blk'. floats_to_mantissa 16 one_thread_each small_values (quant_default 0 8) small_block = Some blk'
     \<and> precisions blk' ! 0 = 8"
proof -
  have "used_bits 16 (quant_default 0 8) small_block 0 0 = 8" by (simp add: used_bits_def quant_default_def)
  then show ?thesis
    using floats_to_mantissa_elementwise [OF small_block_shape(1) schedules_ok(2) small_block_quant, of small_values]
      schedules_ok(2) by (fastforce simp: small_block_shape)
qed

theorem floats_to_mantissa_defined_iff_witness:
  "floats_to_mantissa 16 sequential small_values (quant_default 0 8) small_block \<noteq> None"
  using floats_to_mantissa_defined_iff [OF small_block_shape(1) schedules_ok(1), of small_values 16 "quant_default 0 8"]
    small_block_quant by (simp add: quant_ok_def integer_mean_def small_block_shape)

end
