(* ===== verification/FixedPointRange.thy ===== *)
theory FixedPointRange
  imports FixedPointProps
begin

text \<open>
  The numeric range of a fitted and quantised block. Fitting scales every element below one before
  it is rounded to an integer, so the precision only refines the choice between two neighbouring
  integers: the rounded mantissas are \<open>- 1\<close>, \<open>0\<close> or \<open>1\<close>. Reading them back multiplies by
  \<open>2 ^ (exponent - precision)\<close>, so what a round trip keeps of a block besides its mean is a term of
  that size. The mean itself is scaled by the precision and leaves the range of 8 bits.
\<close>

section \<open>Fitted blocks\<close>

lemma fit_exponent_fields:
  assumes "fp_wf blk" "schedule_ok sched" "outer_n blk * inner_n blk \<le> length xs" "fit_exponent sched xs blk = Some b1"
  shows "fp_wf b1" "fp_dims b1 = fp_dims blk"
    "\<And>l b. l < outer_n blk \<Longrightarrow> b < blocks_n blk \<Longrightarrow> exponents b1 ! fpos blk l b = block_exponent (block_vals blk xs l b)
       \<and> means b1 ! fpos blk l b = block_mean (block_vals blk xs l b)"
proof -
  obtain ps m sd where ps: "distinct ps" "set ps = {..<outer_n blk} \<times> {..<blocks_n blk}" and
    e: "b1 = blk\<lparr>exponents := fit_arrays xs blk block_exponent ps (exponents blk),
           means := fit_arrays xs blk block_mean ps (means blk),
           std_devs := fit_arrays xs blk block_std ps (std_devs blk), mean := m, std_dev := sd\<rparr>"
    using fit_exponent_eq [OF assms(1-3)] assms(4) by auto
  show d: "fp_dims b1 = fp_dims blk" by (simp add: e fp_dims_def)
  show "fp_wf b1" using assms(1) fp_dims_cong [OF d] by (simp add: fp_wf_def e fit_arrays_def)
  show "exponents b1 ! fpos blk l b = block_exponent (block_vals blk xs l b)
       \<and> means b1 ! fpos blk l b = block_mean (block_vals blk xs l b)" if "l < outer_n blk" "b < blocks_n blk" for l b
    using assms(1) that by (simp add: e fp_wf_def fit_arrays_nth [OF ps])
qed

lemma scaled_unit:
  assumes "\<forall>x \<in> set vs. f32_finite x" "\<exists>x \<in> set vs. 0 < f32_exp x" "x \<in> set vs" "block_exponent vs \<le> 126"
  shows "\<bar>f32_val (f32_mul x (fast_pow2 (i32 (- block_exponent vs))))\<bar> < 1"
proof -
  let ?e = "block_exponent vs"
  have lo: "- 125 \<le> ?e" by (rule block_exponent_bounds(3) [OF assms(2)])
  then have i: "i32 (- ?e) = - ?e" using assms(4) by (intro i32_id) linarith+
  have "\<bar>f32_val x\<bar> * 2 powi (- ?e) < 2 powi ?e * 2 powi (- ?e)"
    using block_exponent_bounds(1) [OF assms(2)] assms(3) by (intro mult_strict_right_mono) simp_all
  also have "\<dots> = 1" by (simp add: power_int_minus)
  finally show ?thesis unfolding i using assms(1,3,4) lo by (intro f32_scale_less_one) simp_all
qed

text \<open>The rounded mantissa before the mean is subtracted.\<close>

lemma quant_value_unit:
  assumes "j < bend blk b - bstart blk b" "2 \<le> w"
    and "\<forall>x \<in> set (block_vals blk xs l b). f32_finite x" "\<exists>x \<in> set (block_vals blk xs l b). 0 < f32_exp x"
    and "block_exponent (block_vals blk xs l b) \<le> 126"
    and "used_exponent q blk l b = block_exponent (block_vals blk xs l b)" "used_bits w q blk l b \<le> 30"
  shows "\<exists>u \<in> {- 1, 0, 1}. quant_value w xs q blk l b j = wrap_int w (u - the (integer_mean w q blk l b))"
proof -
  let ?vs = "block_vals blk xs l b"
  have v: "scaled_vals xs q blk l b ! j = f32_mul (?vs ! j) (fast_pow2 (i32 (- block_exponent ?vs)))"
    using assms(1) by (simp add: scaled_vals_def assms(6))
  have "?vs ! j \<in> set ?vs" using assms(1) by simp
  then have "\<bar>f32_val (scaled_vals xs q blk l b ! j)\<bar> < 1"
    unfolding v using assms(3-5) by (intro scaled_unit)
  then have "round_elem w (nat (used_bits w q blk l b)) (scaled_vals xs q blk l b ! j) n \<in> {- 1, 0, 1}" for n
    using assms(2,7) by (intro round_elem_unit) simp_all
  then show ?thesis unfolding quant_value_def by blast
qed

lemma wrap_int_unit:
  assumes "2 \<le> w" "u \<in> {- 1, 0, 1}"
  shows "wrap_int w u = u"
proof -
  have "(2 :: int) ^ 1 \<le> 2 ^ (w - 1)" using assms(1) by (intro power_increasing) simp_all
  then show ?thesis using assms by (intro wrap_int_id) auto
qed

text \<open>A zero mean is subtracted as zero.\<close>

lemma integer_mean_zero:
  assumes "f32_is_zero (means blk ! fpos blk l b)"
    and "- 126 \<le> i32 (i32 (- used_exponent q blk l b) + used_bits w q blk l b)"
    and "i32 (i32 (- used_exponent q blk l b) + used_bits w q blk l b) \<le> 127"
  shows "integer_mean w q blk l b = Some 0"
proof -
  let ?y = "fast_pow2 (i32 (i32 (- used_exponent q blk l b) + used_bits w q blk l b))"
  have "mean_float w q blk l b = f32_zero (f32_sign (means blk ! fpos blk l b) \<noteq> f32_sign ?y)"
    unfolding mean_float_def using assms(1) fast_pow2_val(2) [OF assms(2,3)] by (rule f32_mul_zero)
  moreover have "f32_to_int w (f32_cround (f32_zero s)) = Some 0" for s
  proof -
    have z: "f32_exp (f32_zero s) = 0" "f32_sig (f32_zero s) = 0" "f32_lexp (f32_zero s) = - 149" for s
      by (simp_all add: f32_sig_def f32_lexp_def f32_exp_mag f32_frac_mag)
    have "f32_cround (f32_zero s) = f32_zero s"
      by (simp add: f32_cround_def z Let_def f32_round_def)
    then show ?thesis by (simp add: f32_to_int_def f32_trunc_def z Let_def)
  qed
  ultimately show ?thesis by (simp add: integer_mean_def)
qed

text \<open>Reading back a small mantissa with a zero mean.\<close>

lemma f32_unit_fields:
  "f32_of_int 1 = 0x3F800000" "f32_of_int (- 1) = 0xBF800000" "f32_of_int 0 = 0"
  "f32_finite 0x3F800000" "f32_lexp 0x3F800000 = - 23" "f32_sig 0x3F800000 = 8388608"
  "f32_finite 0xBF800000" "f32_lexp 0xBF800000 = - 23" "f32_sig 0xBF800000 = 8388608"
  "f32_finite 0" "f32_lexp 0 = - 149" "f32_sig 0 = 0" "bit_len 8388608 = 24"
  by (simp_all add: f32_eval)

lemma dequant_unit:
  assumes "u \<in> {- 1, 0, 1}" "- 126 \<le> s" "s \<le> 118" "f32_is_zero m"
  shows "\<bar>f32_val (f32_add (f32_mul (f32_of_int u) (fast_pow2 s)) m)\<bar> \<le> 2 powi s"
proof -
  have v: "f32_val (f32_mul (f32_of_int u) (fast_pow2 s)) = real_of_int u * 2 powi s"
  proof (cases "u = 0")
    case True
    have "f32_is_zero (f32_of_int 0)" by (simp add: f32_unit_fields f32_is_zero_def f32_exp_def f32_frac_def)
    then show ?thesis
      using True assms(2,3) f32_mul_zero [of "f32_of_int 0" "fast_pow2 s"] fast_pow2_val(2) by simp
  next
    case False
    then have u: "f32_finite (f32_of_int u)" "- 149 \<le> f32_lexp (f32_of_int u) + s"
      "f32_lexp (f32_of_int u) + s + int (bit_len (f32_sig (f32_of_int u))) \<le> 127" "\<bar>u\<bar> < 2 ^ 24"
      using assms(1-3) by (auto simp: f32_unit_fields)
    have "f32_val (f32_mul (f32_of_int u) (fast_pow2 s)) = f32_val (f32_of_int u) * 2 powi s"
      using u(1-3) assms(2,3) by (intro f32_mul_fast_pow2) simp_all
    then show ?thesis using f32_of_int_exact [OF u(4)] by simp
  qed
  have "\<bar>real_of_int u\<bar> \<le> 1" using assms(1) by auto
  then have le: "\<bar>real_of_int u * 2 powi s\<bar> \<le> 2 powi s"
    using mult_right_mono [of "\<bar>real_of_int u\<bar>" 1 "2 powi s"] by (simp add: abs_mult)
  have "f32_exp (f32_mul (f32_of_int u) (fast_pow2 s)) \<le> 253"
  proof (rule ccontr)
    assume "\<not> ?thesis"
    then have e: "254 \<le> f32_exp (f32_mul (f32_of_int u) (fast_pow2 s))" by simp
    have "(2 :: real) powi 119 \<le> 2 powi (int (f32_exp (f32_mul (f32_of_int u) (fast_pow2 s))) - 127)"
      using e by (intro power_int_increasing) simp_all
    also have "\<dots> \<le> \<bar>real_of_int u * 2 powi s\<bar>" using f32_abs_ge e unfolding v [symmetric] by simp
    also have "\<dots> \<le> 2 powi s" by (rule le)
    also have "\<dots> \<le> 2 powi 118" using assms(3) by (intro power_int_increasing) simp_all
    finally show False by (simp add: power_int_def)
  qed
  then show ?thesis using f32_add_zero [OF _ assms(4)] le v by simp
qed

section \<open>Properties\<close>

text \<open>
  After \<open>fit_exponent\<close>, \<open>floats_to_mantissa\<close> with its exponents and any precision up to 30 keeps one
  of three values per element: each mantissa is \<open>- 1\<close>, \<open>0\<close> or \<open>1\<close> less the block's integer mean.
\<close>

theorem fitted_mantissas_ternary:
  assumes "fp_wf blk" and "schedule_ok sched" and "outer_n blk * inner_n blk \<le> length xs" and "2 \<le> w"
    and "fit_exponent sched xs blk = Some b1" and "floats_to_mantissa w sched xs q b1 = Some b2"
    and "q_fixed_exponent q = 0" and "l < outer_n blk" and "b < blocks_n blk" and "j < bend blk b - bstart blk b"
    and "\<forall>x \<in> set (block_vals blk xs l b). f32_finite x" and "\<exists>x \<in> set (block_vals blk xs l b). 0 < f32_exp x"
    and "block_exponent (block_vals blk xs l b) \<le> 126" and "used_bits w q b1 l b \<le> 30"
  shows "\<exists>u \<in> {- 1, 0, 1}. mantissa b2 ! epos blk l (bstart blk b + j)
           = wrap_int w (u - the (integer_mean w q b1 l b))"
proof -
  note f = fit_exponent_fields [OF assms(1-3,5)]
  note d = fp_dims_cong [OF f(2)]
  have bv: "block_vals b1 xs l b = block_vals blk xs l b" by (simp add: block_vals_def d)
  have ue: "used_exponent q b1 l b = block_exponent (block_vals blk xs l b)"
    using f(3) [OF assms(8,9)] assms(7) by (simp add: used_exponent_def d)
  have ok: "quant_ok w q b1" by (rule floats_to_mantissa_needs [OF f(1) assms(2,4,6)])
  have "mantissa b2 ! epos blk l (bstart blk b + j) = quant_value w xs q b1 l b j"
    using floats_to_mantissa_result [OF f(1) assms(2) ok, of xs] assms(3,6,8-10) by (auto simp: d)
  then show ?thesis
    using quant_value_unit [of j b1 b w xs l q] assms(4,10-14) by (simp add: d bv ue)
qed

text \<open>
  C20: The round trip of a block through the format loses it when its mean is zero: after
  \<open>fit_exponent\<close> and \<open>floats_to_mantissa\<close> with 8 bits, as the callers use them, \<open>mantissa_to_floats\<close>
  returns a value of magnitude at most \<open>2 ^ (e - 8)\<close> for every element, although some element has
  at least magnitude \<open>2 ^ (e - 1)\<close>.
\<close>

theorem round_trip_zero_mean:
  assumes "fp_wf blk" and "schedule_ok sched" and "outer_n blk * inner_n blk \<le> length xs"
    and "outer_n blk * inner_n blk \<le> length out" and "2 \<le> w"
    and "fit_exponent sched xs blk = Some b1" and "floats_to_mantissa w sched xs (quant_default 0 8) b1 = Some b2"
    and "mantissa_to_floats sched b2 out = Some out'" and "l < outer_n blk" and "k < inner_n blk"
    and "vs = block_vals blk xs l (k div bs_n blk)" and "\<forall>x \<in> set vs. f32_finite x" and "\<exists>x \<in> set vs. 0 < f32_exp x"
    and "f32_is_zero (block_mean vs)" and "- 118 \<le> block_exponent vs" and "block_exponent vs \<le> 126"
  shows "\<bar>f32_val (out' ! epos blk l k)\<bar> \<le> 2 powi (block_exponent vs - 8)
     \<and> (\<exists>x \<in> set vs. 2 powi (block_exponent vs - 1) \<le> \<bar>f32_val x\<bar>)"
proof -
  let ?q = "quant_default 0 8" and ?b = "k div bs_n blk" and ?e = "block_exponent vs"
  have sh: "fp_shape blk" using assms(1) by (simp add: fp_wf_def)
  note b = block_of_elem [OF fp_shapeD(1) [OF sh] assms(10)]
  note f = fit_exponent_fields [OF assms(1-3,6)]
  note d = fp_dims_cong [OF f(2)]
  have params: "exponents b1 ! fpos b1 l ?b = ?e" "means b1 ! fpos b1 l ?b = block_mean vs"
    using f(3) [OF assms(9) b(1)] by (simp_all add: d assms(11))
  have ub: "used_bits w ?q b1 l ?b = 8" and ue: "used_exponent ?q b1 l ?b = ?e"
    using params by (simp_all add: used_bits_def used_exponent_def quant_default_def)
  have ok: "quant_ok w ?q b1" by (rule floats_to_mantissa_needs [OF f(1) assms(2,5,7)])
  have b2: "fp_wf b2" "same_params b2 b1" "precisions b2 ! fpos b1 l ?b = 8"
    using floats_to_mantissa_result [OF f(1) assms(2) ok, of xs] assms(3,7,9) b(1) ub by (auto simp: d)
  have d2: "fp_dims b2 = fp_dims blk" using b2(2) f(2) by (simp add: same_params_def)
  have im: "integer_mean w ?q b1 l ?b = Some 0"
  proof (rule integer_mean_zero)
    show "f32_is_zero (means b1 ! fpos b1 l ?b)" using assms(14) params(2) by simp
    have "i32 (i32 (- ?e) + 8) = 8 - ?e" using assms(15,16) by (simp add: i32_id)
    then show "- 126 \<le> i32 (i32 (- used_exponent ?q b1 l ?b) + used_bits w ?q b1 l ?b)"
      "i32 (i32 (- used_exponent ?q b1 l ?b) + used_bits w ?q b1 l ?b) \<le> 127"
      unfolding ue ub using assms(15,16) by simp_all
  qed
  let ?j = "k - bstart blk ?b"
  have j: "?j < bend blk ?b - bstart blk ?b" "bstart blk ?b + ?j = k" using b by simp_all
  have "quant_value w xs ?q b1 l ?b ?j \<in> {- 1, 0, 1}"
  proof -
    have "block_vals b1 xs l ?b = vs" by (simp add: assms(11) block_vals_def d)
    then have "\<exists>u \<in> {- 1, 0, 1}. quant_value w xs ?q b1 l ?b ?j = wrap_int w (u - the (integer_mean w ?q b1 l ?b))"
      using j(1) assms(5,12,13,16) ue ub by (intro quant_value_unit) (simp_all add: d)
    then show ?thesis using im wrap_int_unit [OF assms(5)] by auto
  qed
  moreover have "mantissa b2 ! epos blk l (bstart blk ?b + ?j) = quant_value w xs ?q b1 l ?b ?j"
    using floats_to_mantissa_result [OF f(1) assms(2) ok, of xs] assms(3,7,9) b(1) j(1) by (auto simp: d)
  ultimately have u: "mantissa b2 ! epos blk l k \<in> {- 1, 0, 1}" using j(2) by simp
  have "out' ! epos blk l k = f32_add (f32_mul (f32_of_int (mantissa b2 ! epos blk l k)) (fast_pow2 (i32 (?e - 8)))) (block_mean vs)"
    using dequantise_result [OF b2(1) assms(2), of out "\<lambda>e p. fast_pow2 (i32 (e - p))" "\<lambda>m. m"] assms(4,8-10) params b2(2,3)
    unfolding mantissa_to_floats_def [symmetric] by (auto simp: fp_dims_cong [OF d2] d dequant_value_def same_params_def)
  moreover have "i32 (?e - 8) = ?e - 8" using assms(15,16) by (simp add: i32_id)
  ultimately show ?thesis
    using dequant_unit [OF u, of "?e - 8" "block_mean vs"] assms(14-16) block_exponent_bounds(2) [OF assms(13)] by simp
qed


text \<open>A matrix whose rows have mean zero.\<close>

definition balanced_values :: "f32 list" where
  "balanced_values = [0x40400000, 0xC0400000, 0x3F800000, 0xBF800000]"

lemma block_exponent_eval:
  "block_exponent [x, y] = exponent_of (let b = drop_bit 23 (x AND 0x7FFFFFFF) AND 0xFF; c = drop_bit 23 (y AND 0x7FFFFFFF) AND 0xFF;
     m = (if 0 < b then b else 0) in if m < c then c else m)"
  "block_mean [x, y] = mean_of (f32_add (f32_add 0 x) y) 2"
  by (simp_all add: block_exponent_def block_mean_def block_acc_def fit_elem_def fit_acc_init_def fit_global_init_def Let_def)

lemma balanced_rows:
  "block_exponent [0x40400000, 0xC0400000] = 2" "block_mean [0x40400000, 0xC0400000] = 0"
  "block_exponent [0x3F800000, 0xBF800000] = 1" "block_mean [0x3F800000, 0xBF800000] = 0"
  "block_exponent [0x3F800000, 0x3F800000] = 1" "block_mean [0x3F800000, 0x3F800000] = 0x3F800000"
  by (simp_all add: block_exponent_eval Let_def exponent_of_def mean_of_def f32_eval)


lemma small_block_vals:
  "block_vals small_block [x, y, z, u] 0 0 = [x, y]" "block_vals small_block [x, y, z, u] (Suc 0) 0 = [z, u]"
proof -
  have c: "block_columns small_block" by (simp add: small_block_def)
  show "block_vals small_block [x, y, z, u] 0 0 = [x, y]" "block_vals small_block [x, y, z, u] (Suc 0) 0 = [z, u]"
    by (simp_all add: block_vals_def small_block_shape upt_rec) (simp_all add: epos_def small_block_shape c)
qed

lemma small_block_fit:
  assumes "length xs = 4"
  obtains b1 where "fit_exponent sequential xs small_block = Some b1" "fp_wf b1" "fp_dims b1 = fp_dims small_block"
    "\<And>l. l < 2 \<Longrightarrow> exponents b1 ! fpos small_block l 0 = block_exponent (block_vals small_block xs l 0)
       \<and> means b1 ! fpos small_block l 0 = block_mean (block_vals small_block xs l 0)"
proof -
  have l: "outer_n small_block * inner_n small_block \<le> length xs" using assms by (simp add: small_block_shape)
  obtain b1 where b1: "fit_exponent sequential xs small_block = Some b1"
    using fit_exponent_eq [OF small_block_shape(1) schedules_ok(1) l] by auto
  note f = fit_exponent_fields [OF small_block_shape(1) schedules_ok(1) l b1]
  show ?thesis by (rule that [OF b1 f(1,2)]) (use f(3) in \<open>auto simp: small_block_shape\<close>)
qed

lemma balanced_quantised:
  obtains b1 b2 where "fit_exponent sequential balanced_values small_block = Some b1"
    "floats_to_mantissa 16 sequential balanced_values (quant_default 0 8) b1 = Some b2"
    "fp_wf b1" "fp_dims b1 = fp_dims small_block" "fp_wf b2" "fp_dims b2 = fp_dims small_block"
    "\<And>l. l < 2 \<Longrightarrow> integer_mean 16 (quant_default 0 8) b1 l 0 = Some 0"
proof -
  obtain b1 where b1: "fit_exponent sequential balanced_values small_block = Some b1" "fp_wf b1" "fp_dims b1 = fp_dims small_block"
    and p: "\<And>l. l < 2 \<Longrightarrow> exponents b1 ! fpos small_block l 0 = block_exponent (block_vals small_block balanced_values l 0)
       \<and> means b1 ! fpos small_block l 0 = block_mean (block_vals small_block balanced_values l 0)"
    using small_block_fit [of balanced_values] by (auto simp: balanced_values_def)
  note d = fp_dims_cong [OF b1(3)]
  have row: "exponents b1 ! fpos b1 l 0 \<in> {1, 2} \<and> means b1 ! fpos b1 l 0 = 0" if "l < 2" for l
    using p [OF that] that by (auto simp: d less_2_cases_iff balanced_values_def small_block_vals balanced_rows)
  have im: "integer_mean 16 (quant_default 0 8) b1 l 0 = Some 0" if "l < 2" for l
  proof (rule integer_mean_zero)
    show "f32_is_zero (means b1 ! fpos b1 l 0)" using row [OF that] by (simp add: f32_eval)
    have "used_exponent (quant_default 0 8) b1 l 0 \<in> {1, 2}" "used_bits 16 (quant_default 0 8) b1 l 0 = 8"
      using row [OF that] by (simp_all add: used_exponent_def used_bits_def quant_default_def)
    then show "- 126 \<le> i32 (i32 (- used_exponent (quant_default 0 8) b1 l 0) + used_bits 16 (quant_default 0 8) b1 l 0)"
      "i32 (i32 (- used_exponent (quant_default 0 8) b1 l 0) + used_bits 16 (quant_default 0 8) b1 l 0) \<le> 127"
      by (auto simp: i32_id)
  qed
  have ok: "quant_ok 16 (quant_default 0 8) b1"
    using im by (simp add: quant_ok_def d small_block_shape used_bits_def quant_default_def)
  have l: "outer_n b1 * inner_n b1 \<le> length balanced_values" by (simp add: d small_block_shape balanced_values_def)
  obtain b2 where b2: "floats_to_mantissa 16 sequential balanced_values (quant_default 0 8) b1 = Some b2" "fp_wf b2" "same_params b2 b1"
    using floats_to_mantissa_result [OF b1(2) schedules_ok(1) ok l] by blast
  have "fp_dims b2 = fp_dims small_block" using b2(3) b1(3) by (simp add: same_params_def)
  then show ?thesis using that b1 b2 im by blast
qed

theorem fitted_mantissas_ternary_witness:
  "\<exists>b1 b2. fit_exponent sequential balanced_values small_block = Some b1
     \<and> floats_to_mantissa 16 sequential balanced_values (quant_default 0 8) b1 = Some b2
     \<and> mantissa b2 ! 0 \<in> {- 1, 0, 1}"
proof -
  obtain b1 b2 where b: "fit_exponent sequential balanced_values small_block = Some b1"
    "floats_to_mantissa 16 sequential balanced_values (quant_default 0 8) b1 = Some b2"
    "integer_mean 16 (quant_default 0 8) b1 0 0 = Some 0"
    using balanced_quantised by (metis zero_less_numeral)
  have "\<exists>u \<in> {- 1, 0, 1}. mantissa b2 ! epos small_block 0 (bstart small_block 0 + 0)
      = wrap_int 16 (u - the (integer_mean 16 (quant_default 0 8) b1 0 0))"
    by (rule fitted_mantissas_ternary [OF small_block_shape(1) schedules_ok(1) _ _ b(1,2)])
      (simp_all add: small_block_shape balanced_values_def small_block_vals balanced_rows quant_default_def used_bits_def f32_eval)
  then have "mantissa b2 ! 0 \<in> {- 1, 0, 1}" using b(3) wrap_int_unit [of 16] by (auto simp: small_block_shape)
  with b show ?thesis by blast
qed

theorem round_trip_zero_mean_witness:
  "\<exists>b1 b2 out'. fit_exponent sequential balanced_values small_block = Some b1
     \<and> floats_to_mantissa 16 sequential balanced_values (quant_default 0 8) b1 = Some b2
     \<and> mantissa_to_floats sequential b2 [0, 0, 0, 0] = Some out'
     \<and> \<bar>f32_val (out' ! 0)\<bar> \<le> 2 powi (- 6)"
proof -
  obtain b1 b2 where b: "fit_exponent sequential balanced_values small_block = Some b1"
    "floats_to_mantissa 16 sequential balanced_values (quant_default 0 8) b1 = Some b2"
    "fp_wf b2" "fp_dims b2 = fp_dims small_block" using balanced_quantised by metis
  have "outer_n b2 * inner_n b2 \<le> length [0, 0, 0, 0 :: f32]" by (simp add: fp_dims_cong [OF b(4)] small_block_shape)
  then obtain out' where o: "mantissa_to_floats sequential b2 [0, 0, 0, 0] = Some out'"
    using dequantise_result [OF b(3) schedules_ok(1)] unfolding mantissa_to_floats_def by blast
  have "\<bar>f32_val (out' ! epos small_block 0 0)\<bar> \<le> 2 powi (block_exponent [0x40400000, 0xC0400000] - 8)
     \<and> (\<exists>x \<in> set [0x40400000, 0xC0400000]. 2 powi (block_exponent [0x40400000, 0xC0400000] - 1) \<le> \<bar>f32_val x\<bar>)"
    by (rule round_trip_zero_mean [OF small_block_shape(1) schedules_ok(1) _ _ _ b(1,2) o])
      (simp_all add: small_block_shape balanced_values_def small_block_vals balanced_rows f32_eval)
  then show ?thesis using b o by (auto simp: small_block_shape balanced_rows)
qed


end
