(* ===== verification/ScratchpadRefine.thy ===== *)
theory ScratchpadRefine
  imports Scratchpad
begin

text \<open>
  The scratchpad seen as a list of adjacent blocks. A buffer at address \<open>base\<close> is a list of (size,
  free) pairs; \<open>seg\<close> says that the headers in the heap are the doubly linked list of these blocks,
  each header right behind the block before it. Taking a block is \<open>l_take\<close> on the list, releasing
  one is \<open>l_release\<close>, and the pointer operations of \<^verbatim>\<open>Scratchpad\<close> refine them.
\<close>

section \<open>Lists of blocks in the heap\<close>

type_synonym block = "nat \<times> bool"

fun bspan :: "block list \<Rightarrow> nat" where
  "bspan [] = 0"
| "bspan ((s, f) # bs) = header_size + s + bspan bs"

fun seg :: "header_heap \<Rightarrow> nat \<Rightarrow> ptr \<Rightarrow> block list \<Rightarrow> ptr \<Rightarrow> bool" where
  "seg h a prev [] nx = True"
| "seg h a prev ((s, f) # bs) nx =
     (h a = Some \<lparr>bh_size = s, bh_is_free = f,
                  bh_next = (if bs = [] then nx else Some (a + header_size + s)), bh_prev = prev\<rparr>
      \<and> seg h (a + header_size + s) (Some a) bs nx)"

text \<open>The address of the last header of a list of blocks that starts at \<open>a\<close>.\<close>

definition last_hdr :: "nat \<Rightarrow> ptr \<Rightarrow> block list \<Rightarrow> ptr" where
  "last_hdr a prev bs = (if bs = [] then prev else Some (a + bspan (butlast bs)))"

lemma bspan_append [simp]: "bspan (xs @ ys) = bspan xs + bspan ys"
  by (induction xs rule: bspan.induct) auto

lemma bspan_ge: "bspan bs \<ge> header_size * length bs"
  by (induction bs rule: bspan.induct) auto

lemma bspan_pos [simp]: "0 < bspan bs \<longleftrightarrow> bs \<noteq> []"
  by (cases bs rule: bspan.cases) auto

lemma last_hdr_Nil [simp]: "last_hdr a prev [] = prev"
  by (simp add: last_hdr_def)

lemma last_hdr_snoc [simp]: "last_hdr a prev (xs @ [b]) = Some (a + bspan xs)"
  by (simp add: last_hdr_def)

lemma last_hdr_Cons: "last_hdr a prev ((s, f) # bs) = last_hdr (a + header_size + s) (Some a) bs"
  by (cases bs rule: rev_cases) (auto simp: last_hdr_def butlast_append)

lemma seg_append:
  "seg h a prev (xs @ ys) nx \<longleftrightarrow>
     seg h a prev xs (if ys = [] then nx else Some (a + bspan xs))
     \<and> seg h (a + bspan xs) (last_hdr a prev xs) ys nx"
proof (induction xs arbitrary: a prev)
  case (Cons b xs)
  obtain s f where b: "b = (s, f)" by (cases b)
  have "a + bspan (b # xs) = a + header_size + s + bspan xs" by (simp add: b)
  with Cons show ?case by (cases "ys = []"; cases "xs = []") (auto simp: b last_hdr_Cons add.assoc)
qed simp

text \<open>Headers outside the addresses of a segment may change: it only reads its own.\<close>

lemma seg_frame:
  assumes "n < a \<or> a + bspan bs \<le> n"
  shows "seg (h(n := v)) a prev bs nx = seg h a prev bs nx"
  using assms
proof (induction bs arbitrary: a prev)
  case (Cons b bs)
  obtain s f where b: "b = (s, f)" by (cases b)
  have "a \<noteq> n" using Cons.prems b by auto
  moreover have "seg (h(n := v)) (a + header_size + s) (Some a) bs nx
      = seg h (a + header_size + s) (Some a) bs nx"
    using Cons.prems b by (intro Cons.IH) auto
  ultimately show ?case by (simp only: b seg.simps fun_upd_other simp_thms)
qed simp

text \<open>The header of a segment's last block, and changing where it points.\<close>

lemma seg_snoc:
  "seg h a prev (xs @ [(s, f)]) nx \<longleftrightarrow>
     seg h a prev xs (Some (a + bspan xs))
     \<and> h (a + bspan xs) = Some \<lparr>bh_size = s, bh_is_free = f, bh_next = nx, bh_prev = last_hdr a prev xs\<rparr>"
  by (simp add: seg_append)

lemma seg_Cons_prev:
  "seg h a prev ((s, f) # bs) nx \<Longrightarrow>
   seg (h(a \<mapsto> the (h a)\<lparr>bh_prev := p\<rparr>)) a p ((s, f) # bs) nx"
  by (auto simp: seg_frame)

section \<open>The abstract operations\<close>

fun l_find :: "nat \<Rightarrow> nat \<Rightarrow> block list \<Rightarrow> ptr" where
  "l_find sz a [] = None"
| "l_find sz a ((s, f) # bs) =
     (if f \<and> sz \<le> s then Some a else l_find sz (a + header_size + s) bs)"

definition l_take :: "nat \<Rightarrow> nat \<Rightarrow> block list" where
  "l_take sz s =
     (if sz + header_size + 128 \<le> s then [(sz, False), (s - sz - header_size, True)]
      else [(s, False)])"

lemma l_merge_cases:
  obtains "ys = ([] :: block list)" | s2 ys' where "ys = (s2, False) # ys'" | s2 ys' where "ys = (s2, True) # ys'"
  by (metis (full_types) list.exhaust surj_pair)

text \<open>
  Releasing a block of size \<open>s\<close> between \<open>xs\<close> and \<open>ys\<close>: it absorbs a free successor, and is absorbed
  by a free predecessor.
\<close>

definition l_merge_next :: "nat \<Rightarrow> block list \<Rightarrow> block list" where
  "l_merge_next s ys =
     (case ys of (s2, True) # ys' \<Rightarrow> (s + (header_size + s2), True) # ys' | _ \<Rightarrow> (s, True) # ys)"

definition l_release :: "block list \<Rightarrow> nat \<Rightarrow> block list \<Rightarrow> block list" where
  "l_release xs s ys =
     (case l_merge_next s ys of
        [] \<Rightarrow> xs
      | (s', _) # ys' \<Rightarrow>
          if xs \<noteq> [] \<and> snd (last xs)
          then butlast xs @ (fst (last xs) + (header_size + s'), True) # ys'
          else xs @ (s', True) # ys')"

lemma l_merge_next_simps [simp]:
  "l_merge_next s [] = [(s, True)]"
  "l_merge_next s ((s2, True) # ys) = (s + (header_size + s2), True) # ys"
  "l_merge_next s ((s2, False) # ys) = (s, True) # (s2, False) # ys"
  by (simp_all add: l_merge_next_def)

lemma l_merge_next_head: "\<exists>s' ys'. l_merge_next s ys = (s', True) # ys'"
  by (cases ys rule: l_merge_cases) auto

lemma bspan_l_take: "sz \<le> s \<Longrightarrow> bspan (l_take sz s) = header_size + s"
  by (auto simp: l_take_def)

lemma l_take_ne [simp]: "l_take sz s \<noteq> []"
  by (simp add: l_take_def)

lemma bspan_l_merge_next: "bspan (l_merge_next s ys) = header_size + s + bspan ys"
  by (cases ys rule: l_merge_cases) auto

lemma bspan_l_release: "bspan (l_release xs s ys) = bspan xs + (header_size + s + bspan ys)"
proof -
  obtain s' ys' where m: "l_merge_next s ys = (s', True) # ys'"
    using l_merge_next_head by blast
  then have m': "header_size + s' + bspan ys' = header_size + s + bspan ys"
    using bspan_l_merge_next [of s ys] by simp
  show ?thesis
  proof (cases "xs \<noteq> [] \<and> snd (last xs)")
    case True
    then obtain zs s0 where xs: "xs = zs @ [(s0, True)]"
      by (metis append_butlast_last_id prod.collapse)
    show ?thesis using m m' True by (simp add: l_release_def xs)
  next
    case False
    then show ?thesis using m m' by (auto simp: l_release_def)
  qed
qed

section \<open>Finding and taking a block\<close>

lemma find_block_seg:
  "seg h a prev bs nullptr \<Longrightarrow> find_block h (if bs = [] then nullptr else Some a) sz = Some (l_find sz a bs)"
proof (induction bs arbitrary: a prev)
  case Nil
  then show ?case by (simp add: find_block.simps)
next
  case (Cons b bs)
  obtain s f where b: "b = (s, f)" by (cases b)
  have "find_block h (if bs = [] then nullptr else Some (a + header_size + s)) sz
      = Some (l_find sz (a + header_size + s) bs)"
    using Cons.prems by (intro Cons.IH [of _ "Some a"]) (simp add: b)
  with Cons.prems show ?case by (subst find_block.simps) (auto simp: b)
qed

text \<open>A block that is found splits the list: nothing before it fits.\<close>

lemma l_find_SomeD:
  assumes "l_find sz a bs = Some c"
  obtains xs s ys where "bs = xs @ (s, True) # ys" "c = a + bspan xs" "sz \<le> s"
    "\<forall>(s', f') \<in> set xs. \<not> (f' \<and> sz \<le> s')"
  using assms
proof (induction sz a bs arbitrary: thesis rule: l_find.induct)
  case (2 sz a s f bs)
  show ?case
  proof (cases "f \<and> sz \<le> s")
    case True
    with 2 show ?thesis by (intro "2.prems"(1) [of "[]" s bs]) auto
  next
    case False
    with "2.prems"(2) have "l_find sz (a + header_size + s) bs = Some c" by (simp split: if_splits)
    from "2.IH" [OF False _ this] obtain xs s' ys where
      "bs = xs @ (s', True) # ys" "c = a + header_size + s + bspan xs" "sz \<le> s'"
      "\<forall>(s', f') \<in> set xs. \<not> (f' \<and> sz \<le> s')" by blast
    with False show ?thesis by (intro "2.prems"(1) [of "(s, f) # xs" s' ys]) auto
  qed
qed simp

lemma l_find_NoneD: "l_find sz a bs = None \<Longrightarrow> (s, True) \<in> set bs \<Longrightarrow> s < sz"
  by (induction sz a bs rule: l_find.induct) (auto split: if_splits)

text \<open>
  Rewriting a header in the middle: the segment before it keeps its headers, and so does the one
  after it.
\<close>

lemma seg_middle:
  "seg h a prev (xs @ (s, f) # ys) nx \<longleftrightarrow>
     seg h a prev xs (Some (a + bspan xs))
     \<and> h (a + bspan xs) = Some \<lparr>bh_size = s, bh_is_free = f,
          bh_next = (if ys = [] then nx else Some (a + bspan xs + header_size + s)),
          bh_prev = last_hdr a prev xs\<rparr>
     \<and> seg h (a + bspan xs + header_size + s) (Some (a + bspan xs)) ys nx"
  by (auto simp: seg_append)

text \<open>A segment depends on the headers at its own addresses only.\<close>

lemma seg_agree:
  assumes "seg h a prev bs nx" "\<And>x. a \<le> x \<Longrightarrow> x < a + bspan bs \<Longrightarrow> h' x = h x"
  shows "seg h' a prev bs nx"
  using assms
proof (induction bs arbitrary: a prev)
  case (Cons b bs)
  obtain s f where b: "b = (s, f)" by (cases b)
  have "seg h' (a + header_size + s) (Some a) bs nx"
    using Cons.prems by (intro Cons.IH) (auto simp: b)
  moreover have "h' a = h a" using Cons.prems(2) [of a] by (simp add: b)
  ultimately show ?case using Cons.prems(1) by (simp add: b)
qed simp

text \<open>Setting the back pointer of a segment's first header, if it has one.\<close>

lemma relink_prev:
  assumes "seg h e prev ys nx"
  shows "\<exists>h'. upd_header_if h (if ys = [] then nullptr else Some e) (\<lambda>x. x\<lparr>bh_prev := p\<rparr>) = Some h'
     \<and> seg h' e p ys nx \<and> (\<forall>x. x \<noteq> e \<longrightarrow> h' x = h x)"
proof (cases ys)
  case (Cons y ys')
  obtain s f where y: "y = (s, f)" by (cases y)
  then have "seg (h(e \<mapsto> the (h e)\<lparr>bh_prev := p\<rparr>)) e p ys nx"
    using assms Cons by (simp only: seg_Cons_prev)
  moreover have "h e \<noteq> None" using assms Cons y by auto
  ultimately show ?thesis using Cons by (auto simp: upd_header_if_def upd_header_def)
qed (simp add: upd_header_if_def)

lemma take_block_seg:
  assumes seg: "seg h a prev (xs @ (s, True) # ys) nullptr"
    and sz: "sz \<le> s" and small: "s + header_size + 128 < 2 ^ 64"
  shows "\<exists>h'. take_block h (a + bspan xs) sz = Some h' \<and> seg h' a prev (xs @ l_take sz s @ ys) nullptr"
proof -
  let ?c = "a + bspan xs"
  let ?n = "?c + header_size + sz" and ?e = "?c + header_size + s"
  let ?nx = "if ys = [] then nullptr else Some ?e"
  let ?b = "\<lparr>bh_size = s, bh_is_free = True, bh_next = ?nx, bh_prev = last_hdr a prev xs\<rparr>"
  have hc: "h ?c = Some ?b" and before: "seg h a prev xs (Some ?c)"
    and after: "seg h ?e (Some ?c) ys nullptr" using seg by (simp_all add: seg_middle)
  have add: "size_add (size_add sz header_size) 128 = sz + header_size + 128"
    using sz small by (simp add: size_add_def)
  show ?thesis
  proof (cases "sz + header_size + 128 \<le> s")
    case False
    let ?h = "h(?c \<mapsto> ?b\<lparr>bh_is_free := False\<rparr>)"
    have "take_block h ?c sz = Some ?h"
      using False hc by (simp add: take_block_def add upd_header_def)
    moreover have "seg ?h a prev (xs @ l_take sz s @ ys) nullptr"
      using False before after by (simp add: l_take_def seg_middle seg_frame)
    ultimately show ?thesis by blast
  next
    case True
    let ?new = "\<lparr>bh_size = s - sz - header_size, bh_is_free = True, bh_next = ?nx, bh_prev = Some ?c\<rparr>"
    have rest: "size_sub (size_sub s sz) header_size = s - sz - header_size"
      using True small by (simp add: size_sub_id)
    have ne: "?n \<noteq> ?c" "?e \<noteq> ?n" "?e \<noteq> ?c" using True by auto
    have "seg (h(?n \<mapsto> ?new)) ?e (Some ?c) ys nullptr" using after True by (simp add: seg_frame)
    then obtain h2 where h2: "upd_header_if (h(?n \<mapsto> ?new)) ?nx (\<lambda>x. x\<lparr>bh_prev := Some ?n\<rparr>) = Some h2"
      and after2: "seg h2 ?e (Some ?n) ys nullptr" and same: "\<forall>x. x \<noteq> ?e \<longrightarrow> h2 x = (h(?n \<mapsto> ?new)) x"
      using relink_prev by blast
    have before2: "seg h2 a prev xs (Some ?c)" using before by (rule seg_agree) (use same in auto)
    have hc2: "h2 ?c = Some ?b" and hn2: "h2 ?n = Some ?new" using same hc ne by simp_all
    let ?h' = "h2(?c \<mapsto> ?b\<lparr>bh_next := Some ?n, bh_size := sz, bh_is_free := False\<rparr>)"
    have "take_block h ?c sz = Some ?h'"
      using True hc h2 rest hc2 by (simp add: take_block_def add upd_header_def Let_def)
    moreover have "seg ?h' a prev (xs @ l_take sz s @ ys) nullptr"
      using True before2 after2 hn2 ne by (simp add: l_take_def seg_middle seg_frame add.assoc)
    ultimately show ?thesis by blast
  qed
qed

section \<open>Releasing a block\<close>

lemma merge_next_seg:
  assumes seg: "seg h a prev (xs @ (s, True) # ys) nullptr"
    and small: "a + bspan (xs @ (s, True) # ys) < 2 ^ 64"
  shows "\<exists>h'. merge_next h (a + bspan xs) = Some h' \<and> seg h' a prev (xs @ l_merge_next s ys) nullptr"
proof -
  let ?c = "a + bspan xs"
  let ?e = "?c + header_size + s"
  have before: "seg h a prev xs (Some ?c)" and after: "seg h ?e (Some ?c) ys nullptr"
    and hc: "h ?c = Some \<lparr>bh_size = s, bh_is_free = True, bh_next = (if ys = [] then nullptr else Some ?e),
                          bh_prev = last_hdr a prev xs\<rparr>" using seg by (simp_all add: seg_middle)
  show ?thesis
  proof (cases ys rule: l_merge_cases)
    case 1
    then show ?thesis using seg hc by (simp add: merge_next_def)
  next
    case (2 s2 ys')
    then show ?thesis using seg hc after by (simp add: merge_next_def)
  next
    case (3 s2 ys')
    let ?e2 = "?e + header_size + s2"
    let ?nx = "if ys' = [] then nullptr else Some ?e2"
    let ?b = "\<lparr>bh_size = s + (header_size + s2), bh_is_free = True, bh_next = ?nx, bh_prev = last_hdr a prev xs\<rparr>"
    have he: "h ?e = Some \<lparr>bh_size = s2, bh_is_free = True, bh_next = ?nx, bh_prev = Some ?c\<rparr>"
      and after': "seg h ?e2 (Some ?e) ys' nullptr" using after 3 by simp_all
    have add: "size_add s (size_add header_size s2) = s + (header_size + s2)"
      using small 3 by (simp add: size_add_def)
    have "seg (h(?c \<mapsto> ?b)) ?e2 (Some ?e) ys' nullptr" using after' by (simp add: seg_frame)
    then obtain h2 where h2: "upd_header_if (h(?c \<mapsto> ?b)) ?nx (\<lambda>x. x\<lparr>bh_prev := Some ?c\<rparr>) = Some h2"
      and after2: "seg h2 ?e2 (Some ?c) ys' nullptr" and same: "\<forall>x. x \<noteq> ?e2 \<longrightarrow> h2 x = (h(?c \<mapsto> ?b)) x"
      using relink_prev by blast
    have "merge_next h ?c = Some h2"
      using hc he h2 add 3 by (simp add: merge_next_def upd_header_def)
    moreover have "seg h2 a prev xs (Some ?c)" using before by (rule seg_agree) (use same in auto)
    moreover have "h2 ?c = Some ?b" using same by simp
    ultimately show ?thesis using after2 3 by (simp add: seg_middle add.assoc)
  qed
qed

lemma merge_prev_seg:
  assumes seg: "seg h a nullptr (xs @ (s, True) # ys) nullptr"
    and small: "a + bspan (xs @ (s, True) # ys) < 2 ^ 64"
  shows "\<exists>h'. merge_prev h (a + bspan xs) = Some h'
     \<and> seg h' a nullptr (if xs \<noteq> [] \<and> snd (last xs)
          then butlast xs @ (fst (last xs) + (header_size + s), True) # ys else xs @ (s, True) # ys) nullptr"
proof -
  let ?c = "a + bspan xs"
  let ?e = "?c + header_size + s"
  let ?nx = "if ys = [] then nullptr else Some ?e"
  have hc: "h ?c = Some \<lparr>bh_size = s, bh_is_free = True, bh_next = ?nx, bh_prev = last_hdr a nullptr xs\<rparr>"
    and before: "seg h a nullptr xs (Some ?c)" and after: "seg h ?e (Some ?c) ys nullptr"
    using seg by (simp_all add: seg_middle)
  show ?thesis
  proof (cases xs rule: rev_cases)
    case Nil
    then show ?thesis using seg hc by (simp add: merge_prev_def)
  next
    case (snoc zs z)
    obtain s0 f0 where z: "z = (s0, f0)" by (cases z)
    let ?p = "a + bspan zs"
    have hp: "h ?p = Some \<lparr>bh_size = s0, bh_is_free = f0, bh_next = Some ?c, bh_prev = last_hdr a nullptr zs\<rparr>"
      and zs: "seg h a nullptr zs (Some ?p)" using before by (simp_all add: snoc z seg_snoc)
    have pc: "?p + header_size + s0 = ?c" by (simp add: snoc z)
    show ?thesis
    proof (cases f0)
      case False
      then show ?thesis using seg hc hp by (simp add: merge_prev_def snoc z)
    next
      case True
      let ?b = "\<lparr>bh_size = s0 + (header_size + s), bh_is_free = True, bh_next = ?nx,
                 bh_prev = last_hdr a nullptr zs\<rparr>"
      have add: "size_add s0 (size_add header_size s) = s0 + (header_size + s)"
        using small by (simp add: size_add_def snoc z)
      have "seg (h(?p \<mapsto> ?b)) ?e (Some ?c) ys nullptr" using after pc by (simp add: seg_frame)
      then obtain h2 where h2: "upd_header_if (h(?p \<mapsto> ?b)) ?nx (\<lambda>x. x\<lparr>bh_prev := Some ?p\<rparr>) = Some h2"
        and after2: "seg h2 ?e (Some ?p) ys nullptr" and same: "\<forall>x. x \<noteq> ?e \<longrightarrow> h2 x = (h(?p \<mapsto> ?b)) x"
        using relink_prev by blast
      have "merge_prev h ?c = Some h2"
        using hc hp h2 add True by (simp add: merge_prev_def upd_header_def snoc z)
      moreover have "seg h2 a nullptr zs (Some ?p)" using zs by (rule seg_agree) (use same pc in auto)
      moreover have "h2 ?p = Some ?b" using same pc by simp
      moreover have "?p + header_size + (s0 + (header_size + s)) = ?e" using pc by simp
      ultimately show ?thesis using after2 True by (simp add: snoc z seg_middle ac_simps)
    qed
  qed
qed

lemma release_block_seg:
  assumes seg: "seg h a nullptr (xs @ (s, f) # ys) nullptr"
    and small: "a + bspan (xs @ (s, f) # ys) < 2 ^ 64"
  shows "\<exists>h'. release_block h (a + bspan xs) = Some h' \<and> seg h' a nullptr (l_release xs s ys) nullptr"
proof -
  let ?c = "a + bspan xs"
  obtain b where hc: "h ?c = Some b" using seg by (auto simp: seg_middle)
  have "upd_header h ?c (\<lambda>x. x\<lparr>bh_is_free := True\<rparr>) = Some (h(?c \<mapsto> b\<lparr>bh_is_free := True\<rparr>))"
    using hc by (simp add: upd_header_def)
  moreover have "seg (h(?c \<mapsto> b\<lparr>bh_is_free := True\<rparr>)) a nullptr (xs @ (s, True) # ys) nullptr"
    using seg hc by (simp add: seg_middle seg_frame)
  then obtain h1 where h1: "merge_next (h(?c \<mapsto> b\<lparr>bh_is_free := True\<rparr>)) ?c = Some h1"
    and seg1: "seg h1 a nullptr (xs @ l_merge_next s ys) nullptr"
    using merge_next_seg small by (metis bspan.simps(2) bspan_append)
  obtain s' ys' where m: "l_merge_next s ys = (s', True) # ys'"
    using l_merge_next_head by blast
  have "a + bspan (xs @ (s', True) # ys') < 2 ^ 64"
    using small bspan_l_merge_next [of s ys] by (simp add: m)
  with seg1 m merge_prev_seg obtain h2 where "merge_prev h1 ?c = Some h2"
    "seg h2 a nullptr (l_release xs s ys) nullptr"
    by (force simp: l_release_def)
  ultimately show ?thesis using h1 by (simp add: release_block_def)
qed

section \<open>Well-formed lists of blocks\<close>

text \<open>Sizes are multiples of 128 and no two free blocks are adjacent.\<close>

fun coalesced :: "block list \<Rightarrow> bool" where
  "coalesced ((s, f) # (s2, f2) # bs) = (\<not> (f \<and> f2) \<and> coalesced ((s2, f2) # bs))"
| "coalesced _ = True"

definition aligned :: "block list \<Rightarrow> bool" where
  "aligned bs \<longleftrightarrow> (\<forall>(s, f) \<in> set bs. 128 dvd s)"

lemma coalesced_Cons:
  "coalesced (b # bs) \<longleftrightarrow> coalesced bs \<and> (bs \<noteq> [] \<longrightarrow> \<not> (snd b \<and> snd (hd bs)))"
  by (cases b; cases bs) auto

lemma coalesced_append:
  "coalesced (xs @ ys) \<longleftrightarrow>
     coalesced xs \<and> coalesced ys \<and> (xs \<noteq> [] \<and> ys \<noteq> [] \<longrightarrow> \<not> (snd (last xs) \<and> snd (hd ys)))"
  by (induction xs) (auto simp: coalesced_Cons hd_append)

lemma aligned_append [simp]: "aligned (xs @ ys) \<longleftrightarrow> aligned xs \<and> aligned ys"
  by (auto simp: aligned_def)

lemma aligned_Cons [simp]: "aligned ((s, f) # bs) \<longleftrightarrow> 128 dvd s \<and> aligned bs"
  by (auto simp: aligned_def)

lemma aligned_Nil [simp]: "aligned []"
  by (simp add: aligned_def)

lemma aligned_bspan: "aligned bs \<Longrightarrow> 128 dvd bspan bs"
  by (induction bs rule: bspan.induct) auto

lemma l_take_wf:
  assumes "coalesced (xs @ (s, True) # ys)" "aligned (xs @ (s, True) # ys)" "128 dvd sz" "sz \<le> s"
  shows "coalesced (xs @ l_take sz s @ ys)" "aligned (xs @ l_take sz s @ ys)"
  using assms by (auto simp: l_take_def coalesced_append coalesced_Cons dvd_diff_nat)

lemma l_release_wf:
  assumes "coalesced (xs @ (s, False) # ys)" "aligned (xs @ (s, False) # ys)"
  shows "coalesced (l_release xs s ys)" "aligned (l_release xs s ys)"
proof -
  obtain s' ys' where m: "l_merge_next s ys = (s', True) # ys'" and y: "coalesced ((s', True) # ys')"
    "aligned ((s', True) # ys')"
    using assms by (cases ys rule: l_merge_cases) (auto simp: coalesced_append coalesced_Cons)
  have x: "coalesced xs" "aligned xs" using assms by (simp_all add: coalesced_append)
  show "coalesced (l_release xs s ys)" "aligned (l_release xs s ys)"
    using x y m by (cases xs rule: rev_cases;
        force simp: l_release_def coalesced_append coalesced_Cons split: if_splits)+
qed

text \<open>Releasing a block right after taking it gives the old list back.\<close>

lemma l_release_take:
  assumes "coalesced (xs @ (s, True) # ys)" "sz \<le> s"
  shows "(\<exists>s'. l_take sz s = (s', False) # tl (l_take sz s)
     \<and> l_release xs s' (tl (l_take sz s) @ ys) = xs @ (s, True) # ys)"
proof -
  have x: "\<not> (xs \<noteq> [] \<and> snd (last xs))" using assms(1) by (auto simp: coalesced_append)
  have y: "l_merge_next s ys = (s, True) # ys"
    using assms(1) by (cases ys rule: l_merge_cases) (auto simp: coalesced_append coalesced_Cons)
  show ?thesis
    using x y by (auto simp: l_take_def l_release_def)
qed

end
