(* ===== verification/ScratchpadSpec.thy ===== *)
theory ScratchpadSpec
  imports ScratchpadRefine
begin

text \<open>
  The contract of the allocator, as its clients use it, and the proof that the scratchpad keeps it.
  The interface is the locale \<open>allocator\<close>: what an allocation returns, what a release needs, and
  that live regions never overlap. Its assumptions about the system allocators are \<open>os_ok\<close>: a block
  they return is aligned and apart from every region the process still holds.
\<close>

section \<open>The interface\<close>

definition apart :: "nat \<times> nat \<Rightarrow> nat \<times> nat \<Rightarrow> bool" where
  "apart r q \<longleftrightarrow> fst r \<noteq> fst q \<and> (fst r + snd r \<le> fst q \<or> fst q + snd q \<le> fst r)"

lemma apart_sym: "apart r q \<Longrightarrow> apart q r"
  by (auto simp: apart_def)

locale allocator =
  fixes al_alloc :: "'s \<Rightarrow> nat \<Rightarrow> (ptr \<times> 's) option"
    and al_free :: "'s \<Rightarrow> ptr \<Rightarrow> 's option"
    and al_live :: "'s \<Rightarrow> (nat \<times> nat) set"
    and al_inv :: "'s \<Rightarrow> bool"
    and al_max :: nat
  assumes alloc_total: "al_inv s \<Longrightarrow> n \<le> al_max \<Longrightarrow> \<exists>p s'. al_alloc s n = Some (p, s')"
    and alloc_inv: "al_inv s \<Longrightarrow> n \<le> al_max \<Longrightarrow> al_alloc s n = Some (p, s') \<Longrightarrow> al_inv s'"
    and alloc_null: "al_inv s \<Longrightarrow> n \<le> al_max \<Longrightarrow> al_alloc s n = Some (None, s') \<Longrightarrow> al_live s' = al_live s"
    and alloc_live: "al_inv s \<Longrightarrow> n \<le> al_max \<Longrightarrow> al_alloc s n = Some (Some a, s') \<Longrightarrow>
       128 dvd a \<and> (\<exists>m\<ge>n. al_live s' = insert (a, m) (al_live s) \<and> (\<forall>r \<in> al_live s. apart (a, m) r))"
    and free_null: "al_free s None = Some s"
    and free_live: "al_inv s \<Longrightarrow> (a, m) \<in> al_live s \<Longrightarrow>
       \<exists>s'. al_free s (Some a) = Some s' \<and> al_inv s' \<and> al_live s' = al_live s - {(a, m)}"
begin

text \<open>A client that allocates a list of sizes, and one that releases a list of pointers.\<close>

fun alloc_list :: "nat list \<Rightarrow> 's \<Rightarrow> (ptr list \<times> 's) option" where
  "alloc_list [] s = Some ([], s)"
| "alloc_list (n # ns) s =
     Option.bind (al_alloc s n) (\<lambda>(p, s'). map_option (\<lambda>(ps, s''). (p # ps, s'')) (alloc_list ns s'))"

fun free_list :: "ptr list \<Rightarrow> 's \<Rightarrow> 's option" where
  "free_list [] s = Some s"
| "free_list (p # ps) s = Option.bind (al_free s p) (free_list ps)"

lemma alloc_list_spec:
  assumes "al_inv s" "\<forall>n \<in> set ns. n \<le> al_max"
  shows "\<exists>ps s' R. alloc_list ns s = Some (ps, s') \<and> al_inv s' \<and> length ps = length ns
     \<and> al_live s' = al_live s \<union> R \<and> fst ` R = {a. Some a \<in> set ps} \<and> R \<inter> al_live s = {}
     \<and> (\<forall>r \<in> R. \<forall>q \<in> al_live s'. r = q \<or> apart r q)
     \<and> distinct (filter (\<lambda>p. p \<noteq> None) ps)"
  using assms
proof (induction ns arbitrary: s)
  case Nil
  then show ?case by (auto intro!: exI [of _ "{}"])
next
  case (Cons n ns)
  then obtain p s1 where a: "al_alloc s n = Some (p, s1)"
    using alloc_total [of s n] by (meson list.set_intros(1))
  have i1: "al_inv s1" using Cons.prems a alloc_inv by auto
  have "\<forall>n \<in> set ns. n \<le> al_max" using Cons.prems(2) by simp
  from Cons.IH [OF i1 this] obtain ps s' R where r: "alloc_list ns s1 = Some (ps, s')" "al_inv s'" "length ps = length ns"
    "al_live s' = al_live s1 \<union> R" "fst ` R = {a. Some a \<in> set ps}" "R \<inter> al_live s1 = {}"
    "\<forall>r \<in> R. \<forall>q \<in> al_live s'. r = q \<or> apart r q" "distinct (filter (\<lambda>p. p \<noteq> None) ps)"
    by blast
  show ?case
  proof (cases p)
    case None
    then have "al_live s1 = al_live s" using alloc_null Cons.prems a by auto
    with a r None show ?thesis by (intro exI [of _ "None # ps"] exI [of _ s'] exI [of _ R]) auto
  next
    case (Some b)
    then obtain m where m: "al_live s1 = insert (b, m) (al_live s)" "\<forall>r \<in> al_live s. apart (b, m) r"
      using alloc_live Cons.prems a by (metis list.set_intros(1))
    have new: "(b, m) \<notin> al_live s" using m(2) by (auto simp: apart_def)
    have "b \<notin> fst ` R"
    proof
      assume "b \<in> fst ` R"
      then obtain k where k: "(b, k) \<in> R" by force
      then have "(b, k) = (b, m) \<or> apart (b, k) (b, m)" using r(4,7) m(1) by blast
      with k r(6) m(1) show False by (auto simp: apart_def)
    qed
    then have "Some b \<notin> set ps" using r(5) by blast
    moreover have "\<forall>r \<in> insert (b, m) R. \<forall>q \<in> al_live s'. r = q \<or> apart r q"
      using r(4,7) m by (auto dest: apart_sym)
    ultimately show ?thesis using a r m new Some
      by (intro exI [of _ "Some b # ps"] exI [of _ s'] exI [of _ "insert (b, m) R"]) auto
  qed
qed

text \<open>Releasing what was allocated, in any order, restores the live regions: nothing leaks.\<close>

lemma free_list_spec:
  assumes "al_inv s" "al_live s = L \<union> R" "L \<inter> R = {}" "finite R" "inj_on fst R"
    "fst ` R = {a. Some a \<in> set ps}" "distinct (filter (\<lambda>p. p \<noteq> None) ps)"
  shows "\<exists>s'. free_list ps s = Some s' \<and> al_inv s' \<and> al_live s' = L"
  using assms
proof (induction ps arbitrary: s R)
  case Nil
  then show ?case by auto
next
  case (Cons p ps)
  show ?case
  proof (cases p)
    case None
    with Cons.prems have "\<exists>s'. free_list ps s = Some s' \<and> al_inv s' \<and> al_live s' = L"
      by (intro Cons.IH [of s R]) auto
    with None show ?thesis by (simp add: free_null)
  next
    case (Some a)
    then have "a \<in> fst ` R" using Cons.prems(6) by auto
    then obtain m where m: "(a, m) \<in> R" by force
    then obtain s1 where s1: "al_free s (Some a) = Some s1" "al_inv s1" "al_live s1 = al_live s - {(a, m)}"
      using free_live Cons.prems(1,2) by blast
    have "Some a \<notin> set ps" using Cons.prems(7) Some by auto
    moreover have "fst ` (R - {(a, m)}) = fst ` R - {a}"
      using inj_on_image_set_diff [OF Cons.prems(5), of R "{(a, m)}"] m by simp
    ultimately have addr: "fst ` (R - {(a, m)}) = {b. Some b \<in> set ps}"
      using Cons.prems(6) Some by auto
    have "al_live s1 = L \<union> (R - {(a, m)})" using s1(3) Cons.prems(2,3) m by auto
    with s1 addr have "\<exists>s'. free_list ps s1 = Some s' \<and> al_inv s' \<and> al_live s' = L"
      using Cons.prems Some by (intro Cons.IH [of s1 "R - {(a, m)}"]) (auto intro: inj_on_subset)
    with s1 Some show ?thesis by simp
  qed
qed

lemma alloc_free_list:
  assumes "al_inv s" "\<forall>n \<in> set ns. n \<le> al_max" "finite (al_live s)"
  shows "\<exists>ps s' s''. alloc_list ns s = Some (ps, s') \<and> al_inv s' \<and> al_live s \<subseteq> al_live s'
     \<and> free_list ps s' = Some s'' \<and> al_inv s'' \<and> al_live s'' = al_live s"
proof -
  obtain ps s' R where r: "alloc_list ns s = Some (ps, s')" "al_inv s'"
    "al_live s' = al_live s \<union> R" "fst ` R = {a. Some a \<in> set ps}" "R \<inter> al_live s = {}"
    "\<forall>r \<in> R. \<forall>q \<in> al_live s'. r = q \<or> apart r q" "distinct (filter (\<lambda>p. p \<noteq> None) ps)"
    using alloc_list_spec [OF assms(1,2)] by blast
  have inj: "inj_on fst R" using r(3,6) by (force simp: inj_on_def apart_def)
  have "{a. Some a \<in> set ps} \<subseteq> the ` set ps" by force
  then have "finite (fst ` R)" unfolding r(4) by (rule finite_subset) simp
  then have "finite R" using inj by (rule finite_imageD)
  with r inj show ?thesis using free_list_spec [of s' "al_live s" R ps] by blast
qed

end

section \<open>The system allocators\<close>

definition fresh_region :: "(nat \<times> nat) list \<Rightarrow> nat \<Rightarrow> nat \<Rightarrow> bool" where
  "fresh_region live a n \<longleftrightarrow> (\<forall>r \<in> set live. apart (a, n) r)"

text \<open>
  The documented behaviour of \<^verbatim>\<open>posix_memalign\<close> with alignment 128 and of \<^verbatim>\<open>rpcmem_alloc\<close>: a block that is
  returned is aligned, lies in the address space and is apart from every block not yet freed.
\<close>

definition os_ok :: "os_env \<Rightarrow> bool" where
  "os_ok env \<longleftrightarrow>
     (\<forall>l n a. env_posix_memalign env l n = Some a \<longrightarrow>
        128 dvd a \<and> 128 \<le> a \<and> a + n < 2 ^ 64 \<and> fresh_region (os_live l) a n)
   \<and> (\<forall>l n a. env_rpcmem_alloc env l n = Some a \<longrightarrow>
        128 dvd a \<and> 128 \<le> a \<and> a + nat n < 2 ^ 64 \<and> fresh_region (os_live l) a (nat n))"

fun os_disjoint :: "(nat \<times> nat) list \<Rightarrow> bool" where
  "os_disjoint [] = True"
| "os_disjoint ((a, n) # rs) = (fresh_region rs a n \<and> os_disjoint rs)"

lemma os_disjointD:
  "os_disjoint rs \<Longrightarrow> r \<in> set rs \<Longrightarrow> q \<in> set rs \<Longrightarrow> r = q \<or> apart r q"
  by (induction rs rule: os_disjoint.induct) (auto simp: fresh_region_def dest: apart_sym)

lemma os_disjoint_filter: "os_disjoint rs \<Longrightarrow> os_disjoint (filter P rs)"
  by (induction rs rule: os_disjoint.induct) (auto simp: fresh_region_def)

section \<open>The abstraction of a scratchpad\<close>

text \<open>Following the \<^verbatim>\<open>next\<close> pointers gives address, size and flag of every block.\<close>

partial_function (option) walk :: "header_heap \<Rightarrow> ptr \<Rightarrow> (nat \<times> nat \<times> bool) list option" where
  "walk h p =
     (case p of
        None \<Rightarrow> Some []
      | Some a \<Rightarrow>
          (case h a of
             None \<Rightarrow> None
           | Some b \<Rightarrow> Option.bind (walk h (bh_next b)) (\<lambda>r. Some ((a, bh_size b, bh_is_free b) # r))))"

fun place :: "nat \<Rightarrow> block list \<Rightarrow> (nat \<times> nat \<times> bool) list" where
  "place a [] = []"
| "place a ((s, f) # bs) = (a, s, f) # place (a + header_size + s) bs"

lemma place_append: "place a (xs @ ys) = place a xs @ place (a + bspan xs) ys"
  by (induction a xs rule: place.induct) (auto simp: add.assoc)

lemma walk_seg:
  "seg h a prev bs nullptr \<Longrightarrow> walk h (if bs = [] then nullptr else Some a) = Some (place a bs)"
proof (induction bs arbitrary: a prev)
  case Nil
  then show ?case by (simp add: walk.simps)
next
  case (Cons b bs)
  obtain s f where b: "b = (s, f)" by (cases b)
  have "walk h (if bs = [] then nullptr else Some (a + header_size + s))
      = Some (place (a + header_size + s) bs)"
    using Cons.prems by (intro Cons.IH [of _ "Some a"]) (simp add: b)
  with Cons.prems show ?case by (subst walk.simps) (auto simp: b)
qed

text \<open>Blocks of a placed list lie apart, inside the span.\<close>

lemma place_in:
  "(c, s, f) \<in> set (place a bs) \<Longrightarrow> a \<le> c \<and> c + header_size + s \<le> a + bspan bs"
  by (induction a bs rule: place.induct) auto

lemma place_split:
  assumes "(c, s, f) \<in> set (place a bs)"
  shows "\<exists>xs ys. bs = xs @ (s, f) # ys \<and> c = a + bspan xs"
  using assms
proof (induction a bs rule: place.induct)
  case (2 a s' f' bs)
  show ?case
  proof (cases "(c, s, f) = (a, s', f')")
    case True
    then show ?thesis by (intro exI [of _ "[]"] exI [of _ bs]) auto
  next
    case False
    with 2 obtain xs ys where "bs = xs @ (s, f) # ys" "c = a + header_size + s' + bspan xs" by auto
    then show ?thesis by (intro exI [of _ "(s', f') # xs"] exI [of _ ys]) auto
  qed
qed simp

definition block_live :: "nat \<Rightarrow> block list \<Rightarrow> (nat \<times> nat) set" where
  "block_live a bs = {(c + header_size, s) | c s. (c, s, False) \<in> set (place a bs)}"

lemma block_live_append:
  "block_live a (xs @ ys) = block_live a xs \<union> block_live (a + bspan xs) ys"
  by (auto simp: block_live_def place_append)

lemma block_live_Nil [simp]: "block_live a [] = {}"
  by (simp add: block_live_def)

lemma block_live_Cons:
  "block_live a ((s, f) # bs) =
     (if f then {} else {(a + header_size, s)}) \<union> block_live (a + header_size + s) bs"
  by (auto simp: block_live_def)

lemma block_live_in:
  "(c, s) \<in> block_live a bs \<Longrightarrow> a + header_size \<le> c \<and> c + s \<le> a + bspan bs"
  using place_in by (fastforce simp: block_live_def)

lemma place_less:
  "(c, s, f) \<in> set (place a bs) \<Longrightarrow> 0 < fst (last bs) \<Longrightarrow> c + header_size < a + bspan bs"
  by (induction a bs rule: place.induct) (auto split: if_splits simp: add.assoc)

lemma block_live_less:
  "(c, s) \<in> block_live a bs \<Longrightarrow> 0 < fst (last bs) \<Longrightarrow> c < a + bspan bs"
  by (auto simp: block_live_def dest: place_less)

lemma finite_block_live: "finite (block_live a bs)"
proof -
  have "block_live a bs \<subseteq> (\<lambda>(c, s, f). (c + header_size, s)) ` set (place a bs)"
    by (force simp: block_live_def)
  then show ?thesis by (rule finite_subset) simp
qed

text \<open>The live regions: blocks in use, and what came from the system instead of the buffer.\<close>

definition sp_live :: "scratchpad \<Rightarrow> (nat \<times> nat) set" where
  "sp_live s =
     {(c + header_size, n) | c n. (c, n, False) \<in> set (the (walk (headers s) (head_block s)))}
   \<union> {r \<in> set (os_live (os_log s)). Some (fst r) \<noteq> memory_buffer s}"

definition size_ok :: "nat \<Rightarrow> bool" where
  "size_ok n \<longleftrightarrow> 128 dvd n \<and> 256 \<le> n \<and> n < 2 ^ 31"

definition buffer_ok :: "scratchpad \<Rightarrow> nat \<Rightarrow> block list \<Rightarrow> bool" where
  "buffer_ok s b bs \<longleftrightarrow>
     memory_buffer s = Some b \<and> head_block s = Some b \<and> 128 dvd b \<and> 128 \<le> b
     \<and> b + total_size s < 2 ^ 64 \<and> (b, total_size s) \<in> set (os_live (os_log s))
     \<and> seg (headers s) b nullptr bs nullptr \<and> bspan bs = total_size s \<and> coalesced bs \<and> aligned bs
     \<and> 0 < fst (last bs)"

definition sp_inv :: "scratchpad \<Rightarrow> bool" where
  "sp_inv s \<longleftrightarrow>
     rpcmem_wf (rpc s) \<and> size_ok (total_size s) \<and> os_disjoint (os_live (os_log s))
     \<and> (memory_buffer s = nullptr \<and> head_block s = nullptr \<or> (\<exists>b bs. buffer_ok s b bs))"

lemma buffer_ok_ne: "buffer_ok s b bs \<Longrightarrow> size_ok (total_size s) \<Longrightarrow> bs \<noteq> []"
  by (auto simp: buffer_ok_def size_ok_def)

lemma sp_live_buffer:
  assumes "buffer_ok s b bs" "size_ok (total_size s)"
  shows "sp_live s = block_live b bs \<union> {r \<in> set (os_live (os_log s)). fst r \<noteq> b}"
proof -
  have "walk (headers s) (Some b) = Some (place b bs)"
    using assms walk_seg [of "headers s" b nullptr bs] buffer_ok_ne [OF assms]
    by (simp add: buffer_ok_def)
  with assms show ?thesis by (simp add: sp_live_def block_live_def buffer_ok_def)
qed

lemma sp_live_none:
  "memory_buffer s = nullptr \<Longrightarrow> head_block s = nullptr \<Longrightarrow> sp_live s = set (os_live (os_log s))"
  by (auto simp: sp_live_def walk.simps)

lemma finite_sp_live: "sp_inv s \<Longrightarrow> finite (sp_live s)"
  by (auto simp: sp_inv_def sp_live_none sp_live_buffer finite_block_live)

section \<open>Initialisation keeps the contract\<close>

definition attach :: "scratchpad \<Rightarrow> nat \<Rightarrow> scratchpad" where
  "attach s b =
     s\<lparr>memory_buffer := Some b, head_block := Some b,
       headers := (headers s)(b \<mapsto>
         \<lparr>bh_size = size_sub (total_size s) header_size, bh_is_free = True,
          bh_next = nullptr, bh_prev = nullptr\<rparr>)\<rparr>"

lemma attach_ok:
  assumes "rpcmem_wf (rpc s)" "size_ok (total_size s)" "os_live (os_log s) = (b, total_size s) # old"
    and "fresh_region old b (total_size s)" "os_disjoint old"
    and "128 dvd b" "128 \<le> b" "b + total_size s < 2 ^ 64"
  shows "sp_inv (attach s b) \<and> sp_live (attach s b) = set old"
proof -
  let ?bs = "[(total_size s - header_size, True)]"
  have t: "header_size < total_size s" "128 dvd total_size s"
    using assms(2) by (auto simp: size_ok_def)
  then have "size_sub (total_size s) header_size = total_size s - header_size"
    using assms(2) by (intro size_sub_id) (auto simp: size_ok_def)
  then have ok: "buffer_ok (attach s b) b ?bs"
    using assms t by (auto simp: buffer_ok_def attach_def dvd_diff_nat)
  moreover have "{r \<in> set ((b, total_size s) # old). fst r \<noteq> b} = set old"
    using assms(4) by (auto simp: fresh_region_def apart_def)
  ultimately have "sp_live (attach s b) = set old"
    using assms(2,3) sp_live_buffer [OF ok] by (simp add: attach_def block_live_Cons)
  moreover have "sp_inv (attach s b)"
    using ok assms by (auto simp: sp_inv_def attach_def)
  ultimately show ?thesis by blast
qed

lemma sp_load_rpcmem_fields [simp]:
  "memory_buffer (sp_load_rpcmem env s) = memory_buffer s"
  "head_block (sp_load_rpcmem env s) = head_block s"
  "total_size (sp_load_rpcmem env s) = total_size s"
  "headers (sp_load_rpcmem env s) = headers s"
  "os_live (os_log (sp_load_rpcmem env s)) = os_live (os_log s)"
  "rpcmem_wf (rpc s) \<Longrightarrow> rpcmem_wf (rpc (sp_load_rpcmem env s))"
  by (simp_all add: sp_load_rpcmem_def case_prod_beta rpcmem_wf_load)

text \<open>The three ways initialisation ends: a shared buffer, a buffer from the system, or none.\<close>

lemma initialize_cases:
  fixes env s
  assumes "memory_buffer s = nullptr" "size_ok (total_size s)"
  defines "s1 \<equiv> sp_load_rpcmem env s"
  obtains (rpc) b where "env_rpcmem_alloc env (os_log s1) (int (total_size s)) = Some b"
      "initialize_if_needed env s
         = attach (s1\<lparr>os_log := RpcAlloc (int (total_size s)) (Some b) # os_log s1\<rparr>) b"
  | (posix) b l where "os_live l = os_live (os_log s1)"
      "env_posix_memalign env l (total_size s) = Some b"
      "initialize_if_needed env s = attach (s1\<lparr>os_log := PosixMemalign 128 (total_size s) (Some b) # l\<rparr>) b"
  | (none) l where "os_live l = os_live (os_log s1)" "initialize_if_needed env s = s1\<lparr>os_log := l\<rparr>"
proof -
  have w: "wrap_int 32 (int (total_size s)) = int (total_size s)"
    using assms(2) by (intro wrap_int_id) (auto simp: size_ok_def)
  have s1: "memory_buffer s1 = nullptr" "total_size s1 = total_size s" "headers s1 = headers s"
    using assms(1) by (simp_all add: s1_def)
  let ?r = "env_rpcmem_alloc env (os_log s1) (int (total_size s))"
  let ?l = "if rpcmem_loaded (rpc s1) then RpcAlloc (int (total_size s)) nullptr # os_log s1 else os_log s1"
  let ?q = "env_posix_memalign env ?l (total_size s)"
  show thesis
  proof (cases "rpcmem_loaded (rpc s1) \<and> ?r \<noteq> nullptr")
    case True
    then show thesis using rpc s1 w assms(1)
      by (auto simp: initialize_if_needed_def attach_def Let_def s1_def [symmetric])
  next
    case False
    then have f: "rpcmem_loaded (rpc s1) \<Longrightarrow> ?r = nullptr" by simp
    have l: "os_live ?l = os_live (os_log s1)" by simp
    show thesis
    proof (cases ?q)
      case None
      with f l s1 w assms(1) show thesis
        by (intro none [of "PosixMemalign 128 (total_size s) nullptr # ?l"])
           (auto simp: initialize_if_needed_def Let_def s1_def [symmetric])
    next
      case (Some b)
      with f l s1 w assms(1) show thesis
        by (intro posix [of ?l b])
           (auto simp: initialize_if_needed_def attach_def Let_def s1_def [symmetric])
    qed
  qed
qed

lemma initialize_ok:
  assumes "os_ok env" "sp_inv s"
  shows "sp_inv (initialize_if_needed env s) \<and> sp_live (initialize_if_needed env s) = sp_live s"
proof (cases "memory_buffer s = nullptr")
  case False
  then show ?thesis using assms(2) by (simp add: initialize_if_needed_def)
next
  case True
  let ?s1 = "sp_load_rpcmem env s"
  have s: "head_block s = nullptr" "rpcmem_wf (rpc s)" "size_ok (total_size s)"
    "os_disjoint (os_live (os_log s))"
    using assms(2) True by (auto simp: sp_inv_def buffer_ok_def)
  have live: "sp_live s = set (os_live (os_log s))" using True s(1) by (rule sp_live_none)
  from True s(3) show ?thesis
  proof (cases rule: initialize_cases [where env = env])
    case (rpc b)
    have "128 dvd b \<and> 128 \<le> b \<and> b + total_size s < 2 ^ 64 \<and> fresh_region (os_live (os_log s)) b (total_size s)"
      using assms(1) rpc(1) unfolding os_ok_def by (metis nat_int sp_load_rpcmem_fields(5))
    then show ?thesis unfolding rpc(2) live using s by (intro attach_ok) auto
  next
    case (posix b l)
    have "128 dvd b \<and> 128 \<le> b \<and> b + total_size s < 2 ^ 64 \<and> fresh_region (os_live (os_log s)) b (total_size s)"
      using assms(1) posix(1,2) unfolding os_ok_def by (metis sp_load_rpcmem_fields(5))
    then show ?thesis unfolding posix(3) live using s posix(1) by (intro attach_ok) auto
  next
    case (none l)
    then show ?thesis using s True live by (simp add: sp_inv_def sp_live_none)
  qed
qed

section \<open>Allocation keeps the contract\<close>

lemma align128_eq:
  assumes "n + 127 < 2 ^ 64"
  shows "align128 n = (n + 127) div 128 * 128"
proof -
  let ?x = "word_of_nat (n + 127) :: 64 word"
  have "y AND NOT (mask k) = push_bit k (drop_bit k y)" for y :: "64 word" and k
    by (rule bit_word_eqI) (auto simp: bit_simps)
  from this [of ?x 7] have "?x AND NOT 127 = push_bit 7 (drop_bit 7 ?x)"
    by (simp add: mask_eq_exp_minus_1)
  then have "align128 n = unat (push_bit 7 (drop_bit 7 ?x))"
    using assms by (simp add: align128_def size_add_id)
  also have "\<dots> = unat ?x div 2 ^ 7 * 2 ^ 7 mod 2 ^ 64"
    by (simp only: unat_push_bit_mod unat_drop_bit_div) simp
  also have "unat ?x = n + 127"
    using assms by (simp only: unat_of_nat take_bit_nat_eq_self) (simp add: take_bit_nat_eq_self)
  also have "(n + 127) div 2 ^ 7 * 2 ^ 7 mod 2 ^ 64 = (n + 127) div 128 * 128"
  proof -
    have "(n + 127) div 128 * 128 \<le> n + 127" by simp
    with assms show ?thesis by simp
  qed
  finally show ?thesis .
qed

lemma align128_props:
  assumes "n + 127 < 2 ^ 64"
  shows "n \<le> align128 n" "128 dvd align128 n" "align128 n < n + 128"
proof -
  show "n \<le> align128 n" "align128 n < n + 128" unfolding align128_eq [OF assms] by linarith+
  show "128 dvd align128 n" unfolding align128_eq [OF assms] by simp
qed

text \<open>The block that is taken is the only new live block, and it lies apart from the others.\<close>

lemma block_live_take:
  assumes "sz \<le> s"
  shows "\<exists>m\<ge>sz. block_live b (xs @ l_take sz s @ ys)
       = insert (b + bspan xs + header_size, m) (block_live b (xs @ (s, True) # ys))
     \<and> (\<forall>r \<in> block_live b (xs @ (s, True) # ys). apart (b + bspan xs + header_size, m) r)
     \<and> b + bspan xs + header_size + m \<le> b + bspan (xs @ (s, True) # ys)
     \<and> (b + bspan xs + header_size, m) \<in> block_live b (xs @ l_take sz s @ ys)"
proof -
  define m where "m = (if sz + header_size + 128 \<le> s then sz else s)"
  let ?c = "b + bspan xs"
  have m: "sz \<le> m" "m \<le> s" using assms by (auto simp: m_def)
  have "?c + header_size + sz + header_size + (s - sz - header_size) = ?c + header_size + s"
    if "sz + header_size + 128 \<le> s" using that by simp
  then have live: "block_live b (xs @ l_take sz s @ ys)
      = insert (?c + header_size, m) (block_live b (xs @ (s, True) # ys))"
    by (auto simp: block_live_append block_live_Cons l_take_def m_def add.assoc)
  have "apart (?c + header_size, m) r" if "r \<in> block_live b (xs @ (s, True) # ys)" for r
  proof -
    obtain c k where r: "r = (c, k)" by (cases r)
    from that r have "(c, k) \<in> block_live b xs \<or> (c, k) \<in> block_live (?c + header_size + s) ys"
      by (simp add: block_live_append block_live_Cons)
    then show ?thesis using m block_live_in [of c k b xs] block_live_in [of c k "?c + header_size + s" ys]
      by (auto simp: apart_def r)
  qed
  with m live show ?thesis by (intro exI [of _ m]) auto
qed

lemma buffer_os_apart:
  assumes "buffer_ok s b bs" "os_disjoint (os_live (os_log s))" "r \<in> set (os_live (os_log s))" "fst r \<noteq> b"
    and "b < a" "a < b + total_size s" "a + n \<le> b + total_size s"
  shows "apart (a, n) r"
proof -
  have "(b, total_size s) = r \<or> apart (b, total_size s) r"
    using assms(1-3) by (intro os_disjointD) (auto simp: buffer_ok_def)
  then show ?thesis using assms(4-7) by (cases r) (auto simp: apart_def)
qed

lemma alloc_block:
  assumes "sp_inv s" "buffer_ok s b bs" "l_find sz b bs = Some c" "128 dvd sz"
  shows "\<exists>h m. take_block (headers s) c sz = Some h \<and> sp_inv (s\<lparr>headers := h\<rparr>) \<and> 128 dvd c + header_size
     \<and> sz \<le> m \<and> sp_live (s\<lparr>headers := h\<rparr>) = insert (c + header_size, m) (sp_live s)
     \<and> (\<forall>r \<in> sp_live s. apart (c + header_size, m) r)"
proof -
  have inv: "size_ok (total_size s)" "os_disjoint (os_live (os_log s))" "rpcmem_wf (rpc s)"
    using assms(1) by (auto simp: sp_inv_def)
  note ok = assms(2) [unfolded buffer_ok_def]
  obtain xs s0 ys where bs: "bs = xs @ (s0, True) # ys" and c: "c = b + bspan xs" and sz: "sz \<le> s0"
    using l_find_SomeD [OF assms(3)] by metis
  have "s0 + header_size + 128 < 2 ^ 64" using inv(1) ok by (auto simp: size_ok_def bs)
  then obtain h where h: "take_block (headers s) c sz = Some h"
    and seg: "seg h b nullptr (xs @ l_take sz s0 @ ys) nullptr"
    using take_block_seg [of "headers s" b nullptr xs s0 ys sz] ok sz c bs by auto
  let ?s = "s\<lparr>headers := h\<rparr>" and ?bs = "xs @ l_take sz s0 @ ys"
  have pos: "0 < fst (last ?bs)" using ok by (auto simp: bs l_take_def)
  then have ok': "buffer_ok ?s b ?bs"
    using ok seg sz l_take_wf [of xs s0 ys sz] assms(4) by (auto simp: buffer_ok_def bs bspan_l_take)
  obtain m where m: "sz \<le> m" "block_live b ?bs = insert (c + header_size, m) (block_live b bs)"
    "\<forall>r \<in> block_live b bs. apart (c + header_size, m) r" "c + header_size + m \<le> b + bspan bs"
    unfolding bs c using block_live_take [OF sz, of b xs ys] by blast
  have "(c + header_size, m) \<in> block_live b ?bs" using m(2) by simp
  then have "c + header_size < b + total_size s"
    using block_live_less [OF _ pos] ok' by (auto simp: buffer_ok_def)
  moreover have "c + header_size + m \<le> b + total_size s" using m(4) ok by simp
  ultimately have os: "apart (c + header_size, m) r" if "r \<in> set (os_live (os_log s))" "fst r \<noteq> b" for r
    using buffer_os_apart [OF assms(2) inv(2) that] c by simp
  have "\<forall>r \<in> sp_live s. apart (c + header_size, m) r"
    using m(3) os by (auto simp: sp_live_buffer [OF assms(2) inv(1)])
  moreover have "sp_live ?s = insert (c + header_size, m) (sp_live s)"
    using sp_live_buffer [OF ok'] sp_live_buffer [OF assms(2) inv(1)] m(2) inv(1) by simp
  moreover have "sp_inv ?s" using ok' inv by (auto simp: sp_inv_def)
  moreover have "128 dvd c + header_size" using ok c by (simp add: bs aligned_bspan)
  ultimately show ?thesis using h m(1) by blast
qed

text \<open>The fallback: a block from the system joins the live regions.\<close>

lemma alloc_fallback:
  assumes "os_ok env" "sp_inv s" "env_posix_memalign env (os_log s) sz = p"
  defines "s' \<equiv> s\<lparr>os_log := PosixMemalign 128 sz p # os_log s\<rparr>"
  shows "sp_inv s' \<and> (case p of None \<Rightarrow> sp_live s' = sp_live s
     | Some a \<Rightarrow> 128 dvd a \<and> sp_live s' = insert (a, sz) (sp_live s) \<and> (\<forall>r \<in> sp_live s. apart (a, sz) r))"
proof (cases p)
  case None
  then show ?thesis using assms(2)
    by (auto simp: s'_def sp_inv_def buffer_ok_def sp_live_def)
next
  case (Some a)
  have a: "128 dvd a" and fresh: "fresh_region (os_live (os_log s)) a sz"
    using assms(1,3) Some by (auto simp: os_ok_def)
  have inv': "sp_inv s'" using assms(2) fresh Some
    by (auto simp: s'_def sp_inv_def buffer_ok_def)
  have inv: "size_ok (total_size s)" using assms(2) by (simp add: sp_inv_def)
  consider "memory_buffer s = nullptr" "head_block s = nullptr" | b bs where "buffer_ok s b bs"
    using assms(2) by (auto simp: sp_inv_def)
  then have "sp_live s' = insert (a, sz) (sp_live s) \<and> (\<forall>r \<in> sp_live s. apart (a, sz) r)"
  proof cases
    case 1
    then show ?thesis using fresh Some by (auto simp: s'_def sp_live_none fresh_region_def)
  next
    case 2
    then have ok': "buffer_ok s' b bs" using Some by (auto simp: s'_def buffer_ok_def)
    have ab: "apart (a, sz) (b, total_size s)" using fresh 2 by (auto simp: fresh_region_def buffer_ok_def)
    have "apart (a, sz) r" if "r \<in> block_live b bs" for r
      using that ab block_live_in [of "fst r" "snd r" b bs] block_live_less [of "fst r" "snd r" b bs] 2
      by (cases r) (auto simp: apart_def buffer_ok_def)
    moreover have "a \<noteq> b" using ab by (simp add: apart_def)
    ultimately show ?thesis using fresh Some sp_live_buffer [OF ok'] sp_live_buffer [OF 2 inv] inv
      by (auto simp: s'_def fresh_region_def)
  qed
  then show ?thesis using inv' a Some by simp
qed

definition max_request :: nat where
  "max_request = 2 ^ 63"

lemma alloc_contract:
  assumes "os_ok env" "sp_inv s" "n \<le> max_request"
  shows "\<exists>p s'. alloc env s n = Some (p, s') \<and> sp_inv s'
     \<and> (case p of None \<Rightarrow> sp_live s' = sp_live s
        | Some a \<Rightarrow> 128 dvd a \<and> (\<exists>m\<ge>n. sp_live s' = insert (a, m) (sp_live s) \<and> (\<forall>r \<in> sp_live s. apart (a, m) r)))"
proof -
  let ?s = "initialize_if_needed env s" and ?sz = "align128 n"
  have sz: "n \<le> ?sz" "128 dvd ?sz"
    using align128_props [of n] assms(3) by (simp_all add: max_request_def)
  have inv: "sp_inv ?s" and live: "sp_live ?s = sp_live s"
    using initialize_ok [OF assms(1,2)] by simp_all
  define p where "p = env_posix_memalign env (os_log ?s) ?sz"
  note fb = alloc_fallback [OF assms(1) inv p_def [symmetric]]
  consider (bl) b bs c where "buffer_ok ?s b bs" "l_find ?sz b bs = Some c"
    | (fb) "find_block (headers ?s) (head_block ?s) ?sz = Some nullptr"
  proof -
    consider "head_block ?s = nullptr" | b bs where "buffer_ok ?s b bs"
      using inv by (auto simp: sp_inv_def)
    then show thesis
    proof cases
      case 1
      then show thesis using that(2) by (simp add: find_block.simps)
    next
      case 2
      then have "bs \<noteq> []" using inv buffer_ok_ne by (auto simp: sp_inv_def)
      then have "find_block (headers ?s) (head_block ?s) ?sz = Some (l_find ?sz b bs)"
        using 2 find_block_seg [of "headers ?s" b nullptr bs ?sz] by (simp add: buffer_ok_def)
      then show thesis using 2 that by (cases "l_find ?sz b bs") auto
    qed
  qed
  then show ?thesis
  proof cases
    case bl
    then have "bs \<noteq> []" using inv buffer_ok_ne by (auto simp: sp_inv_def)
    then have fd: "find_block (headers ?s) (head_block ?s) ?sz = Some (Some c)"
      using bl find_block_seg [of "headers ?s" b nullptr bs ?sz] by (simp add: buffer_ok_def)
    obtain h m where h: "take_block (headers ?s) c ?sz = Some h" "sp_inv (?s\<lparr>headers := h\<rparr>)"
      "128 dvd c + header_size" "?sz \<le> m" "sp_live (?s\<lparr>headers := h\<rparr>) = insert (c + header_size, m) (sp_live ?s)"
      "\<forall>r \<in> sp_live ?s. apart (c + header_size, m) r"
      using alloc_block [OF inv bl sz(2)] by blast
    have "alloc env s n = Some (Some (c + header_size), ?s\<lparr>headers := h\<rparr>)"
      using fd h(1) by (simp add: alloc_def Let_def)
    then show ?thesis using h sz(1) live by (auto intro!: exI [of _ m])
  next
    case fb
    then have "alloc env s n = Some (p, ?s\<lparr>os_log := PosixMemalign 128 ?sz p # os_log ?s\<rparr>)"
      by (simp add: alloc_def Let_def p_def)
    then show ?thesis using \<open>sp_inv _ \<and> _\<close> sz(1) live by (auto split: option.splits intro!: exI [of _ ?sz])
  qed
qed

section \<open>Release keeps the contract\<close>

lemma block_live_release:
  assumes "bs = xs @ (s, False) # ys"
  shows "block_live b (l_release xs s ys) = block_live b bs - {(b + bspan xs + header_size, s)}"
proof -
  let ?c = "b + bspan xs"
  have base: "block_live b bs - {(?c + header_size, s)} = block_live b xs \<union> block_live (?c + header_size + s) ys"
    using block_live_in [of "?c + header_size" s b xs] block_live_in [of "?c + header_size" s "?c + header_size + s" ys]
    by (auto simp: assms block_live_append block_live_Cons)
  obtain s' ys' where m: "l_merge_next s ys = (s', True) # ys'"
    using l_merge_next_head by blast
  have tail: "block_live (?c + header_size + s') ys' = block_live (?c + header_size + s) ys"
    using m by (cases ys rule: l_merge_cases) (auto simp: block_live_Cons add.assoc)
  show ?thesis
  proof (cases "xs \<noteq> [] \<and> snd (last xs)")
    case True
    then obtain zs s0 where xs: "xs = zs @ [(s0, True)]"
      by (metis append_butlast_last_id prod.collapse)
    have "b + bspan zs + header_size + (s0 + (header_size + s')) = ?c + header_size + s'" by (simp add: xs)
    then show ?thesis unfolding base using True m tail
      by (simp add: l_release_def xs block_live_append block_live_Cons ac_simps)
  next
    case False
    then have "l_release xs s ys = xs @ (s', True) # ys'" using m by (auto simp: l_release_def)
    then show ?thesis unfolding base using tail by (simp add: block_live_append block_live_Cons)
  qed
qed

lemma last_release: "0 < fst (last (xs @ (s, f) # ys)) \<Longrightarrow> 0 < fst (last (l_release xs s ys))"
proof -
  assume a: "0 < fst (last (xs @ (s, f) # ys))"
  obtain s' ys' where m: "l_merge_next s ys = (s', True) # ys'"
    using l_merge_next_head by blast
  have "0 < fst (last ((s', True) # ys'))"
    using m a by (cases ys rule: l_merge_cases) (auto split: if_splits)
  then show ?thesis using m by (auto simp: l_release_def)
qed

text \<open>Releasing a block that came from the system.\<close>

lemma os_live_free:
  assumes "os_disjoint (os_live l)" "(a, m) \<in> set (os_live l)"
  shows "{r \<in> set (os_live (OsFree a # l)). P r} = {r \<in> set (os_live l). P r} - {(a, m)}"
  using os_disjointD [OF assms] by (fastforce simp: apart_def)

lemma free_os:
  assumes "sp_inv s" "buffer_ok s b bs" "(a, m) \<in> set (os_live (os_log s))" "a \<noteq> b"
  defines "s' \<equiv> s\<lparr>os_log := OsFree a # os_log s\<rparr>"
  shows "sp_free env s (Some a) = Some s' \<and> sp_inv s' \<and> sp_live s' = sp_live s - {(a, m)}"
proof -
  have inv: "size_ok (total_size s)" "os_disjoint (os_live (os_log s))" "rpcmem_wf (rpc s)"
    using assms(1) by (auto simp: sp_inv_def)
  have "apart (b, total_size s) (a, m)"
    using assms(2-4) inv(2) os_disjointD [of "os_live (os_log s)" "(b, total_size s)" "(a, m)"]
    by (auto simp: buffer_ok_def)
  then have out: "\<not> (b \<le> a \<and> a < b + total_size s)" by (auto simp: apart_def)
  have ok': "buffer_ok s' b bs" using assms(2,4) by (auto simp: buffer_ok_def s'_def)
  have "(a, m) \<notin> block_live b bs"
    using out assms(2) block_live_in [of a m b bs] block_live_less [of a m b bs] by (auto simp: buffer_ok_def)
  then have "sp_live s' = sp_live s - {(a, m)}"
    using sp_live_buffer [OF ok'] sp_live_buffer [OF assms(2) inv(1)] inv(1)
      os_live_free [OF inv(2) assms(3), of "\<lambda>r. fst r \<noteq> b"] by (auto simp: s'_def)
  moreover have "sp_inv s'" using ok' inv by (auto simp: sp_inv_def os_disjoint_filter s'_def)
  ultimately show ?thesis using assms(2) out by (auto simp: sp_free_def buffer_ok_def s'_def)
qed

text \<open>Releasing a block of the buffer.\<close>

lemma free_block:
  assumes "sp_inv s" "buffer_ok s b bs" "(a, m) \<in> block_live b bs"
  shows "\<exists>s'. sp_free env s (Some a) = Some s' \<and> sp_inv s' \<and> sp_live s' = sp_live s - {(a, m)}"
proof -
  have inv: "size_ok (total_size s)" "os_disjoint (os_live (os_log s))" "rpcmem_wf (rpc s)"
    using assms(1) by (auto simp: sp_inv_def)
  note ok = assms(2) [unfolded buffer_ok_def]
  obtain c where c: "a = c + header_size" "(c, m, False) \<in> set (place b bs)"
    using assms(3) by (auto simp: block_live_def)
  then obtain xs ys where bs: "bs = xs @ (m, False) # ys" and cx: "c = b + bspan xs"
    using place_split by blast
  have range: "b \<le> a \<and> a < b + total_size s"
    using ok c block_live_less [OF assms(3)] cx by auto
  obtain h where h: "release_block (headers s) c = Some h" "seg h b nullptr (l_release xs m ys) nullptr"
    using release_block_seg [of "headers s" b xs m False ys] ok bs cx by auto
  let ?s = "s\<lparr>headers := h\<rparr>"
  have ok': "buffer_ok ?s b (l_release xs m ys)"
    using ok h(2) l_release_wf [of xs m ys] last_release [of xs m False ys]
    by (auto simp: buffer_ok_def bs bspan_l_release)
  have "(a, m) \<notin> {r \<in> set (os_live (os_log s)). fst r \<noteq> b}"
    using range c(1) cx buffer_os_apart [OF assms(2) inv(2), of "(a, m)" a m] block_live_in [OF assms(3)] ok
    by (auto simp: apart_def)
  then have "sp_live ?s = sp_live s - {(a, m)}"
    using sp_live_buffer [OF ok'] sp_live_buffer [OF assms(2) inv(1)] inv(1) block_live_release [OF bs, of b]
      c(1) cx by auto
  moreover have "sp_inv ?s" using ok' inv by (auto simp: sp_inv_def)
  ultimately show ?thesis using range ok h(1) c(1) by (simp add: sp_free_def)
qed

lemma free_contract:
  assumes "sp_inv s" "(a, m) \<in> sp_live s"
  shows "\<exists>s'. sp_free env s (Some a) = Some s' \<and> sp_inv s' \<and> sp_live s' = sp_live s - {(a, m)}"
proof -
  have inv: "size_ok (total_size s)" "os_disjoint (os_live (os_log s))" "rpcmem_wf (rpc s)"
    using assms(1) by (auto simp: sp_inv_def)
  consider (none) "memory_buffer s = nullptr" "head_block s = nullptr"
    | (os) b bs where "buffer_ok s b bs" "(a, m) \<in> set (os_live (os_log s))" "a \<noteq> b"
    | (bl) b bs where "buffer_ok s b bs" "(a, m) \<in> block_live b bs"
    using assms inv(1) by (auto simp: sp_inv_def sp_live_buffer)
  then show ?thesis
  proof cases
    case none
    let ?s = "s\<lparr>os_log := OsFree a # os_log s\<rparr>"
    have "sp_inv ?s" using none inv by (auto simp: sp_inv_def os_disjoint_filter)
    moreover have "sp_live ?s = sp_live s - {(a, m)}"
      using none assms(2) os_live_free [OF inv(2), of a m "\<lambda>_. True"] by (simp add: sp_live_none)
    ultimately show ?thesis using none by (simp add: sp_free_def)
  next
    case os
    then show ?thesis using free_os [OF assms(1)] by blast
  next
    case bl
    then show ?thesis using free_block [OF assms(1)] by blast
  qed
qed

end
