(* ===== verification/ScratchpadProps.thy ===== *)
theory ScratchpadProps
  imports ScratchpadSpec
begin

text \<open>
  The scratchpad as an instance of the allocator contract, its runs as a step relation (every
  operation holds the mutex, so the operations of several threads interleave as whole steps), and
  the properties of the component, with a concrete environment for the witnesses.
\<close>

section \<open>The interpretation\<close>

type_synonym sp_state = "os_env \<times> scratchpad"

definition sp_alloc :: "sp_state \<Rightarrow> nat \<Rightarrow> (ptr \<times> sp_state) option" where
  "sp_alloc st n = map_option (\<lambda>(p, s). (p, (fst st, s))) (alloc (fst st) (snd st) n)"

definition sp_release :: "sp_state \<Rightarrow> ptr \<Rightarrow> sp_state option" where
  "sp_release st p = map_option (\<lambda>s. (fst st, s)) (sp_free (fst st) (snd st) p)"

definition sp_ok :: "sp_state \<Rightarrow> bool" where
  "sp_ok st \<longleftrightarrow> os_ok (fst st) \<and> sp_inv (snd st)"

lemma sp_alloc_contract:
  assumes "sp_ok st" "n \<le> max_request"
  shows "\<exists>p st'. sp_alloc st n = Some (p, st') \<and> sp_ok st'
     \<and> (case p of None \<Rightarrow> sp_live (snd st') = sp_live (snd st)
        | Some a \<Rightarrow> 128 dvd a \<and> (\<exists>m\<ge>n. sp_live (snd st') = insert (a, m) (sp_live (snd st))
              \<and> (\<forall>r \<in> sp_live (snd st). apart (a, m) r)))"
proof -
  obtain p s' where "alloc (fst st) (snd st) n = Some (p, s')" "sp_inv s'"
    "case p of None \<Rightarrow> sp_live s' = sp_live (snd st)
     | Some a \<Rightarrow> 128 dvd a \<and> (\<exists>m\<ge>n. sp_live s' = insert (a, m) (sp_live (snd st))
           \<and> (\<forall>r \<in> sp_live (snd st). apart (a, m) r))"
    using alloc_contract [of "fst st" "snd st" n] assms by (auto simp: sp_ok_def)
  with assms(1) show ?thesis
    by (intro exI [of _ p] exI [of _ "(fst st, s')"]) (simp add: sp_ok_def sp_alloc_def split: option.splits)
qed

interpretation scratch: allocator sp_alloc sp_release "\<lambda>st. sp_live (snd st)" sp_ok max_request
proof (unfold_locales, goal_cases)
  case (1 s n) then show ?case using sp_alloc_contract by blast
next
  case (2 s n p s') then show ?case using sp_alloc_contract by fastforce
next
  case (3 s n s') then show ?case using sp_alloc_contract by fastforce
next
  case (4 s n a s') then show ?case using sp_alloc_contract by fastforce
next
  case (5 s) then show ?case by (simp add: sp_release_def sp_free_def)
next
  case (6 s a m)
  then show ?case using free_contract [of "snd s" a m "fst s"] by (auto simp: sp_ok_def sp_release_def)
qed

section \<open>A concrete environment\<close>

text \<open>No shared-memory library; the system allocator hands out ever higher aligned addresses.\<close>

definition top_of :: "(nat \<times> nat) list \<Rightarrow> nat" where
  "top_of rs = foldr (\<lambda>(a, n). max (a + n)) rs 0"

definition bump_env :: os_env where
  "bump_env =
     \<lparr>env_dlopen = (\<lambda>_. False), env_dlsym = (\<lambda>_ _. False), env_rpcmem_alloc = (\<lambda>_ _. None),
      env_posix_memalign = (\<lambda>l n. let a = (top_of (os_live l) div 128 + 1) * 128
                                  in if a + n < 2 ^ 64 then Some a else None),
      env_rpcmem_to_fd = (\<lambda>_. 3)\<rparr>"

lemma top_of_ge: "(a, n) \<in> set rs \<Longrightarrow> a + n \<le> top_of rs"
  by (induction rs) (auto simp: top_of_def)

lemma bump_env_ok: "os_ok bump_env"
proof -
  have "apart ((top_of rs div 128 + 1) * 128, n) r" if "r \<in> set rs" for rs n r
  proof -
    obtain a k where r: "r = (a, k)" by (cases r)
    have "a + k \<le> top_of rs" using that r top_of_ge by blast
    moreover have "top_of rs < (top_of rs div 128 + 1) * 128" by simp
    ultimately show ?thesis by (auto simp: apart_def r)
  qed
  then show ?thesis by (auto simp: os_ok_def bump_env_def fresh_region_def Let_def)
qed

lemma sp_inv_init: "sp_inv scratchpad_init"
  by (simp add: sp_inv_def scratchpad_init_def size_ok_def)

lemma sp_live_init [simp]: "sp_live scratchpad_init = {}"
  by (simp add: sp_live_none scratchpad_init_def)

section \<open>Runs\<close>

text \<open>
  One step is one locked operation: an allocation, the release of a live pointer or of a null
  pointer, or a change of the buffer's size while nothing is allocated.
\<close>

inductive sp_step :: "os_env \<Rightarrow> scratchpad \<Rightarrow> scratchpad \<Rightarrow> bool" for env where
  step_alloc: "n \<le> max_request \<Longrightarrow> alloc env s n = Some (p, s') \<Longrightarrow> sp_step env s s'"
| step_free: "(a, m) \<in> sp_live s \<Longrightarrow> sp_free env s (Some a) = Some s' \<Longrightarrow> sp_step env s s'"
| step_free_null: "sp_free env s nullptr = Some s' \<Longrightarrow> sp_step env s s'"
| step_set_size: "sp_live s = {} \<Longrightarrow> size_ok n \<Longrightarrow> sp_step env s (set_size env s n)"

inductive sp_reachable :: "os_env \<Rightarrow> scratchpad \<Rightarrow> bool" for env where
  reach_init: "sp_reachable env scratchpad_init"
| reach_step: "sp_reachable env s \<Longrightarrow> sp_step env s s' \<Longrightarrow> sp_reachable env s'"

lemma set_size_inv:
  assumes "sp_inv s" "sp_live s = {}" "size_ok n"
  shows "sp_inv (set_size env s n) \<and> sp_live (set_size env s n) = {}"
proof (cases "memory_buffer s")
  case None
  then have "head_block s = nullptr" using assms(1) by (auto simp: sp_inv_def buffer_ok_def)
  with None assms show ?thesis
    by (auto simp: set_size_def sp_inv_def sp_live_none buffer_ok_def)
next
  case (Some b)
  then obtain bs where ok: "buffer_ok s b bs" using assms(1) by (auto simp: sp_inv_def buffer_ok_def)
  then have "{r \<in> set (os_live (os_log s)). fst r \<noteq> b} = {}"
    using assms(1,2) sp_live_buffer [OF ok] by (auto simp: sp_inv_def)
  then have gone: "filter (\<lambda>(a, k). a \<noteq> b) (os_live (os_log s)) = []"
    by (auto simp: filter_empty_conv)
  let ?s = "set_size env s n"
  have f: "memory_buffer ?s = nullptr" "head_block ?s = nullptr" "total_size ?s = n" "os_live (os_log ?s) = []"
    "rpcmem_wf (rpc ?s)"
    using Some assms(1) gone by (auto simp: set_size_def Let_def sp_inv_def)
  then show ?thesis using assms(3) sp_live_none [OF f(1,2)] by (simp add: sp_inv_def)
qed

lemma sp_step_inv:
  assumes "sp_step env s s'" "os_ok env" "sp_inv s"
  shows "sp_inv s'"
  using assms
proof (induction rule: sp_step.induct)
  case (step_alloc n s p s')
  then show ?case using alloc_contract [of env s n] by auto
next
  case (step_free a m s s')
  then show ?case using free_contract [of s a m env] by auto
next
  case (step_free_null s s')
  then show ?case by (simp add: sp_free_def)
next
  case (step_set_size s n)
  then show ?case using set_size_inv by blast
qed

lemma sp_reachable_inv: "sp_reachable env s \<Longrightarrow> os_ok env \<Longrightarrow> sp_inv s"
  by (induction rule: sp_reachable.induct) (auto simp: sp_inv_init intro: sp_step_inv)

lemma block_live_apart:
  "r \<in> block_live b bs \<Longrightarrow> q \<in> block_live b bs \<Longrightarrow> r = q \<or> apart r q"
proof (induction bs arbitrary: b)
  case (Cons x bs)
  obtain s f where x: "x = (s, f)" by (cases x)
  have far: "apart (b + header_size, s) t" if "t \<in> block_live (b + header_size + s) bs" for t
    using that block_live_in [of "fst t" "snd t" "b + header_size + s" bs] by (cases t) (auto simp: apart_def)
  have far': "apart t (b + header_size, s)" if "t \<in> block_live (b + header_size + s) bs" for t
    using far [OF that] by (rule apart_sym)
  from Cons show ?case by (auto simp: x block_live_Cons far far' split: if_splits)
qed simp

lemma sp_live_apart:
  assumes "sp_inv s" "r \<in> sp_live s" "q \<in> sp_live s"
  shows "r = q \<or> apart r q"
proof -
  have inv: "size_ok (total_size s)" "os_disjoint (os_live (os_log s))"
    using assms(1) by (auto simp: sp_inv_def)
  consider "memory_buffer s = nullptr" "head_block s = nullptr" | b bs where "buffer_ok s b bs"
    using assms(1) by (auto simp: sp_inv_def)
  then show ?thesis
  proof cases
    case 1
    then show ?thesis using assms inv(2) by (simp add: sp_live_none os_disjointD)
  next
    case 2
    have mixed: "apart t u" if "t \<in> block_live b bs" "u \<in> set (os_live (os_log s))" "fst u \<noteq> b" for t u
      using buffer_os_apart [OF 2 inv(2) that(2,3), of "fst t" "snd t"] that(1) 2
        block_live_in [of "fst t" "snd t" b bs] block_live_less [of "fst t" "snd t" b bs]
      by (cases t) (auto simp: buffer_ok_def)
    show ?thesis using assms(2,3) unfolding sp_live_buffer [OF 2 inv(1)]
      using mixed block_live_apart os_disjointD [OF inv(2)] by (blast intro: apart_sym)
  qed
qed

section \<open>Properties\<close>

text \<open>
  C1: In every reachable state of the scratchpad, under any interleaving of allocations, releases
  of live pointers and resizings by its clients, the live regions are pairwise apart: no two
  clients are ever given overlapping memory.
\<close>

theorem scratchpad_no_overlap:
  assumes "os_ok env" and "sp_reachable env s" and "r \<in> sp_live s" and "q \<in> sp_live s" and "r \<noteq> q"
  shows "fst r \<noteq> fst q \<and> (fst r + snd r \<le> fst q \<or> fst q + snd q \<le> fst r)"
  using sp_live_apart [OF sp_reachable_inv [OF assms(2,1)] assms(3,4)] assms(5) by (simp add: apart_def)


text \<open>
  C3: Releasing a live pointer of a reachable state always succeeds, ends the life of exactly that
  region and leaves every other live region as it was.
\<close>

theorem scratchpad_free_spec:
  assumes "os_ok env" and "sp_reachable env s" and "(a, m) \<in> sp_live s"
  shows "\<exists>s'. sp_free env s (Some a) = Some s' \<and> sp_reachable env s' \<and> sp_live s' = sp_live s - {(a, m)}"
  using free_contract [OF sp_reachable_inv [OF assms(2,1)] assms(3), of env]
    reach_step [OF assms(2) step_free [OF assms(3)]] by blast

text \<open>A run with one block of 1000 bytes, for the witnesses.\<close>

definition run1 :: "ptr \<times> scratchpad" where
  "run1 = the (alloc bump_env scratchpad_init 1000)"

lemma run1_alloc: "alloc bump_env scratchpad_init 1000 = Some run1"
  using alloc_contract [OF bump_env_ok sp_inv_init, of 1000] by (auto simp: run1_def max_request_def)

lemma run1_headers:
  "headers (initialize_if_needed bump_env scratchpad_init) 128
     = Some \<lparr>bh_size = 33554304, bh_is_free = True, bh_next = nullptr, bh_prev = nullptr\<rparr>"
  "head_block (initialize_if_needed bump_env scratchpad_init) = Some 128"
  by (simp_all add: initialize_if_needed_def scratchpad_init_def bump_env_def top_of_def
      sp_load_rpcmem_def load_rpcmem_once_def rpcmem_init_state_def size_sub_def Let_def)

lemma run1_ptr: "fst run1 = Some 256"
proof -
  have "find_block (headers (initialize_if_needed bump_env scratchpad_init)) (Some 128) 1024 = Some (Some 128)"
    by (subst find_block.simps) (simp add: run1_headers)
  then have "alloc bump_env scratchpad_init 1000 \<noteq> None \<longrightarrow> fst run1 = Some 256"
    by (auto simp: run1_def alloc_def Let_def align128_eq run1_headers split: bind_splits)
  then show ?thesis by (simp add: run1_alloc)
qed

lemma run1_live: "\<exists>m. sp_live (snd run1) = {(256, m)} \<and> 1000 \<le> m"
proof -
  obtain s where r: "run1 = (Some 256, s)" using run1_ptr by (metis prod.collapse)
  then have a: "alloc bump_env scratchpad_init 1000 = Some (Some 256, s)" using run1_alloc by simp
  have none: "sp_live scratchpad_init = {}"
    by (simp add: sp_live_none scratchpad_init_def)
  show ?thesis
    using alloc_contract [OF bump_env_ok sp_inv_init, of 1000] unfolding a none r by (auto simp: max_request_def)
qed

lemma run1_reachable: "sp_reachable bump_env (snd run1)"
proof -
  have "alloc bump_env scratchpad_init 1000 = Some (fst run1, snd run1)" using run1_alloc by simp
  then have "sp_step bump_env scratchpad_init (snd run1)"
    by (rule step_alloc [rotated]) (simp add: max_request_def)
  then show ?thesis by (rule reach_step [OF reach_init])
qed


theorem scratchpad_free_spec_witness:
  "\<exists>m s'. (256, m) \<in> sp_live (snd run1) \<and> sp_free bump_env (snd run1) (Some 256) = Some s' \<and> sp_live s' = {}"
proof -
  obtain m where m: "sp_live (snd run1) = {(256, m)}" using run1_live by blast
  then have "\<exists>s'. sp_free bump_env (snd run1) (Some 256) = Some s' \<and> sp_live s' = {(256, m)} - {(256, m)}"
    using scratchpad_free_spec [OF bump_env_ok run1_reachable, of 256 m] by auto
  with m show ?thesis by auto
qed

text \<open>A second block in the same run: two live regions.\<close>

lemma run1_heap:
  "headers (snd run1) 128
     = Some \<lparr>bh_size = 1024, bh_is_free = False, bh_next = Some 1280, bh_prev = nullptr\<rparr>"
  "headers (snd run1) 1280
     = Some \<lparr>bh_size = 33553152, bh_is_free = True, bh_next = nullptr, bh_prev = Some 128\<rparr>"
  "head_block (snd run1) = Some 128" "memory_buffer (snd run1) \<noteq> nullptr"
proof -
  let ?s = "initialize_if_needed bump_env scratchpad_init"
  have f: "find_block (headers ?s) (Some 128) 1024 = Some (Some 128)"
    by (subst find_block.simps) (simp add: run1_headers)
  have t: "take_block (headers ?s) 128 1024 = Some ((headers ?s)
      (1280 \<mapsto> \<lparr>bh_size = 33553152, bh_is_free = True, bh_next = nullptr, bh_prev = Some 128\<rparr>,
       128 \<mapsto> \<lparr>bh_size = 1024, bh_is_free = False, bh_next = Some 1280, bh_prev = nullptr\<rparr>))"
    by (simp add: take_block_def run1_headers upd_header_def upd_header_if_def size_add_def size_sub_def Let_def)
  have r: "run1 = (Some 256, ?s\<lparr>headers := (headers ?s)
      (1280 \<mapsto> \<lparr>bh_size = 33553152, bh_is_free = True, bh_next = nullptr, bh_prev = Some 128\<rparr>,
       128 \<mapsto> \<lparr>bh_size = 1024, bh_is_free = False, bh_next = Some 1280, bh_prev = nullptr\<rparr>)\<rparr>)"
    using f t by (simp add: run1_def alloc_def Let_def align128_eq run1_headers)
  show "headers (snd run1) 128
     = Some \<lparr>bh_size = 1024, bh_is_free = False, bh_next = Some 1280, bh_prev = nullptr\<rparr>"
    "headers (snd run1) 1280
     = Some \<lparr>bh_size = 33553152, bh_is_free = True, bh_next = nullptr, bh_prev = Some 128\<rparr>"
    "head_block (snd run1) = Some 128"
    unfolding r by (simp_all add: run1_headers)
  show "memory_buffer (snd run1) \<noteq> nullptr"
    unfolding r by (simp add: initialize_if_needed_def scratchpad_init_def bump_env_def top_of_def
      sp_load_rpcmem_def load_rpcmem_once_def rpcmem_init_state_def Let_def)
qed

lemma run2_ptr: "map_option fst (alloc bump_env (snd run1) 1000) = Some (Some 1408)"
proof -
  have i: "initialize_if_needed bump_env (snd run1) = snd run1"
    using run1_heap(4) by (simp add: initialize_if_needed_def)
  have f: "find_block (headers (snd run1)) (Some 128) 1024 = Some (Some 1280)"
    by (subst find_block.simps, simp add: run1_heap, subst find_block.simps) (simp add: run1_heap)
  have "take_block (headers (snd run1)) 1280 1024 \<noteq> None"
    by (simp add: take_block_def run1_heap upd_header_def upd_header_if_def size_add_def size_sub_def Let_def)
  then show ?thesis using f by (auto simp: alloc_def i Let_def align128_eq run1_heap)
qed

theorem scratchpad_no_overlap_witness:
  "\<exists>s m k. sp_reachable bump_env s \<and> sp_live s = {(256, m), (1408, k)} \<and> 256 + m \<le> 1408"
proof -
  obtain m where m: "sp_live (snd run1) = {(256, m)}" using run1_live by blast
  obtain s where a: "alloc bump_env (snd run1) 1000 = Some (Some 1408, s)"
    using run2_ptr by (cases "alloc bump_env (snd run1) 1000") auto
  have r: "sp_reachable bump_env s"
    by (rule reach_step [OF run1_reachable step_alloc [OF _ a]]) (simp add: max_request_def)
  obtain k where k: "sp_live s = {(256, m), (1408, k)}"
    using alloc_contract [OF bump_env_ok sp_reachable_inv [OF run1_reachable bump_env_ok], of 1000] a m
    by (auto simp: max_request_def insert_commute)
  have "256 + m \<le> 1408 \<or> 1408 + k \<le> 256"
    using scratchpad_no_overlap [OF bump_env_ok r, of "(256, m)" "(1408, k)"] k by simp
  with r k show ?thesis by auto
qed

end
