(* ===== verification/FixedPointAlloc.thy ===== *)
theory FixedPointAlloc
  imports FixedPointGeometry ScratchpadProps
begin

text \<open>
  The memory of a block: its constructor and destructor as a client of the scratchpad's contract.
  The constructor makes five requests and the destructor gives the five pointers back, so a block's
  life neither overlaps other live memory nor leaks.
\<close>

section \<open>Constructor and destructor as clients of the allocator\<close>

definition block_ptrs :: "FixedPointBlock \<Rightarrow> ptr list" where
  "block_ptrs blk = [mantissa_ptr blk, exponents_ptr blk, means_ptr blk, std_devs_ptr blk, precisions_ptr blk]"

text \<open>The five requests in bytes.\<close>

definition block_requests :: "nat \<Rightarrow> int \<Rightarrow> int \<Rightarrow> int \<Rightarrow> bool \<Rightarrow> size_t \<Rightarrow> size_t list" where
  "block_requests w r c nb bc min_bytes =
     (let n = size_mul (to_size (i32 (r * c))) (w div 8);
          t = size_mul (to_size (if bc then i32 (r * nb) else i32 (nb * c))) 4
      in [max min_bytes n, t, t, t, t])"

lemma alloc_list_step:
  "scratch.alloc_list (n # ns) (env, s)
     = Option.bind (alloc env s n) (\<lambda>(p, s'). map_option (\<lambda>(ps, st). (p # ps, st)) (scratch.alloc_list ns (env, s')))"
  by (cases "alloc env s n") (auto simp: sp_alloc_def)

lemma map_option_bind: "map_option f (Option.bind m g) = Option.bind m (\<lambda>x. map_option f (g x))"
  by (cases m) simp_all

lemma block_new_client:
  assumes "blocks_of (if bc then c else r) bs = Some nb"
  shows "map_option (\<lambda>(blk, s'). (block_ptrs blk, (env, s'))) (FixedPointBlock_new w junk env s r c bs bc min_bytes)
    = scratch.alloc_list (block_requests w r c nb bc min_bytes) (env, s)"
proof -
  have m: "(if min_bytes > n then min_bytes else n) = max min_bytes n" for n by simp
  show ?thesis
    unfolding FixedPointBlock_new_def block_requests_def Let_def m assms bind.bind_lunit alloc_list_step
    by (simp add: map_option_bind case_prod_beta' block_ptrs_def)
qed

lemma block_delete_client:
  "map_option (\<lambda>s'. (env, s')) (FixedPointBlock_delete env s blk) = scratch.free_list (block_ptrs blk) (env, s)"
  by (auto simp: FixedPointBlock_delete_def block_ptrs_def sp_release_def split: bind_splits option.splits)


lemma block_new_live:
  assumes "os_ok env" "sp_inv s" "blocks_of (if bc then c else r) bs = Some nb"
    and "\<forall>n \<in> set (block_requests w r c nb bc min_bytes). n \<le> max_request"
  shows "\<exists>blk s' s''. FixedPointBlock_new w junk env s r c bs bc min_bytes = Some (blk, s') \<and> sp_inv s'
     \<and> sp_live s \<subseteq> sp_live s' \<and> FixedPointBlock_delete env s' blk = Some s'' \<and> sp_inv s'' \<and> sp_live s'' = sp_live s"
proof -
  have "sp_ok (env, s)" using assms(1,2) by (simp add: sp_ok_def)
  then obtain ps st st' where a: "scratch.alloc_list (block_requests w r c nb bc min_bytes) (env, s) = Some (ps, st)" "sp_ok st"
    "sp_live s \<subseteq> sp_live (snd st)" "scratch.free_list ps st = Some st'" "sp_ok st'" "sp_live (snd st') = sp_live s"
    using scratch.alloc_free_list [OF _ assms(4), of "(env, s)"] finite_sp_live [OF assms(2)] by auto
  obtain blk s' where n: "FixedPointBlock_new w junk env s r c bs bc min_bytes = Some (blk, s')" "ps = block_ptrs blk" "st = (env, s')"
    using a(1) block_new_client [OF assms(3), where w = w and junk = junk and env = env and s = s and min_bytes = min_bytes]
    by (auto simp: map_option_case split: option.splits)
  obtain s'' where d: "FixedPointBlock_delete env s' blk = Some s''" "st' = (env, s'')"
    using a(4) unfolding n block_delete_client [symmetric] by auto
  show ?thesis using n d a by (auto simp: sp_ok_def)
qed


section \<open>The shape of a new block\<close>

text \<open>The dimensions the constructor is called with: no product leaves 31 bits.\<close>

definition dims_ok :: "int \<Rightarrow> int \<Rightarrow> int \<Rightarrow> bool \<Rightarrow> bool" where
  "dims_ok r c bs bc \<longleftrightarrow> 0 \<le> r \<and> 0 \<le> c \<and> r < 2 ^ 31 \<and> c < 2 ^ 31 \<and> 0 < bs \<and> r * c < 2 ^ 31
     \<and> (if bc then c else r) + bs < 2 ^ 31"

lemma dims_ok_blocks:
  assumes "dims_ok r c bs bc"
  shows "blocks_of (if bc then c else r) bs = Some (int ((nat (if bc then c else r) + nat bs - 1) div nat bs))"
    "(if bc then r else c) * int ((nat (if bc then c else r) + nat bs - 1) div nat bs) \<le> r * c"
proof -
  define n where "n = nat (if bc then c else r)"
  let ?blk = "\<lparr>mantissa_ptr = None, exponents_ptr = None, means_ptr = None, std_devs_ptr = None, precisions_ptr = None,
     mantissa = [], exponents = [], means = [], std_devs = [], precisions = [], rows = r, cols = c, block_size = bs,
     block_columns = bc, num_blocks = 0, mean = 0, std_dev = 0\<rparr>"
  have sh: "fp_shape ?blk" using assms by (auto simp: dims_ok_def fp_shape_def inner_count_def split: if_splits)
  have f: "blocks_n ?blk = (n + nat bs - 1) div nat bs" "inner_n ?blk = n"
    by (simp_all add: blocks_n_def inner_n_def inner_count_def bs_n_def n_def)
  show "blocks_of (if bc then c else r) bs = Some (int ((nat (if bc then c else r) + nat bs - 1) div nat bs))"
    using num_blocks_count_eq [OF sh] unfolding num_blocks_count_def f(1) n_def
    by (cases bc) (simp_all add: inner_count_def)
  have "(n + nat bs - 1) div nat bs \<le> n" using blocks_n_bounds(1) [OF fp_shapeD(1) [OF sh]] f by simp
  then have "(if bc then r else c) * int ((n + nat bs - 1) div nat bs) \<le> (if bc then r else c) * int n"
    using assms by (intro mult_left_mono) (auto simp: dims_ok_def)
  also have "\<dots> = r * c" using assms by (auto simp: n_def dims_ok_def)
  finally show "(if bc then r else c) * int ((nat (if bc then c else r) + nat bs - 1) div nat bs) \<le> r * c"
    by (simp only: n_def)
qed

lemma dims_ok_sizes:
  assumes "dims_ok r c bs bc" "w \<in> {8, 16, 32}"
  defines "nb \<equiv> int ((nat (if bc then c else r) + nat bs - 1) div nat bs)"
  shows "size_mul (to_size (i32 (r * c))) (w div 8) = nat (r * c) * (w div 8)"
    "size_mul (to_size (if bc then i32 (r * nb) else i32 (nb * c))) 4 = nat ((if bc then r else c) * nb) * 4"
    "nat (r * c) < 2 ^ 31" "nat ((if bc then r else c) * nb) \<le> nat (r * c)"
proof -
  have rc: "0 \<le> r * c" "r * c < 2 ^ 31" using assms(1) by (auto simp: dims_ok_def)
  have on: "0 \<le> (if bc then r else c) * nb" "(if bc then r else c) * nb \<le> r * c"
    using assms(1) dims_ok_blocks(2) [OF assms(1)] by (auto simp: dims_ok_def nb_def)
  show small: "nat (r * c) < 2 ^ 31" using rc by (simp add: nat_less_iff)
  show le: "nat ((if bc then r else c) * nb) \<le> nat (r * c)" using on by (simp add: nat_mono)
  have conv: "size_mul (to_size (i32 x)) k = nat x * k" if "0 \<le> x" "x \<le> r * c" "k \<le> 4" for x k
  proof -
    have x: "x < 2 ^ 31" using that rc by linarith
    then have "i32 x = x" using that(1) by (intro i32_id) simp_all
    moreover have "to_size x = nat x" using that(1) x by (intro to_size_id) simp_all
    moreover have "nat x * k < 2 ^ 64"
    proof -
      have "nat x * k \<le> nat x * 4" using that(3) by simp
      also have "\<dots> < 2 ^ 64" using x that(1) by (simp add: nat_less_iff)
      finally show ?thesis .
    qed
    ultimately show ?thesis by (simp add: size_mul_id)
  qed
  show "size_mul (to_size (i32 (r * c))) (w div 8) = nat (r * c) * (w div 8)"
    using rc assms(2) by (intro conv) auto
  have e: "(if bc then i32 (r * nb) else i32 (nb * c)) = i32 ((if bc then r else c) * nb)" by (simp add: mult.commute)
  show "size_mul (to_size (if bc then i32 (r * nb) else i32 (nb * c))) 4 = nat ((if bc then r else c) * nb) * 4"
    unfolding e using on by (intro conv) simp_all
qed

lemma five_requests: "a \<le> m \<Longrightarrow> b \<le> m \<Longrightarrow> t \<le> m \<Longrightarrow> \<forall>n \<in> set [max a b, t, t, t, t]. n \<le> (m :: nat)"
  by simp

lemma dims_ok_requests:
  assumes "dims_ok r c bs bc" "w \<in> {8, 16, 32}" "min_bytes \<le> max_request"
  shows "\<forall>n \<in> set (block_requests w r c (int ((nat (if bc then c else r) + nat bs - 1) div nat bs)) bc min_bytes). n \<le> max_request"
proof -
  note z = dims_ok_sizes [OF assms(1,2)]
  have "nat (r * c) * (w div 8) \<le> nat (r * c) * 4" using assms(2) by auto
  also have "\<dots> \<le> 2 ^ 63" using z(3) by simp
  finally have "nat (r * c) * (w div 8) \<le> 2 ^ 63" .
  moreover have "nat ((if bc then r else c) * int ((nat (if bc then c else r) + nat bs - 1) div nat bs)) * 4 \<le> 2 ^ 63"
    by (rule order_trans [OF mult_le_mono1 [OF z(4)]]) (use z(3) in simp)
  ultimately show ?thesis
    using assms(3) unfolding block_requests_def Let_def z(1,2) max_request_def by (intro five_requests)
qed

lemma fresh_array_length: "length (fresh_array junk p bytes k) = (if p = nullptr then 0 else bytes div k)"
  by (simp add: fresh_array_def split: option.splits)

lemma block_new_fields:
  assumes "FixedPointBlock_new w junk env s r c bs bc min_bytes = Some (blk, s')"
    and "blocks_of (if bc then c else r) bs = Some nb"
  shows "fp_dims blk = (r, c, bs, bc)" "num_blocks blk = nb"
    "nullptr \<notin> set (block_ptrs blk) \<Longrightarrow> length (exponents blk) = length (means blk)
       \<and> length (std_devs blk) = length (means blk) \<and> length (precisions blk) = length (means blk)"
    "nullptr \<notin> set (block_ptrs blk) \<Longrightarrow>
       length (mantissa blk) = max min_bytes (size_mul (to_size (i32 (r * c))) (w div 8)) div (w div 8)
       \<and> length (means blk) = size_mul (to_size (if bc then i32 (r * nb) else i32 (nb * c))) 4 div 4"
  using assms
  by (auto simp: FixedPointBlock_new_def Let_def fp_dims_def block_ptrs_def fresh_array_length max_def
      split: bind_splits)


lemma block_new_wf:
  assumes "FixedPointBlock_new w junk env s r c bs bc min_bytes = Some (blk, s')"
    and "dims_ok r c bs bc" and "w \<in> {8, 16, 32}" and "nullptr \<notin> set (block_ptrs blk)"
  shows "fp_wf blk \<and> rows blk = r \<and> cols blk = c \<and> block_columns blk = bc \<and> num_blocks blk = int (blocks_n blk)"
proof -
  note nb = dims_ok_blocks(1) [OF assms(2)] and z = dims_ok_sizes [OF assms(2,3)]
  note f = block_new_fields [OF assms(1) nb]
  have d: "rows blk = r" "cols blk = c" "block_size blk = bs" "block_columns blk = bc" using f(1) by (auto simp: fp_dims_def)
  have sh: "fp_shape blk" using assms(2) by (auto simp: dims_ok_def fp_shape_def inner_count_def d split: if_splits)
  have n: "outer_n blk = nat (if bc then r else c)" "inner_n blk = nat (if bc then c else r)"
    "blocks_n blk = (nat (if bc then c else r) + nat bs - 1) div nat bs"
    by (simp_all add: outer_n_def inner_n_def outer_count_def inner_count_def blocks_n_def bs_n_def d)
  have nn: "0 \<le> r" "0 \<le> c" using assms(2) by (auto simp: dims_ok_def)
  have oi: "outer_n blk * inner_n blk = nat (r * c)" using nn by (simp add: n nat_mult_distrib mult.commute)
  have ob: "outer_n blk * blocks_n blk = nat ((if bc then r else c) * int (blocks_n blk))"
    using nn unfolding n(1) by (simp add: nat_mult_distrib)
  have raw: "length (mantissa blk) = max min_bytes (nat (r * c) * (w div 8)) div (w div 8)"
    "length (means blk) = nat ((if bc then r else c) * int (blocks_n blk))"
    using f(4) [OF assms(4)] unfolding z(1,2) n(3) by simp_all
  then have len: "length (mantissa blk) = max min_bytes (nat (r * c) * (w div 8)) div (w div 8)"
    "length (means blk) = outer_n blk * blocks_n blk" unfolding ob by simp_all
  have "0 < w div 8" using assms(3) by auto
  then have "nat (r * c) * (w div 8) div (w div 8) \<le> max min_bytes (nat (r * c) * (w div 8)) div (w div 8)"
    by (intro div_le_mono) simp
  then have "outer_n blk * inner_n blk \<le> length (mantissa blk)" using \<open>0 < w div 8\<close> unfolding oi len(1) by simp
  moreover have "length (std_devs blk) = outer_n blk * blocks_n blk" "length (exponents blk) = outer_n blk * blocks_n blk"
    "length (precisions blk) = outer_n blk * blocks_n blk"
    using f(3) [OF assms(4)] len(2) by simp_all
  ultimately have "fp_wf blk" using sh len(2) by (simp only: fp_wf_def order_refl simp_thms)
  moreover have "num_blocks blk = int (blocks_n blk)" using f(2) unfolding n(3) .
  ultimately show ?thesis using d by blast
qed

section \<open>Properties\<close>

text \<open>
  C22: A block that is constructed and then destroyed leaves the scratchpad's live memory as it found
  it: from every reachable state the constructor returns, keeps every region that was live, and the
  destructor gives back exactly the constructor's regions, also when some of its five requests were
  refused.
\<close>

theorem fixed_point_block_lifecycle:
  assumes "os_ok env" and "sp_reachable env s" and "dims_ok r c bs bc" and "w \<in> {8, 16, 32}" and "min_bytes \<le> max_request"
  shows "\<exists>blk s' s''. FixedPointBlock_new w junk env s r c bs bc min_bytes = Some (blk, s')
     \<and> sp_live s \<subseteq> sp_live s' \<and> FixedPointBlock_delete env s' blk = Some s'' \<and> sp_live s'' = sp_live s"
  using block_new_live [OF assms(1) sp_reachable_inv [OF assms(2,1)] dims_ok_blocks(1) [OF assms(3)]
      dims_ok_requests [OF assms(3,4,5)]] by blast

text \<open>
  C23: The constructor sizes its five arrays for the methods: when none of its requests was refused,
  the new block is well-formed, with \<open>ceil (length / block_size)\<close> blocks along its lines.
\<close>

theorem fixed_point_block_new_wf:
  assumes "FixedPointBlock_new w junk env s r c bs bc min_bytes = Some (blk, s')"
    and "dims_ok r c bs bc" and "w \<in> {8, 16, 32}" and "nullptr \<notin> set (block_ptrs blk)"
  shows "fp_wf blk \<and> rows blk = r \<and> cols blk = c \<and> block_columns blk = bc \<and> num_blocks blk = int (blocks_n blk)"
  using assms by (rule block_new_wf)

theorem fixed_point_block_lifecycle_witness:
  "\<exists>blk s' s''. FixedPointBlock_new 16 (\<lambda>a. word_of_nat a) bump_env (snd run1) 4 6 6 True 0 = Some (blk, s')
     \<and> FixedPointBlock_delete bump_env s' blk = Some s'' \<and> sp_live s'' = sp_live (snd run1)"
proof -
  have "dims_ok 4 6 6 True" by (simp add: dims_ok_def)
  from fixed_point_block_lifecycle [OF bump_env_ok run1_reachable this, of 16 0 "\<lambda>a. word_of_nat a"] show ?thesis by auto
qed


text \<open>In the concrete environment a small request is never refused while the addresses are low.\<close>

lemma bump_step:
  assumes "top_of (os_live l) \<le> t" "t \<le> 2 ^ 40" "n \<le> 2 ^ 26" "env_posix_memalign bump_env l n = p"
  shows "p \<noteq> nullptr \<and> top_of (os_live (PosixMemalign 128 n p # l)) \<le> t + 2 ^ 27"
proof -
  let ?a = "(top_of (os_live l) div 128 + 1) * 128"
  have "?a \<le> top_of (os_live l) + 128" by simp
  then have a: "?a + n \<le> t + 2 ^ 27" using assms(1,3) by simp
  then have "?a + n < 2 ^ 64" using assms(2) by simp
  then have p: "p = Some ?a" using assms(4) by (simp add: bump_env_def Let_def)
  have "top_of (os_live (PosixMemalign 128 n p # l)) = max (?a + n) (top_of (os_live l))"
    unfolding p by (simp add: top_of_def)
  then show ?thesis using p a assms(1) by simp
qed

lemma bump_initialize:
  assumes "top_of (os_live (os_log s)) \<le> t" "t \<le> 2 ^ 40" "total_size s \<le> 2 ^ 26"
  shows "top_of (os_live (os_log (initialize_if_needed bump_env s))) \<le> t + 2 ^ 27
     \<and> total_size (initialize_if_needed bump_env s) = total_size s"
proof (cases "memory_buffer s")
  case None
  have load: "\<exists>r. load_rpcmem_once bump_env (rpc s, os_log s) = (r, os_log s) \<and> rpcmem_loaded r = rpcmem_loaded (rpc s)"
    by (simp add: load_rpcmem_once_def bump_env_def)
  note st = bump_step [OF assms, of "env_posix_memalign bump_env (os_log s) (total_size s)"]
  have rp: "env_rpcmem_alloc bump_env l m = nullptr" for l m by (simp add: bump_env_def)
  have st': "top_of (os_live (PosixMemalign 128 (total_size s) (env_posix_memalign bump_env l' (total_size s)) # l')) \<le> t + 2 ^ 27"
    if "os_live l' = os_live (os_log s)" for l'
    using bump_step [OF _ assms(2,3) refl, of l'] assms(1) that by simp
  show ?thesis
    using None load st' [of "os_log s"] st' [of "RpcAlloc (wrap_int 32 (int (total_size s))) nullptr # os_log s"]
    by (auto simp: initialize_if_needed_def sp_load_rpcmem_def Let_def rp split: option.splits)
next
  case (Some a)
  then show ?thesis using assms(1) by (simp add: initialize_if_needed_def)
qed

lemma bump_alloc:
  assumes "alloc bump_env s n = Some (p, s')" "top_of (os_live (os_log s)) \<le> t" "t \<le> 2 ^ 39" "total_size s \<le> 2 ^ 26" "n \<le> 2 ^ 20"
  shows "p \<noteq> nullptr \<and> top_of (os_live (os_log s')) \<le> t + 2 ^ 28 \<and> total_size s' = total_size s"
proof -
  let ?i = "initialize_if_needed bump_env s"
  have i: "top_of (os_live (os_log ?i)) \<le> t + 2 ^ 27" "total_size ?i = total_size s"
    using bump_initialize [OF assms(2) _ assms(4)] assms(3) by simp_all
  have al: "align128 n \<le> 2 ^ 26" using assms(5) align128_props(2) [of n] by (simp add: align128_eq)
  have "env_posix_memalign bump_env (os_log ?i) (align128 n) \<noteq> nullptr
      \<and> top_of (os_live (PosixMemalign 128 (align128 n) (env_posix_memalign bump_env (os_log ?i) (align128 n)) # os_log ?i)) \<le> t + 2 ^ 27 + 2 ^ 27"
    using i(1) assms(3) al by (intro bump_step [OF _ _ _ refl]) simp_all
  then obtain y where y: "env_posix_memalign bump_env (os_log ?i) (align128 n) = Some y"
    "top_of (os_live (PosixMemalign 128 (align128 n) (Some y) # os_log ?i)) \<le> t + 2 ^ 28" by auto
  show ?thesis
    using assms(1) i y(2) by (auto simp: alloc_def Let_def y(1) split: bind_splits option.splits)
qed


lemma bump_alloc_list:
  assumes "scratch.alloc_list ns (bump_env, s) = Some (ps, (e, s'))" "\<forall>n \<in> set ns. n \<le> 2 ^ 20"
    and "top_of (os_live (os_log s)) \<le> t" "t + length ns * 2 ^ 28 \<le> 2 ^ 39" "total_size s \<le> 2 ^ 26"
  shows "nullptr \<notin> set ps \<and> top_of (os_live (os_log s')) \<le> t + length ns * 2 ^ 28 \<and> total_size s' = total_size s"
  using assms
proof (induction ns arbitrary: s t ps)
  case (Cons n ns)
  from Cons.prems(1) obtain p s1 qs where a: "alloc bump_env s n = Some (p, s1)"
    "scratch.alloc_list ns (bump_env, s1) = Some (qs, (e, s'))" "ps = p # qs"
    unfolding alloc_list_step by (auto split: bind_splits)
  have b: "p \<noteq> nullptr \<and> top_of (os_live (os_log s1)) \<le> t + 2 ^ 28 \<and> total_size s1 = total_size s"
    using Cons.prems by (intro bump_alloc [OF a(1)]) auto
  have "nullptr \<notin> set qs \<and> top_of (os_live (os_log s')) \<le> (t + 2 ^ 28) + length ns * 2 ^ 28 \<and> total_size s' = total_size s1"
    by (rule Cons.IH [OF a(2)]) (use Cons.prems b in auto)
  then show ?case using a b by auto
qed simp

text \<open>A small block is constructed, and well-formed, wherever the addresses are low.\<close>

lemma bump_block_new_ptrs:
  assumes "sp_inv s" "dims_ok r c bs bc" "w \<in> {8, 16, 32}" "r * c \<le> 2 ^ 18"
    and "top_of (os_live (os_log s)) \<le> t" "t \<le> 2 ^ 38" "total_size s \<le> 2 ^ 26"
  shows "\<exists>b s'. FixedPointBlock_new w junk bump_env s r c bs bc 0 = Some (b, s') \<and> nullptr \<notin> set (block_ptrs b)
     \<and> fp_wf b \<and> fp_dims b = (r, c, bs, bc) \<and> sp_inv s' \<and> top_of (os_live (os_log s')) \<le> t + 2 ^ 31 \<and> total_size s' = total_size s"
proof -
  note nb = dims_ok_blocks(1) [OF assms(2)]
  let ?reqs = "block_requests w r c (int ((nat (if bc then c else r) + nat bs - 1) div nat bs)) bc 0"
  have mx: "\<forall>n \<in> set ?reqs. n \<le> max_request" by (rule dims_ok_requests [OF assms(2,3)]) simp
  obtain b s' where n: "FixedPointBlock_new w junk bump_env s r c bs bc 0 = Some (b, s')" and i: "sp_inv s'"
    using block_new_live [OF bump_env_ok assms(1) nb mx] by blast
  have al: "scratch.alloc_list ?reqs (bump_env, s) = Some (block_ptrs b, (bump_env, s'))"
    using block_new_client [OF nb, where w = w and junk = junk and env = bump_env and s = s and min_bytes = 0] by (simp add: n)
  have small: "nat (r * c) \<le> 2 ^ 18" using assms(4) by simp
  note z = dims_ok_sizes [OF assms(2,3)]
  have "nat (r * c) * (w div 8) \<le> 2 ^ 18 * 4" using small assms(3) by (intro mult_le_mono) auto
  moreover have "nat ((if bc then r else c) * int ((nat (if bc then c else r) + nat bs - 1) div nat bs)) * 4 \<le> 2 ^ 18 * 4"
    using z(4) small by (intro mult_le_mono) auto
  ultimately have rq: "\<forall>n \<in> set ?reqs. n \<le> 2 ^ 20" unfolding block_requests_def Let_def z(1,2) by (intro five_requests) simp_all
  have five: "length ?reqs = 5" by (simp add: block_requests_def Let_def)
  have r: "nullptr \<notin> set (block_ptrs b) \<and> top_of (os_live (os_log s')) \<le> t + 5 * 2 ^ 28 \<and> total_size s' = total_size s"
    using bump_alloc_list [OF al rq assms(5) _ assms(7)] assms(6) unfolding five by simp
  moreover have "fp_dims b = (r, c, bs, bc)" by (rule block_new_fields(1) [OF n nb])
  ultimately show ?thesis using n i block_new_wf [OF n assms(2,3)] by auto
qed

theorem fixed_point_block_new_wf_witness:
  "\<exists>blk s'. FixedPointBlock_new 16 (\<lambda>a. word_of_nat a) bump_env scratchpad_init 4 6 6 True 0 = Some (blk, s')
     \<and> fp_wf blk \<and> num_blocks blk = 1"
proof -
  let ?junk = "\<lambda>a. word_of_nat a :: u32"
  have dims: "dims_ok 4 6 6 True" by (simp add: dims_ok_def)
  have nb: "blocks_of 6 6 = Some 1" by (simp add: blocks_of_def i32_id c_div_nonneg)
  have init: "top_of (os_live (os_log scratchpad_init)) \<le> 0" "total_size scratchpad_init \<le> 2 ^ 26"
    by (simp_all add: scratchpad_init_def top_of_def)
  obtain blk s' where new: "FixedPointBlock_new 16 ?junk bump_env scratchpad_init 4 6 6 True 0 = Some (blk, s')"
    and n: "nullptr \<notin> set (block_ptrs blk)"
    using bump_block_new_ptrs [OF sp_inv_init dims, of 16 0 ?junk] init by auto
  from fixed_point_block_new_wf [OF new dims _ n] have w: "fp_wf blk" by simp
  moreover have "num_blocks blk = 1" using new nb by (auto simp: FixedPointBlock_new_def Let_def split: bind_splits)
  ultimately show ?thesis using new by blast
qed

end
