(* ===== verification/Blocks.thy ===== *)
theory Blocks
  imports FixedPointRange FixedPointAlloc "HOL-Library.Multiset"
begin

text \<open>
  A matrix made into a block of mantissas: construct, fit, quantise with the precision 8. All callers
  of \<^verbatim>\<open>fixedpoint.h\<close> build their blocks in these three steps. The lemmas give the memory of such a
  block as a client of the scratchpad's contract, and its shape.
\<close>

definition make_block ::
  "nat \<Rightarrow> (nat \<Rightarrow> u32) \<Rightarrow> os_env \<Rightarrow> schedule \<Rightarrow> int \<Rightarrow> int \<Rightarrow> int \<Rightarrow> bool \<Rightarrow> f32 list \<Rightarrow> scratchpad
    \<Rightarrow> (FixedPointBlock \<times> scratchpad) option" where
  "make_block w junk os sched r c bs bc xs s =
     Option.bind (FixedPointBlock_new w junk os s r c bs bc 0) (\<lambda>(b0, s1).
     Option.bind (fit_exponent sched xs b0) (\<lambda>b1.
     map_option (\<lambda>b2. (b2, s1)) (floats_to_mantissa w sched xs (quant_default 0 8) b1)))"

section \<open>Fields that stay\<close>

definition fp_static :: "FixedPointBlock \<Rightarrow> ptr list \<times> (int \<times> int \<times> int \<times> bool) \<times> int" where
  "fp_static b = (block_ptrs b, fp_dims b, num_blocks b)"

lemma fit_block_static: "fit_block xs nb outer bi (b, g) = Some (b', g') \<Longrightarrow> fp_static b' = fp_static b"
  by (auto simp: fit_block_def Let_def fp_static_def block_ptrs_def fp_dims_def split: bind_splits prod.splits)

lemma quantise_block_static: "quantise_block w xs q nb outer bi b = Some b' \<Longrightarrow> fp_static b' = fp_static b"
  by (auto simp: quantise_block_def Let_def fp_static_def block_ptrs_def fp_dims_def split: bind_splits)

lemma omp_for_invariant:
  assumes "omp_for threads body combine neutral (s, g) = Some (s', g')" "P s"
    and "\<And>i s p s' p'. P s \<Longrightarrow> body i (s, p) = Some (s', p') \<Longrightarrow> P s'"
  shows "P s'"
proof -
  have "P (fst x')" if "P (fst x)" "loop_opt body is x = Some x'" for "is" x x'
    using loop_opt_invariant [OF that(2), of "\<lambda>x. P (fst x)"] that(1) assms(3) by (metis prod.collapse)
  then have "P (fst x')" if "P (fst x)"
    "(\<lambda>(s, g). map_option (\<lambda>(s', p). (s', combine g p)) (loop_opt body is (s, neutral))) x = Some x'" for "is" x x'
    using that by (cases x) fastforce
  then show ?thesis
    using loop_opt_invariant [OF assms(1) [unfolded omp_for_def], of "\<lambda>x. P (fst x)"] assms(2) by simp
qed

lemma fit_exponent_static:
  assumes "fit_exponent sched xs b = Some b'"
  shows "fp_static b' = fp_static b"
proof -
  obtain nb b1 g where o: "omp_for (omp_threads sched (outer_count b > 1) (outer_count b))
      (\<lambda>outer. loop_opt (fit_block xs nb outer) [0..nb - 1]) combine_global fit_global_init (b, fit_global_init) = Some (b1, g)"
    and b': "fp_static b' = fp_static b1"
    using assms by (auto simp: fit_exponent_def Let_def fp_static_def block_ptrs_def fp_dims_def split: bind_splits)
  have line: "fp_static (fst y) = fp_static (fst x)" if "loop_opt (fit_block xs nb i) is x = Some y" for i "is" x y
    by (rule loop_opt_invariant [OF that, of "\<lambda>z. fp_static (fst z) = fp_static (fst x)"])
      (use fit_block_static in \<open>force+\<close>)
  have "fp_static b1 = fp_static b"
    by (rule omp_for_invariant [OF o, of "\<lambda>x. fp_static x = fp_static b"]) (use line in force)+
  then show ?thesis using b' by simp
qed

lemma floats_to_mantissa_static:
  assumes "floats_to_mantissa w sched xs q b = Some b'"
  shows "fp_static b' = fp_static b"
proof -
  obtain nb u where o: "omp_for (omp_threads sched (outer_count b > 1) (outer_count b))
      (\<lambda>outer (blk, u). map_option (\<lambda>b. (b, u)) (loop_opt (quantise_block w xs q nb outer) [0..nb - 1] blk))
      (\<lambda>_ _. ()) () (b, ()) = Some (b', u)"
    using assms by (auto simp: floats_to_mantissa_def split: bind_splits)
  have line: "fp_static y = fp_static x" if "loop_opt (quantise_block w xs q nb i) is x = Some y" for i "is" x y
    by (rule loop_opt_invariant [OF that, of "\<lambda>z. fp_static z = fp_static x"]) (use quantise_block_static in force)+
  show ?thesis
    by (rule omp_for_invariant [OF o, of "\<lambda>x. fp_static x = fp_static b"]) (use line in auto)
qed

section \<open>Memory\<close>

context allocator
begin

lemma alloc_list_append:
  "alloc_list (xs @ ys) s =
     Option.bind (alloc_list xs s) (\<lambda>(ps, s1). map_option (\<lambda>(qs, s2). (ps @ qs, s2)) (alloc_list ys s1))"
  by (induction xs arbitrary: s)
     (auto split: bind_splits option.splits simp: map_option_case)

lemma free_list_append: "free_list (xs @ ys) s = Option.bind (free_list xs s) (free_list ys)"
proof (induction xs arbitrary: s)
  case (Cons x xs)
  then show ?case by (cases "al_free s x") simp_all
qed simp

text \<open>Releasing what was allocated, in any order, restores the live regions.\<close>

lemma alloc_free_perm:
  assumes "al_inv s" "\<forall>n \<in> set ns. n \<le> al_max" "alloc_list ns s = Some (ps, s')" "mset qs = mset ps"
  shows "\<exists>s''. free_list qs s' = Some s'' \<and> al_inv s'' \<and> al_live s'' = al_live s"
proof -
  obtain R where r: "al_inv s'" "al_live s' = al_live s \<union> R" "fst ` R = {a. Some a \<in> set ps}" "R \<inter> al_live s = {}"
    "\<forall>r \<in> R. \<forall>q \<in> al_live s'. r = q \<or> apart r q" "distinct (filter (\<lambda>p. p \<noteq> None) ps)"
    using alloc_list_spec [OF assms(1,2)] unfolding assms(3) option.inject prod.inject by blast
  have inj: "inj_on fst R" by (rule inj_onI) (metis UnI2 apart_def r(2,5))
  have "{a. Some a \<in> set ps} \<subseteq> the ` set ps" by force
  then have "finite (fst ` R)" unfolding r(3) by (rule finite_subset) simp
  then have "finite R" using inj by (rule finite_imageD)
  moreover have "set qs = set ps" using assms(4) by (rule mset_eq_setD)
  moreover have "distinct (filter (\<lambda>p. p \<noteq> None) qs)"
    using r(6) assms(4) by (metis mset_eq_imp_distinct_iff mset_filter)
  ultimately show ?thesis using r inj by (intro free_list_spec) auto
qed

end

text \<open>The requests and the pointers of a block.\<close>

lemma make_block_client:
  assumes "make_block w junk os sched r c bs bc xs s = Some (b, s')" "dims_ok r c bs bc" "w \<in> {8, 16, 32}"
  defines "reqs \<equiv> block_requests w r c (int ((nat (if bc then c else r) + nat bs - 1) div nat bs)) bc 0"
  shows "scratch.alloc_list reqs (os, s) = Some (block_ptrs b, (os, s'))" "\<forall>n \<in> set reqs. n \<le> max_request"
    "fp_dims b = (r, c, bs, bc)"
proof -
  obtain b0 b1 where m: "FixedPointBlock_new w junk os s r c bs bc 0 = Some (b0, s')" "fit_exponent sched xs b0 = Some b1"
    "floats_to_mantissa w sched xs (quant_default 0 8) b1 = Some b"
    using assms(1) by (auto simp: make_block_def split: bind_splits)
  have st: "block_ptrs b = block_ptrs b0" "fp_dims b = fp_dims b0"
    using fit_exponent_static [OF m(2)] floats_to_mantissa_static [OF m(3)] by (simp_all add: fp_static_def)
  note nb = dims_ok_blocks(1) [OF assms(2)]
  show "scratch.alloc_list reqs (os, s) = Some (block_ptrs b, (os, s'))"
    using block_new_client [OF nb, where w = w and junk = junk and env = os and s = s and min_bytes = 0]
    by (simp add: m(1) st reqs_def)
  show "\<forall>n \<in> set reqs. n \<le> max_request"
    unfolding reqs_def by (rule dims_ok_requests [OF assms(2,3)]) simp
  show "fp_dims b = (r, c, bs, bc)" using block_new_fields(1) [OF m(1) nb] st by simp
qed

end
