(* ===== verification/Ownership.thy ===== *)
theory Ownership
  imports Blocks
begin

text \<open>
  Ownership of live regions, as clients of the scratchpad's contract use it: a client owns a list of
  pointers, requests add to it and releases take from it, in any order. A block owns its five pointers.
\<close>

section \<open>Ownership of memory\<close>

context allocator
begin

text \<open>
  A client owns the pointers \<open>ps\<close> when they stand for the live regions apart from \<open>L\<close>, one each.
\<close>

definition owns :: "ptr list \<Rightarrow> (nat \<times> nat) set \<Rightarrow> 's \<Rightarrow> bool" where
  "owns ps L s \<longleftrightarrow> al_inv s \<and> distinct (filter (\<lambda>p. p \<noteq> None) ps) \<and>
     (\<exists>R. al_live s = L \<union> R \<and> L \<inter> R = {} \<and> finite R \<and> inj_on fst R \<and> fst ` R = {a. Some a \<in> set ps})"

lemma owns_Nil: "owns [] L s \<longleftrightarrow> al_inv s \<and> al_live s = L"
  by (auto simp: owns_def)

lemma owns_perm: "owns ps L s \<Longrightarrow> mset qs = mset ps \<Longrightarrow> owns qs L s"
  unfolding owns_def by (metis mset_eq_imp_distinct_iff mset_filter mset_eq_setD)

lemma finite_ptrs: "finite {a. Some a \<in> set ps}"
  by (rule finite_subset [of _ "the ` set ps"]) force+

lemma owns_alloc_list:
  assumes "owns ps L s" "\<forall>n \<in> set ns. n \<le> al_max" "alloc_list ns s = Some (qs, s')"
  shows "owns (ps @ qs) L s'"
proof -
  obtain R where R: "al_inv s" "distinct (filter (\<lambda>p. p \<noteq> None) ps)" "al_live s = L \<union> R" "L \<inter> R = {}" "finite R"
    "inj_on fst R" "fst ` R = {a. Some a \<in> set ps}"
    using assms(1) by (auto simp: owns_def)
  obtain q0 s0 Q where a: "alloc_list ns s = Some (q0, s0)" and
    "al_inv s0" "al_live s0 = al_live s \<union> Q" "fst ` Q = {a. Some a \<in> set q0}" "Q \<inter> al_live s = {}"
    "\<forall>r \<in> Q. \<forall>q \<in> al_live s0. r = q \<or> apart r q" "distinct (filter (\<lambda>p. p \<noteq> None) q0)"
    using alloc_list_spec [OF R(1) assms(2)] by blast
  moreover have "q0 = qs" "s0 = s'" using a assms(3) by simp_all
  ultimately have Q: "al_inv s'" "al_live s' = al_live s \<union> Q" "fst ` Q = {a. Some a \<in> set qs}" "Q \<inter> al_live s = {}"
    "\<forall>r \<in> Q. \<forall>q \<in> al_live s'. r = q \<or> apart r q" "distinct (filter (\<lambda>p. p \<noteq> None) qs)" by (simp_all only:)
  have injQ: "inj_on fst Q" by (rule inj_onI) (metis UnI2 apart_def Q(2,5))
  have finQ: "finite Q" by (rule finite_imageD [OF _ injQ]) (simp only: Q(3) finite_ptrs)
  have sep: "fst q \<noteq> fst r" if "q \<in> Q" "r \<in> R" for q r
    using Q(2,4,5) R(3) that by (metis IntI UnI1 UnI2 apart_def empty_iff)
  have inj: "inj_on fst (R \<union> Q)" using R(6) injQ sep unfolding inj_on_Un by fastforce
  have dis: "{a. Some a \<in> set ps} \<inter> {a. Some a \<in> set qs} = {}" using sep unfolding R(7) [symmetric] Q(3) [symmetric] by fastforce
  then have "distinct (filter (\<lambda>p. p \<noteq> None) (ps @ qs))" using R(2) Q(6) by auto
  moreover have "fst ` (R \<union> Q) = {a. Some a \<in> set (ps @ qs)}" using R(7) Q(3) by auto
  moreover have "al_live s' = L \<union> (R \<union> Q)" "L \<inter> (R \<union> Q) = {}" using Q(2,4) R(3,4) by auto
  ultimately show ?thesis using Q(1) R(5) finQ inj unfolding owns_def by blast
qed

lemma owns_free:
  assumes "owns (p # ps) L s"
  shows "\<exists>s'. al_free s p = Some s' \<and> owns ps L s'"
proof (cases p)
  case None
  then show ?thesis using assms by (simp add: free_null owns_def)
next
  case (Some a)
  obtain R where R: "al_inv s" "distinct (filter (\<lambda>p. p \<noteq> None) (p # ps))" "al_live s = L \<union> R" "L \<inter> R = {}" "finite R"
    "inj_on fst R" "fst ` R = {a. Some a \<in> set (p # ps)}"
    using assms by (auto simp: owns_def)
  then obtain m where m: "(a, m) \<in> R" using Some by force
  then obtain s' where s': "al_free s (Some a) = Some s'" "al_inv s'" "al_live s' = al_live s - {(a, m)}"
    using free_live R(1,3) by blast
  have "fst ` (R - {(a, m)}) = fst ` R - {a}" using inj_on_image_set_diff [OF R(6), of R "{(a, m)}"] m by auto
  moreover have "Some a \<notin> set ps" using R(2) Some by auto
  ultimately have "fst ` (R - {(a, m)}) = {a. Some a \<in> set ps}" using R(7) Some by auto
  moreover have "al_live s' = L \<union> (R - {(a, m)})" "L \<inter> (R - {(a, m)}) = {}" using s'(3) R(3,4) m by auto
  moreover have "distinct (filter (\<lambda>p. p \<noteq> None) ps)" using R(2) by (auto split: if_splits)
  ultimately have "owns ps L s'" using s'(2) R(5,6) unfolding owns_def by (blast intro: inj_on_subset finite_subset)
  then show ?thesis using s'(1) Some by blast
qed

lemma owns_free_list:
  assumes "owns (qs @ ps) L s"
  shows "\<exists>s'. free_list qs s = Some s' \<and> owns ps L s'"
  using assms
proof (induction qs arbitrary: s)
  case (Cons q qs)
  from owns_free [of q "qs @ ps" L s] Cons.prems obtain s1 where "al_free s q = Some s1" "owns (qs @ ps) L s1" by auto
  with Cons.IH show ?case by auto
qed simp

end

section \<open>Blocks\<close>

lemma make_block_owns:
  assumes "scratch.owns ps L (os, s)" "make_block w junk os sched r c bs bc xs s = Some (b, s')"
    and "dims_ok r c bs bc" "w \<in> {8, 16, 32}"
  shows "scratch.owns (ps @ block_ptrs b) L (os, s')" "fp_dims b = (r, c, bs, bc)"
  using make_block_client [OF assms(2-4)] scratch.owns_alloc_list [OF assms(1)] by blast+

lemma delete_block_owns:
  assumes "scratch.owns (block_ptrs b @ ps) L (os, s)"
  shows "\<exists>s'. FixedPointBlock_delete os s b = Some s' \<and> scratch.owns ps L (os, s')"
  using scratch.owns_free_list [OF assms] by (auto simp flip: block_delete_client)

lemma alloc_owns:
  assumes "scratch.owns ps L (os, s)" "n \<le> max_request" "alloc os s n = Some (p, s')"
  shows "scratch.owns (ps @ [p]) L (os, s')"
  using scratch.owns_alloc_list [OF assms(1), of "[n]" "[p]" "(os, s')"] assms(2,3) by (simp add: sp_alloc_def)

lemma free_owns:
  assumes "scratch.owns (p # ps) L (os, s)"
  shows "\<exists>s'. sp_free os s p = Some s' \<and> scratch.owns ps L (os, s')"
  using scratch.owns_free [OF assms] by (auto simp: sp_release_def split: option.splits)

end
