(* ===== verification/LineBlocks.thy ===== *)
theory LineBlocks
  imports Ownership
begin

text \<open>
  Blocks that hold whole lines, as all callers make them: the block size is the length of a line, so a
  line has one exponent, one mean and one precision, and its mantissas are a function of the line
  alone. The lines are the rows of a matrix, or its columns.
\<close>

definition line_of :: "bool \<Rightarrow> int \<Rightarrow> int \<Rightarrow> f32 list \<Rightarrow> nat \<Rightarrow> f32 list" where
  "line_of bc r c xs l = (if bc then map (\<lambda>k. xs ! (l * nat c + k)) [0..<nat c] else map (\<lambda>k. xs ! (k * nat c + l)) [0..<nat r])"

text \<open>The integer mean of a line at precision 8, when it fits the type, and the mantissas.\<close>

definition line_mean :: "nat \<Rightarrow> f32 list \<Rightarrow> int option" where
  "line_mean w vs = f32_to_int w (f32_cround (f32_mul (block_mean vs) (fast_pow2 (i32 (i32 (- block_exponent vs) + 8)))))"

definition line_mantissa :: "nat \<Rightarrow> f32 list \<Rightarrow> nat \<Rightarrow> int" where
  "line_mantissa w vs k =
     wrap_int w (round_elem w 8 (f32_mul (vs ! k) (fast_pow2 (i32 (- block_exponent vs)))) (noise_at (length vs) k)
                   - the (line_mean w vs))"

text \<open>The shape of a block with whole lines.\<close>

definition whole_lines :: "int \<Rightarrow> int \<Rightarrow> int \<Rightarrow> bool \<Rightarrow> bool" where
  "whole_lines r c bs bc \<longleftrightarrow> dims_ok r c bs bc \<and> bs = (if bc then c else r)"

lemma whole_lines_shape:
  assumes "fp_dims b = (r, c, bs, bc)" "whole_lines r c bs bc"
  shows "outer_n b = nat (if bc then r else c)" "inner_n b = nat (if bc then c else r)" "blocks_n b = 1"
    "fpos b l 0 = l" "bstart b 0 = 0" "bend b 0 = nat (if bc then c else r)"
    "epos b l k = (if bc then l * nat c + k else k * nat c + l)" "bs_n b = nat (if bc then c else r)"
    "outer_n b * inner_n b = nat (r * c)"
proof -
  have d: "rows b = r" "cols b = c" "block_size b = bs" "block_columns b = bc" using assms(1) by (simp_all add: fp_dims_def)
  have bs: "bs = (if bc then c else r)" "0 < bs" "0 \<le> r" "0 \<le> c" using assms(2) by (auto simp: whole_lines_def dims_ok_def)
  show s: "outer_n b = nat (if bc then r else c)" "inner_n b = nat (if bc then c else r)" "bs_n b = nat (if bc then c else r)"
    by (simp_all add: outer_n_def inner_n_def bs_n_def outer_count_def inner_count_def d bs(1))
  have pos: "0 < nat (if bc then c else r)" using bs by simp
  show n1: "blocks_n b = 1" unfolding blocks_n_def s using pos by (simp add: div_nat_eqI)
  show "fpos b l 0 = l" by (simp add: fpos_def n1)
  show "bstart b 0 = 0" "bend b 0 = nat (if bc then c else r)" unfolding bstart_def bend_def s by simp_all
  show "epos b l k = (if bc then l * nat c + k else k * nat c + l)" unfolding epos_def s d by simp
  show "outer_n b * inner_n b = nat (r * c)" using bs by (simp add: s nat_mult_distrib mult.commute)
qed

lemma block_vals_line:
  assumes "fp_dims b = (r, c, bs, bc)" "whole_lines r c bs bc"
  shows "block_vals b xs l 0 = line_of bc r c xs l"
  by (simp add: block_vals_def line_of_def whole_lines_shape [OF assms])

lemma length_line_of [simp]: "length (line_of bc r c xs l) = nat (if bc then c else r)"
  by (simp add: line_of_def)

text \<open>Fitting stores the parameters of the lines; the quantisation is defined when their means fit.\<close>

lemma fitted_lines:
  assumes "fp_wf b0" "fp_dims b0 = (r, c, bs, bc)" "whole_lines r c bs bc" "schedule_ok sched" "nat (r * c) \<le> length xs"
    and "fit_exponent sched xs b0 = Some b1"
  shows "fp_wf b1" "fp_dims b1 = (r, c, bs, bc)"
    "\<And>l. l < outer_n b0 \<Longrightarrow> exponents b1 ! l = block_exponent (line_of bc r c xs l) \<and> means b1 ! l = block_mean (line_of bc r c xs l)"
    "\<And>l. l < outer_n b0 \<Longrightarrow> integer_mean w (quant_default 0 8) b1 l 0 = line_mean w (line_of bc r c xs l)"
    "quant_ok w (quant_default 0 8) b1 \<longleftrightarrow> (\<forall>l<outer_n b0. line_mean w (line_of bc r c xs l) \<noteq> None)"
proof -
  note s = whole_lines_shape [OF assms(2,3)]
  have len: "outer_n b0 * inner_n b0 \<le> length xs" using assms(5) s(9) by simp
  note f = fit_exponent_fields [OF assms(1,4) len assms(6)]
  show "fp_wf b1" and d1: "fp_dims b1 = (r, c, bs, bc)" using f(1,2) assms(2) by simp_all
  note s1 = whole_lines_shape [OF d1 assms(3)]
  show p: "exponents b1 ! l = block_exponent (line_of bc r c xs l) \<and> means b1 ! l = block_mean (line_of bc r c xs l)"
    if "l < outer_n b0" for l
    using f(3) [OF that, of 0] by (simp add: s block_vals_line [OF assms(2,3)])
  show m: "integer_mean w (quant_default 0 8) b1 l 0 = line_mean w (line_of bc r c xs l)" if "l < outer_n b0" for l
    using p [OF that] by (simp add: integer_mean_def mean_float_def used_exponent_def used_bits_def quant_default_def line_mean_def s1)
  show "quant_ok w (quant_default 0 8) b1 \<longleftrightarrow> (\<forall>l<outer_n b0. line_mean w (line_of bc r c xs l) \<noteq> None)"
    using m by (auto simp: quant_ok_def s1 s used_bits_def quant_default_def)
qed

text \<open>What a block made of a matrix holds.\<close>

lemma make_block_lines:
  assumes "make_block w junk os sched r c bs bc xs st = Some (b, st')" "whole_lines r c bs bc" "w \<in> {8, 16, 32}"
    and "nullptr \<notin> set (block_ptrs b)" "schedule_ok sched" "nat (r * c) \<le> length xs"
  shows "fp_wf b" "fp_dims b = (r, c, bs, bc)"
    "\<And>l. l < nat (if bc then r else c) \<Longrightarrow> exponents b ! l = block_exponent (line_of bc r c xs l)
       \<and> means b ! l = block_mean (line_of bc r c xs l) \<and> precisions b ! l = 8 \<and> line_mean w (line_of bc r c xs l) \<noteq> None"
    "\<And>l k. l < nat (if bc then r else c) \<Longrightarrow> k < nat (if bc then c else r) \<Longrightarrow>
       mantissa b ! (if bc then l * nat c + k else k * nat c + l) = line_mantissa w (line_of bc r c xs l) k"
proof -
  obtain b0 b1 where m: "FixedPointBlock_new w junk os st r c bs bc 0 = Some (b0, st')" "fit_exponent sched xs b0 = Some b1"
    "floats_to_mantissa w sched xs (quant_default 0 8) b1 = Some b"
    using assms(1) by (auto simp: make_block_def split: bind_splits)
  have dims: "dims_ok r c bs bc" by (rule conjunct1 [OF assms(2) [unfolded whole_lines_def]])
  have st: "block_ptrs b0 = block_ptrs b" using fit_exponent_static [OF m(2)] floats_to_mantissa_static [OF m(3)] by (simp add: fp_static_def)
  have wf0: "fp_wf b0" using block_new_wf [OF m(1) dims assms(3)] assms(4) st by simp
  have d0: "fp_dims b0 = (r, c, bs, bc)" by (rule block_new_fields(1) [OF m(1) dims_ok_blocks(1) [OF dims]])
  note fl = fitted_lines [OF wf0 d0 assms(2,5,6) m(2)]
  note s0 = whole_lines_shape [OF d0 assms(2)] and s1 = whole_lines_shape [OF fl(2) assms(2)]
  have len: "outer_n b1 * inner_n b1 \<le> length xs" using s1(9) assms(6) by simp
  have w2: "2 \<le> w" using assms(3) by auto
  have ok: "quant_ok w (quant_default 0 8) b1" by (rule floats_to_mantissa_needs [OF fl(1) assms(5) w2 m(3)])
  have q: "fp_wf b" "same_params b b1" "\<And>l. l < outer_n b1 \<Longrightarrow> precisions b ! l = 8"
    "\<And>l k. l < outer_n b1 \<Longrightarrow> k < inner_n b1 \<Longrightarrow> mantissa b ! epos b1 l k = quant_value w xs (quant_default 0 8) b1 l 0 k"
    using floats_to_mantissa_result [OF fl(1) assms(5) ok len] m(3) by (auto simp: s1 used_bits_def quant_default_def)
  show "fp_wf b" "fp_dims b = (r, c, bs, bc)" using q(1,2) fl(2) by (simp_all add: same_params_def)
  have o: "outer_n b1 = nat (if bc then r else c)" "outer_n b0 = nat (if bc then r else c)" by (simp_all add: s0 s1)
  show "exponents b ! l = block_exponent (line_of bc r c xs l) \<and> means b ! l = block_mean (line_of bc r c xs l) \<and> precisions b ! l = 8
      \<and> line_mean w (line_of bc r c xs l) \<noteq> None" if "l < nat (if bc then r else c)" for l
    using fl(3) [of l] fl(5) [of w] ok q(2,3) that unfolding o by (auto simp: same_params_def)
  show "mantissa b ! (if bc then l * nat c + k else k * nat c + l) = line_mantissa w (line_of bc r c xs l) k"
    if "l < nat (if bc then r else c)" "k < nat (if bc then c else r)" for l k
  proof -
    have "scaled_vals xs (quant_default 0 8) b1 l 0 ! k
        = f32_mul (line_of bc r c xs l ! k) (fast_pow2 (i32 (- block_exponent (line_of bc r c xs l))))"
      using that fl(3) [of l] unfolding scaled_vals_def block_vals_line [OF fl(2) assms(2)] o
      by (simp add: used_exponent_def quant_default_def s1)
    then show ?thesis
      using q(4) [of l k] that fl(4) [of l w] unfolding o s1 by (simp add: quant_value_def line_mantissa_def used_bits_def quant_default_def s1)
  qed
qed

text \<open>In the concrete environment small matrices with means that fit are made into blocks.\<close>

lemma bump_make_block:
  assumes "sp_inv s" "whole_lines r c bs bc" "w \<in> {8, 16, 32}" "r * c \<le> 2 ^ 18" "schedule_ok sched" "nat (r * c) \<le> length xs"
    and "top_of (os_live (os_log s)) \<le> t" "t \<le> 2 ^ 38" "total_size s \<le> 2 ^ 26"
    and "\<forall>l < nat (if bc then r else c). line_mean w (line_of bc r c xs l) \<noteq> None"
  shows "\<exists>b s'. make_block w junk bump_env sched r c bs bc xs s = Some (b, s') \<and> nullptr \<notin> set (block_ptrs b)
     \<and> sp_inv s' \<and> top_of (os_live (os_log s')) \<le> t + 2 ^ 31 \<and> total_size s' = total_size s"
proof -
  have dims: "dims_ok r c bs bc" by (rule conjunct1 [OF assms(2) [unfolded whole_lines_def]])
  obtain b0 s' where n: "FixedPointBlock_new w junk bump_env s r c bs bc 0 = Some (b0, s')" "nullptr \<notin> set (block_ptrs b0)"
    "fp_wf b0" "fp_dims b0 = (r, c, bs, bc)" "sp_inv s'" "top_of (os_live (os_log s')) \<le> t + 2 ^ 31" "total_size s' = total_size s"
    using bump_block_new_ptrs [OF assms(1) dims assms(3,4,7,8,9)] by blast
  note s0 = whole_lines_shape [OF n(4) assms(2)]
  have len: "outer_n b0 * inner_n b0 \<le> length xs" using s0(9) assms(6) by simp
  obtain b1 where b1: "fit_exponent sched xs b0 = Some b1" using fit_exponent_eq [OF n(3) assms(5) len] by blast
  note fl = fitted_lines [OF n(3,4) assms(2,5,6) b1]
  have ok: "quant_ok w (quant_default 0 8) b1" using fl(5) assms(10) s0(1) by simp
  have "outer_n b1 * inner_n b1 \<le> length xs" using whole_lines_shape(9) [OF fl(2) assms(2)] assms(6) by simp
  then obtain b where b: "floats_to_mantissa w sched xs (quant_default 0 8) b1 = Some b"
    using floats_to_mantissa_result [OF fl(1) assms(5) ok] by blast
  have "block_ptrs b = block_ptrs b0" using fit_exponent_static [OF b1] floats_to_mantissa_static [OF b] by (simp add: fp_static_def)
  then show ?thesis using n b1 b by (simp add: make_block_def)
qed

text \<open>A matrix with the one element 1.\<close>

lemma single_line_eval:
  "block_exponent [x] = exponent_of (let b = drop_bit 23 (x AND 0x7FFFFFFF) AND 0xFF in if 0 < b then b else 0)"
  "block_mean [x] = mean_of (f32_add 0 x) 1"
  by (simp_all add: block_exponent_def block_mean_def block_acc_def fit_elem_def fit_acc_init_def fit_global_init_def Let_def)

lemma unit_line:
  "line_of bc 1 1 [0x3F800000] 0 = [0x3F800000]" "line_mean 16 [0x3F800000] = Some 128"
  "block_exponent [0x3F800000] = 1" "block_mean [0x3F800000] = 0x3F800000"
proof -
  show "line_of bc 1 1 [0x3F800000] 0 = [0x3F800000]" by (simp add: line_of_def)
  show e: "block_exponent [0x3F800000] = 1" "block_mean [0x3F800000] = 0x3F800000"
    by (simp_all add: single_line_eval Let_def exponent_of_def mean_of_def f32_eval)
  show "line_mean 16 [0x3F800000] = Some 128" by (simp add: line_mean_def e f32_eval fast_pow2_def i32_id)
qed

lemma init_low: "top_of (os_live (os_log scratchpad_init)) \<le> 0" "total_size scratchpad_init \<le> 2 ^ 26"
  by (simp_all add: scratchpad_init_def top_of_def)

lemma unit_block:
  assumes "sp_inv s" "top_of (os_live (os_log s)) \<le> t" "t \<le> 2 ^ 38" "total_size s \<le> 2 ^ 26"
  shows "\<exists>b s'. make_block 16 junk bump_env sequential 1 1 1 bc [0x3F800000] s = Some (b, s') \<and> nullptr \<notin> set (block_ptrs b)
     \<and> sp_inv s' \<and> top_of (os_live (os_log s')) \<le> t + 2 ^ 31 \<and> total_size s' = total_size s"
  by (rule bump_make_block) (use assms in \<open>simp_all add: whole_lines_def dims_ok_def schedules_ok unit_line\<close>)

end
