(* ===== verification/Prefetch.thy ===== *)
theory Prefetch
  imports LineBlocks
begin

text \<open>
  The prefetching of weights (\<^verbatim>\<open>fixedpoint.h\<close>, lines 504 to 558): a queue of quantised blocks under a
  mutex, filled by asynchronous tasks. A task runs at any time after it was started; its effects are
  the requests of its block and the push, so its completion is one step. The interface of the queue is
  the locale \<open>fifo\<close>.
\<close>

section \<open>The interface of a queue\<close>

text \<open>Requests of a client of a queue.\<close>

datatype 'a queue_op = Put 'a | Get

locale fifo =
  fixes q_put :: "'a \<Rightarrow> 'q \<Rightarrow> 'q"
    and q_get :: "'q \<Rightarrow> 'a option \<times> 'q"
    and content :: "'q \<Rightarrow> 'a list"
  assumes content_put: "content (q_put x q) = content q @ [x]"
    and get_empty: "content q = [] \<Longrightarrow> q_get q = (None, q)"
    and get_first: "content q = x # xs \<Longrightarrow> fst (q_get q) = Some x \<and> content (snd (q_get q)) = xs"
begin

text \<open>Any sequence of requests: what was got, in order, and the queue after it.\<close>

fun run_ops :: "'a queue_op list \<Rightarrow> 'q \<Rightarrow> 'a list \<times> 'q" where
  "run_ops [] q = ([], q)"
| "run_ops (Put x # ops) q = run_ops ops (q_put x q)"
| "run_ops (Get # ops) q =
     (let (r, q1) = q_get q; (out, q2) = run_ops ops q1 in ((case r of None \<Rightarrow> out | Some x \<Rightarrow> x # out), q2))"

fun puts :: "'a queue_op list \<Rightarrow> 'a list" where
  "puts [] = []"
| "puts (Put x # ops) = x # puts ops"
| "puts (Get # ops) = puts ops"

lemma run_ops_fifo: "run_ops ops q = (out, q') \<Longrightarrow> content q @ puts ops = out @ content q'"
proof (induction ops q arbitrary: out rule: run_ops.induct)
  case (2 x ops q)
  then show ?case by (simp add: content_put)
next
  case (3 ops q)
  obtain r q1 o1 q2 where r: "q_get q = (r, q1)" "run_ops ops q1 = (o1, q2)" by (metis prod.exhaust)
  then have IH: "content q1 @ puts ops = o1 @ content q2" and q2: "q2 = q'"
    using 3 by (auto split: option.splits)
  show ?case
  proof (cases "content q")
    case Nil
    then have "q1 = q" "r = None" using r(1) get_empty by auto
    then show ?thesis using IH r q2 3(2) by auto
  next
    case (Cons x xs)
    then have "r = Some x" "content q1 = xs" using get_first [of q x xs] r(1) by auto
    then show ?thesis using IH r q2 3(2) Cons by auto
  qed
qed simp

end

section \<open>State\<close>

text \<open>A task: the weights it reads, the sizes of its block.\<close>

record prefetch_task =
  pt_weights :: "f32 list"
  pt_rows :: int
  pt_cols :: int
  pt_block_size :: int

text \<open>
  The queue and the tasks that were started and have not completed. A future whose task has completed
  is no longer listed, it has no further effect.
\<close>

record prefetch =
  pf_queue :: "FixedPointBlock list"
  pf_running :: "prefetch_task list"

definition prefetch_init :: prefetch where
  "prefetch_init = \<lparr>pf_queue = [], pf_running = []\<rparr>"

section \<open>The queue\<close>

definition queue_push :: "FixedPointBlock \<Rightarrow> prefetch \<Rightarrow> prefetch" where
  "queue_push block p = p\<lparr>pf_queue := pf_queue p @ [block]\<rparr>"

definition queue_pop :: "prefetch \<Rightarrow> FixedPointBlock option \<times> prefetch" where
  "queue_pop p = (case pf_queue p of [] \<Rightarrow> (None, p) | b # bs \<Rightarrow> (Some b, p\<lparr>pf_queue := bs\<rparr>))"

text \<open>Emptying the queue deletes its blocks, first to last.\<close>

fun delete_blocks :: "os_env \<Rightarrow> FixedPointBlock list \<Rightarrow> scratchpad \<Rightarrow> scratchpad option" where
  "delete_blocks os [] s = Some s"
| "delete_blocks os (b # bs) s = Option.bind (FixedPointBlock_delete os s b) (delete_blocks os bs)"

definition PrefetchQueue_clear_queue :: "os_env \<Rightarrow> prefetch \<times> scratchpad \<Rightarrow> (prefetch \<times> scratchpad) option" where
  "PrefetchQueue_clear_queue os = (\<lambda>(p, s). map_option (\<lambda>s'. (p\<lparr>pf_queue := []\<rparr>, s')) (delete_blocks os (pf_queue p) s))"

interpretation prefetch_queue: fifo queue_push queue_pop pf_queue
  by unfold_locales (simp_all add: queue_push_def queue_pop_def)

section \<open>Tasks\<close>

text \<open>Starting one task per pair of weights and size, or per triple of weights, rows and columns.\<close>

definition prefetch_weights_square :: "f32 list list \<Rightarrow> int list \<Rightarrow> prefetch \<Rightarrow> prefetch" where
  "prefetch_weights_square weight_ptrs next_sizes p =
     p\<lparr>pf_running := pf_running p @
       map (\<lambda>(ptr, n). \<lparr>pt_weights = ptr, pt_rows = n, pt_cols = n, pt_block_size = n\<rparr>) (zip weight_ptrs next_sizes)\<rparr>"

definition prefetch_weights :: "f32 list list \<Rightarrow> int list \<Rightarrow> int list \<Rightarrow> prefetch \<Rightarrow> prefetch" where
  "prefetch_weights weight_ptrs rws cls p =
     p\<lparr>pf_running := pf_running p @
       map (\<lambda>(ptr, r, c). \<lparr>pt_weights = ptr, pt_rows = r, pt_cols = c, pt_block_size = r\<rparr>) (zip weight_ptrs (zip rws cls))\<rparr>"

definition run_task ::
  "(nat \<Rightarrow> u32) \<Rightarrow> os_env \<Rightarrow> schedule \<Rightarrow> prefetch_task \<Rightarrow> prefetch \<times> scratchpad \<Rightarrow> (prefetch \<times> scratchpad) option" where
  "run_task junk os sched t = (\<lambda>(p, s).
     map_option (\<lambda>(b, s'). (queue_push b p, s'))
       (make_block 16 junk os sched (pt_rows t) (pt_cols t) (pt_block_size t) False (pt_weights t) s))"

text \<open>The completion of the \<open>i\<close>-th running task.\<close>

definition complete_task ::
  "(nat \<Rightarrow> u32) \<Rightarrow> os_env \<Rightarrow> schedule \<Rightarrow> nat \<Rightarrow> prefetch \<times> scratchpad \<Rightarrow> (prefetch \<times> scratchpad) option" where
  "complete_task junk os sched i = (\<lambda>(p, s).
     if i < length (pf_running p)
     then run_task junk os sched (pf_running p ! i)
            (p\<lparr>pf_running := take i (pf_running p) @ drop (Suc i) (pf_running p)\<rparr>, s)
     else None)"

text \<open>
  The program's \<open>clear_queue\<close> empties the queue, then drops the futures; dropping a future waits for
  its task, so every running task completes, in some order given as the positions to run next.
\<close>

fun complete_tasks ::
  "(nat \<Rightarrow> u32) \<Rightarrow> os_env \<Rightarrow> schedule \<Rightarrow> nat list \<Rightarrow> prefetch \<times> scratchpad \<Rightarrow> (prefetch \<times> scratchpad) option" where
  "complete_tasks junk os sched [] st = (if pf_running (fst st) = [] then Some st else None)"
| "complete_tasks junk os sched (i # order) st =
     Option.bind (complete_task junk os sched i st) (complete_tasks junk os sched order)"

definition clear_queue ::
  "(nat \<Rightarrow> u32) \<Rightarrow> os_env \<Rightarrow> schedule \<Rightarrow> nat list \<Rightarrow> prefetch \<times> scratchpad \<Rightarrow> (prefetch \<times> scratchpad) option" where
  "clear_queue junk os sched order st =
     Option.bind (PrefetchQueue_clear_queue os st) (complete_tasks junk os sched order)"

section \<open>What clearing leaves\<close>

definition task_dims :: "prefetch_task \<Rightarrow> int \<times> int \<times> int \<times> bool" where
  "task_dims t = (pt_rows t, pt_cols t, pt_block_size t, False)"

definition queue_ptrs :: "prefetch \<Rightarrow> ptr list" where
  "queue_ptrs p = concat (map block_ptrs (pf_queue p))"

definition tasks_ok :: "prefetch \<Rightarrow> bool" where
  "tasks_ok p \<longleftrightarrow> (\<forall>t \<in> set (pf_running p). dims_ok (pt_rows t) (pt_cols t) (pt_block_size t) False)"

lemma delete_blocks_owns:
  assumes "scratch.owns (concat (map block_ptrs bs) @ ps) L (os, s)"
  shows "\<exists>s'. delete_blocks os bs s = Some s' \<and> scratch.owns ps L (os, s')"
  using assms
proof (induction bs arbitrary: s)
  case (Cons b bs)
  from delete_block_owns [of b "concat (map block_ptrs bs) @ ps" L os s] Cons.prems
  obtain s1 where "FixedPointBlock_delete os s b = Some s1" "scratch.owns (concat (map block_ptrs bs) @ ps) L (os, s1)" by auto
  with Cons.IH show ?case by auto
qed simp

lemma complete_task_spec:
  assumes "complete_task junk os sched i (p, s) = Some (p', s')" "tasks_ok p"
  shows "\<exists>b t. pf_queue p' = pf_queue p @ [b] \<and> mset (pf_running p) = add_mset t (mset (pf_running p')) \<and> tasks_ok p'
     \<and> fp_dims b = task_dims t \<and> (scratch.owns (queue_ptrs p) L (os, s) \<longrightarrow> scratch.owns (queue_ptrs p') L (os, s'))"
proof -
  let ?t = "pf_running p ! i" and ?rest = "take i (pf_running p) @ drop (Suc i) (pf_running p)"
  obtain b where i: "i < length (pf_running p)" and
    b: "make_block 16 junk os sched (pt_rows ?t) (pt_cols ?t) (pt_block_size ?t) False (pt_weights ?t) s = Some (b, s')"
      "p' = queue_push b (p\<lparr>pf_running := ?rest\<rparr>)"
    using assms(1) by (auto simp: complete_task_def run_task_def split: if_splits)
  have dims: "dims_ok (pt_rows ?t) (pt_cols ?t) (pt_block_size ?t) False" using assms(2) i by (simp add: tasks_ok_def)
  have "pf_running p = take i (pf_running p) @ ?t # drop (Suc i) (pf_running p)" using i by (rule id_take_nth_drop)
  then have "mset (pf_running p) = add_mset ?t (mset ?rest)" by (metis mset_append mset.simps(2) union_mset_add_mset_right)
  moreover have "tasks_ok p'" using assms(2) by (auto simp: tasks_ok_def b(2) queue_push_def dest: in_set_takeD in_set_dropD)
  moreover have "fp_dims b = task_dims ?t"
    using make_block_client(3) [OF b(1) dims] by (simp add: task_dims_def)
  moreover have "scratch.owns (queue_ptrs p') L (os, s')" if "scratch.owns (queue_ptrs p) L (os, s)"
    using make_block_owns(1) [OF that b(1) dims] by (simp add: queue_ptrs_def b(2) queue_push_def)
  ultimately show ?thesis by (intro exI [of _ b] exI [of _ ?t]) (simp add: b(2) queue_push_def)
qed

lemma complete_tasks_spec:
  assumes "complete_tasks junk os sched order (p, s) = Some (p', s')" "tasks_ok p"
  shows "pf_running p' = [] \<and> (\<exists>bs. pf_queue p' = pf_queue p @ bs
       \<and> mset (map fp_dims bs) = mset (map task_dims (pf_running p)))
     \<and> (scratch.owns (queue_ptrs p) L (os, s) \<longrightarrow> scratch.owns (queue_ptrs p') L (os, s'))"
  using assms
proof (induction order arbitrary: p s)
  case Nil
  then show ?case by (auto split: if_splits)
next
  case (Cons i order)
  then obtain p1 s1 where c: "complete_task junk os sched i (p, s) = Some (p1, s1)"
    "complete_tasks junk os sched order (p1, s1) = Some (p', s')" by (auto split: bind_splits)
  obtain b t where b: "pf_queue p1 = pf_queue p @ [b]" "mset (pf_running p) = add_mset t (mset (pf_running p1))" "tasks_ok p1"
    "fp_dims b = task_dims t" "scratch.owns (queue_ptrs p) L (os, s) \<longrightarrow> scratch.owns (queue_ptrs p1) L (os, s1)"
    using complete_task_spec [OF c(1) Cons.prems(2), of L] by blast
  from Cons.IH [OF c(2) b(3)] obtain bs where bs: "pf_running p' = []" "pf_queue p' = pf_queue p1 @ bs"
    "mset (map fp_dims bs) = mset (map task_dims (pf_running p1))"
    "scratch.owns (queue_ptrs p1) L (os, s1) \<longrightarrow> scratch.owns (queue_ptrs p') L (os, s')" by blast
  have "mset (map fp_dims (b # bs)) = mset (map task_dims (pf_running p))"
    using bs(3) b(2,4) by (simp add: mset_map)
  then show ?case using bs b by (intro conjI exI [of _ "b # bs"]) auto
qed

section \<open>Properties\<close>

text \<open>
  The prefetch queue hands blocks out in the order they were completed: for every interleaving of
  pushes and pops, the blocks popped and the blocks left are the blocks the queue had and the ones
  pushed, in order.
\<close>

theorem prefetch_fifo:
  "pf_queue p @ prefetch_queue.puts ops
     = fst (prefetch_queue.run_ops ops p) @ pf_queue (snd (prefetch_queue.run_ops ops p))"
  by (rule prefetch_queue.run_ops_fifo) simp

text \<open>
  C38: Clearing waits for the running tasks, and these push their blocks after the queue was emptied: when
  \<open>clear_queue\<close> returns no task is running, and the queue holds one block for each task that was
  running, with its sizes, so it is empty only if none was. The memory of the blocks that were queued has been given back.
\<close>

theorem clear_queue_leaves_running:
  assumes "clear_queue junk os sched order (p, s) = Some (p', s')" and "tasks_ok p"
    and "scratch.owns (queue_ptrs p) L (os, s)"
  shows "pf_running p' = [] \<and> mset (map fp_dims (pf_queue p')) = mset (map task_dims (pf_running p))
     \<and> scratch.owns (queue_ptrs p') L (os, s')"
proof -
  obtain s1 where d: "delete_blocks os (pf_queue p) s = Some s1"
    and c: "complete_tasks junk os sched order (p\<lparr>pf_queue := []\<rparr>, s1) = Some (p', s')"
    using assms(1) by (auto simp: clear_queue_def PrefetchQueue_clear_queue_def split: bind_splits)
  have "scratch.owns [] L (os, s1)"
    using delete_blocks_owns [of "pf_queue p" "[]" L os s] assms(3) d by (simp add: queue_ptrs_def)
  moreover have "tasks_ok (p\<lparr>pf_queue := []\<rparr>)" using assms(2) by (simp add: tasks_ok_def)
  ultimately show ?thesis using complete_tasks_spec [OF c, of L] by (simp add: queue_ptrs_def)
qed

text \<open>
  With no task running, clearing always succeeds, leaves the queue empty and gives back the memory
  of every queued block and nothing else.
\<close>

theorem clear_queue_releases:
  assumes "pf_running p = []" and "scratch.owns (queue_ptrs p) L (os, s)"
  shows "\<exists>s'. clear_queue junk os sched [] (p, s) = Some (prefetch_init, s') \<and> sp_live s' = L"
proof -
  obtain s' where "delete_blocks os (pf_queue p) s = Some s'" "scratch.owns [] L (os, s')"
    using delete_blocks_owns [of "pf_queue p" "[]" L os s] assms(2) by (auto simp: queue_ptrs_def)
  then show ?thesis using assms(1)
    by (intro exI [of _ s']) (simp add: clear_queue_def PrefetchQueue_clear_queue_def prefetch_init_def scratch.owns_Nil)
qed

section \<open>Witnesses\<close>

definition unit_task :: prefetch_task where
  "unit_task = \<lparr>pt_weights = [0x3F800000], pt_rows = 1, pt_cols = 1, pt_block_size = 1\<rparr>"

lemma unit_prefetch:
  "prefetch_weights [[0x3F800000]] [1] [1] prefetch_init = \<lparr>pf_queue = [], pf_running = [unit_task]\<rparr>"
  "tasks_ok \<lparr>pf_queue = [], pf_running = [unit_task]\<rparr>"
  by (simp_all add: prefetch_weights_def prefetch_init_def unit_task_def tasks_ok_def dims_ok_def)

lemma init_owns: "scratch.owns [] (sp_live scratchpad_init) (bump_env, scratchpad_init)"
  by (simp add: scratch.owns_Nil sp_ok_def bump_env_ok sp_inv_init)

theorem clear_queue_leaves_running_witness:
  "\<exists>p' s' b. clear_queue (\<lambda>a. 0) bump_env sequential [0] (prefetch_weights [[0x3F800000]] [1] [1] prefetch_init, scratchpad_init)
     = Some (p', s') \<and> pf_queue p' = [b] \<and> fp_dims b = (1, 1, 1, False)"
proof -
  obtain b s' where b: "make_block 16 (\<lambda>a. 0) bump_env sequential 1 1 1 False [0x3F800000] scratchpad_init = Some (b, s')"
    using unit_block [OF sp_inv_init init_low(1) _ init_low(2)] by fastforce
  let ?p = "\<lparr>pf_queue = [], pf_running = [unit_task]\<rparr>"
  obtain p' where c: "clear_queue (\<lambda>a. 0) bump_env sequential [0] (?p, scratchpad_init) = Some (p', s')"
    by (simp add: clear_queue_def PrefetchQueue_clear_queue_def complete_task_def run_task_def unit_task_def b queue_push_def)
  have "scratch.owns (queue_ptrs ?p) (sp_live scratchpad_init) (bump_env, scratchpad_init)" using init_owns by (simp add: queue_ptrs_def)
  from clear_queue_leaves_running [OF c unit_prefetch(2) this]
  have "mset (map fp_dims (pf_queue p')) = mset [(1, 1, 1, False)]" by (simp add: task_dims_def unit_task_def)
  then have "map fp_dims (pf_queue p') = [(1, 1, 1, False)]" by (metis mset_single_iff mset_single_iff_right mset.simps)
  then obtain b' where "pf_queue p' = [b']" "fp_dims b' = (1, 1, 1, False)" by auto
  then show ?thesis unfolding unit_prefetch(1) using c by blast
qed

theorem clear_queue_releases_witness:
  "\<exists>b s s'. complete_task (\<lambda>a. 0) bump_env sequential 0 (\<lparr>pf_queue = [], pf_running = [unit_task]\<rparr>, scratchpad_init)
       = Some (\<lparr>pf_queue = [b], pf_running = []\<rparr>, s)
     \<and> clear_queue (\<lambda>a. 0) bump_env sequential [] (\<lparr>pf_queue = [b], pf_running = []\<rparr>, s) = Some (prefetch_init, s')
     \<and> sp_live s' = sp_live scratchpad_init"
proof -
  obtain b s where b: "make_block 16 (\<lambda>a. 0) bump_env sequential 1 1 1 False [0x3F800000] scratchpad_init = Some (b, s)"
    using unit_block [OF sp_inv_init init_low(1) _ init_low(2)] by fastforce
  let ?p = "\<lparr>pf_queue = [b], pf_running = []\<rparr>"
  have c: "complete_task (\<lambda>a. 0) bump_env sequential 0 (\<lparr>pf_queue = [], pf_running = [unit_task]\<rparr>, scratchpad_init) = Some (?p, s)"
    by (simp add: complete_task_def run_task_def unit_task_def b queue_push_def)
  have "scratch.owns (queue_ptrs ?p) (sp_live scratchpad_init) (bump_env, s)"
    using make_block_owns(1) [OF init_owns b] by (simp add: queue_ptrs_def dims_ok_def)
  from clear_queue_releases [OF _ this, of "\<lambda>a. 0" sequential] show ?thesis using c by auto
qed

end
