(* ===== verification/Text.thy ===== *)
theory Text
  imports Prelude
begin

text \<open>
  The text the program builds and reads: \<^verbatim>\<open>std::to_string\<close> of an \<open>int\<close>, the extraction of words and
  integers from a string stream, and the facts that make cache keys and requests unambiguous.
\<close>

section \<open>Printing integers\<close>

definition digit_char :: "nat \<Rightarrow> char" where
  "digit_char d = char_of (48 + d)"

fun nat_digits :: "nat \<Rightarrow> string" where
  "nat_digits n = (if n < 10 then [digit_char n] else nat_digits (n div 10) @ [digit_char (n mod 10)])"

declare nat_digits.simps [simp del]

definition to_string :: "int \<Rightarrow> string" where
  "to_string i = (if i < 0 then CHR ''-'' # nat_digits (nat (- i)) else nat_digits (nat i))"

section \<open>Reading a stream\<close>

definition is_space :: "char \<Rightarrow> bool" where
  "is_space c \<longleftrightarrow> c = CHR '' '' \<or> (9 \<le> (of_char c :: nat) \<and> (of_char c :: nat) \<le> 13)"

definition is_digit :: "char \<Rightarrow> bool" where
  "is_digit c \<longleftrightarrow> 48 \<le> (of_char c :: nat) \<and> (of_char c :: nat) \<le> 57"

definition digits_val :: "string \<Rightarrow> nat" where
  "digits_val ds = foldl (\<lambda>n c. 10 * n + (of_char c - 48)) 0 ds"

text \<open>A stream is the text not yet read and the fail bit.\<close>

type_synonym stream = "string \<times> bool"

definition extract_word :: "stream \<Rightarrow> string \<times> stream" where
  "extract_word = (\<lambda>(s, failed).
     if failed then ([], (s, True))
     else let t = dropWhile is_space s; w = takeWhile (\<lambda>c. \<not> is_space c) t
          in (w, (dropWhile (\<lambda>c. \<not> is_space c) t, w = [])))"

text \<open>
  An \<open>int\<close> in base ten: a failed stream leaves the variable alone; no digits store 0 and fail; a
  value outside the type stores the nearest bound and fails.
\<close>

definition extract_int :: "int \<Rightarrow> stream \<Rightarrow> int \<times> stream" where
  "extract_int old = (\<lambda>(s, failed).
     if failed then (old, (s, True))
     else
       let t = dropWhile is_space s;
           neg = (t \<noteq> [] \<and> hd t = CHR ''-'');
           u = (if t \<noteq> [] \<and> (hd t = CHR ''-'' \<or> hd t = CHR ''+'') then tl t else t);
           ds = takeWhile is_digit u;
           rest = dropWhile is_digit u;
           v = (if neg then - int (digits_val ds) else int (digits_val ds))
       in if ds = [] then (0, (rest, True))
          else if v < - (2 ^ 31) then (- (2 ^ 31), (rest, True))
          else if 2 ^ 31 \<le> v then (2 ^ 31 - 1, (rest, True))
          else (v, (rest, False)))"

section \<open>Properties of the digits\<close>

lemma of_digit_char: "d < 10 \<Longrightarrow> (of_char (digit_char d) :: nat) = 48 + d"
  by (simp add: digit_char_def)

lemma digit_char_class: "d < 10 \<Longrightarrow> is_digit (digit_char d)"
  by (simp add: is_digit_def of_digit_char)

lemma nat_digits_all: "\<forall>c \<in> set (nat_digits n). is_digit c"
  by (induction n rule: nat_digits.induct) (subst nat_digits.simps, auto simp: digit_char_class)

lemma nat_digits_nonempty: "nat_digits n \<noteq> []"
  by (subst nat_digits.simps) simp

lemma digits_val_snoc: "digits_val (ds @ [c]) = 10 * digits_val ds + (of_char c - 48)"
  by (simp add: digits_val_def)

lemma digits_val_nat_digits: "digits_val (nat_digits n) = n"
proof (induction n rule: nat_digits.induct)
  case (1 n)
  show ?case
  proof (cases "n < 10")
    case True
    then show ?thesis by (subst nat_digits.simps) (simp add: digits_val_def of_digit_char)
  next
    case False
    then have "digits_val (nat_digits n) = 10 * digits_val (nat_digits (n div 10)) + n mod 10"
      by (subst nat_digits.simps) (simp add: digits_val_snoc of_digit_char)
    then show ?thesis using 1 [OF False] by simp
  qed
qed

lemma not_digit_chars: "\<not> is_digit (CHR ''-'')" "\<not> is_digit (CHR ''_'')" "\<not> is_digit (CHR '' '')" "\<not> is_digit (CHR 0x0A)"
  "\<not> is_digit (CHR ''+'')"
  by (simp_all add: is_digit_def)

lemma digit_not_space: "is_digit c \<Longrightarrow> \<not> is_space c"
  by (auto simp: is_digit_def is_space_def)

lemma nat_digits_head: "hd (nat_digits n) \<noteq> CHR ''-''" "hd (nat_digits n) \<noteq> CHR ''+''" "is_digit (hd (nat_digits n))"
  using nat_digits_all [of n] hd_in_set [OF nat_digits_nonempty [of n]] not_digit_chars by auto

lemma to_string_inj: "to_string i = to_string j \<Longrightarrow> i = j"
proof -
  assume e: "to_string i = to_string j"
  have pos: "nat_digits m = nat_digits n \<Longrightarrow> m = n" for m n using digits_val_nat_digits by metis
  have mix: "CHR ''-'' # nat_digits m \<noteq> nat_digits n" for m n using nat_digits_head(1) [of n] by (metis list.sel(1))
  show ?thesis using e pos [of "nat (- i)" "nat (- j)"] pos [of "nat i" "nat j"] mix mix [symmetric]
    by (auto simp: to_string_def split: if_splits)
qed

lemma to_string_chars: "c \<in> set (to_string i) \<Longrightarrow> is_digit c \<or> c = CHR ''-''"
  using nat_digits_all by (auto simp: to_string_def split: if_splits)

lemma to_string_nonempty: "to_string i \<noteq> []"
  by (simp add: to_string_def nat_digits_nonempty)

text \<open>A separator that occurs in neither part splits a text in one way only.\<close>

lemma append_sep_inj:
  assumes "xs @ c # ys = xs' @ c # ys'" "c \<notin> set xs" "c \<notin> set xs'"
  shows "xs = xs' \<and> ys = ys'"
  using assms
proof (induction xs arbitrary: xs')
  case Nil
  then show ?case by (cases xs') auto
next
  case (Cons x xs)
  then show ?case by (cases xs') auto
qed

section \<open>Reading back what was printed\<close>

lemma takeWhile_digits: "takeWhile is_digit (nat_digits n @ s) = nat_digits n @ takeWhile is_digit s"
  using nat_digits_all [of n] by (simp add: takeWhile_append2)

lemma dropWhile_digits: "dropWhile is_digit (nat_digits n @ s) = dropWhile is_digit s"
  using nat_digits_all [of n] by (simp add: dropWhile_append2)

lemma extract_int_to_string:
  assumes "- (2 ^ 31) \<le> i" "i < 2 ^ 31" "is_space c"
  shows "extract_int old (CHR '' '' # to_string i @ c # s, False) = (i, (c # s, False))"
proof -
  have c: "\<not> is_digit c" using assms(3) digit_not_space by blast
  have sp: "is_space (CHR '' '')" by (simp add: is_space_def)
  have minus: "\<not> is_space (CHR ''-'')" by (simp add: is_space_def)
  have h: "\<not> is_space (hd (nat_digits n))" for n using nat_digits_head(3) digit_not_space by blast
  obtain d ds where nd: "nat_digits (nat i) = d # ds" by (cases "nat_digits (nat i)") (auto simp: nat_digits_nonempty)
  show ?thesis
  proof (cases "i < 0")
    case True
    then have ts: "to_string i = CHR ''-'' # nat_digits (nat (- i))" by (simp add: to_string_def)
    show ?thesis
      using True assms(1) sp minus c nat_digits_nonempty [of "nat (- i)"]
      by (simp add: extract_int_def ts Let_def takeWhile_digits dropWhile_digits digits_val_nat_digits)
  next
    case False
    then have ts: "to_string i = nat_digits (nat i)" by (simp add: to_string_def)
    have hd: "\<not> is_space d" "d \<noteq> CHR ''-''" "d \<noteq> CHR ''+''"
      using h [of "nat i"] nat_digits_head(1,2) [of "nat i"] nd by auto
    have tw: "takeWhile is_digit (d # ds @ c # s) = d # ds" "dropWhile is_digit (d # ds @ c # s) = c # s"
      using takeWhile_digits [of "nat i" "c # s"] dropWhile_digits [of "nat i" "c # s"] c nd by simp_all
    have "digits_val (d # ds) = nat i" using digits_val_nat_digits [of "nat i"] nd by simp
    then show ?thesis
      using False assms(2) sp hd tw by (simp add: extract_int_def ts nd Let_def)
  qed
qed

end
