(* ===== verification/Qnn.thy ===== *)
theory Qnn
  imports Text
begin

text \<open>
  The accelerator's library as the program sees it. The library (QNN) is loaded at run time and is
  outside the repository: a \<open>qnn_env\<close> answers every call as a function of the calls made before it,
  and a log records calls and answers, latest first. The data structures are the fields the program
  fills in. The two functions of \<^verbatim>\<open>utils/qnn_hta_direct.h\<close> load and unload it.
\<close>

section \<open>Data\<close>

datatype Qnn_DataType =
    QNN_DATATYPE_INT_8 | QNN_DATATYPE_UINT_8 | QNN_DATATYPE_INT_16 | QNN_DATATYPE_UINT_16
  | QNN_DATATYPE_INT_32 | QNN_DATATYPE_UINT_32 | QNN_DATATYPE_FLOAT_16 | QNN_DATATYPE_FLOAT_32
  | QNN_DATATYPE_SFIXED_POINT_8 | QNN_DATATYPE_UFIXED_POINT_8
  | QNN_DATATYPE_SFIXED_POINT_16 | QNN_DATATYPE_UFIXED_POINT_16
  | QNN_DATATYPE_SFIXED_POINT_32 | QNN_DATATYPE_UFIXED_POINT_32

datatype Qnn_TensorType = QNN_TENSOR_TYPE_APP_WRITE | QNN_TENSOR_TYPE_APP_READ | QNN_TENSOR_TYPE_STATIC

text \<open>What \<^verbatim>\<open>clientBuf.data\<close> points to: nothing, or memory with these elements.\<close>

datatype client_data = NoData | Bytes "u8 list" | Halves "u16 list" | Ints "int list"

fun data_bytes :: "client_data \<Rightarrow> nat" where
  "data_bytes NoData = 0"
| "data_bytes (Bytes xs) = length xs"
| "data_bytes (Halves xs) = 2 * length xs"
| "data_bytes (Ints xs) = 4 * length xs"

text \<open>Scale and offset, when the encoding is defined.\<close>

record Qnn_Tensor =
  t_id :: nat
  t_name :: string
  t_type :: Qnn_TensorType
  t_dense :: bool
  t_dataType :: Qnn_DataType
  t_rank :: nat
  t_dimensions :: "u32 list"
  t_memHandle :: "nat option"
  t_data :: client_data
  t_dataSize :: u32
  t_encoding :: "(f32 \<times> int) option"

record Qnn_OpConfig =
  op_name :: string
  op_packageName :: string
  op_typeName :: string
  op_inputs :: "Qnn_Tensor list"
  op_outputs :: "Qnn_Tensor list"

text \<open>The only node the program builds.\<close>

definition fully_connected :: "string \<Rightarrow> Qnn_Tensor list \<Rightarrow> Qnn_Tensor list \<Rightarrow> Qnn_OpConfig" where
  "fully_connected name ins outs =
     \<lparr>op_name = name, op_packageName = ''qti.aisw'', op_typeName = ''FullyConnected'',
      op_inputs = ins, op_outputs = outs\<rparr>"

section \<open>The environment\<close>

type_synonym handle = "nat option"

datatype qnn_call =
    DlOpen string
  | DlClose nat
  | GetProviders nat
  | LogCreate
  | LogFree nat
  | BackendCreate handle
  | BackendFree handle
  | DeviceCreate
  | DeviceFree nat
  | DeviceGetInfrastructure
  | ContextCreate handle handle
  | ContextFree handle
  | ContextGetBinarySize handle
  | ContextGetBinary handle nat
  | GraphCreate handle string
  | TensorCreateGraphTensor handle Qnn_Tensor
  | GraphAddNode handle Qnn_OpConfig
  | GraphFinalize handle
  | GraphExecute handle "Qnn_Tensor list" Qnn_Tensor
  | BackendValidateOpConfig handle Qnn_OpConfig
  | MemRegister handle int "u32 list" Qnn_DataType
  | MemDeRegister nat

text \<open>
  An answer: the status (0 is \<^verbatim>\<open>QNN_SUCCESS\<close>), the handle written through the out parameter, a count or
  size or tensor id, and the 16-bit elements written to an output buffer.
\<close>

record qnn_resp =
  r_status :: u32
  r_handle :: handle
  r_num :: nat
  r_out :: "u16 list"

type_synonym qnn_log = "(qnn_call \<times> qnn_resp) list"

record qnn_env =
  qe_dlsym :: "nat \<Rightarrow> string \<Rightarrow> bool"
  qe_has :: "nat \<Rightarrow> string \<Rightarrow> bool"
  qe_resp :: "qnn_log \<Rightarrow> qnn_call \<Rightarrow> qnn_resp"

definition qcall :: "qnn_env \<Rightarrow> qnn_call \<Rightarrow> qnn_log \<Rightarrow> qnn_resp \<times> qnn_log" where
  "qcall env c l = (let r = qe_resp env l c in (r, (c, r) # l))"

definition qdo :: "qnn_env \<Rightarrow> qnn_call \<Rightarrow> qnn_log \<Rightarrow> qnn_log" where
  "qdo env c l = snd (qcall env c l)"

text \<open>Creating a graph tensor: the library assigns its id.\<close>

definition create_tensor :: "qnn_env \<Rightarrow> handle \<Rightarrow> Qnn_Tensor \<Rightarrow> qnn_log \<Rightarrow> Qnn_Tensor \<times> qnn_log" where
  "create_tensor env g t l =
     (let (r, l') = qcall env (TensorCreateGraphTensor g t) l in (t\<lparr>t_id := r_num r\<rparr>, l'))"

text \<open>The variables of the process environment, and one that is set to 1.\<close>

type_synonym process_env = "string \<Rightarrow> string option"

definition env_is_1 :: "process_env \<Rightarrow> string \<Rightarrow> bool" where
  "env_is_1 penv v = (penv v = Some ''1'')"

section \<open>Loading the library\<close>

record QnnLoadedBackendContainer =
  librarySharedObjectHandle :: handle
  interfaceProviderTable :: handle

definition no_backend :: QnnLoadedBackendContainer where
  "no_backend = \<lparr>librarySharedObjectHandle = None, interfaceProviderTable = None\<rparr>"

definition loadQnnBackendSharedLibrary ::
  "qnn_env \<Rightarrow> string \<Rightarrow> qnn_log \<Rightarrow> QnnLoadedBackendContainer \<times> qnn_log" where
  "loadQnnBackendSharedLibrary env sharedLibraryPath l0 =
     (let (r, l1) = qcall env (DlOpen sharedLibraryPath) l0
      in case r_handle r of
           None \<Rightarrow> (no_backend, l1)
         | Some lib \<Rightarrow>
             if \<not> qe_dlsym env lib ''QnnInterface_getProviders'' then (no_backend, qdo env (DlClose lib) l1)
             else
               let (p, l2) = qcall env (GetProviders lib) l1
               in if r_status p \<noteq> 0 \<or> r_num p = 0 \<or> r_handle p = None
                  then (no_backend, qdo env (DlClose lib) l2)
                  else (\<lparr>librarySharedObjectHandle = Some lib, interfaceProviderTable = r_handle p\<rparr>, l2))"

definition unloadQnnBackendSharedLibrary ::
  "qnn_env \<Rightarrow> QnnLoadedBackendContainer \<Rightarrow> qnn_log \<Rightarrow> QnnLoadedBackendContainer \<times> qnn_log" where
  "unloadQnnBackendSharedLibrary env b l =
     (case librarySharedObjectHandle b of
        None \<Rightarrow> (b, l)
      | Some lib \<Rightarrow> (no_backend, qdo env (DlClose lib) l))"

section \<open>Resources\<close>

text \<open>
  The handles of each kind that a log has created and not given back. A handle is counted once for
  every creating call, so giving one back twice shows.
\<close>

datatype resource = Library | Log | Backend | Device | Context

fun creates :: "qnn_call \<Rightarrow> resource option" where
  "creates (DlOpen p) = Some Library"
| "creates LogCreate = Some Log"
| "creates (BackendCreate lg) = Some Backend"
| "creates DeviceCreate = Some Device"
| "creates (ContextCreate b d) = Some Context"
| "creates _ = None"

fun releases :: "qnn_call \<Rightarrow> (resource \<times> handle) option" where
  "releases (DlClose h) = Some (Library, Some h)"
| "releases (LogFree h) = Some (Log, Some h)"
| "releases (BackendFree h) = Some (Backend, h)"
| "releases (DeviceFree h) = Some (Device, Some h)"
| "releases (ContextFree h) = Some (Context, h)"
| "releases _ = None"

definition handle_list :: "handle \<Rightarrow> nat list" where
  "handle_list h = (case h of None \<Rightarrow> [] | Some x \<Rightarrow> [x])"

lemma handle_list_simps [simp]: "handle_list None = []" "handle_list (Some x) = [x]"
  by (simp_all add: handle_list_def)

fun created :: "resource \<Rightarrow> qnn_call \<times> qnn_resp \<Rightarrow> nat list" where
  "created k (c, r) = (if creates c = Some k then handle_list (r_handle r) else [])"

fun released :: "resource \<Rightarrow> qnn_call \<times> qnn_resp \<Rightarrow> nat list" where
  "released k (c, r) = (case releases c of None \<Rightarrow> [] | Some (j, h) \<Rightarrow> if j = k then handle_list h else [])"

text \<open>The balance of a handle: how often it was created less how often it was given back.\<close>

definition balance :: "resource \<Rightarrow> nat \<Rightarrow> qnn_log \<Rightarrow> int" where
  "balance k h l = (\<Sum>e\<leftarrow>l. int (count_list (created k e) h) - int (count_list (released k e) h))"

lemma balance_simps [simp]:
  "balance k h [] = 0"
  "balance k h (e # l) = int (count_list (created k e) h) - int (count_list (released k e) h) + balance k h l"
  by (simp_all add: balance_def)

lemma qcall_eq: "qcall env c l = (qe_resp env l c, (c, qe_resp env l c) # l)"
  by (simp add: qcall_def Let_def)

lemma qdo_eq: "qdo env c l = (c, qe_resp env l c) # l"
  by (simp add: qdo_def qcall_eq)

lemma snd_create_tensor:
  "create_tensor env g t l = (t\<lparr>t_id := r_num (qe_resp env l (TensorCreateGraphTensor g t))\<rparr>,
     qdo env (TensorCreateGraphTensor g t) l)"
  by (simp add: create_tensor_def qcall_eq qdo_eq Let_def)

lemmas q_simps = qcall_eq qdo_eq snd_create_tensor

section \<open>Properties of the loader\<close>

text \<open>A load that fails has closed what it opened; one that succeeds holds one library.\<close>

lemma load_balance:
  assumes "loadQnnBackendSharedLibrary env p l = (b, l')"
  shows "balance Library h l' = balance Library h l + (if librarySharedObjectHandle b = Some h then 1 else 0)"
    and "k \<noteq> Library \<Longrightarrow> balance k h l' = balance k h l"
    and "librarySharedObjectHandle b = None \<longleftrightarrow> interfaceProviderTable b = None"
  using assms
  by (auto simp: loadQnnBackendSharedLibrary_def q_simps Let_def no_backend_def split: option.splits if_splits)

lemma unload_balance:
  assumes "unloadQnnBackendSharedLibrary env b l = (b', l')"
  shows "balance Library h l' = balance Library h l - (if librarySharedObjectHandle b = Some h then 1 else 0)"
    and "k \<noteq> Library \<Longrightarrow> balance k h l' = balance k h l" and "librarySharedObjectHandle b' = None"
  using assms
  by (auto simp: unloadQnnBackendSharedLibrary_def q_simps no_backend_def split: option.splits)

end
