(* ===== verification/Engine.thy ===== *)
theory Engine
  imports Qnn "HOL-Library.AList"
begin

text \<open>
  The execution engine of \<^verbatim>\<open>utils/execution.h\<close> (lines 49 to 667): loading and unloading of a backend, the
  cache of compiled graphs, execution, diagnostics. Messages to the console are left out. An operation
  is \<^term>\<open>None\<close> where the code dereferences a null interface table, throws or reads past a buffer.
\<close>

section \<open>State\<close>

record QnnCachedGraph =
  isValid :: bool
  graphHandle :: handle
  contextHandle :: handle
  tensorA :: Qnn_Tensor
  tensorB :: Qnn_Tensor
  tensorC :: Qnn_Tensor
  tensorBias :: Qnn_Tensor
  dimsA :: "u32 list"
  dimsB :: "u32 list"
  dimsC :: "u32 list"
  dimsBias :: "u32 list"
  biasData :: "int list"
  staticWeights :: "u8 list"

text \<open>
  The engine: a singleton, so its state is the program's. The unordered map of graphs is an
  association list with distinct keys; \<open>dummyInvalid\<close> is the static graph returned on failure and
  \<open>process_env\<close> the environment variables, which loading changes.
\<close>

record engine =
  backendContainer :: QnnLoadedBackendContainer
  backendHandle :: handle
  deviceHandle :: handle
  logHandle :: handle
  graphCache :: "(string \<times> QnnCachedGraph) list"
  diagnosticsPerformed :: bool
  currentBackendChoice :: int
  qnnMemRegister :: bool
  qnnMemDeRegister :: bool
  dummyInvalid :: QnnCachedGraph
  penv :: process_env
  qlog :: qnn_log

text \<open>A reference to a graph: an entry of the cache or the static one.\<close>

datatype graph_ref = Cached string | Dummy

definition get_graph :: "engine \<Rightarrow> graph_ref \<Rightarrow> QnnCachedGraph option" where
  "get_graph e ref = (case ref of Cached k \<Rightarrow> map_of (graphCache e) k | Dummy \<Rightarrow> Some (dummyInvalid e))"

definition set_graph :: "engine \<Rightarrow> graph_ref \<Rightarrow> QnnCachedGraph \<Rightarrow> engine" where
  "set_graph e ref g =
     (case ref of Cached k \<Rightarrow> e\<lparr>graphCache := AList.update k g (graphCache e)\<rparr> | Dummy \<Rightarrow> e\<lparr>dummyInvalid := g\<rparr>)"

section \<open>Tensors\<close>

text \<open>A zeroed tensor with the fields the code sets; the scale is always 1.\<close>

definition qnn_tensor ::
  "nat \<Rightarrow> string \<Rightarrow> Qnn_TensorType \<Rightarrow> bool \<Rightarrow> Qnn_DataType \<Rightarrow> u32 list \<Rightarrow> client_data \<Rightarrow> u32 \<Rightarrow> int option \<Rightarrow> Qnn_Tensor" where
  "qnn_tensor i name ty dense dt dims dat sz offset =
     \<lparr>t_id = i, t_name = name, t_type = ty, t_dense = dense, t_dataType = dt, t_rank = length dims,
      t_dimensions = dims, t_memHandle = None, t_data = dat, t_dataSize = sz,
      t_encoding = map_option (\<lambda>z. (0x3F800000, z)) offset\<rparr>"

definition zero_tensor :: Qnn_Tensor where
  "zero_tensor =
     \<lparr>t_id = 0, t_name = [], t_type = QNN_TENSOR_TYPE_APP_WRITE, t_dense = False, t_dataType = QNN_DATATYPE_INT_8,
      t_rank = 0, t_dimensions = [], t_memHandle = None, t_data = NoData, t_dataSize = 0, t_encoding = None\<rparr>"

definition zero_graph :: QnnCachedGraph where
  "zero_graph =
     \<lparr>isValid = False, graphHandle = None, contextHandle = None, tensorA = zero_tensor, tensorB = zero_tensor,
      tensorC = zero_tensor, tensorBias = zero_tensor, dimsA = [0, 0], dimsB = [0, 0], dimsC = [0, 0],
      dimsBias = [0], biasData = [], staticWeights = []\<rparr>"

definition isQuantizedType :: "Qnn_DataType \<Rightarrow> bool" where
  "isQuantizedType dataType \<longleftrightarrow>
     dataType = QNN_DATATYPE_SFIXED_POINT_8 \<or> dataType = QNN_DATATYPE_UFIXED_POINT_8 \<or>
     dataType = QNN_DATATYPE_SFIXED_POINT_16 \<or> dataType = QNN_DATATYPE_UFIXED_POINT_16 \<or>
     dataType = QNN_DATATYPE_SFIXED_POINT_32 \<or> dataType = QNN_DATATYPE_UFIXED_POINT_32"

definition getDataTypeSize :: "Qnn_DataType \<Rightarrow> u32" where
  "getDataTypeSize dataType =
     (if dataType \<in> {QNN_DATATYPE_INT_16, QNN_DATATYPE_UINT_16, QNN_DATATYPE_SFIXED_POINT_16,
                      QNN_DATATYPE_UFIXED_POINT_16, QNN_DATATYPE_FLOAT_16} then 2
      else if dataType \<in> {QNN_DATATYPE_INT_32, QNN_DATATYPE_UINT_32, QNN_DATATYPE_SFIXED_POINT_32,
                           QNN_DATATYPE_UFIXED_POINT_32, QNN_DATATYPE_FLOAT_32} then 4
      else 1)"

section \<open>Loading and unloading\<close>

definition engine_init :: "process_env \<Rightarrow> qnn_log \<Rightarrow> engine" where
  "engine_init pe l =
     \<lparr>backendContainer = no_backend, backendHandle = None, deviceHandle = None, logHandle = None, graphCache = [],
      diagnosticsPerformed = False, currentBackendChoice = - 1, qnnMemRegister = False, qnnMemDeRegister = False,
      dummyInvalid = zero_graph, penv = pe, qlog = l\<rparr>"

definition free_handle :: "qnn_env \<Rightarrow> handle \<Rightarrow> bool \<Rightarrow> (nat \<Rightarrow> qnn_call) \<Rightarrow> qnn_log \<Rightarrow> handle \<times> qnn_log" where
  "free_handle env h present call l =
     (case h of Some x \<Rightarrow> if present then (None, qdo env (call x) l) else (h, l) | None \<Rightarrow> (h, l))"

definition unloadActiveBackend :: "qnn_env \<Rightarrow> engine \<Rightarrow> engine" where
  "unloadActiveBackend env e =
     (let e1 = (case interfaceProviderTable (backendContainer e) of
                  None \<Rightarrow> e
                | Some qnn \<Rightarrow>
                    let l1 = fold (\<lambda>(k, g) l. qdo env (ContextFree (contextHandle g)) l) (graphCache e) (qlog e);
                        (dev, l2) = free_handle env (deviceHandle e) (qe_has env qnn ''deviceFree'') DeviceFree l1;
                        (bk, l3) = free_handle env (backendHandle e) True (\<lambda>x. BackendFree (Some x)) l2;
                        (lg, l4) = free_handle env (logHandle e) (qe_has env qnn ''logFree'') LogFree l3
                    in e\<lparr>graphCache := [], deviceHandle := dev, backendHandle := bk, logHandle := lg, qlog := l4\<rparr>);
          (b, l) = unloadQnnBackendSharedLibrary env (backendContainer e1) (qlog e1)
      in e1\<lparr>backendContainer := b, qlog := l, qnnMemRegister := False, qnnMemDeRegister := False\<rparr>)"

definition library_name :: "int \<Rightarrow> string" where
  "library_name backendChoice =
     (if backendChoice = 1 \<or> backendChoice = 7 then ''/libQnnHta.so''
      else if backendChoice = 2 then ''/libQnnDsp.so''
      else if backendChoice = 3 then ''/libQnnHtp.so''
      else if backendChoice = 4 then ''/libQnnGpu.so''
      else ''/libQnnHta.so'')"

definition project_libs_dir :: "process_env \<Rightarrow> string" where
  "project_libs_dir pe =
     (case pe ''HOME'' of Some home \<Rightarrow> home @ ''/projects/pytorch_npublas/libs'' | None \<Rightarrow> ''libs'')"

text \<open>The two search paths the libraries read.\<close>

definition set_library_paths :: "process_env \<Rightarrow> process_env" where
  "set_library_paths pe =
     (let dir = project_libs_dir pe;
          pe1 = pe(''ADSP_LIBRARY_PATH'' \<mapsto> dir @ '';/data/local/tmp;/vendor/lib/rfsa/adsp;/system/lib/rfsa/adsp;/dsp'')
      in pe1(''LD_LIBRARY_PATH'' \<mapsto> dir @ '':'' @ (case pe1 ''LD_LIBRARY_PATH'' of Some p \<Rightarrow> p | None \<Rightarrow> [])))"

text \<open>The project's copy of the library, or the one of the system.\<close>

definition load_library_for :: "qnn_env \<Rightarrow> string \<Rightarrow> int \<Rightarrow> qnn_log \<Rightarrow> QnnLoadedBackendContainer \<times> qnn_log" where
  "load_library_for env dir backendChoice l =
     (let (b, l1) = loadQnnBackendSharedLibrary env (dir @ library_name backendChoice) l
      in if librarySharedObjectHandle b = None \<or> interfaceProviderTable b = None
         then loadQnnBackendSharedLibrary env (''/data/local/tmp'' @ library_name backendChoice) l1
         else (b, l1))"

definition create_handles :: "qnn_env \<Rightarrow> nat \<Rightarrow> engine \<Rightarrow> engine" where
  "create_handles env qnn e =
     (let (lg, l1) = (if qe_has env qnn ''logCreate''
                      then (let (r, l) = qcall env LogCreate (qlog e) in (r_handle r, l))
                      else (logHandle e, qlog e));
          (rb, l2) = qcall env (BackendCreate lg) l1;
          (dev, l3) = (if qe_has env qnn ''deviceCreate''
                       then (let (r, l) = qcall env DeviceCreate l2 in (r_handle r, l))
                       else (deviceHandle e, l2))
      in e\<lparr>logHandle := lg, backendHandle := r_handle rb, deviceHandle := dev, qlog := l3\<rparr>)"

definition loadBackend :: "qnn_env \<Rightarrow> int \<Rightarrow> engine \<Rightarrow> engine" where
  "loadBackend env backendChoice e =
     (if currentBackendChoice e = backendChoice \<and> backendHandle e \<noteq> None then e
      else
        let e1 = unloadActiveBackend env e;
            (b, l) = load_library_for env (project_libs_dir (penv e1)) backendChoice (qlog e1);
            e2 = e1\<lparr>currentBackendChoice := backendChoice, penv := set_library_paths (penv e1), backendContainer := b, qlog := l\<rparr>;
            e3 = (case librarySharedObjectHandle b of
                    None \<Rightarrow> e2
                  | Some lib \<Rightarrow> e2\<lparr>qnnMemRegister := qe_dlsym env lib ''QnnMem_register'',
                                   qnnMemDeRegister := qe_dlsym env lib ''QnnMem_deRegister''\<rparr>);
            e4 = (case interfaceProviderTable b of None \<Rightarrow> e3 | Some qnn \<Rightarrow> create_handles env qnn e3)
        in e4\<lparr>diagnosticsPerformed := False\<rparr>)"

text \<open>The constructor of the singleton loads the first backend.\<close>

definition engine_new :: "qnn_env \<Rightarrow> process_env \<Rightarrow> qnn_log \<Rightarrow> engine" where
  "engine_new env pe l = loadBackend env 1 (engine_init pe l)"

definition isLoaded :: "engine \<Rightarrow> bool" where
  "isLoaded e \<longleftrightarrow> backendHandle e \<noteq> None"

section \<open>The cache of graphs\<close>

definition graph_key :: "int \<Rightarrow> int \<Rightarrow> int \<Rightarrow> string" where
  "graph_key M K N = to_string M @ ''_'' @ to_string K @ ''_'' @ to_string N"

definition hasGraph :: "engine \<Rightarrow> int \<Rightarrow> int \<Rightarrow> int \<Rightarrow> bool" where
  "hasGraph e M K N \<longleftrightarrow> map_of (graphCache e) (graph_key M K N) \<noteq> None"

definition useStaticWeights :: "engine \<Rightarrow> bool" where
  "useStaticWeights e = env_is_1 (penv e) ''USE_STATIC_WEIGHTS''"

text \<open>The static weights of a graph: the caller's \<open>N * K\<close> bytes, or 127 everywhere.\<close>

definition static_weights :: "(nat \<times> u8 list) option \<Rightarrow> int \<Rightarrow> int \<Rightarrow> u8 list option" where
  "static_weights ptr N K =
     (let n = wrap_int 32 (N * K)
      in if n < 0 then None
         else case ptr of
                Some (a, ws) \<Rightarrow> if nat n \<le> length ws then Some (take (nat n) ws) else None
              | None \<Rightarrow> Some (replicate (nat n) 127))"

text \<open>
  The tensors of a graph over its three pairs of dimensions; the weights are static or written at run
  time. There are as many biases as rows of the weights, all zero.
\<close>

definition fc_graph :: "u32 list \<Rightarrow> u32 list \<Rightarrow> u32 list \<Rightarrow> u8 list option \<Rightarrow> handle \<Rightarrow> handle \<Rightarrow> QnnCachedGraph" where
  "fc_graph dA dB dC weights context graph =
     (let dBias = [dB ! 0]; bias = replicate (nat (sint (dB ! 0))) 0
      in \<lparr>isValid = False, graphHandle = graph, contextHandle = context,
          tensorA = qnn_tensor 0 ''A'' QNN_TENSOR_TYPE_APP_WRITE True QNN_DATATYPE_UFIXED_POINT_16 dA NoData 0 (Some 127),
          tensorB = (case weights of
                       None \<Rightarrow> qnn_tensor 1 ''B'' QNN_TENSOR_TYPE_APP_WRITE True QNN_DATATYPE_UFIXED_POINT_8 dB NoData 0 (Some 127)
                     | Some ws \<Rightarrow> qnn_tensor 1 ''B'' QNN_TENSOR_TYPE_STATIC True QNN_DATATYPE_UFIXED_POINT_8 dB (Bytes ws)
                                    (dB ! 0 * dB ! 1) (Some 127)),
          tensorC = qnn_tensor 2 ''C'' QNN_TENSOR_TYPE_APP_READ True QNN_DATATYPE_UFIXED_POINT_16 dC NoData 0 (Some 32768),
          tensorBias = qnn_tensor 3 ''bias'' QNN_TENSOR_TYPE_STATIC True QNN_DATATYPE_SFIXED_POINT_32 dBias (Ints bias)
                         (dB ! 0 * 4) (Some 0),
          dimsA = dA, dimsB = dB, dimsC = dC, dimsBias = dBias, biasData = bias,
          staticWeights = (case weights of None \<Rightarrow> [] | Some ws \<Rightarrow> ws)\<rparr>)"

text \<open>Registering the four tensors and the node: the statuses are only reported.\<close>

definition add_fc_node :: "qnn_env \<Rightarrow> string \<Rightarrow> QnnCachedGraph \<Rightarrow> qnn_log \<Rightarrow> QnnCachedGraph \<times> qnn_log" where
  "add_fc_node env name g l0 =
     (let gh = graphHandle g;
          (tA, l1) = create_tensor env gh (tensorA g) l0;
          (tB, l2) = create_tensor env gh (tensorB g) l1;
          (tC, l3) = create_tensor env gh (tensorC g) l2;
          (tBias, l4) = create_tensor env gh (tensorBias g) l3;
          l5 = qdo env (GraphAddNode gh (fully_connected name [tA, tB, tBias] [tC])) l4
      in (g\<lparr>tensorA := tA, tensorB := tB, tensorC := tC, tensorBias := tBias\<rparr>, l5))"

text \<open>The key under which a request is cached.\<close>

definition request_key :: "engine \<Rightarrow> int \<Rightarrow> int \<Rightarrow> int \<Rightarrow> (nat \<times> u8 list) option \<Rightarrow> string" where
  "request_key e M K N staticWeightsPtr = graph_key M K N @ (case staticWeightsPtr of
     Some (a, ws) \<Rightarrow> if useStaticWeights e then ''_'' @ to_string (int a) else [] | None \<Rightarrow> [])"

text \<open>A context, a graph with its node, and its compilation.\<close>

definition build_graph ::
  "qnn_env \<Rightarrow> string \<Rightarrow> handle \<times> handle \<Rightarrow> u32 list \<Rightarrow> u32 list \<Rightarrow> u32 list \<Rightarrow> u8 list option \<Rightarrow> qnn_log
    \<Rightarrow> u32 \<times> QnnCachedGraph \<times> qnn_log" where
  "build_graph env name handles dA dB dC weights l0 =
     (let (rc, l1) = qcall env (ContextCreate (fst handles) (snd handles)) l0;
          (rg, l2) = qcall env (GraphCreate (r_handle rc) name) l1;
          (g, l3) = add_fc_node env ''fc_op'' (fc_graph dA dB dC weights (r_handle rc) (r_handle rg)) l2;
          (rf, l4) = qcall env (GraphFinalize (graphHandle g)) l3
      in (r_status rf, g, l4))"

text \<open>A new entry; a graph that does not compile leaves its entry in the cache, marked invalid.\<close>

definition create_graph ::
  "qnn_env \<Rightarrow> string \<Rightarrow> int \<Rightarrow> int \<Rightarrow> int \<Rightarrow> u8 list option \<Rightarrow> engine \<Rightarrow> graph_ref \<times> engine" where
  "create_graph env key M K N weights e =
     (let (status, g, l) = build_graph env ''fc_graph'' (backendHandle e, deviceHandle e)
                             [word_of_int M, word_of_int K] [word_of_int N, word_of_int K] [word_of_int M, word_of_int N]
                             weights (qlog e)
      in if status \<noteq> 0
         then (Dummy, e\<lparr>graphCache := (key, g) # graphCache e, qlog := qdo env (ContextFree (contextHandle g)) l,
                        dummyInvalid := (dummyInvalid e)\<lparr>isValid := False\<rparr>\<rparr>)
         else (Cached key, e\<lparr>graphCache := (key, g\<lparr>isValid := True\<rparr>) # graphCache e, qlog := l\<rparr>))"

definition getOrCreateGraph ::
  "qnn_env \<Rightarrow> int \<Rightarrow> int \<Rightarrow> int \<Rightarrow> (nat \<times> u8 list) option \<Rightarrow> engine \<Rightarrow> (graph_ref \<times> engine) option" where
  "getOrCreateGraph env M K N staticWeightsPtr e =
     (let key = request_key e M K N staticWeightsPtr
      in if map_of (graphCache e) key \<noteq> None then Some (Cached key, e)
         else if interfaceProviderTable (backendContainer e) = None \<or> N < 0 then None
         else map_option (\<lambda>weights. create_graph env key M K N weights e)
                (if useStaticWeights e then map_option Some (static_weights staticWeightsPtr N K) else Some None))"

section \<open>Execution\<close>

text \<open>
  A raw buffer attached to a tensor. The buffer and the memory handle of a tensor share a union, so a
  tensor that holds a handle has no defined buffer any more.
\<close>

definition set_client_buf :: "Qnn_Tensor \<Rightarrow> client_data \<Rightarrow> u32 list \<Rightarrow> Qnn_Tensor option" where
  "set_client_buf t dat dims =
     (if t_memHandle t = None then Some (t\<lparr>t_data := dat, t_dataSize := dims ! 0 * dims ! 1 * getDataTypeSize (t_dataType t)\<rparr>)
      else None)"

text \<open>What the library writes to an output buffer; it must fit.\<close>

definition write_output :: "u16 list \<Rightarrow> qnn_resp \<Rightarrow> u16 list option" where
  "write_output buf r = (if length (r_out r) \<le> length buf then Some (r_out r @ drop (length (r_out r)) buf) else None)"

text \<open>With static weights each execution compiles a graph of its own around the weights it is given.\<close>

definition execute_static ::
  "qnn_env \<Rightarrow> QnnCachedGraph \<Rightarrow> client_data \<Rightarrow> u8 list \<Rightarrow> u16 list \<Rightarrow> engine \<Rightarrow> (u16 list \<times> engine) option" where
  "execute_static env graph inputA inputB outputC e =
     (let N = sint (dimsB graph ! 0); K = sint (dimsB graph ! 1)
      in if N < 0 then None
         else
           Option.bind (static_weights (Some (0, inputB)) N K) (\<lambda>weights.
             let (status, g, l4) = build_graph env ''fc_temp_graph'' (backendHandle e, deviceHandle e)
                                     (dimsA graph) (dimsB graph) (dimsC graph) (Some weights) (qlog e)
             in Option.bind (set_client_buf (tensorA g) inputA (dimsA g)) (\<lambda>tA.
                Option.bind (set_client_buf (tensorC g) (Halves outputC) (dimsC g)) (\<lambda>tC.
                  let (rx, l5) = qcall env (GraphExecute (graphHandle g) [tA] tC) l4
                  in map_option (\<lambda>out. (out, e\<lparr>qlog := qdo env (ContextFree (contextHandle g)) l5\<rparr>)) (write_output outputC rx)))))"

definition execute ::
  "qnn_env \<Rightarrow> graph_ref \<Rightarrow> client_data \<Rightarrow> u8 list \<Rightarrow> u16 list \<Rightarrow> engine \<Rightarrow> (u16 list \<times> engine) option" where
  "execute env ref inputA inputB outputC e =
     (case interfaceProviderTable (backendContainer e) of
        None \<Rightarrow> None
      | Some qnn \<Rightarrow>
          Option.bind (get_graph e ref) (\<lambda>graph.
            if useStaticWeights e then execute_static env graph inputA inputB outputC e
            else
              Option.bind (set_client_buf (tensorA graph) inputA (dimsA graph)) (\<lambda>tA.
              Option.bind (set_client_buf (tensorB graph) (Bytes inputB) (dimsB graph)) (\<lambda>tB.
              Option.bind (set_client_buf (tensorC graph) (Halves outputC) (dimsC graph)) (\<lambda>tC.
                let e1 = set_graph e ref (graph\<lparr>tensorA := tA, tensorB := tB, tensorC := tC\<rparr>);
                    (rx, l) = qcall env (GraphExecute (graphHandle graph) [tA, tB] tC) (qlog e1)
                in map_option (\<lambda>out. (out, e1\<lparr>qlog := l\<rparr>)) (write_output outputC rx))))))"

definition set_mem_handle :: "handle \<Rightarrow> Qnn_Tensor \<Rightarrow> Qnn_Tensor" where
  "set_mem_handle mem t = (case mem of None \<Rightarrow> t | Some m \<Rightarrow> t\<lparr>t_memHandle := Some m, t_data := NoData\<rparr>)"

definition executeWithHandles :: "qnn_env \<Rightarrow> graph_ref \<Rightarrow> handle \<Rightarrow> handle \<Rightarrow> handle \<Rightarrow> engine \<Rightarrow> engine option" where
  "executeWithHandles env ref memA memB memC e =
     (case interfaceProviderTable (backendContainer e) of
        None \<Rightarrow> None
      | Some qnn \<Rightarrow>
          Option.bind (get_graph e ref) (\<lambda>graph.
            let static = useStaticWeights e;
                tA = set_mem_handle memA (tensorA graph);
                tB = (if static then tensorB graph else set_mem_handle memB (tensorB graph));
                tC = set_mem_handle memC (tensorC graph);
                e1 = set_graph e ref (graph\<lparr>tensorA := tA, tensorB := tB, tensorC := tC\<rparr>)
            in Some (e1\<lparr>qlog := qdo env (GraphExecute (graphHandle graph) (if static then [tA] else [tA, tB]) tC) (qlog e1)\<rparr>)))"

section \<open>Memory registration, power and diagnostics\<close>

definition registerIonMemory :: "qnn_env \<Rightarrow> handle \<Rightarrow> int \<Rightarrow> u32 list \<Rightarrow> Qnn_DataType \<Rightarrow> engine \<Rightarrow> handle \<times> engine" where
  "registerIonMemory env context fd dims dataType e =
     (if \<not> qnnMemRegister e \<or> context = None then (None, e)
      else let (r, l) = qcall env (MemRegister context fd dims dataType) (qlog e)
           in (if r_status r \<noteq> 0 then None else r_handle r, e\<lparr>qlog := l\<rparr>))"

definition deregisterMemory :: "qnn_env \<Rightarrow> handle \<Rightarrow> engine \<Rightarrow> engine" where
  "deregisterMemory env memHandle e =
     (case memHandle of
        None \<Rightarrow> e
      | Some m \<Rightarrow> if qnnMemDeRegister e then e\<lparr>qlog := qdo env (MemDeRegister m) (qlog e)\<rparr> else e)"

text \<open>The power mode is asked for and not set: only the infrastructure is looked up.\<close>

definition setPowerMode :: "qnn_env \<Rightarrow> int \<Rightarrow> engine \<Rightarrow> engine option" where
  "setPowerMode env powerMode e =
     (if \<not> isLoaded e then Some e
      else if currentBackendChoice e \<noteq> 1 \<and> currentBackendChoice e \<noteq> 7 then Some e
      else case interfaceProviderTable (backendContainer e) of
             None \<Rightarrow> None
           | Some qnn \<Rightarrow>
               if \<not> qe_has env qnn ''deviceGetInfrastructure'' then Some e
               else Some (e\<lparr>qlog := qdo env DeviceGetInfrastructure (qlog e)\<rparr>))"

text \<open>The node validated by the diagnostics; the data format of the first tensor stays unset.\<close>

definition validate_op :: Qnn_OpConfig where
  "validate_op = fully_connected ''fc''
     [qnn_tensor 0 ''A'' QNN_TENSOR_TYPE_APP_WRITE False QNN_DATATYPE_UFIXED_POINT_16 [4, 4] NoData 0 (Some 127),
      qnn_tensor 1 ''B'' QNN_TENSOR_TYPE_APP_WRITE True QNN_DATATYPE_UFIXED_POINT_8 [4, 4] NoData 0 (Some 127),
      qnn_tensor 3 ''bias'' QNN_TENSOR_TYPE_STATIC True QNN_DATATYPE_SFIXED_POINT_32 [4] (Ints [0, 0, 0, 0]) 16 (Some 0)]
     [qnn_tensor 2 ''C'' QNN_TENSOR_TYPE_APP_READ True QNN_DATATYPE_UFIXED_POINT_16 [4, 4] NoData 0 (Some 32768)]"

definition validateOpSupport :: "qnn_env \<Rightarrow> engine \<Rightarrow> (u32 \<times> engine) option" where
  "validateOpSupport env e =
     (case interfaceProviderTable (backendContainer e) of
        None \<Rightarrow> None
      | Some qnn \<Rightarrow>
          if \<not> qe_has env qnn ''backendValidateOpConfig'' then Some (0xFFFFFFFF, e)
          else let (r, l) = qcall env (BackendValidateOpConfig (backendHandle e) validate_op) (qlog e)
               in Some (r_status r, e\<lparr>qlog := l\<rparr>))"

definition performDiagnosticsIfNeeded :: "qnn_env \<Rightarrow> engine \<Rightarrow> engine option" where
  "performDiagnosticsIfNeeded env e =
     (if diagnosticsPerformed e \<or> \<not> isLoaded e then Some e
      else let e1 = e\<lparr>diagnosticsPerformed := True\<rparr>
           in if env_is_1 (penv e1) ''NPUBLAS_QUIET'' then Some e1
              else map_option snd (validateOpSupport env e1))"

end
