(* ===== verification/EngineProps.thy ===== *)
theory EngineProps
  imports Engine
begin

text \<open>
  Properties of the engine: the cache of graphs, its keys, and the handles it owns. The states the
  engine can be in are those reachable by its public operations from the constructor.
\<close>

section \<open>Ownership of handles\<close>

definition holds :: "handle \<Rightarrow> nat \<Rightarrow> nat" where
  "holds x h = (if x = Some h then 1 else 0)"

fun owned :: "resource \<Rightarrow> engine \<Rightarrow> nat \<Rightarrow> nat" where
  "owned Library e h = holds (librarySharedObjectHandle (backendContainer e)) h"
| "owned Log e h = holds (logHandle e) h"
| "owned Backend e h = holds (backendHandle e) h"
| "owned Device e h = holds (deviceHandle e) h"
| "owned Context e h = (\<Sum>(k, g)\<leftarrow>graphCache e. holds (contextHandle g) h)"

text \<open>Every graph of the log was compiled.\<close>

definition finalized_all :: "qnn_log \<Rightarrow> bool" where
  "finalized_all l \<longleftrightarrow> (\<forall>(c, r) \<in> set l. \<forall>g. c = GraphFinalize g \<longrightarrow> r_status r = 0)"

lemma finalized_all_simps [simp]:
  "finalized_all []"
  "finalized_all ((c, r) # l) \<longleftrightarrow> (\<forall>g. c = GraphFinalize g \<longrightarrow> r_status r = 0) \<and> finalized_all l"
  by (auto simp: finalized_all_def)

text \<open>The library offers a function to give back each kind of handle.\<close>

definition qnn_complete :: "qnn_env \<Rightarrow> bool" where
  "qnn_complete env \<longleftrightarrow> (\<forall>q. qe_has env q ''deviceFree'' \<and> qe_has env q ''logFree'')"

text \<open>The state of an engine with no backend: nothing is held.\<close>

definition idle :: "engine \<Rightarrow> bool" where
  "idle e \<longleftrightarrow> librarySharedObjectHandle (backendContainer e) = None \<and> graphCache e = [] \<and> deviceHandle e = None
     \<and> backendHandle e = None \<and> logHandle e = None"

definition balanced :: "engine \<Rightarrow> bool" where
  "balanced e \<longleftrightarrow> (\<forall>k h. balance k h (qlog e) = int (owned k e h))"

definition eng_inv :: "engine \<Rightarrow> bool" where
  "eng_inv e \<longleftrightarrow> distinct (map fst (graphCache e))
     \<and> (librarySharedObjectHandle (backendContainer e) = None \<longleftrightarrow> interfaceProviderTable (backendContainer e) = None)
     \<and> (interfaceProviderTable (backendContainer e) = None \<longrightarrow> idle e)
     \<and> (finalized_all (qlog e) \<longrightarrow> balanced e)"

lemma idle_owned: "idle e \<Longrightarrow> owned k e h = 0"
  by (cases k) (auto simp: idle_def holds_def)

lemma balancedI:
  assumes "\<And>k h. balance k h (qlog e) = int (owned k e h)"
  shows "balanced e"
  using assms by (simp add: balanced_def)

text \<open>What the invariant depends on.\<close>

definition contexts :: "engine \<Rightarrow> (string \<times> handle) list" where
  "contexts e = map (\<lambda>(k, g). (k, contextHandle g)) (graphCache e)"

definition eng_view :: "engine \<Rightarrow> QnnLoadedBackendContainer \<times> handle \<times> handle \<times> handle \<times> (string \<times> handle) list" where
  "eng_view e = (backendContainer e, backendHandle e, deviceHandle e, logHandle e, contexts e)"

lemma owned_context: "owned Context e h = (\<Sum>(k, c)\<leftarrow>contexts e. holds c h)"
  by (simp add: contexts_def case_prod_unfold comp_def)

lemma keys_contexts: "map fst (graphCache e) = map fst (contexts e)"
  by (simp add: contexts_def case_prod_unfold comp_def)

lemma owned_view: "eng_view e' = eng_view e \<Longrightarrow> owned k e' h = owned k e h"
  by (cases k) (simp_all add: eng_view_def owned_context del: owned.simps(5))

lemma keys_view: "eng_view e' = eng_view e \<Longrightarrow> map fst (graphCache e') = map fst (graphCache e)"
  by (simp add: eng_view_def keys_contexts)

lemma eng_inv_cong:
  assumes "eng_inv e" "eng_view e' = eng_view e" "finalized_all (qlog e') \<Longrightarrow> finalized_all (qlog e)"
    and "\<And>k h. balance k h (qlog e') = balance k h (qlog e)"
  shows "eng_inv e'"
proof -
  have "graphCache e' = [] \<longleftrightarrow> graphCache e = []" using keys_view [OF assms(2)] by (metis map_is_Nil_conv)
  then have "idle e' = idle e" "backendContainer e' = backendContainer e" using assms(2) by (auto simp: idle_def eng_view_def)
  then show ?thesis using assms owned_view [OF assms(2)] keys_view [OF assms(2)] by (auto simp: eng_inv_def balanced_def)
qed

section \<open>Calls that create and release nothing\<close>

fun neutral :: "qnn_call \<Rightarrow> bool" where
  "neutral (DlOpen p) = False" | "neutral (DlClose h) = False"
| "neutral LogCreate = False" | "neutral (LogFree h) = False"
| "neutral (BackendCreate h) = False" | "neutral (BackendFree h) = False"
| "neutral DeviceCreate = False" | "neutral (DeviceFree h) = False"
| "neutral (ContextCreate b d) = False" | "neutral (ContextFree h) = False"
| "neutral (GraphFinalize g) = False"
| "neutral _ = True"

lemma neutral_call:
  assumes "neutral c"
  shows "creates c = None" "releases c = None" "c \<noteq> GraphFinalize g"
  using assms by (cases c; simp)+

lemma balance_neutral [simp]: "neutral c \<Longrightarrow> balance k h ((c, r) # l) = balance k h l"
  by (simp add: neutral_call)

lemma finalized_neutral [simp]: "neutral c \<Longrightarrow> finalized_all ((c, r) # l) \<longleftrightarrow> finalized_all l"
  by (auto simp: neutral_call(3))

lemma balance_finalize [simp]: "balance k h ((GraphFinalize g, r) # l) = balance k h l"
  by simp

declare balance_simps(2) [simp del]

lemma count_handle_list: "count_list (handle_list x) h = holds x h"
  by (cases x) (simp_all add: holds_def)

lemma balance_handle:
  "balance k h ((ContextCreate b d, r) # l) = balance k h l + (if k = Context then int (holds (r_handle r) h) else 0)"
  "balance k h ((ContextFree c, r) # l) = balance k h l - (if k = Context then int (holds c h) else 0)"
  "balance k h ((LogCreate, r) # l) = balance k h l + (if k = Log then int (holds (r_handle r) h) else 0)"
  "balance k h ((LogFree x, r) # l) = balance k h l - (if k = Log then int (holds (Some x) h) else 0)"
  "balance k h ((BackendCreate lg, r) # l) = balance k h l + (if k = Backend then int (holds (r_handle r) h) else 0)"
  "balance k h ((BackendFree c, r) # l) = balance k h l - (if k = Backend then int (holds c h) else 0)"
  "balance k h ((DeviceCreate, r) # l) = balance k h l + (if k = Device then int (holds (r_handle r) h) else 0)"
  "balance k h ((DeviceFree x, r) # l) = balance k h l - (if k = Device then int (holds (Some x) h) else 0)"
  "balance k h ((DlOpen p, r) # l) = balance k h l + (if k = Library then int (holds (r_handle r) h) else 0)"
  "balance k h ((DlClose x, r) # l) = balance k h l - (if k = Library then int (holds (Some x) h) else 0)"
  by (cases k; simp add: balance_simps(2) count_handle_list del: handle_list_simps)+

section \<open>Unloading\<close>

lemma balance_free_contexts:
  "balance k h (fold (\<lambda>(n, g) l. qdo env (ContextFree (contextHandle g)) l) gs l)
     = balance k h l - (if k = Context then int (\<Sum>(n, g)\<leftarrow>gs. holds (contextHandle g) h) else 0)"
proof (induction gs arbitrary: l)
  case (Cons x gs)
  show ?case unfolding fold_simps Cons.IH by (cases x) (simp add: qdo_eq balance_handle)
qed simp

lemma finalized_free_contexts:
  "finalized_all (fold (\<lambda>(n, g) l. qdo env (ContextFree (contextHandle g)) l) gs l) = finalized_all l"
proof (induction gs arbitrary: l)
  case (Cons x gs)
  show ?case unfolding fold_simps Cons.IH by (cases x) (simp add: qdo_eq)
qed simp

lemma free_handle_eq:
  assumes "present"
  shows "fst (free_handle env h present call l) = None"
    "snd (free_handle env h present call l) = (case h of Some x \<Rightarrow> qdo env (call x) l | None \<Rightarrow> l)"
  using assms by (simp_all add: free_handle_def split: option.splits)

lemma unload_library:
  "unloadQnnBackendSharedLibrary env b l = (b', l') \<Longrightarrow>
     librarySharedObjectHandle b' = None \<and> (interfaceProviderTable b' = None \<or> b' = b)
     \<and> finalized_all l' = finalized_all l
     \<and> balance k h l' = balance k h l - (if k = Library then int (holds (librarySharedObjectHandle b) h) else 0)"
  by (auto simp: unloadQnnBackendSharedLibrary_def qdo_eq no_backend_def balance_handle holds_def split: option.splits)

text \<open>Giving back the handles of a loaded engine, library apart.\<close>

lemma free_handles_balance:
  assumes "qnn_complete env" "interfaceProviderTable (backendContainer e) = Some qnn"
  defines "l1 \<equiv> fold (\<lambda>(k, g) l. qdo env (ContextFree (contextHandle g)) l) (graphCache e) (qlog e)"
  defines "l2 \<equiv> snd (free_handle env (deviceHandle e) (qe_has env qnn ''deviceFree'') DeviceFree l1)"
  defines "l3 \<equiv> snd (free_handle env (backendHandle e) True (\<lambda>x. BackendFree (Some x)) l2)"
  defines "l4 \<equiv> snd (free_handle env (logHandle e) (qe_has env qnn ''logFree'') LogFree l3)"
  shows "balance k h l4 = balance k h (qlog e) - (if k = Library then 0 else int (owned k e h))"
    and "finalized_all l4 = finalized_all (qlog e)"
proof -
  have q: "qe_has env qnn ''deviceFree''" "qe_has env qnn ''logFree''" using assms(1) by (simp_all add: qnn_complete_def)
  have "balance k h l1 = balance k h (qlog e) - (if k = Context then int (owned k e h) else 0)"
    unfolding l1_def balance_free_contexts by simp
  moreover have "balance k h l2 = balance k h l1 - (if k = Device then int (owned k e h) else 0)"
    unfolding l2_def free_handle_eq(2) [OF q(1)] by (auto simp: qdo_eq balance_handle holds_def split: option.splits)
  moreover have "balance k h l3 = balance k h l2 - (if k = Backend then int (owned k e h) else 0)"
    unfolding l3_def free_handle_eq(2) [OF TrueI] by (auto simp: qdo_eq balance_handle holds_def split: option.splits)
  moreover have "balance k h l4 = balance k h l3 - (if k = Log then int (owned k e h) else 0)"
    unfolding l4_def free_handle_eq(2) [OF q(2)] by (auto simp: qdo_eq balance_handle holds_def split: option.splits)
  ultimately show "balance k h l4 = balance k h (qlog e) - (if k = Library then 0 else int (owned k e h))"
    by (cases k) simp_all
  show "finalized_all l4 = finalized_all (qlog e)"
    unfolding l4_def l3_def l2_def l1_def free_handle_eq(2) [OF q(1)] free_handle_eq(2) [OF q(2)] free_handle_eq(2) [OF TrueI]
    by (auto simp: qdo_eq finalized_free_contexts split: option.splits)
qed

lemma unload_engine:
  assumes "eng_inv e" "qnn_complete env"
  defines "e' \<equiv> unloadActiveBackend env e"
  shows "idle e' \<and> interfaceProviderTable (backendContainer e') = None \<and> finalized_all (qlog e') = finalized_all (qlog e)
    \<and> balance k h (qlog e') = balance k h (qlog e) - int (owned k e h)"
proof (cases "interfaceProviderTable (backendContainer e)")
  case None
  then have i: "idle e" using assms(1) by (simp add: eng_inv_def)
  then have "unloadQnnBackendSharedLibrary env (backendContainer e) (qlog e) = (backendContainer e, qlog e)"
    by (simp add: unloadQnnBackendSharedLibrary_def idle_def)
  then have "e' = e\<lparr>qnnMemRegister := False, qnnMemDeRegister := False\<rparr>"
    unfolding e'_def unloadActiveBackend_def None by simp
  then show ?thesis using i None idle_owned [OF i, of k h] by (simp add: idle_def)
next
  case (Some qnn)
  obtain b l where u: "unloadQnnBackendSharedLibrary env (backendContainer e)
      (snd (free_handle env (logHandle e) (qe_has env qnn ''logFree'') LogFree
        (snd (free_handle env (backendHandle e) True (\<lambda>x. BackendFree (Some x))
          (snd (free_handle env (deviceHandle e) (qe_has env qnn ''deviceFree'') DeviceFree
             (fold (\<lambda>(k, g) l. qdo env (ContextFree (contextHandle g)) l) (graphCache e) (qlog e)))))))) = (b, l)"
    by (rule prod.exhaust)
  have q: "qe_has env qnn ''deviceFree''" "qe_has env qnn ''logFree''" using assms(2) by (simp_all add: qnn_complete_def)
  have e': "e' = e\<lparr>graphCache := [], deviceHandle := None, backendHandle := None, logHandle := None, backendContainer := b,
      qlog := l, qnnMemRegister := False, qnnMemDeRegister := False\<rparr>"
    using u unfolding e'_def unloadActiveBackend_def Some
    by (simp add: split_beta Let_def free_handle_eq(1) [OF q(1)] free_handle_eq(1) [OF q(2)] free_handle_eq(1) [OF TrueI])
  note ul = unload_library [OF u, of k h]
  have "librarySharedObjectHandle (backendContainer e) \<noteq> None" using assms(1) Some by (simp add: eng_inv_def)
  then have "interfaceProviderTable b = None" using ul by auto
  then show ?thesis using ul unfolding e' free_handles_balance [OF assms(2) Some] by (cases k) (simp_all add: idle_def)
qed

lemma unload_inv:
  assumes "eng_inv e" "qnn_complete env"
  shows "eng_inv (unloadActiveBackend env e)"
  using unload_engine [OF assms] assms(1) idle_owned [of "unloadActiveBackend env e"]
  by (auto simp: eng_inv_def balanced_def idle_def)

section \<open>Loading\<close>

lemma load_library:
  "loadQnnBackendSharedLibrary env p l = (b, l') \<Longrightarrow>
     (librarySharedObjectHandle b = None \<longleftrightarrow> interfaceProviderTable b = None) \<and> finalized_all l' = finalized_all l
     \<and> balance k h l' = balance k h l + (if k = Library then int (holds (librarySharedObjectHandle b) h) else 0)"
  by (auto simp: loadQnnBackendSharedLibrary_def q_simps Let_def no_backend_def balance_handle holds_def
      split: option.splits if_splits)

lemma load_library_for_spec:
  "load_library_for env dir c l = (b, l') \<Longrightarrow>
     (librarySharedObjectHandle b = None \<longleftrightarrow> interfaceProviderTable b = None) \<and> finalized_all l' = finalized_all l
     \<and> balance k h l' = balance k h l + (if k = Library then int (holds (librarySharedObjectHandle b) h) else 0)"
  unfolding load_library_for_def Let_def
  by (cases "loadQnnBackendSharedLibrary env (dir @ library_name c) l")
     (force dest: load_library [where k = k and h = h] simp: holds_def split: if_splits)

lemma create_handles_spec:
  assumes "deviceHandle e = None" "logHandle e = None" "backendHandle e = None" "create_handles env qnn e = e'"
  shows "finalized_all (qlog e') = finalized_all (qlog e)
    \<and> balance k h (qlog e') = balance k h (qlog e) + (if k \<in> {Log, Backend, Device} then int (owned k e' h) else 0)
    \<and> graphCache e' = graphCache e \<and> backendContainer e' = backendContainer e"
  unfolding assms(4) [symmetric] create_handles_def Let_def qcall_eq prod.case if_distrib [of fst]
  by (cases "qe_has env qnn ''logCreate''"; cases "qe_has env qnn ''deviceCreate''"; cases k)
     (simp_all add: balance_handle assms(1-3) holds_def)

lemma load_inv:
  assumes "eng_inv e" "qnn_complete env"
  shows "eng_inv (loadBackend env c e)"
proof (cases "currentBackendChoice e = c \<and> backendHandle e \<noteq> None")
  case True
  then show ?thesis using assms(1) by (simp add: loadBackend_def)
next
  case False
  define e1 where "e1 = unloadActiveBackend env e"
  obtain b l where ll: "load_library_for env (project_libs_dir (penv e1)) c (qlog e1) = (b, l)" by (rule prod.exhaust)
  let ?e2 = "e1\<lparr>currentBackendChoice := c, penv := set_library_paths (penv e1), backendContainer := b, qlog := l\<rparr>"
  note un = unload_engine [OF assms, folded e1_def] and lf = load_library_for_spec [OF ll]
  note ld = loadBackend_def [of env c e, unfolded if_not_P [OF False] Let_def e1_def [symmetric] ll prod.case]
  show ?thesis
  proof (cases "interfaceProviderTable b")
    case None
    then have n: "librarySharedObjectHandle b = None" using lf by blast
    then have i: "idle ?e2" using un by (simp add: idle_def)
    have "balanced ?e2" if "finalized_all l"
    proof (rule balancedI)
      fix k h
      have "finalized_all (qlog e)" using that un lf by simp
      then have "balanced e" using assms(1) by (simp add: eng_inv_def)
      then have "balance k h (qlog e1) = 0" using un [of k h] by (simp add: balanced_def)
      then show "balance k h (qlog ?e2) = int (owned k ?e2 h)"
        using lf [of k h] unfolding idle_owned [OF i] n by (simp add: holds_def)
    qed
    then have "eng_inv ?e2" using i n None by (simp add: eng_inv_def idle_def)
    moreover have "loadBackend env c e = ?e2\<lparr>diagnosticsPerformed := False\<rparr>" unfolding ld n None by simp
    moreover have "eng_inv ?e2 \<Longrightarrow> eng_inv (?e2\<lparr>diagnosticsPerformed := False\<rparr>)"
      by (erule eng_inv_cong) (simp_all add: eng_view_def contexts_def)
    ultimately show ?thesis by (simp only:)
  next
    case (Some qnn)
    then obtain lib where lib: "librarySharedObjectHandle b = Some lib" using lf by fastforce
    let ?e3 = "?e2\<lparr>qnnMemRegister := qe_dlsym env lib ''QnnMem_register'', qnnMemDeRegister := qe_dlsym env lib ''QnnMem_deRegister''\<rparr>"
    define e4 where "e4 = create_handles env qnn ?e3"
    have h: "deviceHandle ?e3 = None" "logHandle ?e3 = None" "backendHandle ?e3 = None" "graphCache ?e3 = []"
      "backendContainer ?e3 = b" "qlog ?e3 = l"
      using un by (simp_all add: idle_def)
    note ch = create_handles_spec [OF h(1-3) e4_def [symmetric], unfolded h(4-6)]
    have "balanced e4" if "finalized_all (qlog e4)"
    proof (rule balancedI)
      fix k h
      have "finalized_all (qlog e)" using that un lf ch by simp
      then have "balanced e" using assms(1) by (simp add: eng_inv_def)
      then have "balance k h (qlog e1) = 0" using un [of k h] by (simp add: balanced_def)
      then show "balance k h (qlog e4) = int (owned k e4 h)"
        using lf [of k h] ch [of k h] by (cases k) simp_all
    qed
    then have "eng_inv e4" using ch lib Some by (simp add: eng_inv_def)
    moreover have "loadBackend env c e = e4\<lparr>diagnosticsPerformed := False\<rparr>" unfolding ld lib Some e4_def by simp
    moreover have "eng_inv e4 \<Longrightarrow> eng_inv (e4\<lparr>diagnosticsPerformed := False\<rparr>)"
      by (erule eng_inv_cong) (simp_all add: eng_view_def contexts_def)
    ultimately show ?thesis by (simp only:)
  qed
qed

section \<open>Creating and executing graphs\<close>

lemma add_fc_node_spec:
  assumes "add_fc_node env n g l = (g', l')"
  shows "finalized_all l' = finalized_all l" "balance k h l' = balance k h l" "contextHandle g' = contextHandle g"
    "graphHandle g' = graphHandle g" "dimsA g' = dimsA g" "dimsB g' = dimsB g" "dimsC g' = dimsC g" "isValid g' = isValid g"
    "\<exists>i. tensorA g' = (tensorA g)\<lparr>t_id := i\<rparr>" "\<exists>i. tensorB g' = (tensorB g)\<lparr>t_id := i\<rparr>"
    "\<exists>i. tensorC g' = (tensorC g)\<lparr>t_id := i\<rparr>" "\<exists>i. tensorBias g' = (tensorBias g)\<lparr>t_id := i\<rparr>"
  using assms unfolding add_fc_node_def Let_def snd_create_tensor prod.case qdo_eq by auto

lemma contexts_update:
  assumes "map_of al k = Some g" "contextHandle g' = contextHandle g"
  shows "map (\<lambda>(k, g). (k, contextHandle g)) (AList.update k g' al) = map (\<lambda>(k, g). (k, contextHandle g)) al"
  using assms by (induction al) (auto split: if_splits)

lemma set_graph_view:
  assumes "get_graph e ref = Some g" "contextHandle g' = contextHandle g"
  shows "eng_view (set_graph e ref g') = eng_view e" "qlog (set_graph e ref g') = qlog e"
    "backendContainer (set_graph e ref g') = backendContainer e" "penv (set_graph e ref g') = penv e"
  using assms contexts_update [of "graphCache e"]
  by (auto simp: get_graph_def set_graph_def eng_view_def contexts_def split: graph_ref.splits)

lemma eng_view_qlog [simp]: "eng_view (e\<lparr>qlog := l\<rparr>) = eng_view e"
  by (simp add: eng_view_def contexts_def)

lemma build_graph_spec:
  assumes "build_graph env n hs dA dB dC ws l = (status, g, l')"
  shows "balance k h l' = balance k h l + (if k = Context then int (holds (contextHandle g) h) else 0)"
    "finalized_all l' \<longleftrightarrow> status = 0 \<and> finalized_all l" "dimsA g = dA" "dimsB g = dB" "dimsC g = dC" "\<not> isValid g"
    "\<exists>i. tensorA g = qnn_tensor i ''A'' QNN_TENSOR_TYPE_APP_WRITE True QNN_DATATYPE_UFIXED_POINT_16 dA NoData 0 (Some 127)"
    "t_memHandle (tensorB g) = None" "t_dataType (tensorB g) = QNN_DATATYPE_UFIXED_POINT_8"
    "\<exists>i. tensorC g = qnn_tensor i ''C'' QNN_TENSOR_TYPE_APP_READ True QNN_DATATYPE_UFIXED_POINT_16 dC NoData 0 (Some 32768)"
proof -
  define rc where "rc = qe_resp env l (ContextCreate (fst hs) (snd hs))"
  define l1 where "l1 = (ContextCreate (fst hs) (snd hs), rc) # l"
  define rg where "rg = qe_resp env l1 (GraphCreate (r_handle rc) n)"
  obtain g3 l3 where g: "add_fc_node env ''fc_op'' (fc_graph dA dB dC ws (r_handle rc) (r_handle rg))
      ((GraphCreate (r_handle rc) n, rg) # l1) = (g3, l3)" by (rule prod.exhaust)
  define rf where "rf = qe_resp env l3 (GraphFinalize (graphHandle g3))"
  have r: "status = r_status rf" "g3 = g" "l' = (GraphFinalize (graphHandle g3), rf) # l3"
    using assms unfolding build_graph_def Let_def qcall_eq prod.case rc_def [symmetric] l1_def [symmetric] rg_def [symmetric]
      g rf_def [symmetric] by auto
  note nd = add_fc_node_spec [OF g, unfolded r(2)]
  have c: "contextHandle g = r_handle rc" using nd(3) by (simp add: fc_graph_def Let_def)
  show "balance k h l' = balance k h l + (if k = Context then int (holds (contextHandle g) h) else 0)"
    using nd(2) [of k h] by (simp add: r(3) c l1_def balance_handle)
  show "finalized_all l' \<longleftrightarrow> status = 0 \<and> finalized_all l" using nd(1) by (auto simp: r(1,3) l1_def)
  show "dimsA g = dA" "dimsB g = dB" "dimsC g = dC" "\<not> isValid g" using nd(5-8) by (simp_all add: fc_graph_def Let_def)
  show "\<exists>i. tensorA g = qnn_tensor i ''A'' QNN_TENSOR_TYPE_APP_WRITE True QNN_DATATYPE_UFIXED_POINT_16 dA NoData 0 (Some 127)"
    "\<exists>i. tensorC g = qnn_tensor i ''C'' QNN_TENSOR_TYPE_APP_READ True QNN_DATATYPE_UFIXED_POINT_16 dC NoData 0 (Some 32768)"
    using nd(9,11) by (auto simp: fc_graph_def Let_def qnn_tensor_def)
  show "t_memHandle (tensorB g) = None" "t_dataType (tensorB g) = QNN_DATATYPE_UFIXED_POINT_8"
    using nd(10) by (auto simp: fc_graph_def Let_def qnn_tensor_def split: option.splits)
qed

text \<open>
  A call either finds the entry and makes no call of the library, or it creates one.
\<close>

lemma getOrCreateGraph_cases:
  assumes "getOrCreateGraph env M K N p e = Some (ref, e')"
  obtains
    (hit) g where "map_of (graphCache e) (request_key e M K N p) = Some g" "ref = Cached (request_key e M K N p)" "e' = e"
  | (new) weights where "map_of (graphCache e) (request_key e M K N p) = None"
      "interfaceProviderTable (backendContainer e) \<noteq> None" "0 \<le> N"
      "create_graph env (request_key e M K N p) M K N weights e = (ref, e')"
proof (cases "map_of (graphCache e) (request_key e M K N p)")
  case None
  define ws where "ws = (if useStaticWeights e then map_option Some (static_weights p N K) else Some None)"
  have "(if interfaceProviderTable (backendContainer e) = None \<or> N < 0 then None
      else map_option (\<lambda>weights. create_graph env (request_key e M K N p) M K N weights e) ws) = Some (ref, e')"
    using assms None unfolding getOrCreateGraph_def Let_def ws_def [symmetric] by simp
  then obtain w where "interfaceProviderTable (backendContainer e) \<noteq> None" "0 \<le> N"
    "create_graph env (request_key e M K N p) M K N w e = (ref, e')"
    by (cases ws) (simp_all split: if_splits)
  with None show thesis by (rule new)
next
  case (Some g)
  then have "getOrCreateGraph env M K N p e = Some (Cached (request_key e M K N p), e)" by (simp add: getOrCreateGraph_def Let_def)
  then have "Some (Cached (request_key e M K N p), e) = Some (ref, e')" using assms by (simp only:)
  then have "ref = Cached (request_key e M K N p)" "e' = e" by blast+
  with Some show thesis by (rule hit)
qed

lemma create_graph_inv:
  assumes "create_graph env key M K N ws e = (ref, e')" "eng_inv e" "map_of (graphCache e) key = None"
    and "interfaceProviderTable (backendContainer e) \<noteq> None"
  shows "eng_inv e'"
proof -
  obtain status g l where b: "build_graph env ''fc_graph'' (backendHandle e, deviceHandle e) [word_of_int M, word_of_int K]
      [word_of_int N, word_of_int K] [word_of_int M, word_of_int N] ws (qlog e) = (status, g, l)" by (rule prod_cases3)
  note bs = build_graph_spec(1,2) [OF b]
  have k: "key \<notin> fst ` set (graphCache e)" using assms(3) by (simp add: map_of_eq_None_iff)
  show ?thesis
  proof (cases "status = 0")
    case True
    have e': "e' = e\<lparr>graphCache := (key, g\<lparr>isValid := True\<rparr>) # graphCache e, qlog := l\<rparr>"
      using assms(1) True by (simp add: create_graph_def b)
    have "balanced e'" if "balanced e"
    proof (rule balancedI)
      fix k h
      show "balance k h (qlog e') = int (owned k e' h)"
        using that bs(1) [of k h] unfolding e' by (cases k) (simp_all add: balanced_def)
    qed
    then show ?thesis using assms(2,4) k bs(2) by (auto simp: eng_inv_def e')
  next
    case False
    have e': "e' = e\<lparr>graphCache := (key, g) # graphCache e, qlog := qdo env (ContextFree (contextHandle g)) l,
        dummyInvalid := (dummyInvalid e)\<lparr>isValid := False\<rparr>\<rparr>"
      using assms(1) False by (simp add: create_graph_def b)
    then show ?thesis using assms(2,4) k bs(2) False by (auto simp: eng_inv_def qdo_eq)
  qed
qed

lemma getOrCreateGraph_inv:
  assumes "getOrCreateGraph env M K N p e = Some (ref, e')" "eng_inv e"
  shows "eng_inv e'"
  using assms(1) by (cases rule: getOrCreateGraph_cases) (use assms(2) create_graph_inv in auto)

lemma execute_static_inv:
  assumes "execute_static env g a b c e = Some (out, e')" "eng_inv e"
  shows "eng_inv e'"
proof -
  obtain ws status g' l tA tC where
    b: "build_graph env ''fc_temp_graph'' (backendHandle e, deviceHandle e) (dimsA g) (dimsB g) (dimsC g) (Some ws) (qlog e)
      = (status, g', l)" and
    e': "e' = e\<lparr>qlog := qdo env (ContextFree (contextHandle g')) (qdo env (GraphExecute (graphHandle g') [tA] tC) l)\<rparr>"
    using assms(1) unfolding execute_static_def Let_def by (auto simp: qcall_eq qdo_eq split: if_splits bind_splits prod.splits)
  note bs = build_graph_spec(1,2) [OF b]
  show ?thesis
    by (rule eng_inv_cong [OF assms(2)]) (use bs in \<open>auto simp: e' qdo_eq balance_handle\<close>)
qed

lemma run_graph_inv:
  assumes "eng_inv e" "get_graph e ref = Some g" "contextHandle g' = contextHandle g"
  shows "eng_inv ((set_graph e ref g')\<lparr>qlog := (GraphExecute gh ts tC, r) # qlog (set_graph e ref g')\<rparr>)"
  using assms by (intro eng_inv_cong [OF assms(1)]) (simp_all add: set_graph_view)

lemma execute_inv:
  assumes "execute env ref a b c e = Some (out, e')" "eng_inv e"
  shows "eng_inv e'"
  using assms
  by (auto simp: execute_def Let_def qcall_eq split: option.splits bind_splits if_splits
      intro: execute_static_inv run_graph_inv)

lemma executeWithHandles_inv:
  assumes "executeWithHandles env ref a b c e = Some e'" "eng_inv e"
  shows "eng_inv e'"
  using assms
  by (auto simp: executeWithHandles_def Let_def qdo_eq split: option.splits bind_splits intro: run_graph_inv)

lemma registerIonMemory_inv: "eng_inv e \<Longrightarrow> eng_inv (snd (registerIonMemory env c fd d t e))"
  by (cases "qnnMemRegister e \<and> c \<noteq> None"; erule eng_inv_cong) (auto simp: registerIonMemory_def Let_def qcall_eq)

lemma deregisterMemory_inv: "eng_inv e \<Longrightarrow> eng_inv (deregisterMemory env m e)"
  by (cases m; cases "qnnMemDeRegister e"; erule eng_inv_cong) (simp_all add: deregisterMemory_def qdo_eq)

lemma setPowerMode_inv: "setPowerMode env m e = Some e' \<Longrightarrow> eng_inv e \<Longrightarrow> eng_inv e'"
  by (erule eng_inv_cong) (auto simp: setPowerMode_def qdo_eq split: option.splits if_splits)

lemma performDiagnosticsIfNeeded_inv: "performDiagnosticsIfNeeded env e = Some e' \<Longrightarrow> eng_inv e \<Longrightarrow> eng_inv e'"
  by (erule eng_inv_cong)
     (auto simp: performDiagnosticsIfNeeded_def validateOpSupport_def eng_view_def contexts_def Let_def qcall_eq
       split: option.splits if_splits)

lemma setenv_inv: "eng_inv e \<Longrightarrow> eng_inv (e\<lparr>penv := pe\<rparr>)"
  by (erule eng_inv_cong) (simp_all add: eng_view_def contexts_def)

section \<open>Reachable engines\<close>

text \<open>The constructor and the public operations, in any order; the environment variables may change between them.\<close>

inductive eng_reachable :: "qnn_env \<Rightarrow> engine \<Rightarrow> bool" for env :: qnn_env where
  construct: "eng_reachable env (engine_new env pe [])"
| setenv: "eng_reachable env e \<Longrightarrow> eng_reachable env (e\<lparr>penv := pe\<rparr>)"
| load: "eng_reachable env e \<Longrightarrow> eng_reachable env (loadBackend env c e)"
| unload: "eng_reachable env e \<Longrightarrow> eng_reachable env (unloadActiveBackend env e)"
| graph: "eng_reachable env e \<Longrightarrow> getOrCreateGraph env M K N p e = Some (ref, e') \<Longrightarrow> eng_reachable env e'"
| run: "eng_reachable env e \<Longrightarrow> execute env ref a b c e = Some (out, e') \<Longrightarrow> eng_reachable env e'"
| run_handles: "eng_reachable env e \<Longrightarrow> executeWithHandles env ref m1 m2 m3 e = Some e' \<Longrightarrow> eng_reachable env e'"
| register: "eng_reachable env e \<Longrightarrow> eng_reachable env (snd (registerIonMemory env ctx fd dims dt e))"
| deregister: "eng_reachable env e \<Longrightarrow> eng_reachable env (deregisterMemory env m e)"
| power: "eng_reachable env e \<Longrightarrow> setPowerMode env mode e = Some e' \<Longrightarrow> eng_reachable env e'"
| diagnose: "eng_reachable env e \<Longrightarrow> performDiagnosticsIfNeeded env e = Some e' \<Longrightarrow> eng_reachable env e'"

lemma eng_inv_init: "eng_inv (engine_init pe [])"
proof -
  have "idle (engine_init pe [])" by (simp add: idle_def engine_init_def no_backend_def)
  then show ?thesis using idle_owned [of "engine_init pe []"]
    by (simp add: eng_inv_def balanced_def) (simp add: engine_init_def no_backend_def)
qed

lemma eng_reachable_inv:
  assumes "eng_reachable env e" "qnn_complete env"
  shows "eng_inv e"
  using assms(1)
proof (induction rule: eng_reachable.induct)
  case (construct pe)
  then show ?case unfolding engine_new_def by (intro load_inv eng_inv_init assms(2))
qed (blast intro: assms(2) setenv_inv load_inv unload_inv getOrCreateGraph_inv execute_inv executeWithHandles_inv
  registerIonMemory_inv deregisterMemory_inv setPowerMode_inv performDiagnosticsIfNeeded_inv)+

section \<open>Keys and entries of the cache\<close>

lemma underscore_to_string: "CHR ''_'' \<notin> set (to_string i)"
  using to_string_chars [of "CHR ''_''" i] not_digit_chars(2) by auto

lemma graph_key_suffix_inj:
  assumes "graph_key M K N = graph_key M' K' N' @ s" "s = [] \<or> hd s = CHR ''_''"
  shows "M = M' \<and> K = K' \<and> N = N' \<and> s = []"
proof -
  note u = underscore_to_string
  have "to_string M @ CHR ''_'' # (to_string K @ CHR ''_'' # to_string N)
      = to_string M' @ CHR ''_'' # (to_string K' @ CHR ''_'' # to_string N' @ s)"
    using assms(1) by (simp add: graph_key_def)
  from append_sep_inj [OF this u u] have m: "to_string M = to_string M'"
    and "to_string K @ CHR ''_'' # to_string N = to_string K' @ CHR ''_'' # (to_string N' @ s)" by auto
  from append_sep_inj [OF this(2) u u] have k: "to_string K = to_string K'" and n: "to_string N = to_string N' @ s" by auto
  have "s = []" using n u [of N] assms(2) by (cases s) auto
  then show ?thesis using m k n by (auto dest: to_string_inj)
qed

lemma graph_key_inj: "graph_key M K N = graph_key M' K' N' \<longleftrightarrow> M = M' \<and> K = K' \<and> N = N'"
  using graph_key_suffix_inj [of M K N M' K' N' "[]"] by auto

lemma request_key_None [simp]: "request_key e M K N None = graph_key M K N"
  by (simp add: request_key_def)

lemma request_key_suffix: "\<exists>s. request_key e M K N p = graph_key M K N @ s \<and> (s = [] \<or> hd s = CHR ''_'')"
  by (auto simp: request_key_def split: option.splits)

text \<open>
  An entry has the dimensions of its key, and a valid one has been compiled.
\<close>

definition compiled :: "qnn_log \<Rightarrow> handle \<Rightarrow> bool" where
  "compiled l g \<longleftrightarrow> (\<exists>r. (GraphFinalize g, r) \<in> set l \<and> r_status r = 0)"

definition entry_ok :: "qnn_log \<Rightarrow> string \<times> QnnCachedGraph \<Rightarrow> bool" where
  "entry_ok l = (\<lambda>(k, g). (isValid g \<longrightarrow> compiled l (graphHandle g)) \<and>
     (\<exists>M K N s. k = graph_key M K N @ s \<and> (s = [] \<or> hd s = CHR ''_'') \<and> dimsA g = [word_of_int M, word_of_int K]
        \<and> dimsB g = [word_of_int N, word_of_int K] \<and> dimsC g = [word_of_int M, word_of_int N]
        \<and> t_dataType (tensorA g) = QNN_DATATYPE_UFIXED_POINT_16 \<and> t_dataType (tensorB g) = QNN_DATATYPE_UFIXED_POINT_8
        \<and> t_dataType (tensorC g) = QNN_DATATYPE_UFIXED_POINT_16))"

definition cache_ok :: "engine \<Rightarrow> bool" where
  "cache_ok e \<longleftrightarrow> (\<forall>x \<in> set (graphCache e). entry_ok (qlog e) x)"

lemma cache_ok_mono:
  assumes "cache_ok e" "set (graphCache e') \<subseteq> set (graphCache e)" "set (qlog e) \<subseteq> set (qlog e')"
  shows "cache_ok e'"
proof -
  have "entry_ok (qlog e) x \<Longrightarrow> entry_ok (qlog e') x" for x
    using assms(3) by (cases x) (auto simp: entry_ok_def compiled_def)
  then show ?thesis using assms(1,2) by (auto simp: cache_ok_def)
qed

lemma cache_ok_empty: "graphCache e = [] \<Longrightarrow> cache_ok e"
  by (simp add: cache_ok_def)

lemma build_graph_log:
  assumes "build_graph env n hs dA dB dC ws l = (status, g, l')"
  shows "set l \<subseteq> set l'" "status = 0 \<Longrightarrow> compiled l' (graphHandle g)"
  using assms
  by (auto simp: build_graph_def add_fc_node_def compiled_def q_simps Let_def)

lemma create_handles_cache: "graphCache (create_handles env qnn e) = graphCache e"
  by (auto simp: create_handles_def Let_def split_beta)

lemma load_cache:
  assumes "eng_inv e" "qnn_complete env"
  shows "loadBackend env c e = e \<or> graphCache (loadBackend env c e) = []"
proof -
  have "graphCache (unloadActiveBackend env e) = []" using unload_engine [OF assms] by (simp add: idle_def)
  then show ?thesis
    by (auto simp: loadBackend_def Let_def split_beta create_handles_cache split: option.splits)
qed

lemma create_graph_cache:
  assumes "create_graph env key M K N ws e = (ref, e')" "cache_ok e" "key = graph_key M K N @ s" "s = [] \<or> hd s = CHR ''_''"
  shows "cache_ok e'"
proof -
  obtain status g l where b: "build_graph env ''fc_graph'' (backendHandle e, deviceHandle e) [word_of_int M, word_of_int K]
      [word_of_int N, word_of_int K] [word_of_int M, word_of_int N] ws (qlog e) = (status, g, l)" by (rule prod_cases3)
  note bs = build_graph_spec [OF b] build_graph_log [OF b]
  have old: "entry_ok l' x" if "x \<in> set (graphCache e)" "set l \<subseteq> set l'" for x l'
    using assms(2) that bs(11) by (cases x) (fastforce simp: cache_ok_def entry_ok_def compiled_def)
  have dt: "t_dataType (tensorA g) = QNN_DATATYPE_UFIXED_POINT_16" "t_dataType (tensorC g) = QNN_DATATYPE_UFIXED_POINT_16"
    using bs(7,10) by (auto simp: qnn_tensor_def)
  have new: "entry_ok l' (key, g\<lparr>isValid := v\<rparr>)" if "v \<longrightarrow> compiled l' (graphHandle g)" for l' v
    using that bs(3-5,9) dt assms(3,4) unfolding entry_ok_def by auto
  show ?thesis
  proof (cases "status = 0")
    case True
    then have "e' = e\<lparr>graphCache := (key, g\<lparr>isValid := True\<rparr>) # graphCache e, qlog := l\<rparr>"
      using assms(1) by (simp add: create_graph_def b)
    then show ?thesis using old [OF _ order_refl] new [of True l] bs(12) [OF True] by (auto simp: cache_ok_def)
  next
    case False
    then have e': "graphCache e' = (key, g\<lparr>isValid := False\<rparr>) # graphCache e" "qlog e' = qdo env (ContextFree (contextHandle g)) l"
      using assms(1) bs(6) by (auto simp: create_graph_def b)
    then show ?thesis using old [of _ "qlog e'"] new [of False "qlog e'"] by (auto simp: cache_ok_def qdo_eq)
  qed
qed

lemma run_graph_cache:
  assumes "cache_ok e" "get_graph e ref = Some g" "isValid g' = isValid g" "graphHandle g' = graphHandle g"
    and "dimsA g' = dimsA g" "dimsB g' = dimsB g" "dimsC g' = dimsC g" "t_dataType (tensorA g') = t_dataType (tensorA g)"
    and "t_dataType (tensorB g') = t_dataType (tensorB g)" "t_dataType (tensorC g') = t_dataType (tensorC g)"
  shows "cache_ok ((set_graph e ref g')\<lparr>qlog := x # qlog (set_graph e ref g')\<rparr>)"
proof (cases ref)
  case Dummy
  then show ?thesis using assms(1) by (intro cache_ok_mono [OF assms(1)]) (auto simp: set_graph_def)
next
  case (Cached k)
  have sub: "set (AList.update k g' al) \<subseteq> insert (k, g') (set al)" for al by (induction al) auto
  have "(k, g) \<in> set (graphCache e)" using assms(2) Cached by (simp add: get_graph_def map_of_SomeD)
  then have "entry_ok (qlog e) (k, g)" using assms(1) by (simp add: cache_ok_def)
  then have "entry_ok (qlog e) (k, g')" using assms(3-10) by (simp add: entry_ok_def)
  then have "cache_ok (set_graph e ref g')" using assms(1) sub [of "graphCache e"] Cached
    by (auto simp: cache_ok_def set_graph_def)
  then show ?thesis by (rule cache_ok_mono) auto
qed

lemma set_client_buf_type: "set_client_buf t d ds = Some t' \<Longrightarrow> t_dataType t' = t_dataType t"
  by (auto simp: set_client_buf_def split: if_splits)

lemma set_mem_handle_type: "t_dataType (set_mem_handle m t) = t_dataType t"
  by (simp add: set_mem_handle_def split: option.splits)

lemma execute_static_log:
  assumes "execute_static env g a b c e = Some (out, e')"
  shows "graphCache e' = graphCache e \<and> set (qlog e) \<subseteq> set (qlog e')"
proof -
  obtain ws status g' l tA tC where
    b: "build_graph env ''fc_temp_graph'' (backendHandle e, deviceHandle e) (dimsA g) (dimsB g) (dimsC g) (Some ws) (qlog e)
      = (status, g', l)" and
    e': "e' = e\<lparr>qlog := qdo env (ContextFree (contextHandle g')) (qdo env (GraphExecute (graphHandle g') [tA] tC) l)\<rparr>"
    using assms(1) unfolding execute_static_def Let_def by (auto simp: qcall_eq qdo_eq split: if_splits bind_splits prod.splits)
  show ?thesis using build_graph_log(1) [OF b] by (auto simp: e' qdo_eq)
qed

lemma execute_cache:
  assumes "execute env ref a b c e = Some (out, e')" "cache_ok e"
  shows "cache_ok e'"
proof (cases "useStaticWeights e")
  case True
  then obtain g where "execute_static env g a b c e = Some (out, e')"
    using assms(1) by (auto simp: execute_def split: option.splits bind_splits)
  from execute_static_log [OF this] show ?thesis by (intro cache_ok_mono [OF assms(2)]) auto
next
  case False
  then show ?thesis using assms
    by (auto simp: execute_def Let_def qcall_eq set_client_buf_type split: option.splits bind_splits intro!: run_graph_cache)
qed

lemma executeWithHandles_cache:
  assumes "executeWithHandles env ref m1 m2 m3 e = Some e'" "cache_ok e"
  shows "cache_ok e'"
  using assms
  by (auto simp: executeWithHandles_def Let_def qdo_eq set_mem_handle_type split: option.splits bind_splits intro!: run_graph_cache)

lemma eng_reachable_cache:
  assumes "eng_reachable env e" "qnn_complete env"
  shows "cache_ok e"
  using assms(1)
proof (induction rule: eng_reachable.induct)
  case (construct pe)
  have "graphCache (engine_init pe []) = []" by (simp add: engine_init_def)
  then have "graphCache (loadBackend env 1 (engine_init pe [])) = []"
    using load_cache [OF eng_inv_init assms(2), of 1 pe] by metis
  then show ?case unfolding engine_new_def by (rule cache_ok_empty)
next
  case (load e c)
  then show ?case using load_cache [OF eng_reachable_inv [OF load.hyps assms(2)] assms(2), where c = c] cache_ok_empty by metis
next
  case (unload e)
  then show ?case using unload_engine [OF eng_reachable_inv [OF unload.hyps assms(2)] assms(2)]
    by (intro cache_ok_empty) (simp add: idle_def)
next
  case (graph e M K N p ref e')
  obtain s where s: "request_key e M K N p = graph_key M K N @ s" "s = [] \<or> hd s = CHR ''_''" using request_key_suffix by blast
  from graph.hyps(2) show ?case
    by (cases rule: getOrCreateGraph_cases) (use graph.IH create_graph_cache s in auto)
next
  case (register e ctx fd dims dt)
  show ?case by (rule cache_ok_mono [OF register.IH]) (auto simp: registerIonMemory_def Let_def qcall_eq)
next
  case (deregister e m)
  show ?case by (rule cache_ok_mono [OF deregister.IH]) (auto simp: deregisterMemory_def qdo_eq split: option.splits)
next
  case (power e mode e')
  show ?case by (rule cache_ok_mono [OF power.IH]) (use power.hyps in \<open>auto simp: setPowerMode_def qdo_eq split: option.splits if_splits\<close>)
next
  case (diagnose e e')
  show ?case by (rule cache_ok_mono [OF diagnose.IH])
    (use diagnose.hyps in \<open>auto simp: performDiagnosticsIfNeeded_def validateOpSupport_def Let_def qcall_eq split: option.splits if_splits\<close>)
next
  case (setenv e pe)
  show ?case by (rule cache_ok_mono [OF setenv.IH]) simp_all
qed (blast intro: execute_cache executeWithHandles_cache)+

section \<open>Properties\<close>


text \<open>
  C25: A graph that fails to compile poisons the cache: the caller gets the invalid graph, but the
  entry stays, so the engine reports that it has the graph, every later request returns the invalid
  entry without another attempt, and unloading frees the entry's context a second time.
\<close>

theorem failed_graph_stays_cached:
  assumes "eng_reachable env e" and "qnn_complete env" and "finalized_all (qlog e)"
    and "getOrCreateGraph env M K N None e = Some (Dummy, e')"
  shows "hasGraph e' M K N \<and> getOrCreateGraph env M K N None e' = Some (Cached (graph_key M K N), e')
    \<and> (\<exists>g. get_graph e' (Cached (graph_key M K N)) = Some g \<and> \<not> isValid g
         \<and> (\<forall>h. contextHandle g = Some h \<longrightarrow> balance Context h (qlog (unloadActiveBackend env e')) = - 1))"
  using assms(4)
proof (cases rule: getOrCreateGraph_cases)
  case (new ws)
  obtain status g l where b: "build_graph env ''fc_graph'' (backendHandle e, deviceHandle e) [word_of_int M, word_of_int K]
      [word_of_int N, word_of_int K] [word_of_int M, word_of_int N] ws (qlog e) = (status, g, l)" by (rule prod_cases3)
  note bs = build_graph_spec [OF b]
  have e': "graphCache e' = (graph_key M K N, g) # graphCache e" "qlog e' = qdo env (ContextFree (contextHandle g)) l"
    using new(4) by (auto simp: create_graph_def b split: if_splits)
  have found: "map_of (graphCache e') (graph_key M K N) = Some g" by (simp add: e')
  have inv: "eng_inv e" by (rule eng_reachable_inv [OF assms(1,2)])
  have "balance Context h (qlog (unloadActiveBackend env e')) = - 1" if "contextHandle g = Some h" for h
  proof -
    have "balance Context h (qlog e') = int (owned Context e h)"
      using inv assms(3) bs(1) [of Context h] by (simp add: e' qdo_eq balance_handle eng_inv_def balanced_def)
    moreover have "owned Context e' h = owned Context e h + 1" using that by (simp add: e' holds_def)
    ultimately show ?thesis
      using unload_engine [OF getOrCreateGraph_inv [OF assms(4) inv] assms(2), of Context h] by simp
  qed
  then show ?thesis using found bs(6) by (auto simp: hasGraph_def get_graph_def getOrCreateGraph_def)
qed simp

text \<open>
  C26: A request that succeeds is answered from the cache ever after: a second request makes no call
  of the library and changes nothing, the entry is valid when it is new, and the engine has the graphs it had and
  the requested one, no other.
\<close>

theorem graph_cache_spec:
  assumes "getOrCreateGraph env M K N None e = Some (Cached key, e')"
  shows "getOrCreateGraph env M K N None e' = Some (Cached key, e')
    \<and> (hasGraph e' M' K' N' \<longleftrightarrow> hasGraph e M' K' N' \<or> M' = M \<and> K' = K \<and> N' = N)
    \<and> (\<not> hasGraph e M K N \<longrightarrow> (\<exists>g. get_graph e' (Cached key) = Some g \<and> isValid g))"
  using assms
proof (cases rule: getOrCreateGraph_cases)
  case (hit g)
  then show ?thesis by (auto simp: hasGraph_def getOrCreateGraph_def)
next
  case (new ws)
  then obtain g l where "key = graph_key M K N" "graphCache e' = (key, g\<lparr>isValid := True\<rparr>) # graphCache e"
    by (auto simp: create_graph_def Let_def split: prod.splits if_splits)
  then show ?thesis by (auto simp: hasGraph_def getOrCreateGraph_def get_graph_def graph_key_inj)
qed

text \<open>
  The entry found for three sizes has the dimensions of these sizes and the data types of the
  accelerator's operation, and when it is marked valid its graph has been compiled, in every reachable state.
\<close>

theorem cached_graph_dims:
  assumes "eng_reachable env e" and "qnn_complete env" and "get_graph e (Cached (graph_key M K N)) = Some g"
  shows "dimsA g = [word_of_int M, word_of_int K] \<and> dimsB g = [word_of_int N, word_of_int K]
    \<and> dimsC g = [word_of_int M, word_of_int N] \<and> t_dataType (tensorA g) = QNN_DATATYPE_UFIXED_POINT_16
    \<and> t_dataType (tensorB g) = QNN_DATATYPE_UFIXED_POINT_8 \<and> t_dataType (tensorC g) = QNN_DATATYPE_UFIXED_POINT_16
    \<and> (isValid g \<longrightarrow> compiled (qlog e) (graphHandle g))"
proof -
  have "entry_ok (qlog e) (graph_key M K N, g)"
    using eng_reachable_cache [OF assms(1,2)] assms(3) by (auto simp: cache_ok_def get_graph_def dest: map_of_SomeD)
  then show ?thesis unfolding entry_ok_def by (auto dest: graph_key_suffix_inj)
qed

section \<open>A concrete library\<close>

text \<open>A library that always succeeds and gives out fresh handles; one whose compiler always fails.\<close>

definition demo_resp :: "qnn_log \<Rightarrow> qnn_call \<Rightarrow> qnn_resp" where
  "demo_resp l c = \<lparr>r_status = 0, r_handle = Some (length l), r_num = 1, r_out = []\<rparr>"

definition demo_qnn :: qnn_env where
  "demo_qnn = \<lparr>qe_dlsym = \<lambda>_ _. True, qe_has = \<lambda>_ _. True, qe_resp = demo_resp\<rparr>"

definition broken_qnn :: qnn_env where
  "broken_qnn = demo_qnn\<lparr>qe_resp := \<lambda>l c. case c of GraphFinalize g \<Rightarrow> (demo_resp l c)\<lparr>r_status := 1\<rparr> | _ \<Rightarrow> demo_resp l c\<rparr>"

lemma demo_complete [simp]: "qnn_complete demo_qnn" "qnn_complete broken_qnn"
  by (simp_all add: qnn_complete_def demo_qnn_def broken_qnn_def)

definition demo_engine :: "qnn_env \<Rightarrow> engine" where
  "demo_engine env = engine_new env Map.empty []"

lemma demo_engine_reachable: "eng_reachable env (demo_engine env)"
  by (simp add: demo_engine_def eng_reachable.construct)

lemmas engine_run = engine_new_def engine_init_def loadBackend_def unloadActiveBackend_def unloadQnnBackendSharedLibrary_def
  no_backend_def load_library_for_def loadQnnBackendSharedLibrary_def create_handles_def qcall_def qdo_def Let_def

lemma demo_engine_parts:
  assumes "env \<in> {demo_qnn, broken_qnn}"
  shows "isLoaded (demo_engine env)" "interfaceProviderTable (backendContainer (demo_engine env)) \<noteq> None"
    "graphCache (demo_engine env) = []" "finalized_all (qlog (demo_engine env))" "\<not> useStaticWeights (demo_engine env)"
  using assms
  by (auto simp: demo_engine_def engine_run broken_qnn_def demo_qnn_def demo_resp_def isLoaded_def useStaticWeights_def
      env_is_1_def set_library_paths_def project_libs_dir_def)

lemma broken_not_demo: "broken_qnn \<noteq> demo_qnn"
proof
  assume "broken_qnn = demo_qnn"
  then have "r_status (qe_resp broken_qnn [] (GraphFinalize None)) = r_status (qe_resp demo_qnn [] (GraphFinalize None))" by simp
  then show False by (simp add: broken_qnn_def demo_qnn_def demo_resp_def)
qed

lemma demo_graph:
  assumes "env \<in> {demo_qnn, broken_qnn}" "0 \<le> N"
  shows "\<exists>e'. getOrCreateGraph env M K N None (demo_engine env)
     = Some (if env = demo_qnn then Cached (graph_key M K N) else Dummy, e')"
proof -
  have "broken_qnn \<noteq> demo_qnn" by (rule broken_not_demo)
  then have "fst (create_graph env (graph_key M K N) M K N None e) = (if env = demo_qnn then Cached (graph_key M K N) else Dummy)" for e
    using assms(1) by (auto simp: create_graph_def build_graph_def qcall_eq Let_def demo_qnn_def broken_qnn_def demo_resp_def split: prod.splits)
  moreover have "getOrCreateGraph env M K N None (demo_engine env) = Some (create_graph env (graph_key M K N) M K N None (demo_engine env))"
    using demo_engine_parts [OF assms(1)] assms(2) by (simp add: getOrCreateGraph_def)
  ultimately show ?thesis by (metis prod.collapse)
qed

lemma first_graph:
  assumes "getOrCreateGraph env M K N None e = Some (Cached k, e')" "graphCache e = []"
  shows "\<exists>g. graphCache e' = [(k, g)] \<and> finalized_all (qlog e') = finalized_all (qlog e) \<and> backendHandle e' = backendHandle e
     \<and> k = graph_key M K N"
  using assms(1)
proof (cases rule: getOrCreateGraph_cases)
  case (new ws)
  obtain status g l where b: "build_graph env ''fc_graph'' (backendHandle e, deviceHandle e) [word_of_int M, word_of_int K]
      [word_of_int N, word_of_int K] [word_of_int M, word_of_int N] ws (qlog e) = (status, g, l)" by (rule prod_cases3)
  show ?thesis using new(4) assms(2) build_graph_spec(2) [OF b] by (auto simp: create_graph_def b split: if_splits)
qed (use assms(2) in simp)

section \<open>Witnesses\<close>


theorem failed_graph_stays_cached_witness:
  "\<exists>e'. getOrCreateGraph broken_qnn 2 3 4 None (demo_engine broken_qnn) = Some (Dummy, e') \<and> hasGraph e' 2 3 4"
proof -
  have "broken_qnn \<noteq> demo_qnn" by (rule broken_not_demo)
  then obtain e' where g: "getOrCreateGraph broken_qnn 2 3 4 None (demo_engine broken_qnn) = Some (Dummy, e')"
    using demo_graph [of broken_qnn 4 2 3] by auto
  from failed_graph_stays_cached [OF demo_engine_reachable demo_complete(2) demo_engine_parts(4) g] show ?thesis using g by auto
qed

theorem graph_cache_spec_witness:
  "\<exists>e'. getOrCreateGraph demo_qnn 2 3 4 None (demo_engine demo_qnn) = Some (Cached (graph_key 2 3 4), e')
     \<and> getOrCreateGraph demo_qnn 2 3 4 None e' = Some (Cached (graph_key 2 3 4), e') \<and> \<not> hasGraph e' 2 3 5"
proof -
  obtain e' where g: "getOrCreateGraph demo_qnn 2 3 4 None (demo_engine demo_qnn) = Some (Cached (graph_key 2 3 4), e')"
    using demo_graph [of demo_qnn 4 2 3] by auto
  from graph_cache_spec [OF g, of 2 3 5] show ?thesis using g demo_engine_parts(3) [of demo_qnn] by (auto simp: hasGraph_def)
qed

theorem cached_graph_dims_witness:
  "\<exists>e g. get_graph e (Cached (graph_key 2 3 4)) = Some g \<and> dimsA g = [2, 3] \<and> dimsB g = [4, 3] \<and> dimsC g = [2, 4]"
proof -
  obtain e' where g: "getOrCreateGraph demo_qnn 2 3 4 None (demo_engine demo_qnn) = Some (Cached (graph_key 2 3 4), e')"
    using demo_graph [of demo_qnn 4 2 3] by auto
  have r: "eng_reachable demo_qnn e'" by (rule eng_reachable.graph [OF demo_engine_reachable g])
  obtain gr where "get_graph e' (Cached (graph_key 2 3 4)) = Some gr"
    using first_graph [OF g demo_engine_parts(3)] by (auto simp: get_graph_def)
  from cached_graph_dims [OF r demo_complete(1) this] this show ?thesis by auto
qed

end
