(* ===== verification/QnnServer.thy ===== *)
theory QnnServer
  imports EngineProps
begin

text \<open>
  The compiler server of \<^verbatim>\<open>utils/qnn_server.cpp\<close>: diagnostics of the data types, the compilation of one
  graph to a file, the parsing of a request and the loop over clients. Sockets and files are an
  environment; messages to the console are left out, apart from the report of the diagnostics.
\<close>

section \<open>Diagnostics\<close>

definition dataTypesToCheck :: "(Qnn_DataType \<times> string) list" where
  "dataTypesToCheck =
     [(QNN_DATATYPE_INT_8, ''QNN_DATATYPE_INT_8''), (QNN_DATATYPE_UINT_8, ''QNN_DATATYPE_UINT_8''),
      (QNN_DATATYPE_INT_16, ''QNN_DATATYPE_INT_16''), (QNN_DATATYPE_UINT_16, ''QNN_DATATYPE_UINT_16''),
      (QNN_DATATYPE_INT_32, ''QNN_DATATYPE_INT_32''), (QNN_DATATYPE_UINT_32, ''QNN_DATATYPE_UINT_32''),
      (QNN_DATATYPE_FLOAT_16, ''QNN_DATATYPE_FLOAT_16''), (QNN_DATATYPE_FLOAT_32, ''QNN_DATATYPE_FLOAT_32''),
      (QNN_DATATYPE_SFIXED_POINT_8, ''QNN_DATATYPE_SFIXED_POINT_8''),
      (QNN_DATATYPE_UFIXED_POINT_8, ''QNN_DATATYPE_UFIXED_POINT_8''),
      (QNN_DATATYPE_SFIXED_POINT_16, ''QNN_DATATYPE_SFIXED_POINT_16''),
      (QNN_DATATYPE_UFIXED_POINT_16, ''QNN_DATATYPE_UFIXED_POINT_16'')]"

definition server_isQuantizedType :: "Qnn_DataType \<Rightarrow> bool" where
  "server_isQuantizedType dataType \<longleftrightarrow>
     dataType = QNN_DATATYPE_SFIXED_POINT_8 \<or> dataType = QNN_DATATYPE_UFIXED_POINT_8 \<or>
     dataType = QNN_DATATYPE_SFIXED_POINT_16 \<or> dataType = QNN_DATATYPE_UFIXED_POINT_16 \<or>
     dataType = QNN_DATATYPE_SFIXED_POINT_32 \<or> dataType = QNN_DATATYPE_UFIXED_POINT_32"

text \<open>The node whose support is asked for; the bias is quantised when the inputs are.\<close>

definition check_op :: "Qnn_DataType \<Rightarrow> Qnn_DataType \<Rightarrow> Qnn_OpConfig" where
  "check_op dataType outputDataType =
     (let enc = (\<lambda>t. if server_isQuantizedType t then Some 0 else None)
      in fully_connected ''fc''
           [qnn_tensor 0 ''A'' QNN_TENSOR_TYPE_APP_WRITE True dataType [4, 4] NoData 0 (enc dataType),
            qnn_tensor 1 ''B'' QNN_TENSOR_TYPE_APP_WRITE True dataType [4, 4] NoData 0 (enc dataType),
            qnn_tensor 3 ''bias'' QNN_TENSOR_TYPE_STATIC True QNN_DATATYPE_SFIXED_POINT_32 [4] (Ints [0, 0, 0, 0]) 16 (enc dataType)]
           [qnn_tensor 2 ''C'' QNN_TENSOR_TYPE_APP_READ True outputDataType [4, 4] NoData 0 (enc outputDataType)])"

definition checkDataTypeSupport ::
  "qnn_env \<Rightarrow> nat \<Rightarrow> handle \<Rightarrow> Qnn_DataType \<Rightarrow> Qnn_DataType \<Rightarrow> qnn_log \<Rightarrow> u32 \<times> qnn_log" where
  "checkDataTypeSupport env qnn bk dataType outputDataType l =
     (if \<not> qe_has env qnn ''backendValidateOpConfig'' then (0xFFFFFFFF, l)
      else let (r, l') = qcall env (BackendValidateOpConfig bk (check_op dataType outputDataType)) l
           in (r_status r, l'))"

text \<open>The report: a line per data type with the status, 0 for supported.\<close>

fun check_all :: "qnn_env \<Rightarrow> nat \<Rightarrow> handle \<Rightarrow> (Qnn_DataType \<times> string) list \<Rightarrow> qnn_log \<Rightarrow> (string \<times> u32) list \<times> qnn_log" where
  "check_all env qnn h [] l = ([], l)"
| "check_all env qnn h ((ty, name) # ts) l =
     (let (status, l1) = checkDataTypeSupport env qnn h ty QNN_DATATYPE_SFIXED_POINT_16 l;
          (report, l2) = check_all env qnn h ts l1
      in ((name, status) # report, l2))"

definition firstRunDiagnosis :: "qnn_env \<Rightarrow> nat \<Rightarrow> qnn_log \<Rightarrow> (string \<times> u32) list option \<times> qnn_log" where
  "firstRunDiagnosis env qnn l =
     (let (r, l1) = qcall env (BackendCreate None) l
      in if r_status r \<noteq> 0 then (None, l1)
         else let (report, l2) = check_all env qnn (r_handle r) dataTypesToCheck l1
              in (Some report, qdo env (BackendFree (r_handle r)) l2))"

section \<open>Compilation\<close>

text \<open>Giving back the device, if there is one, and the backend.\<close>

definition free_device_backend :: "qnn_env \<Rightarrow> nat \<Rightarrow> handle \<Rightarrow> handle \<Rightarrow> qnn_log \<Rightarrow> qnn_log" where
  "free_device_backend env qnn dev bk l =
     qdo env (BackendFree bk)
       (case dev of Some d \<Rightarrow> if qe_has env qnn ''deviceFree'' then qdo env (DeviceFree d) l else l | None \<Rightarrow> l)"

definition matmul_bin_name :: "int \<Rightarrow> int \<Rightarrow> int \<Rightarrow> string" where
  "matmul_bin_name M K N =
     ''matmuls/matmul_'' @ to_string M @ ''x'' @ to_string K @ ''_'' @ to_string K @ ''x'' @ to_string N @ ''.bin''"

text \<open>
  The tensors, the node and the compilation: the statuses of the last two decide.
\<close>

definition compile_graph :: "qnn_env \<Rightarrow> handle \<Rightarrow> int \<Rightarrow> int \<Rightarrow> int \<Rightarrow> qnn_log \<Rightarrow> bool \<times> qnn_log" where
  "compile_graph env gh M K N l0 =
     (let (tA, l1) = create_tensor env gh (qnn_tensor 0 ''A'' QNN_TENSOR_TYPE_APP_WRITE True
                       QNN_DATATYPE_UFIXED_POINT_8 [word_of_int M, word_of_int K] NoData 0 (Some 127)) l0;
          (tB, l2) = create_tensor env gh (qnn_tensor 1 ''B'' QNN_TENSOR_TYPE_APP_WRITE True
                       QNN_DATATYPE_UFIXED_POINT_8 [word_of_int N, word_of_int K] NoData 0 (Some 127)) l1;
          (tC, l3) = create_tensor env gh (qnn_tensor 2 ''C'' QNN_TENSOR_TYPE_APP_READ True
                       QNN_DATATYPE_UFIXED_POINT_16 [word_of_int M, word_of_int N] NoData 0 (Some 32768)) l2;
          (tBias, l4) = create_tensor env gh (qnn_tensor 3 ''bias'' QNN_TENSOR_TYPE_STATIC True
                       QNN_DATATYPE_SFIXED_POINT_32 [word_of_int N] (Ints (replicate (nat N) 0)) (word_of_int (N * 4)) (Some 0)) l3;
          (rn, l5) = qcall env (GraphAddNode gh (fully_connected ''matmul_op'' [tA, tB, tBias] [tC])) l4
      in if r_status rn \<noteq> 0 then (False, l5)
         else let (rf, l6) = qcall env (GraphFinalize gh) l5 in (r_status rf = 0, l6))"

text \<open>
  Saving the compiled context: the name and the number of bytes of the file, when one was written. The
  library says how many bytes it wrote; more than the buffer holds would be read past its end. Whether
  a file can be opened is up to the file system.
\<close>

definition save_binary ::
  "qnn_env \<Rightarrow> (string \<Rightarrow> bool) \<Rightarrow> handle \<Rightarrow> int \<Rightarrow> int \<Rightarrow> int \<Rightarrow> qnn_log \<Rightarrow> ((string \<times> nat) option \<times> qnn_log) option" where
  "save_binary env can_open ctx M K N l0 =
     (let (rs, l1) = qcall env (ContextGetBinarySize ctx) l0
      in if r_status rs = 0 \<and> r_num rs > 0
         then let (rb, l2) = qcall env (ContextGetBinary ctx (r_num rs)) l1
              in if r_status rb = 0 \<and> can_open (matmul_bin_name M K N)
                 then if r_num rb \<le> r_num rs then Some (Some (matmul_bin_name M K N, r_num rb), l2) else None
                 else Some (None, l2)
         else Some (None, l1))"

definition server_device :: "qnn_env \<Rightarrow> nat \<Rightarrow> qnn_log \<Rightarrow> handle \<times> qnn_log" where
  "server_device env qnn l1 =
     (if qe_has env qnn ''deviceCreate''
      then let (r, l) = qcall env DeviceCreate l1 in (if r_status r \<noteq> 0 then None else r_handle r, l)
      else (None, l1))"

text \<open>
  The whole compilation: whether it succeeded, the file it wrote, the log. A negative \<open>N\<close> makes the
  vector of biases throw.
\<close>

definition compileMatMulGraph ::
  "qnn_env \<Rightarrow> (string \<Rightarrow> bool) \<Rightarrow> nat \<Rightarrow> int \<Rightarrow> int \<Rightarrow> int \<Rightarrow> qnn_log \<Rightarrow> (bool \<times> (string \<times> nat) option \<times> qnn_log) option" where
  "compileMatMulGraph env can_open qnn M K N l0 =
     (let (rb, l1) = qcall env (BackendCreate None) l0
      in if r_status rb \<noteq> 0 then Some (False, None, l1)
         else
           let (dev, l2) = server_device env qnn l1;
               (rc, l3) = qcall env (ContextCreate (r_handle rb) dev) l2
           in if r_status rc \<noteq> 0 then Some (False, None, free_device_backend env qnn dev (r_handle rb) l3)
              else
                let (rg, l4) = qcall env (GraphCreate (r_handle rc) ''matmul_graph'') l3;
                    free_all = (\<lambda>l. free_device_backend env qnn dev (r_handle rb) (qdo env (ContextFree (r_handle rc)) l))
                in if r_status rg \<noteq> 0 then Some (False, None, free_all l4)
                   else if N < 0 then None
                   else
                     let (ok, l5) = compile_graph env (r_handle rg) M K N l4
                     in if \<not> ok then Some (False, None, free_all l5)
                        else map_option (\<lambda>(file, l6). (True, file, free_all l6))
                               (save_binary env can_open (r_handle rc) M K N l5))"

section \<open>Requests\<close>

text \<open>What \<^verbatim>\<open>read\<close> left in the zeroed buffer of 1024 characters, as a string.\<close>

definition request_text :: "string \<Rightarrow> string" where
  "request_text bytes = takeWhile (\<lambda>c. c \<noteq> CHR 0x00) (take 1023 bytes)"

definition is_generate :: "string \<Rightarrow> bool" where
  "is_generate req \<longleftrightarrow> take 8 req = ''generate''"

definition parse_request :: "string \<Rightarrow> int \<times> int \<times> int \<times> int" where
  "parse_request req =
     (let (cmd, s1) = extract_word (req, False);
          (M, s2) = extract_int 0 s1;
          (K, s3) = extract_int 0 s2;
          (N, s4) = extract_int 0 s3;
          (backendChoice, s5) = extract_int 1 s4
      in (M, K, N, backendChoice))"

text \<open>
  A client: \<^verbatim>\<open>accept\<close> failed, \<^verbatim>\<open>read\<close> gave nothing, or it sent these bytes. The reply, if any, and the
  files written go into the state.
\<close>

datatype client = AcceptFailed | NoBytes | Sent string

record server =
  s_log :: qnn_log
  s_files :: "(string \<times> nat) list"
  s_replies :: "string list"

definition serve :: "qnn_env \<Rightarrow> (string \<Rightarrow> bool) \<Rightarrow> nat \<Rightarrow> client \<Rightarrow> server \<Rightarrow> server option" where
  "serve env can_open qnn c st =
     (case c of
        Sent bytes \<Rightarrow>
          (let req = request_text bytes
           in if bytes \<noteq> [] \<and> is_generate req
              then let (M, K, N, backendChoice) = parse_request req
                   in map_option (\<lambda>(success, file, l).
                          \<lparr>s_log = l, s_files = (case file of None \<Rightarrow> s_files st | Some f \<Rightarrow> f # s_files st),
                           s_replies = (if success then ''OK'' @ [CHR 0x0A] else ''ERROR'' @ [CHR 0x0A]) # s_replies st\<rparr>)
                        (compileMatMulGraph env can_open qnn M K N (s_log st))
              else Some st)
      | _ \<Rightarrow> Some st)"

text \<open>The loop over the first clients, in the order they connect; it has no end of its own.\<close>

fun serve_all :: "qnn_env \<Rightarrow> (string \<Rightarrow> bool) \<Rightarrow> nat \<Rightarrow> client list \<Rightarrow> server \<Rightarrow> server option" where
  "serve_all env can_open qnn [] st = Some st"
| "serve_all env can_open qnn (c # cs) st = Option.bind (serve env can_open qnn c st) (serve_all env can_open qnn cs)"

record sock_env =
  sk_socket :: bool
  sk_bind :: bool
  sk_listen :: bool

text \<open>What \<^verbatim>\<open>main\<close> does: it returns 1 with a log, or serves.\<close>

datatype server_result = Exit int qnn_log | Serving server

definition load_server_library :: "qnn_env \<Rightarrow> string list \<Rightarrow> qnn_log \<Rightarrow> QnnLoadedBackendContainer \<times> qnn_log" where
  "load_server_library env args l =
     (let (b, l1) = loadQnnBackendSharedLibrary env (case args of [] \<Rightarrow> ''libs/libQnnHtp.so'' | a # _ \<Rightarrow> a) l
      in if librarySharedObjectHandle b = None \<or> interfaceProviderTable b = None
         then loadQnnBackendSharedLibrary env ''libs/libQnnDsp.so'' l1
         else (b, l1))"

definition server_main ::
  "qnn_env \<Rightarrow> (string \<Rightarrow> bool) \<Rightarrow> sock_env \<Rightarrow> string list \<Rightarrow> client list \<Rightarrow> qnn_log \<Rightarrow> server_result option" where
  "server_main env can_open sk args clients l =
     (let (b, l1) = load_server_library env args l
      in if librarySharedObjectHandle b = None then Some (Exit 1 l1)
         else
           case interfaceProviderTable b of
             None \<Rightarrow> Some (Exit 1 l1)
           | Some qnn \<Rightarrow>
               let (report, l2) = firstRunDiagnosis env qnn l1
               in if \<not> sk_socket sk \<or> \<not> sk_bind sk \<or> \<not> sk_listen sk
                  then Some (Exit 1 (snd (unloadQnnBackendSharedLibrary env b l2)))
                  else map_option Serving (serve_all env can_open qnn clients \<lparr>s_log = l2, s_files = [], s_replies = []\<rparr>))"

section \<open>Resources of a compilation\<close>

text \<open>A creation that fails hands out no handle.\<close>

definition failures_create_nothing :: "qnn_env \<Rightarrow> bool" where
  "failures_create_nothing env \<longleftrightarrow> (\<forall>l c. r_status (qe_resp env l c) \<noteq> 0 \<longrightarrow> r_handle (qe_resp env l c) = None)"

lemma free_device_backend_balance:
  assumes "qnn_complete env"
  shows "balance k h (free_device_backend env qnn dev bk l)
     = balance k h l - (if k = Device then int (holds dev h) else 0) - (if k = Backend then int (holds bk h) else 0)"
  using assms by (auto simp: free_device_backend_def qdo_eq balance_handle qnn_complete_def holds_def split: option.splits)

lemma compile_graph_balance: "compile_graph env g M K N l = (ok, l') \<Longrightarrow> balance k h l' = balance k h l"
  by (auto simp: compile_graph_def Let_def q_simps split: if_splits)

lemma save_binary_balance: "save_binary env co c M K N l = Some (f, l') \<Longrightarrow> balance k h l' = balance k h l"
  by (auto simp: save_binary_def Let_def q_simps split: if_splits)

lemma check_all_balance: "check_all env qnn b ts l = (report, l') \<Longrightarrow> balance k h l' = balance k h l \<and> map fst report = map snd ts"
proof (induction ts arbitrary: l report)
  case (Cons t ts)
  then show ?case
    by (cases t) (fastforce simp: checkDataTypeSupport_def Let_def q_simps split: prod.splits if_splits)
qed simp

lemma compileMatMulGraph_balance:
  assumes "compileMatMulGraph env co qnn M K N l = Some (ok, f, l')" "qnn_complete env" "failures_create_nothing env"
  shows "balance k h l' = balance k h l"
proof -
  note fb = free_device_backend_balance [OF assms(2)]
  have nocreate: "holds (r_handle (qe_resp env x c)) h = 0" if "r_status (qe_resp env x c) \<noteq> 0" for x c
    using assms(3) that by (simp add: failures_create_nothing_def holds_def)
  define rb where "rb = qe_resp env l (BackendCreate None)"
  define l1 where "l1 = (BackendCreate None, rb) # l"
  obtain dev l2 where d: "server_device env qnn l1 = (dev, l2)" by (rule prod.exhaust)
  have b2: "balance k h l2 = balance k h l1 + (if k = Device then int (holds dev h) else 0)"
    using d nocreate by (auto simp: server_device_def Let_def qcall_eq balance_handle holds_def split: if_splits)
  define rc where "rc = qe_resp env l2 (ContextCreate (r_handle rb) dev)"
  define l3 where "l3 = (ContextCreate (r_handle rb) dev, rc) # l2"
  define rg where "rg = qe_resp env l3 (GraphCreate (r_handle rc) ''matmul_graph'')"
  define l4 where "l4 = (GraphCreate (r_handle rc) ''matmul_graph'', rg) # l3"
  obtain okc l5 where c: "compile_graph env (r_handle rg) M K N l4 = (okc, l5)" by (rule prod.exhaust)
  note u = assms(1) [unfolded compileMatMulGraph_def Let_def qcall_eq prod.case, folded rb_def, folded l1_def,
      unfolded d prod.case, folded rc_def, folded l3_def, folded rg_def, folded l4_def, unfolded c prod.case]
  have b1: "balance k h l1 = balance k h l + (if k = Backend then int (holds (r_handle rb) h) else 0)"
    by (simp add: l1_def balance_handle)
  have b4: "balance k h l4 = balance k h l2 + (if k = Context then int (holds (r_handle rc) h) else 0)"
    by (simp add: l4_def l3_def balance_handle)
  have b3: "balance k h l3 = balance k h l2 + (if k = Context then int (holds (r_handle rc) h) else 0)"
    by (simp add: l3_def balance_handle)
  note b5 = compile_graph_balance [OF c, of k h] and b6 = save_binary_balance [of env co "r_handle rc" M K N l5 _ _ k h]
  consider "r_status rb \<noteq> 0" "l' = l1"
    | "r_status rc \<noteq> 0" "l' = free_device_backend env qnn dev (r_handle rb) l3"
    | x where "balance k h x = balance k h l4" "l' = free_device_backend env qnn dev (r_handle rb) (qdo env (ContextFree (r_handle rc)) x)"
    using u b5 b6 by (auto split: if_splits option.splits)
  then show ?thesis
  proof cases
    case 1
    then show ?thesis using b1 nocreate [of l "BackendCreate None"] by (simp add: rb_def)
  next
    case 2
    then show ?thesis using b1 b2 b3 nocreate [of l2 "ContextCreate (r_handle rb) dev"] by (simp add: rc_def fb)
  next
    case 3
    then show ?thesis using b1 b2 b4 by (simp add: fb qdo_eq balance_handle)
  qed
qed

lemma serve_balance:
  assumes "serve env co qnn c st = Some st'" "qnn_complete env" "failures_create_nothing env"
  shows "balance k h (s_log st') = balance k h (s_log st)"
proof (cases "\<exists>b. c = Sent b \<and> b \<noteq> [] \<and> is_generate (request_text b)")
  case True
  then obtain b where b: "c = Sent b" "b \<noteq> []" "is_generate (request_text b)" by blast
  obtain M K N bc where p: "parse_request (request_text b) = (M, K, N, bc)" by (rule prod_cases4)
  obtain ok f l where "compileMatMulGraph env co qnn M K N (s_log st) = Some (ok, f, l)" "s_log st' = l"
    using assms(1) b p by (auto simp: serve_def Let_def)
  then show ?thesis using compileMatMulGraph_balance [OF _ assms(2,3)] by blast
next
  case False
  then show ?thesis using assms(1) by (cases c) (auto simp: serve_def Let_def)
qed

lemma serve_all_balance:
  assumes "serve_all env co qnn cs st = Some st'" "qnn_complete env" "failures_create_nothing env"
  shows "balance k h (s_log st') = balance k h (s_log st)"
  using assms(1)
proof (induction cs arbitrary: st)
  case (Cons c cs)
  then obtain s1 where "serve env co qnn c st = Some s1" "serve_all env co qnn cs s1 = Some st'" by (auto split: bind_splits)
  then show ?case using Cons.IH serve_balance [OF _ assms(2,3)] by metis
qed simp

section \<open>Reading requests\<close>

text \<open>The request a client sends.\<close>

definition generate_request :: "int \<Rightarrow> int \<Rightarrow> int \<Rightarrow> int \<Rightarrow> string" where
  "generate_request M K N backend_choice =
     ''generate '' @ to_string M @ '' '' @ to_string K @ '' '' @ to_string N @ '' '' @ to_string backend_choice @ [CHR 0x0A]"

definition is_int32 :: "int \<Rightarrow> bool" where
  "is_int32 i \<longleftrightarrow> - (2 ^ 31) \<le> i \<and> i < 2 ^ 31"

lemma nat_digits_length: "n < 10 ^ Suc k \<Longrightarrow> length (nat_digits n) \<le> Suc k"
proof (induction n arbitrary: k rule: nat_digits.induct)
  case (1 n)
  show ?case
  proof (cases "n < 10")
    case True
    then show ?thesis by (subst nat_digits.simps) simp
  next
    case False
    with 1(2) obtain j where k: "k = Suc j" by (cases k) auto
    have "n div 10 < 10 ^ Suc j" using 1(2) by (simp add: k less_mult_imp_div_less)
    from 1(1) [OF False this] show ?thesis using False by (subst nat_digits.simps) (simp add: k)
  qed
qed

lemma to_string_length: "is_int32 i \<Longrightarrow> length (to_string i) \<le> 11"
  using nat_digits_length [of "nat i" 9] nat_digits_length [of "nat (- i)" 9]
  by (auto simp: to_string_def is_int32_def nat_less_iff)

lemma generate_request_text:
  assumes "is_int32 M" "is_int32 K" "is_int32 N" "is_int32 b"
  shows "request_text (generate_request M K N b) = generate_request M K N b"
proof -
  have nz: "CHR 0x00 \<notin> set (to_string i)" for i using to_string_chars [of "CHR 0x00" i] by (auto simp: is_digit_def)
  have "length (generate_request M K N b) \<le> 1023"
    using to_string_length [OF assms(1)] to_string_length [OF assms(2)] to_string_length [OF assms(3)] to_string_length [OF assms(4)]
    by (simp add: generate_request_def)
  moreover have "CHR 0x00 \<notin> set (generate_request M K N b)" using nz by (simp add: generate_request_def)
  ultimately show ?thesis by (simp add: request_text_def takeWhile_eq_all_conv) (metis)
qed

lemma request_round_trip_aux:
  assumes "is_int32 M" "is_int32 K" "is_int32 N" "is_int32 b"
  shows "is_generate (request_text (generate_request M K N b))
    \<and> parse_request (request_text (generate_request M K N b)) = (M, K, N, b)"
proof -
  have sp: "is_space (CHR '' '')" "is_space (CHR 0x0A)" by (simp_all add: is_space_def)
  have "extract_word (generate_request M K N b, False)
    = (''generate'', CHR '' '' # to_string M @ CHR '' '' # to_string K @ CHR '' '' # to_string N @ CHR '' '' # to_string b @ [CHR 0x0A], False)"
    by (simp add: extract_word_def generate_request_def is_space_def)
  then show ?thesis
    using assms sp by (simp add: generate_request_text parse_request_def is_int32_def extract_int_to_string)
      (simp add: is_generate_def generate_request_def)
qed

text \<open>
  C29: The server reads a request exactly as the client wrote it: for all four \<open>int\<close> values the text is
  recognised, fits the buffer, and parses back to these values.
\<close>

theorem request_round_trip:
  assumes "is_int32 M" and "is_int32 K" and "is_int32 N" and "is_int32 b"
  shows "is_generate (request_text (generate_request M K N b))
    \<and> parse_request (request_text (generate_request M K N b)) = (M, K, N, b)"
  using assms by (rule request_round_trip_aux)

theorem request_round_trip_witness:
  "parse_request (request_text (generate_request 128 (- 7) 2147483647 3)) = (128, - 7, 2147483647, 3)"
  using request_round_trip [of 128 "- 7" 2147483647 3] by (simp add: is_int32_def)

section \<open>The server\<close>

text \<open>The client asks for a compilation, for these sizes.\<close>

definition asks :: "client \<Rightarrow> (int \<times> int \<times> int \<times> int) option" where
  "asks c = (case c of
     Sent bytes \<Rightarrow> if bytes \<noteq> [] \<and> is_generate (request_text bytes) then Some (parse_request (request_text bytes)) else None
   | _ \<Rightarrow> None)"

text \<open>The library never reports more bytes than the buffer it was given.\<close>

definition binary_fits :: "qnn_env \<Rightarrow> bool" where
  "binary_fits env \<longleftrightarrow> (\<forall>l ctx n. r_num (qe_resp env l (ContextGetBinary ctx n)) \<le> n)"

lemma serve_asks:
  "serve env co qnn c st = (case asks c of
     None \<Rightarrow> Some st
   | Some (M, K, N, b) \<Rightarrow> map_option (\<lambda>(success, file, l).
       \<lparr>s_log = l, s_files = (case file of None \<Rightarrow> s_files st | Some f \<Rightarrow> f # s_files st),
        s_replies = (if success then ''OK'' @ [CHR 0x0A] else ''ERROR'' @ [CHR 0x0A]) # s_replies st\<rparr>)
       (compileMatMulGraph env co qnn M K N (s_log st)))"
  by (cases c) (simp_all add: serve_def asks_def Let_def)

lemma save_binary_defined: "binary_fits env \<Longrightarrow> \<exists>f l'. save_binary env co c M K N l = Some (f, l')"
  by (auto simp: save_binary_def Let_def qcall_eq binary_fits_def)

lemma compile_defined:
  assumes "binary_fits env" "0 \<le> N"
  shows "\<exists>ok f l'. compileMatMulGraph env co qnn M K N l = Some (ok, f, l')"
proof -
  have "\<exists>f l'. save_binary env co c M K N l = Some (f, l')" for c l by (rule save_binary_defined [OF assms(1)])
  then have "save_binary env co c M K N l \<noteq> None" for c l by (metis option.distinct(1))
  then have "compileMatMulGraph env co qnn M K N l \<noteq> None"
    using assms(2) unfolding compileMatMulGraph_def Let_def by (simp add: case_prod_unfold del: not_None_eq)
  then show ?thesis by (metis not_None_eq prod_cases3)
qed


text \<open>
  C30: One request ends the server: a negative column count, read from the client unchecked, makes the
  vector of biases throw, and nothing catches it, as soon as backend, context and graph were created.
\<close>

theorem negative_request_kills_server:
  assumes "\<forall>l c. r_status (qe_resp env l c) = 0" and "is_int32 M" and "is_int32 K" and "is_int32 N" and "N < 0" and "is_int32 b"
  shows "serve_all env co qnn (Sent (generate_request M K N b) # cs) st = None"
proof -
  have "asks (Sent (generate_request M K N b)) = Some (M, K, N, b)"
    using request_round_trip_aux [OF assms(2,3,4,6)] by (simp add: asks_def generate_request_def)
  moreover have "compileMatMulGraph env co qnn M K N l = None" for l
    using assms(1,5) unfolding compileMatMulGraph_def Let_def qcall_eq by (simp add: case_prod_unfold)
  ultimately show ?thesis by (simp add: serve_asks)
qed


section \<open>Witnesses\<close>

lemma demo_binary_fits: "binary_fits (demo_qnn\<lparr>qe_resp := \<lambda>l c. (demo_resp l c)\<lparr>r_num := 0\<rparr>\<rparr>)"
  by (simp add: binary_fits_def)


theorem negative_request_kills_server_witness:
  "serve_all demo_qnn (\<lambda>f. True) 1 [Sent (generate_request 4 4 (- 1) 1)] \<lparr>s_log = [], s_files = [], s_replies = []\<rparr> = None"
proof -
  have "\<forall>l c. r_status (qe_resp demo_qnn l c) = 0" by (simp add: demo_qnn_def demo_resp_def)
  from negative_request_kills_server [OF this, of 4 4 "- 1" 1] show ?thesis by (simp add: is_int32_def)
qed


end
