(* ===== verification/TfliteManager.thy ===== *)
theory TfliteManager
  imports Prefetch QnnServer
begin

text \<open>
  The matrix product of \<^verbatim>\<open>tflite_manager.h\<close>: the models of the TFLite fallback and their cache, and
  \<open>matmul_int8\<close>, which uses the engine when a backend is loaded and the fallback otherwise. The TFLite
  interpreter, its delegate and the socket are environments; timing and console output are left out.
\<close>

section \<open>Environments and state\<close>

text \<open>Data in the buffers of an interpreter.\<close>

datatype tf_data = Floats "f32 list" | Shorts "int list" | Longs "int list"

text \<open>
  TFLite as a function of the model file: whether it loads and gives an interpreter, the sizes of its
  two inputs and of its output in bytes, whether the output has 16 bits, and what an invocation
  leaves in the output, unless it fails.
\<close>

record tflite_env =
  tf_build :: "string \<Rightarrow> bool"
  tf_interpreter :: "string \<Rightarrow> bool"
  tf_bytes_a :: "string \<Rightarrow> size_t"
  tf_bytes_b :: "string \<Rightarrow> size_t"
  tf_bytes_out :: "string \<Rightarrow> size_t"
  tf_int16 :: "string \<Rightarrow> bool"
  tf_invoke :: "string \<Rightarrow> tf_data \<Rightarrow> tf_data \<Rightarrow> tf_data option"
  tf_delegate :: "nat \<Rightarrow> (string \<times> string) list \<Rightarrow> nat option"
  tf_modify :: "string \<Rightarrow> nat \<Rightarrow> bool"

datatype tf_event = DelegateCreated nat | DelegateDeleted nat

record net_env =
  net_socket :: bool
  net_connect :: bool

record Model =
  md_file :: string
  md_interpreter :: bool
  md_M :: int
  md_K :: int
  md_N :: int
  md_backend_choice :: int
  md_delegate :: "nat option"
  persist_a :: ptr
  persist_b :: ptr
  persist_out :: ptr
  size_a :: size_t
  size_b :: size_t
  size_out :: size_t

text \<open>The state of the process: the engine, the scratchpad, the prefetching, the models, the requests sent, the delegates.\<close>

record npu =
  n_engine :: engine
  n_sp :: scratchpad
  n_pf :: prefetch
  n_models :: "Model list"
  n_sent :: "string list"
  n_tf :: "tf_event list"

text \<open>The environments, what uninitialised memory holds, and the schedule of the parallel loops.\<close>

record npu_env =
  ne_qnn :: qnn_env
  ne_os :: os_env
  ne_tf :: tflite_env
  ne_net :: net_env
  ne_junk :: "nat \<Rightarrow> u32"
  ne_sched :: schedule

section \<open>Models\<close>

text \<open>The moved-from model keeps its sizes and gives up what it owned.\<close>

definition Model_move :: "Model \<Rightarrow> Model \<times> Model" where
  "Model_move other =
     (other, other\<lparr>md_interpreter := False, md_delegate := None, persist_a := None, persist_b := None, persist_out := None\<rparr>)"

definition Model_delete :: "os_env \<Rightarrow> Model \<Rightarrow> scratchpad \<times> tf_event list \<Rightarrow> (scratchpad \<times> tf_event list) option" where
  "Model_delete os m = (\<lambda>(s0, l0).
     let l = (case md_delegate m of None \<Rightarrow> l0 | Some d \<Rightarrow> DelegateDeleted d # l0)
     in Option.bind (sp_free os s0 (persist_a m)) (\<lambda>s1.
        Option.bind (sp_free os s1 (persist_b m)) (\<lambda>s2.
        map_option (\<lambda>s3. (s3, l)) (sp_free os s2 (persist_out m)))))"

text \<open>Assignment from another object: delete what the target owned, take over the source.\<close>

definition Model_assign ::
  "os_env \<Rightarrow> Model \<Rightarrow> Model \<Rightarrow> scratchpad \<times> tf_event list \<Rightarrow> ((Model \<times> Model) \<times> scratchpad \<times> tf_event list) option" where
  "Model_assign os this other st = map_option (\<lambda>st'. (Model_move other, st')) (Model_delete os this st)"

definition request_tflite_generation :: "net_env \<Rightarrow> int \<Rightarrow> int \<Rightarrow> int \<Rightarrow> int \<Rightarrow> string list \<Rightarrow> string list" where
  "request_tflite_generation net M K N backend_choice sent =
     (if net_socket net \<and> net_connect net then sent @ [generate_request M K N backend_choice] else sent)"

definition model_filename :: "int \<Rightarrow> int \<Rightarrow> int \<Rightarrow> int \<Rightarrow> string" where
  "model_filename M K N backend_choice =
     (if backend_choice = 3 then ''matmuls/matmul_fp32_'' else ''matmuls/matmul_a16w8_'')
     @ to_string M @ ''x'' @ to_string K @ ''_'' @ to_string K @ ''x'' @ to_string N @ ''.tflite''"

definition delegate_options :: "string \<Rightarrow> int \<Rightarrow> (string \<times> string) list" where
  "delegate_options dir backend_choice =
     [(''backend_type'', if backend_choice = 1 then ''htp'' else if backend_choice = 2 then ''dsp''
                         else if backend_choice = 3 then ''gpu'' else []),
      (''library_path'', if backend_choice = 1 then dir @ ''/libQnnHtp.so'' else if backend_choice = 2 then dir @ ''/libQnnDsp.so''
                         else if backend_choice = 3 then dir @ ''/libQnnGpu.so'' else [])]"

text \<open>The delegate: one that cannot be applied is deleted again.\<close>

definition attach_delegate ::
  "tflite_env \<Rightarrow> string \<Rightarrow> string \<Rightarrow> int \<Rightarrow> tf_event list \<Rightarrow> nat option \<times> tf_event list" where
  "attach_delegate tf file dir backend_choice l =
     (case tf_delegate tf (length l) (delegate_options dir backend_choice) of
        None \<Rightarrow> (None, l)
      | Some d \<Rightarrow> if tf_modify tf file d then (Some d, DelegateCreated d # l)
                  else (None, DelegateDeleted d # DelegateCreated d # l))"

definition no_model :: "int \<Rightarrow> int \<Rightarrow> int \<Rightarrow> int \<Rightarrow> string \<Rightarrow> Model" where
  "no_model M K N backend_choice file =
     \<lparr>md_file = file, md_interpreter = False, md_M = M, md_K = K, md_N = N, md_backend_choice = backend_choice,
      md_delegate = None, persist_a = None, persist_b = None, persist_out = None, size_a = 0, size_b = 0, size_out = 0\<rparr>"

text \<open>The bytes of an input: what the interpreter asks for, or what will be copied there, if that is more.\<close>

definition input_bytes :: "size_t \<Rightarrow> int \<Rightarrow> int \<Rightarrow> int \<Rightarrow> size_t" where
  "input_bytes req r c backend_choice = max req (size_mul (to_size (i32 (r * c))) (if backend_choice = 3 then 4 else 2))"

definition create_model :: "npu_env \<Rightarrow> int \<Rightarrow> int \<Rightarrow> int \<Rightarrow> int \<Rightarrow> npu \<Rightarrow> (Model \<times> npu) option" where
  "create_model env M K N backend_choice st0 =
     (let st = st0\<lparr>n_sent := request_tflite_generation (ne_net env) M K N backend_choice (n_sent st0)\<rparr>;
          tf = ne_tf env; file = model_filename M K N backend_choice
      in if \<not> tf_build tf file then Some (no_model M K N backend_choice file, st)
         else if \<not> tf_interpreter tf file then Some (no_model M K N backend_choice file, st)
         else
           let pe = penv (n_engine st);
               (del, st1) = (if backend_choice > 0
                             then let (d, l) = attach_delegate tf file (project_libs_dir pe) backend_choice (n_tf st)
                                  in (d, st\<lparr>n_tf := l, n_engine := (n_engine st)\<lparr>penv := set_library_paths pe\<rparr>\<rparr>)
                             else (None, st));
               sa = input_bytes (tf_bytes_a tf file) M K backend_choice;
               sb = input_bytes (tf_bytes_b tf file) K N backend_choice;
               so = tf_bytes_out tf file
           in Option.bind (alloc (ne_os env) (n_sp st1) sa) (\<lambda>(pa, s1).
              Option.bind (alloc (ne_os env) s1 sb) (\<lambda>(pb, s2).
              map_option (\<lambda>(po, s3).
                  ((no_model M K N backend_choice file)\<lparr>md_interpreter := True, md_delegate := del, persist_a := pa, persist_b := pb,
                     persist_out := po, size_a := sa, size_b := sb, size_out := so\<rparr>, st1\<lparr>n_sp := s3\<rparr>))
                (alloc (ne_os env) s2 so))))"

definition same_request :: "int \<Rightarrow> int \<Rightarrow> int \<Rightarrow> int \<Rightarrow> Model \<Rightarrow> bool" where
  "same_request M K N backend_choice m \<longleftrightarrow>
     md_M m = M \<and> md_K m = K \<and> md_N m = N \<and> md_backend_choice m = backend_choice"

definition fetch_model :: "npu_env \<Rightarrow> int \<Rightarrow> int \<Rightarrow> int \<Rightarrow> int \<Rightarrow> npu \<Rightarrow> (Model \<times> npu) option" where
  "fetch_model env M K N backend_choice st =
     (case find (same_request M K N backend_choice) (n_models st) of
        Some m \<Rightarrow> Some (m, st)
      | None \<Rightarrow> map_option (\<lambda>(m, st'). (m, st'\<lparr>n_models := n_models st' @ [m]\<rparr>)) (create_model env M K N backend_choice st))"

section \<open>The product of two quantised matrices\<close>

text \<open>One element: the accumulator scaled by the exponents and precisions, and the product of the means.\<close>

definition product_value :: "int \<Rightarrow> int \<Rightarrow> int \<Rightarrow> f32 \<Rightarrow> int \<Rightarrow> int \<Rightarrow> f32 \<Rightarrow> int \<Rightarrow> f32" where
  "product_value K exp_a prec_a mean_a exp_b prec_b mean_b raw_val =
     (let total_exp = i32 (exp_a + exp_b);
          total_prec = i32 (prec_a + prec_b);
          scale = fast_pow2 (i32 (total_exp - total_prec));
          dequantized = f32_mul (f32_of_int raw_val) scale;
          correction = f32_mul (f32_mul (f32_of_int K) mean_a) mean_b
      in f32_add dequantized correction)"

text \<open>
  A row of the result. The accumulators have \<open>nb\<close> columns and the result \<open>N\<close>; \<open>upd\<close> combines what is
  there with the new value.
\<close>

definition product_row ::
  "(f32 \<Rightarrow> f32 \<Rightarrow> f32) \<Rightarrow> (int \<Rightarrow> int option) \<Rightarrow> int \<Rightarrow> FixedPointBlock \<Rightarrow> FixedPointBlock \<Rightarrow> int \<Rightarrow> int \<Rightarrow> int
    \<Rightarrow> f32 list \<Rightarrow> f32 list option" where
  "product_row upd raw K fa fb nb N i out0 =
     Option.bind (array_get (means fa) i) (\<lambda>mean_a.
     Option.bind (array_get (exponents fa) i) (\<lambda>exp_a.
     Option.bind (array_get (precisions fa) i) (\<lambda>prec_a.
       loop_opt (\<lambda>j out.
         Option.bind (array_get (exponents fb) j) (\<lambda>exp_b.
         Option.bind (array_get (precisions fb) j) (\<lambda>prec_b.
         Option.bind (array_get (means fb) j) (\<lambda>mean_b.
         Option.bind (raw (i32 (i32 (i * nb) + j))) (\<lambda>x.
         Option.bind (array_get out (i32 (i32 (i * N) + j))) (\<lambda>old.
           array_set out (i32 (i32 (i * N) + j)) (upd old (product_value K exp_a prec_a mean_a exp_b prec_b mean_b x))))))))
         [0..nb - 1] out0)))"

definition product_rows ::
  "schedule \<Rightarrow> bool \<Rightarrow> (f32 \<Rightarrow> f32 \<Rightarrow> f32) \<Rightarrow> (int \<Rightarrow> int option) \<Rightarrow> int \<Rightarrow> FixedPointBlock \<Rightarrow> FixedPointBlock
    \<Rightarrow> int \<Rightarrow> int \<Rightarrow> int \<Rightarrow> f32 list \<Rightarrow> f32 list option" where
  "product_rows sched cond upd raw K fa fb mb nb N C =
     map_option fst
       (omp_for (omp_threads sched cond mb)
          (\<lambda>i (out, u). map_option (\<lambda>out'. (out', u)) (product_row upd raw K fa fb nb N i out))
          (\<lambda>_ _. ()) () (C, ()))"

text \<open>The accelerator's accumulator, and the interpreter's.\<close>

definition raw_u16 :: "u16 list \<Rightarrow> int \<Rightarrow> int option" where
  "raw_u16 buf idx = map_option (\<lambda>x. uint x - 32768) (array_get buf idx)"

text \<open>The transposed weights; a buffer of bytes with the zero point added; a fresh buffer of the scratchpad.\<close>

definition transpose_weights :: "f32 list \<Rightarrow> int \<Rightarrow> int \<Rightarrow> f32 list option" where
  "transpose_weights B K N =
     those (concat (map (\<lambda>r. map (\<lambda>c. array_get B (i32 (i32 (c * N) + r))) [0..K - 1]) [0..N - 1]))"

definition offset_bytes :: "ptr \<Rightarrow> int \<Rightarrow> int list \<Rightarrow> u8 list option" where
  "offset_bytes p n mant =
     (if p = None \<and> n > 0 then None
      else those (map (\<lambda>i. map_option (\<lambda>m. word_of_int (m + 127)) (array_get mant i)) [0..n - 1]))"

definition fresh_u16 :: "(nat \<Rightarrow> u32) \<Rightarrow> ptr \<Rightarrow> size_t \<Rightarrow> u16 list" where
  "fresh_u16 junk p bytes = fresh_array (\<lambda>a. ucast (junk a)) p bytes 2"

section \<open>The product on the engine\<close>

text \<open>
  Both matrices become blocks of bytes, the weights transposed; the accelerator multiplies; the result
  is scaled back. The temporary buffers and the blocks are given back at the end.
\<close>

definition matmul_int8_engine ::
  "npu_env \<Rightarrow> f32 list \<Rightarrow> f32 list \<Rightarrow> f32 list \<Rightarrow> int \<Rightarrow> int \<Rightarrow> int \<Rightarrow> npu \<Rightarrow> (f32 list \<times> npu) option" where
  "matmul_int8_engine env A B C M K N st =
     Option.bind (getOrCreateGraph (ne_qnn env) M K N None (n_engine st)) (\<lambda>(ref, e1).
     Option.bind (get_graph e1 ref) (\<lambda>graph.
       if \<not> isValid graph then Some (C, st\<lparr>n_engine := e1\<rparr>)
       else
         let os = ne_os env; sched = ne_sched env; junk = ne_junk env in
         Option.bind (make_block 8 junk os sched M K K True A (n_sp st)) (\<lambda>(fixed_A, s1).
         Option.bind (transpose_weights B K N) (\<lambda>slice_B.
         Option.bind (make_block 8 junk os sched N K K True slice_B s1) (\<lambda>(fixed_B, s2).
         Option.bind (alloc os s2 (to_size (i32 (M * K)))) (\<lambda>(pA, s3).
         Option.bind (alloc os s3 (to_size (i32 (N * K)))) (\<lambda>(pB, s4).
         Option.bind (offset_bytes pA (i32 (M * K)) (mantissa fixed_A)) (\<lambda>u_A.
         Option.bind (offset_bytes pB (i32 (N * K)) (mantissa fixed_B)) (\<lambda>u_B.
         Option.bind (alloc os s4 (to_size (i32 (i32 (M * N) * 2)))) (\<lambda>(pO, s5).
         Option.bind (execute (ne_qnn env) ref (Bytes u_A) u_B (fresh_u16 junk pO (to_size (i32 (i32 (M * N) * 2)))) e1) (\<lambda>(out_buf, e2).
         Option.bind (sp_free os s5 pA) (\<lambda>s6.
         Option.bind (sp_free os s6 pB) (\<lambda>s7.
         Option.bind (product_rows sched (i32 (M * N) > 10000) (\<lambda>old v. v) (raw_u16 out_buf) K fixed_A fixed_B M N N C) (\<lambda>C'.
         Option.bind (sp_free os s7 pO) (\<lambda>s8.
         Option.bind (FixedPointBlock_delete os s8 fixed_B) (\<lambda>s9.
         Option.bind (FixedPointBlock_delete os s9 fixed_A) (\<lambda>s10.
           Some (C', st\<lparr>n_engine := e2, n_sp := s10\<rparr>))))))))))))))))))"

section \<open>The fallback\<close>

text \<open>Copying the first \<open>n\<close> elements of \<open>k\<close> bytes into a buffer, or out of it.\<close>

definition copy_in :: "ptr \<Rightarrow> size_t \<Rightarrow> int \<Rightarrow> nat \<Rightarrow> 'a list \<Rightarrow> 'a list option" where
  "copy_in p bytes n k xs =
     (let size = size_mul (to_size n) k
      in if size = 0 then Some []
         else if p = None \<or> bytes < size \<or> length xs * k < size then None else Some (take (size div k) xs))"

definition copy_out :: "ptr \<Rightarrow> size_t \<Rightarrow> int \<Rightarrow> f32 list \<Rightarrow> f32 list \<Rightarrow> f32 list option" where
  "copy_out p bytes n out C =
     (let size = size_mul (to_size n) 4
      in if size = 0 then Some C
         else if p = None \<or> bytes < size \<or> length out * 4 < size \<or> length C * 4 < size then None
         else Some (take (size div 4) out @ drop (size div 4) C))"

text \<open>Backend 3 multiplies floats.\<close>

definition matmul_float :: "npu_env \<Rightarrow> Model \<Rightarrow> f32 list \<Rightarrow> f32 list \<Rightarrow> f32 list \<Rightarrow> int \<Rightarrow> int \<Rightarrow> int \<Rightarrow> f32 list option" where
  "matmul_float env m A B C M K N =
     Option.bind (copy_in (persist_a m) (size_a m) (i32 (M * K)) 4 A) (\<lambda>a.
     Option.bind (copy_in (persist_b m) (size_b m) (i32 (K * N)) 4 B) (\<lambda>b.
       case tf_invoke (ne_tf env) (md_file m) (Floats a) (Floats b) of
         None \<Rightarrow> Some C
       | Some (Floats out) \<Rightarrow> copy_out (persist_out m) (size_out m) (i32 (M * N)) out C
       | Some _ \<Rightarrow> None))"

text \<open>The accumulators of the interpreter, read with the width of its output within the buffer.\<close>

definition raw_output :: "tf_data \<Rightarrow> bool \<Rightarrow> ptr \<Rightarrow> size_t \<Rightarrow> int \<Rightarrow> int option" where
  "raw_output out int16 p bytes idx =
     (if p = None \<or> idx < 0 \<or> bytes < (nat idx + 1) * (if int16 then 2 else 4) then None
      else case out of
             Shorts xs \<Rightarrow> if int16 then array_get xs idx else None
           | Longs xs \<Rightarrow> if int16 then None else array_get xs idx
           | Floats xs \<Rightarrow> None)"

text \<open>
  The weights: the prefetched block when its sizes fit, else the matrix is made into a block. A
  prefetched block of other sizes is deleted.
\<close>

definition fetch_weights ::
  "npu_env \<Rightarrow> f32 list \<Rightarrow> int \<Rightarrow> int \<Rightarrow> prefetch \<times> scratchpad \<Rightarrow> ((bool \<times> FixedPointBlock) \<times> prefetch \<times> scratchpad) option" where
  "fetch_weights env B K N = (\<lambda>(p, s).
     let (popped, p1) = queue_pop p;
         make = (\<lambda>s. map_option (\<lambda>(b, s'). ((False, b), p1, s'))
                   (make_block 16 (ne_junk env) (ne_os env) (ne_sched env) K N K False B s))
     in case popped of
          None \<Rightarrow> make s
        | Some b \<Rightarrow> if rows b = K \<and> cols b = N then Some ((True, b), p1, s)
                    else Option.bind (FixedPointBlock_delete (ne_os env) s b) make)"

text \<open>A block that was prefetched is not deleted.\<close>

definition delete_unless :: "bool \<Rightarrow> os_env \<Rightarrow> FixedPointBlock \<Rightarrow> scratchpad \<Rightarrow> scratchpad option" where
  "delete_unless used_prefetched os b s = (if used_prefetched then Some s else FixedPointBlock_delete os s b)"

definition matmul_quantised ::
  "npu_env \<Rightarrow> Model \<Rightarrow> f32 list \<Rightarrow> f32 list \<Rightarrow> f32 list \<Rightarrow> int \<Rightarrow> int \<Rightarrow> int \<Rightarrow> npu \<Rightarrow> (f32 list \<times> npu) option" where
  "matmul_quantised env m A B C M K N st =
     (let os = ne_os env; sched = ne_sched env in
      Option.bind (make_block 16 (ne_junk env) os sched M K K True A (n_sp st)) (\<lambda>(fixed_A, s1).
      Option.bind (fetch_weights env B K N (n_pf st, s1)) (\<lambda>((used_prefetched, fixed_B), p1, s2).
      Option.bind (copy_in (persist_a m) (size_a m) (i32 (M * K)) 2 (mantissa fixed_A)) (\<lambda>a.
      Option.bind (copy_in (persist_b m) (size_b m) (i32 (K * N)) 2 (mantissa fixed_B)) (\<lambda>b.
      Option.bind
        (case tf_invoke (ne_tf env) (md_file m) (Shorts a) (Shorts b) of
           None \<Rightarrow> Some C
         | Some out \<Rightarrow>
             product_rows sched (i32 (M * N) > 10000) (\<lambda>old v. v)
               (raw_output out (tf_int16 (ne_tf env) (md_file m)) (persist_out m) (size_out m)) K fixed_A fixed_B M N N C)
        (\<lambda>C'.
      Option.bind (delete_unless used_prefetched os fixed_B s2) (\<lambda>s3.
      Option.bind (FixedPointBlock_delete os s3 fixed_A) (\<lambda>s4.
        Some (C', st\<lparr>n_pf := p1, n_sp := s4\<rparr>)))))))))"

definition matmul_int8 ::
  "npu_env \<Rightarrow> f32 list \<Rightarrow> f32 list \<Rightarrow> f32 list \<Rightarrow> int \<Rightarrow> int \<Rightarrow> int \<Rightarrow> int \<Rightarrow> npu \<Rightarrow> (f32 list \<times> npu) option" where
  "matmul_int8 env A B C M K N backend_choice st0 =
     (let st = st0\<lparr>n_engine := loadBackend (ne_qnn env) backend_choice (n_engine st0)\<rparr>
      in if isLoaded (n_engine st) then matmul_int8_engine env A B C M K N st
         else
           Option.bind (fetch_model env M K N backend_choice st) (\<lambda>(m, st1).
             if \<not> md_interpreter m then Some (C, st1)
             else if backend_choice = 3 then map_option (\<lambda>C'. (C', st1)) (matmul_float env m A B C M K N)
             else matmul_quantised env m A B C M K N st1))"

end
