(* ===== verification/MatmulLoop.thy ===== *)
theory MatmulLoop
  imports TfliteManager
begin

text \<open>
  The loop that scales the accumulators of a product back to floats: for every schedule it updates each
  element of the result once, with the exponents, precisions and means of its row and its column.
\<close>

section \<open>Rows of an array\<close>

text \<open>The columns below \<open>k\<close> of row \<open>i\<close> of an array with \<open>n\<close> columns, updated with \<open>f\<close>.\<close>

definition row_upd :: "nat \<Rightarrow> nat \<Rightarrow> (nat \<Rightarrow> 'a \<Rightarrow> 'a) \<Rightarrow> nat \<Rightarrow> 'a list \<Rightarrow> 'a list" where
  "row_upd n k f i out = map (\<lambda>p. if i * n \<le> p \<and> p < i * n + k then f (p - i * n) (out ! p) else out ! p) [0..<length out]"

lemma length_row_upd [simp]: "length (row_upd n k f i out) = length out"
  by (simp add: row_upd_def)

lemma row_upd_nth:
  "p < length out \<Longrightarrow> row_upd n k f i out ! p = (if i * n \<le> p \<and> p < i * n + k then f (p - i * n) (out ! p) else out ! p)"
  by (simp add: row_upd_def)

lemma row_upd_0: "row_upd n 0 f i out = out"
  by (rule nth_equalityI) (auto simp: row_upd_nth)

lemma row_upd_Suc:
  assumes "i * n + k < length out"
  shows "(row_upd n k f i out)[i * n + k := f k (out ! (i * n + k))] = row_upd n (Suc k) f i out"
proof (rule nth_equalityI)
  fix p assume "p < length ((row_upd n k f i out)[i * n + k := f k (out ! (i * n + k))])"
  then have p: "p < length out" by simp
  show "(row_upd n k f i out)[i * n + k := f k (out ! (i * n + k))] ! p = row_upd n (Suc k) f i out ! p"
    by (cases "p = i * n + k") (use p in \<open>auto simp: row_upd_nth\<close>)
qed simp

text \<open>Rows do not overlap, so updating several rows updates each element of them once.\<close>

lemma fold_row_upd:
  assumes "distinct is" "k \<le> n" "p < length out"
  shows "fold (\<lambda>i. row_upd n k (f i) i) is out ! p
    = (if p div n \<in> set is \<and> p mod n < k then f (p div n) (p mod n) (out ! p) else out ! p)"
  using assms
proof (induction "is" arbitrary: out)
  case (Cons i "is")
  have row: "i * n \<le> p \<and> p < i * n + k \<longleftrightarrow> p div n = i \<and> p mod n < k"
  proof
    assume a: "i * n \<le> p \<and> p < i * n + k"
    then have "p div n = i" using Cons.prems(2) by (intro div_nat_eqI) (auto simp: mult.commute)
    moreover from this have "p = i * n + p mod n" by (metis div_mult_mod_eq)
    ultimately show "p div n = i \<and> p mod n < k" using a by linarith
  next
    assume a: "p div n = i \<and> p mod n < k"
    then show "i * n \<le> p \<and> p < i * n + k" using div_mult_mod_eq [of p n] by (metis le_add1 nat_add_left_cancel_less)
  qed
  have m: "p - i * n = p mod n" if "p div n = i" using that by (metis minus_div_mult_eq_mod)
  have "fold (\<lambda>i. row_upd n k (f i) i) (i # is) out ! p
      = (if p div n \<in> set is \<and> p mod n < k then f (p div n) (p mod n) (row_upd n k (f i) i out ! p) else row_upd n k (f i) i out ! p)"
    using Cons by simp
  then show ?case using Cons.prems(1) row m by (auto simp: row_upd_nth [OF Cons.prems(3)])
qed simp

section \<open>The loop\<close>


definition product_at ::
  "int \<Rightarrow> FixedPointBlock \<Rightarrow> FixedPointBlock \<Rightarrow> nat \<Rightarrow> nat \<Rightarrow> int \<Rightarrow> f32" where
  "product_at K fa fb i j x =
     product_value K (exponents fa ! i) (precisions fa ! i) (means fa ! i) (exponents fb ! j) (precisions fb ! j) (means fb ! j) x"

definition lines_at_least :: "nat \<Rightarrow> FixedPointBlock \<Rightarrow> bool" where
  "lines_at_least n b \<longleftrightarrow> n \<le> length (exponents b) \<and> n \<le> length (precisions b) \<and> n \<le> length (means b)"

lemma product_row_eq:
  assumes "lines_at_least (Suc i) fa" "lines_at_least k fb" "k \<le> n" "int (Suc i) * int n < 2 ^ 31" "i * n + k \<le> length out"
    and "\<And>j. j < k \<Longrightarrow> raw (int (i * k + j)) = Some (x i j)" "int (Suc i) * int k < 2 ^ 31"
  shows "product_row upd raw K fa fb (int k) (int n) (int i) out
    = Some (row_upd n k (\<lambda>j old. upd old (product_at K fa fb i j (x i j))) i out)"
proof -
  have idx: "i32 (i32 (int i * int w) + int j) = int (i * w + j)" if "j < w" "int (Suc i) * int w < 2 ^ 31" for j w
  proof -
    have b: "int i * int w + int w < 2147483648" using that(2) by (simp add: algebra_simps)
    have nn: "0 \<le> int i * int w" by simp
    have "i32 (int i * int w) = int i * int w" using b nn by (intro i32_id) linarith+
    moreover have "i32 (int i * int w + int j) = int i * int w + int j" using b nn that(1) by (intro i32_id) linarith+
    ultimately show ?thesis by simp
  qed
  let ?u = "\<lambda>j old. upd old (product_at K fa fb i j (x i j))"
  let ?body = "\<lambda>j out. Option.bind (array_get (exponents fb) j) (\<lambda>exp_b. Option.bind (array_get (precisions fb) j) (\<lambda>prec_b.
         Option.bind (array_get (means fb) j) (\<lambda>mean_b. Option.bind (raw (i32 (i32 (int i * int k) + j))) (\<lambda>x.
         Option.bind (array_get out (i32 (i32 (int i * int n) + j))) (\<lambda>old.
           array_set out (i32 (i32 (int i * int n) + j)) (upd old (product_value K (exponents fa ! i) (precisions fa ! i) (means fa ! i)
             exp_b prec_b mean_b x)))))))"
  have body: "?body (int j) out' = Some (out'[i * n + j := ?u j (out' ! (i * n + j))])"
    if "j < k" "length out' = length out" for j out'
  proof -
    have "j < length (exponents fb)" "j < length (precisions fb)" "j < length (means fb)" "i * n + j < length out'"
      using assms(2,3,5) that by (auto simp: lines_at_least_def)
    then show ?thesis
      unfolding idx [OF that(1) assms(7)] idx [OF less_le_trans [OF that(1) assms(3)] assms(4)] assms(6) [OF that(1)]
      by (simp add: product_at_def del: of_nat_add of_nat_mult)
  qed
  have "loop_opt ?body (map int [0..<m]) out = Some (row_upd n m ?u i out)" if "m \<le> k" for m
    using that
  proof (induction m)
    case (Suc m)
    then have "i * n + m < length out" using assms(5) by simp
    then have "(row_upd n m ?u i out)[i * n + m := ?u m (row_upd n m ?u i out ! (i * n + m))] = row_upd n (Suc m) ?u i out"
      using row_upd_Suc [of i n m out ?u] by (simp add: row_upd_nth)
    then show ?case using Suc body [of m "row_upd n m ?u i out"] by (simp add: loop_opt_append)
  qed (simp add: row_upd_0)
  from this [OF order_refl] show ?thesis
    using assms(1) unfolding product_row_def lines_at_least_def by (simp add: upto_0_int)
qed

lemma product_rows_eq:
  assumes "schedule_ok sched" "lines_at_least m fa" "lines_at_least k fb" "k \<le> n" "int m * int n < 2 ^ 31"
    and "m * n \<le> length C" "\<And>i j. i < m \<Longrightarrow> j < k \<Longrightarrow> raw (int (i * k + j)) = Some (x i j)"
  shows "\<exists>C'. product_rows sched cond upd raw K fa fb (int m) (int k) (int n) C = Some C' \<and> length C' = length C
    \<and> (\<forall>i<m. \<forall>j<k. C' ! (i * n + j) = upd (C ! (i * n + j)) (product_at K fa fb i j (x i j)))
    \<and> (\<forall>p<length C. \<not> (p div n < m \<and> p mod n < k) \<longrightarrow> C' ! p = C ! p)"
proof -
  let ?t = "omp_threads sched cond (int m)"
  let ?f = "\<lambda>l. row_upd n k (\<lambda>j old. upd old (product_at K fa fb (nat l) j (x (nat l) j))) (nat l)"
  have t: "distinct (concat ?t)" "set (concat ?t) = {0..<int m}"
    using omp_threads_ok [OF assms(1), of cond "int m"] by auto
  have row: "product_row upd raw K fa fb (int k) (int n) l out = Some (?f l out) \<and> length (?f l out) = length C"
    if l: "l \<in> set (concat ?t)" and len: "length out = length C" for l out
  proof -
    obtain i where i: "l = int i" "i < m" using l unfolding t(2) by (metis atLeastLessThan_iff nonneg_int_cases of_nat_less_iff)
    have "Suc i * n \<le> m * n" using i(2) by (intro mult_le_mono1) simp
    then have b: "int (Suc i) * int n < 2 ^ 31" "i * n + k \<le> length out"
    proof -
      assume le: "Suc i * n \<le> m * n"
      then have "int (Suc i) * int n \<le> int m * int n" by (metis of_nat_le_iff of_nat_mult)
      then show "int (Suc i) * int n < 2 ^ 31" using assms(5) by linarith
      show "i * n + k \<le> length out" using le assms(4,6) len by simp
    qed
    have "int (Suc i) * int k \<le> int (Suc i) * int n" using assms(4) by (intro mult_left_mono) simp_all
    then have bk: "int (Suc i) * int k < 2 ^ 31" using b(1) by linarith
    have "lines_at_least (Suc i) fa" using assms(2) i(2) by (auto simp: lines_at_least_def)
    then have "product_row upd raw K fa fb (int k) (int n) (int i) out
        = Some (row_upd n k (\<lambda>j old. upd old (product_at K fa fb i j (x i j))) i out)"
      by (rule product_row_eq) (use assms(3,4) b bk assms(7) [OF i(2)] in simp_all)
    then show ?thesis using len by (simp add: i(1))
  qed
  have "product_rows sched cond upd raw K fa fb (int m) (int k) (int n) C = Some (fold ?f (concat ?t) C)"
    unfolding product_rows_def using omp_for_unit [where P = "\<lambda>out. length out = length C" and f = ?f, OF row refl] by blast
  moreover have f: "fold ?f (concat ?t) C = fold (\<lambda>i. row_upd n k (\<lambda>j old. upd old (product_at K fa fb i j (x i j))) i) (map nat (concat ?t)) C"
    by (simp add: fold_map comp_def)
  have d: "distinct (map nat (concat ?t))" using t by (auto simp: distinct_map inj_on_def)
  have s: "i \<in> set (map nat (concat ?t)) \<longleftrightarrow> i < m" for i unfolding set_map t(2) by (auto simp: image_iff intro: bexI [of _ "int i"])
  note fr = fold_row_upd [OF d assms(4), where out = C and f = "\<lambda>i j old. upd old (product_at K fa fb i j (x i j))", folded f, unfolded s]
  have "fold ?f (concat ?t) C ! (i * n + j) = upd (C ! (i * n + j)) (product_at K fa fb i j (x i j))" if "i < m" "j < k" for i j
  proof -
    have dm: "(i * n + j) div n = i" "(i * n + j) mod n = j" using that assms(4) by auto
    have "Suc i * n \<le> m * n" using that(1) by (intro mult_le_mono1) simp
    then have "i * n + j < length C" using that(2) assms(4,6) by simp
    from fr [OF this] show ?thesis using that unfolding dm by simp
  qed
  moreover have "length (fold ?f is C) = length C" for "is" by (induction "is" rule: rev_induct) simp_all
  ultimately show ?thesis using fr by (intro exI [of _ "fold ?f (concat ?t) C"]) auto
qed

end
