(* ===== verification/MatmulEngine.thy ===== *)
theory MatmulEngine
  imports MatmulLoop
begin

text \<open>
  The product on the engine, end to end: what the accelerator is given, what is made of its answer, and
  the memory and the handles that are left.
\<close>

section \<open>Requests the system refused\<close>

definition refused :: "os_event list \<Rightarrow> bool" where
  "refused l \<longleftrightarrow> (\<exists>n. PosixMemalign 128 n None \<in> set l)"

lemma refused_mono: "set l \<subseteq> set l' \<Longrightarrow> refused l \<Longrightarrow> refused l'"
  by (auto simp: refused_def)

lemma initialize_log: "set (os_log s) \<subseteq> set (os_log (initialize_if_needed os s))"
proof -
  have "set (os_log s) \<subseteq> set (snd (load_rpcmem_once os (rpc s, os_log s)))" by (auto simp: load_rpcmem_once_def Let_def)
  then have "set (os_log s) \<subseteq> set (os_log (sp_load_rpcmem os s))" by (simp add: sp_load_rpcmem_def split_beta)
  then show ?thesis by (auto simp: initialize_if_needed_def Let_def split: option.splits)
qed

lemma alloc_log:
  assumes "alloc os s n = Some (p, s')"
  shows "set (os_log s) \<subseteq> set (os_log s')" "\<not> refused (os_log s') \<Longrightarrow> p \<noteq> nullptr"
proof -
  show "set (os_log s) \<subseteq> set (os_log s')"
    using assms initialize_log [of s os] by (auto simp: alloc_def Let_def split: bind_splits option.splits)
  have "refused (os_log s')" if "p = nullptr"
  proof -
    let ?i = "initialize_if_needed os s"
    have "os_log s' = PosixMemalign 128 (align128 n) (env_posix_memalign os (os_log ?i) (align128 n)) # os_log ?i"
      "env_posix_memalign os (os_log ?i) (align128 n) = p"
      using assms that by (auto simp: alloc_def Let_def split: bind_splits option.splits)
    then show ?thesis using that by (auto simp: refused_def)
  qed
  then show "\<not> refused (os_log s') \<Longrightarrow> p \<noteq> nullptr" by blast
qed

lemma free_log: "sp_free os s p = Some s' \<Longrightarrow> set (os_log s) \<subseteq> set (os_log s')"
  by (auto simp: sp_free_def split: option.splits if_splits)

lemma delete_log: "FixedPointBlock_delete os s b = Some s' \<Longrightarrow> set (os_log s) \<subseteq> set (os_log s')"
  by (simp add: FixedPointBlock_delete_def split: bind_splits) (meson free_log order_trans)

lemma make_block_log:
  assumes "make_block w junk os sched r c bs bc xs s = Some (b, s')"
  shows "set (os_log s) \<subseteq> set (os_log s')" "\<not> refused (os_log s') \<Longrightarrow> nullptr \<notin> set (block_ptrs b)"
proof -
  obtain b0 b1 where m: "FixedPointBlock_new w junk os s r c bs bc 0 = Some (b0, s')" "fit_exponent sched xs b0 = Some b1"
    "floats_to_mantissa w sched xs (quant_default 0 8) b1 = Some b"
    using assms by (auto simp: make_block_def split: bind_splits)
  have st: "block_ptrs b = block_ptrs b0"
    using fit_exponent_static [OF m(2)] floats_to_mantissa_static [OF m(3)] by (simp add: fp_static_def)
  obtain n1 n2 pm s1 pe s2 pa s3 ps s4 pp where a: "alloc os s n1 = Some (pm, s1)" "alloc os s1 n2 = Some (pe, s2)"
    "alloc os s2 n2 = Some (pa, s3)" "alloc os s3 n2 = Some (ps, s4)" "alloc os s4 n2 = Some (pp, s')"
    "block_ptrs b0 = [pm, pe, pa, ps, pp]"
    using m(1) by (auto simp: FixedPointBlock_new_def Let_def block_ptrs_def split: bind_splits)
  note l = alloc_log(1) [OF a(1)] alloc_log(1) [OF a(2)] alloc_log(1) [OF a(3)] alloc_log(1) [OF a(4)] alloc_log(1) [OF a(5)]
  show "set (os_log s) \<subseteq> set (os_log s')" using l by blast
  show "nullptr \<notin> set (block_ptrs b)" if "\<not> refused (os_log s')"
    using that l refused_mono alloc_log(2) [OF a(1)] alloc_log(2) [OF a(2)] alloc_log(2) [OF a(3)] alloc_log(2) [OF a(4)]
      alloc_log(2) [OF a(5)] unfolding st a(6) by (metis (no_types, lifting) empty_set insertE list.simps(15) order_trans empty_iff)
qed

section \<open>Sizes\<close>

text \<open>The sizes of a product whose index arithmetic stays within an \<open>int\<close>.\<close>

definition product_dims :: "int \<Rightarrow> int \<Rightarrow> int \<Rightarrow> bool" where
  "product_dims M K N \<longleftrightarrow> 0 \<le> M \<and> 0 < K \<and> 0 \<le> N \<and> M < 2 ^ 31 \<and> N < 2 ^ 31 \<and> K + K < 2 ^ 31
     \<and> M * K < 2 ^ 31 \<and> N * K < 2 ^ 31 \<and> M * N * 2 < 2 ^ 31"

lemma product_dims_lines:
  assumes "product_dims M K N"
  shows "whole_lines M K K True" "whole_lines N K K True" "whole_lines K N K False"
  using assms by (auto simp: product_dims_def whole_lines_def dims_ok_def mult.commute)

lemma i32_small: "0 \<le> x \<Longrightarrow> x < 2 ^ 31 \<Longrightarrow> i32 x = x"
  by (rule i32_id) simp_all

text \<open>The weights transposed: their rows are the columns of the matrix.\<close>

lemma those_SomeD: "those xs = Some ys \<Longrightarrow> xs = map Some ys"
  by (induction xs arbitrary: ys) (auto split: option.splits)

lemma concat_rows:
  "length (concat (map (\<lambda>r. map (f r) [0..<k]) [0..<n])) = n * k"
  "r < n \<Longrightarrow> c < k \<Longrightarrow> concat (map (\<lambda>r. map (f r) [0..<k]) [0..<n]) ! (r * k + c) = f r c"
proof -
  show len: "length (concat (map (\<lambda>r. map (f r) [0..<k]) [0..<n])) = n * k" for n
    by (induction n) simp_all
  show "concat (map (\<lambda>r. map (f r) [0..<k]) [0..<n]) ! (r * k + c) = f r c" if "r < n" "c < k"
    using that
  proof (induction n)
    case (Suc n)
    show ?case
    proof (cases "r = n")
      case True
      then show ?thesis using Suc.prems(2) len [of n] by (simp add: nth_append)
    next
      case False
      then have "r < n" using Suc.prems(1) by simp
      moreover from this have "Suc r * k \<le> n * k" by (intro mult_le_mono1) simp
      ultimately show ?thesis using Suc.IH Suc.prems(2) len [of n] by (simp add: nth_append)
    qed
  qed simp
qed

lemma flat_index:
  assumes "r < nat N" "c < nat K" "K * N < 2 ^ 31"
  shows "i32 (i32 (int c * N) + int r) = int (c * nat N + r)" "c * nat N + r < nat (K * N)"
proof -
  have n: "0 \<le> N" "0 \<le> K" using assms by linarith+
  have "(int c + 1) * N \<le> K * N" using assms n by (intro mult_right_mono) linarith+
  then have le: "int c * N + N \<le> K * N" by (simp add: algebra_simps)
  moreover have "K * N < 2147483648" using assms(3) by simp
  ultimately have b: "int c * N + N < 2147483648" by linarith
  have nn: "0 \<le> int c * N" using n(1) by simp
  have "i32 (int c * N) = int c * N" using b nn n(1) by (intro i32_id) linarith+
  moreover have "i32 (int c * N + int r) = int c * N + int r" using b nn assms(1) by (intro i32_id) linarith+
  ultimately show "i32 (i32 (int c * N) + int r) = int (c * nat N + r)" using n(1) by simp
  have "int (c * nat N + r) < K * N" using le assms(1) n(1) by simp
  then show "c * nat N + r < nat (K * N)" by (simp only: zless_nat_eq_int_zless)
qed

lemma transpose_weights_eq:
  assumes "product_dims M K N" "nat (K * N) \<le> length B"
  shows "transpose_weights B K N = Some (concat (map (\<lambda>r. map (\<lambda>c. B ! (c * nat N + r)) [0..<nat K]) [0..<nat N]))"
proof -
  have d: "0 \<le> N" "0 < K" "K * N < 2 ^ 31" using assms(1) by (auto simp: product_dims_def mult.commute)
  have e: "[0..N - 1] = map int [0..<nat N]" "[0..K - 1] = map int [0..<nat K]"
    using d upto_0_int [of "nat N"] upto_0_int [of "nat K"] by simp_all
  have get: "array_get B (i32 (i32 (int c * N) + int r)) = Some (B ! (c * nat N + r))" if "r < nat N" "c < nat K" for r c
    unfolding flat_index(1) [OF that d(3)] by (rule array_get_nat) (use flat_index(2) [OF that d(3)] assms(2) in linarith)
  have "concat (map (\<lambda>r. map (\<lambda>c. array_get B (i32 (i32 (c * N) + r))) [0..K - 1]) [0..N - 1])
      = map Some (concat (map (\<lambda>r. map (\<lambda>c. B ! (c * nat N + r)) [0..<nat K]) [0..<nat N]))"
    unfolding e map_map map_concat by (intro arg_cong [of _ _ concat] map_cong refl) (simp add: get)
  then show ?thesis unfolding transpose_weights_def by (simp only: those_Some_map)
qed

lemma transpose_weights_nth:
  assumes "transpose_weights B K N = Some S" "product_dims M K N" "nat (K * N) \<le> length B"
  shows "length S = nat (N * K)" "\<And>r c. r < nat N \<Longrightarrow> c < nat K \<Longrightarrow> S ! (r * nat K + c) = B ! (c * nat N + r)"
proof -
  let ?g = "\<lambda>r c. B ! (c * nat N + r)"
  have S: "S = concat (map (\<lambda>r. map (?g r) [0..<nat K]) [0..<nat N])"
    using assms(1) unfolding transpose_weights_eq [OF assms(2,3)] by simp
  have "nat N * nat K = nat (N * K)" using assms(2) by (simp add: product_dims_def nat_mult_distrib)
  then show "length S = nat (N * K)" using concat_rows(1) [of ?g "nat K" "nat N"] unfolding S by simp
  show "S ! (r * nat K + c) = B ! (c * nat N + r)" if "r < nat N" "c < nat K" for r c
    unfolding S by (rule concat_rows(2) [OF that])
qed

lemma transposed_line:
  assumes "transpose_weights B K N = Some S" "product_dims M K N" "nat (K * N) \<le> length B" "j < nat N"
  shows "line_of True N K S j = line_of False K N B j"
  using transpose_weights_nth(2) [OF assms] by (simp add: line_of_def)

text \<open>The bytes of a quantised matrix.\<close>

lemma offset_bytes_eq:
  assumes "p \<noteq> None" "nat n \<le> length mant"
  shows "offset_bytes p n mant = Some (map (\<lambda>i. word_of_int (mant ! i + 127)) [0..<nat n])"
proof -
  have e: "[0..n - 1] = map int [0..<nat n]"
    by (cases "0 \<le> n") (use upto_0_int [of "nat n"] in auto)
  have "map (\<lambda>i. map_option (\<lambda>m. word_of_int (m + 127)) (array_get mant i)) [0..n - 1]
      = map Some (map (\<lambda>i. word_of_int (mant ! i + 127)) [0..<nat n] :: u8 list)"
    unfolding e map_map by (rule map_cong) (use assms(2) in simp_all)
  then show ?thesis using assms(1) unfolding offset_bytes_def by (simp only: those_Some_map) simp
qed

section \<open>Blocks of whole lines\<close>

text \<open>When the requests of a block are granted and the means of its lines fit, the block is made.\<close>

lemma whole_lines_requests:
  assumes "whole_lines r c bs bc" "w \<in> {8, 16, 32}"
  shows "blocks_of (if bc then c else r) bs = Some 1" "\<forall>n \<in> set (block_requests w r c 1 bc 0). n \<le> max_request"
proof -
  have dims: "dims_ok r c bs bc" by (rule conjunct1 [OF assms(1) [unfolded whole_lines_def]])
  have "nat (if bc then c else r) = nat bs" "0 < nat bs" using assms(1) by (auto simp: whole_lines_def dims_ok_def)
  then have "(nat (if bc then c else r) + nat bs - 1) div nat bs = 1" by (intro div_nat_eqI) auto
  then show "blocks_of (if bc then c else r) bs = Some 1" "\<forall>n \<in> set (block_requests w r c 1 bc 0). n \<le> max_request"
    using dims_ok_blocks(1) [OF dims] dims_ok_requests [OF dims assms(2), of 0] by simp_all
qed

lemma make_block_granted:
  assumes "scratch.alloc_list (block_requests w r c 1 bc 0) (os, s) = Some (ps, st)" "nullptr \<notin> set ps"
    and "whole_lines r c bs bc" "w \<in> {8, 16, 32}" "schedule_ok sched" "nat (r * c) \<le> length xs"
    and "\<forall>l < nat (if bc then r else c). line_mean w (line_of bc r c xs l) \<noteq> None"
  shows "\<exists>b s'. make_block w junk os sched r c bs bc xs s = Some (b, s') \<and> st = (os, s') \<and> block_ptrs b = ps"
proof -
  have dims: "dims_ok r c bs bc" by (rule conjunct1 [OF assms(3) [unfolded whole_lines_def]])
  note nb = whole_lines_requests(1) [OF assms(3,4)]
  obtain b0 s' where n: "FixedPointBlock_new w junk os s r c bs bc 0 = Some (b0, s')" "ps = block_ptrs b0" "st = (os, s')"
    using assms(1) unfolding block_new_client [OF nb, where junk = junk, symmetric] by auto
  have wf: "fp_wf b0" using block_new_wf [OF n(1) dims assms(4)] assms(2) n(2) by simp
  have d: "fp_dims b0 = (r, c, bs, bc)" by (rule block_new_fields(1) [OF n(1) nb])
  note s0 = whole_lines_shape [OF d assms(3)]
  have len: "outer_n b0 * inner_n b0 \<le> length xs" using s0(9) assms(6) by simp
  obtain b1 where b1: "fit_exponent sched xs b0 = Some b1" using fit_exponent_eq [OF wf assms(5) len] by blast
  note fl = fitted_lines [OF wf d assms(3,5,6) b1]
  have ok: "quant_ok w (quant_default 0 8) b1" using fl(5) assms(7) s0(1) by simp
  have "outer_n b1 * inner_n b1 \<le> length xs" using whole_lines_shape(9) [OF fl(2) assms(3)] assms(6) by simp
  then obtain b where b: "floats_to_mantissa w sched xs (quant_default 0 8) b1 = Some b"
    using floats_to_mantissa_result [OF fl(1) assms(5) ok] by blast
  have "block_ptrs b = block_ptrs b0" using fit_exponent_static [OF b1] floats_to_mantissa_static [OF b] by (simp add: fp_static_def)
  then show ?thesis using n b1 b by (simp add: make_block_def)
qed

section \<open>The parts of a product\<close>

text \<open>The requests to the scratchpad, in order: two blocks, the bytes of both, the output.\<close>

definition product_requests :: "int \<Rightarrow> int \<Rightarrow> int \<Rightarrow> size_t list" where
  "product_requests M K N =
     block_requests 8 M K 1 True 0 @ block_requests 8 N K 1 True 0 @ [nat (M * K), nat (N * K), nat (M * N * 2)]"

text \<open>The bytes of a matrix whose lines are quantised.\<close>

definition line_bytes :: "f32 list \<Rightarrow> u8 list" where
  "line_bytes vs = map (\<lambda>k. word_of_int (line_mantissa 8 vs k + 127)) [0..<length vs]"

definition matrix_bytes :: "bool \<Rightarrow> int \<Rightarrow> int \<Rightarrow> f32 list \<Rightarrow> u8 list" where
  "matrix_bytes bc r c xs = concat (map (\<lambda>l. line_bytes (line_of bc r c xs l)) [0..<nat (if bc then r else c)])"

lemma matrix_bytes_rows:
  assumes "0 \<le> r" "0 \<le> c" "\<And>l k. l < nat r \<Longrightarrow> k < nat c \<Longrightarrow> mant ! (l * nat c + k) = line_mantissa 8 (line_of True r c xs l) k"
  shows "map (\<lambda>i. word_of_int (mant ! i + 127)) [0..<nat (r * c)] = matrix_bytes True r c xs"
proof (rule nth_equalityI)
  let ?g = "\<lambda>l k. word_of_int (line_mantissa 8 (line_of True r c xs l) k + 127) :: u8"
  have m: "matrix_bytes True r c xs = concat (map (\<lambda>l. map (?g l) [0..<nat c]) [0..<nat r])"
    by (simp add: matrix_bytes_def line_bytes_def)
  have rc: "nat (r * c) = nat r * nat c" using assms(1,2) by (simp add: nat_mult_distrib)
  show "length (map (\<lambda>i. word_of_int (mant ! i + 127) :: u8) [0..<nat (r * c)]) = length (matrix_bytes True r c xs)"
    unfolding m concat_rows(1) by (simp add: rc)
  fix p assume "p < length (map (\<lambda>i. word_of_int (mant ! i + 127) :: u8) [0..<nat (r * c)])"
  then have p: "p < nat r * nat c" by (simp add: rc)
  then have "0 < nat c" by (cases "nat c = 0") simp_all
  then have q: "p div nat c < nat r" "p mod nat c < nat c" using p by (simp_all add: less_mult_imp_div_less)
  have "matrix_bytes True r c xs ! (p div nat c * nat c + p mod nat c) = ?g (p div nat c) (p mod nat c)"
    unfolding m by (rule concat_rows(2) [OF q])
  then show "map (\<lambda>i. word_of_int (mant ! i + 127)) [0..<nat (r * c)] ! p = matrix_bytes True r c xs ! p"
    using assms(3) [OF q] p by (simp add: rc)
qed

text \<open>Releasing everything, in the order of the code.\<close>

lemma product_releases:
  assumes "scratch.owns (block_ptrs a @ block_ptrs b @ [pA, pB, pO]) L (os, s5)"
  shows "\<exists>s6 s7 s8 s9 s10. sp_free os s5 pA = Some s6 \<and> sp_free os s6 pB = Some s7 \<and> sp_free os s7 pO = Some s8
    \<and> FixedPointBlock_delete os s8 b = Some s9 \<and> FixedPointBlock_delete os s9 a = Some s10
    \<and> sp_inv s10 \<and> sp_live s10 = L"
proof -
  have "scratch.owns (pA # pB # pO # block_ptrs b @ block_ptrs a) L (os, s5)" by (rule scratch.owns_perm [OF assms]) simp
  then obtain s6 where s6: "sp_free os s5 pA = Some s6" "scratch.owns (pB # pO # block_ptrs b @ block_ptrs a) L (os, s6)"
    using free_owns by blast
  then obtain s7 where s7: "sp_free os s6 pB = Some s7" "scratch.owns (pO # block_ptrs b @ block_ptrs a) L (os, s7)"
    using free_owns by blast
  then obtain s8 where s8: "sp_free os s7 pO = Some s8" "scratch.owns (block_ptrs b @ block_ptrs a) L (os, s8)"
    using free_owns by blast
  then obtain s9 where s9: "FixedPointBlock_delete os s8 b = Some s9" "scratch.owns (block_ptrs a @ []) L (os, s9)"
    using delete_block_owns by fastforce
  then obtain s10 where s10: "FixedPointBlock_delete os s9 a = Some s10" "scratch.owns [] L (os, s10)"
    using delete_block_owns by blast
  show ?thesis using s6 s7 s8 s9 s10 by (auto simp: scratch.owns_Nil sp_ok_def)
qed

text \<open>Running a graph whose tensors hold no memory handles.\<close>

definition raw_tensors :: "QnnCachedGraph \<Rightarrow> bool" where
  "raw_tensors g \<longleftrightarrow> t_memHandle (tensorA g) = None \<and> t_memHandle (tensorB g) = None \<and> t_memHandle (tensorC g) = None"

text \<open>The library writes all \<open>n\<close> elements of the output of a graph.\<close>

definition writes_all :: "qnn_env \<Rightarrow> nat \<Rightarrow> bool" where
  "writes_all env n \<longleftrightarrow> (\<forall>l g ins out. length (r_out (qe_resp env l (GraphExecute g ins out))) = n)"

lemma execute_raw:
  assumes "interfaceProviderTable (backendContainer e) \<noteq> None" "get_graph e ref = Some g" "\<not> useStaticWeights e" "raw_tensors g"
    and "writes_all env (length out)"
  shows "\<exists>tA tB tC r e'. execute env ref (Bytes a) b out e = Some (r_out r, e')
    \<and> qlog e' = (GraphExecute (graphHandle g) [tA, tB] tC, r) # qlog e \<and> t_data tA = Bytes a \<and> t_data tB = Bytes b
    \<and> t_dataSize tA = dimsA g ! 0 * dimsA g ! 1 * getDataTypeSize (t_dataType (tensorA g)) \<and> length (r_out r) = length out"
  using assms
  by (auto simp: execute_def set_client_buf_def raw_tensors_def qcall_eq write_output_def writes_all_def Let_def
      set_graph_def split: option.splits graph_ref.splits)

lemma getOrCreateGraph_keeps:
  assumes "getOrCreateGraph env M K N p e = Some (ref, e')"
  shows "penv e' = penv e \<and> backendContainer e' = backendContainer e"
  using assms by (cases rule: getOrCreateGraph_cases) (auto simp: create_graph_def Let_def split: if_splits prod.splits)

text \<open>The requests of a product are the requests of its parts, and they are all owned afterwards.\<close>

lemma bind_option_Some: "Option.bind m f = Some y \<longleftrightarrow> (\<exists>x. m = Some x \<and> f x = Some y)"
  by (cases m) simp_all

lemma product_requests_split:
  assumes "scratch.alloc_list (product_requests M K N) (os, s) = Some (ps, st)" "nullptr \<notin> set ps"
  obtains psA psB pA pB pO st1 s2 s3 s4 s5 where
    "scratch.alloc_list (block_requests 8 M K 1 True 0) (os, s) = Some (psA, st1)"
    "scratch.alloc_list (block_requests 8 N K 1 True 0) st1 = Some (psB, (os, s2))"
    "alloc os s2 (nat (M * K)) = Some (pA, s3)" "alloc os s3 (nat (N * K)) = Some (pB, s4)"
    "alloc os s4 (nat (M * N * 2)) = Some (pO, s5)" "nullptr \<notin> set psA" "nullptr \<notin> set psB"
    "pA \<noteq> nullptr" "pB \<noteq> nullptr" "pO \<noteq> nullptr" "st = (os, s5)" "ps = psA @ psB @ [pA, pB, pO]"
proof -
  obtain psA st1 psB st2 qs where a: "scratch.alloc_list (block_requests 8 M K 1 True 0) (os, s) = Some (psA, st1)"
    "scratch.alloc_list (block_requests 8 N K 1 True 0) st1 = Some (psB, st2)"
    "scratch.alloc_list [nat (M * K), nat (N * K), nat (M * N * 2)] st2 = Some (qs, st)" "ps = psA @ psB @ qs"
    using assms(1) unfolding product_requests_def scratch.alloc_list_append
    by (auto simp: bind_option_Some simp del: scratch.alloc_list.simps)
  have fst_alloc: "fst st' = fst st0" if "scratch.alloc_list ns st0 = Some (rs, st')" for ns st0 rs st'
    using that by (induction ns arbitrary: st0 rs) (fastforce simp: sp_alloc_def bind_option_Some split: prod.splits)+
  have os: "fst st2 = os" using fst_alloc [OF a(1)] fst_alloc [OF a(2)] by simp
  obtain pA s3 pB s4 pO s5 where q: "alloc os (snd st2) (nat (M * K)) = Some (pA, s3)" "alloc os s3 (nat (N * K)) = Some (pB, s4)"
    "alloc os s4 (nat (M * N * 2)) = Some (pO, s5)" "qs = [pA, pB, pO]" "st = (os, s5)"
    using a(3) os by (cases st2) (auto simp: sp_alloc_def bind_option_Some)
  obtain s2 where s2: "st2 = (os, s2)" using os by (cases st2) simp
  show thesis by (rule that [OF a(1) a(2) [unfolded s2] q(1) [unfolded s2 snd_conv] q(2,3)]) (use a(4) q(4,5) assms(2) in \<open>auto simp: eq_commute [of nullptr]\<close>)
qed

lemma product_requests_small:
  assumes "product_dims M K N"
  shows "\<forall>n \<in> set (product_requests M K N). n \<le> max_request"
proof -
  have d: "nat (M * K) < 2 ^ 31" "nat (N * K) < 2 ^ 31" "nat (M * N * 2) < 2 ^ 31"
    using assms by (auto simp: product_dims_def nat_less_iff)
  note l = product_dims_lines [OF assms]
  show ?thesis using whole_lines_requests(2) [OF l(1), of 8] whole_lines_requests(2) [OF l(2), of 8] d
    by (auto simp: product_requests_def max_request_def)
qed

lemma product_sizes:
  assumes "product_dims M K N"
  shows "to_size (i32 (M * K)) = nat (M * K)" "to_size (i32 (N * K)) = nat (N * K)"
    "to_size (i32 (i32 (M * N) * 2)) = nat (M * N * 2)" "i32 (M * K) = M * K" "i32 (N * K) = N * K"
proof -
  have d: "0 \<le> M * K" "0 \<le> N * K" "0 \<le> M * N" "M * K < 2147483648" "N * K < 2147483648" "M * N * 2 < 2147483648"
    using assms by (simp_all add: product_dims_def)
  show i: "i32 (M * K) = M * K" "i32 (N * K) = N * K" using d by (simp_all add: i32_id)
  have m: "i32 (M * N) = M * N" "i32 (M * N * 2) = M * N * 2" using d by (simp_all add: i32_id)
  show "to_size (i32 (M * K)) = nat (M * K)" "to_size (i32 (N * K)) = nat (N * K)"
    "to_size (i32 (i32 (M * N) * 2)) = nat (M * N * 2)" using d unfolding m i by (simp_all add: to_size_def)
qed

text \<open>What a block made of whole rows gives to the product.\<close>

lemma row_block:
  assumes "make_block 8 junk os sched r c c True xs s = Some (b, s')" "whole_lines r c c True" "nullptr \<notin> set (block_ptrs b)"
    and "schedule_ok sched" "nat (r * c) \<le> length xs"
  shows "lines_at_least (nat r) b" "nat (r * c) \<le> length (mantissa b)"
    "map (\<lambda>i. word_of_int (mantissa b ! i + 127)) [0..<nat (r * c)] = matrix_bytes True r c xs"
    "\<And>l. l < nat r \<Longrightarrow> exponents b ! l = block_exponent (line_of True r c xs l)
       \<and> means b ! l = block_mean (line_of True r c xs l) \<and> precisions b ! l = 8"
proof -
  note m = make_block_lines [OF assms(1,2) _ assms(3-5)]
  have wf: "fp_wf b" and d: "fp_dims b = (r, c, c, True)" using m(1,2) by simp_all
  note sh = whole_lines_shape [OF d assms(2)]
  have n: "0 \<le> r" "0 \<le> c" using assms(2) by (auto simp: whole_lines_def dims_ok_def)
  show "lines_at_least (nat r) b" "nat (r * c) \<le> length (mantissa b)"
    using wf sh by (auto simp: fp_wf_def lines_at_least_def)
  show "map (\<lambda>i. word_of_int (mantissa b ! i + 127)) [0..<nat (r * c)] = matrix_bytes True r c xs"
    by (rule matrix_bytes_rows [OF n]) (use m(4) in simp)
  show "exponents b ! l = block_exponent (line_of True r c xs l)
       \<and> means b ! l = block_mean (line_of True r c xs l) \<and> precisions b ! l = 8" if "l < nat r" for l
    using m(3) [of l] that by simp
qed

lemma transposed_bytes:
  assumes "transpose_weights B K N = Some S" "product_dims M K N" "nat (K * N) \<le> length B"
  shows "matrix_bytes True N K S = matrix_bytes False K N B"
  unfolding matrix_bytes_def if_True if_False
  by (intro arg_cong [of _ _ concat] map_cong refl) (use transposed_line [OF assms] in simp)

section \<open>The product\<close>

text \<open>
  The sizes and the contents of the operands: a line of bytes is defined when the integer mean of the
  line fits a byte. The memory suffices when each request of the product is granted.
\<close>

definition operands_ok :: "f32 list \<Rightarrow> f32 list \<Rightarrow> f32 list \<Rightarrow> int \<Rightarrow> int \<Rightarrow> int \<Rightarrow> bool" where
  "operands_ok A B C M K N \<longleftrightarrow> product_dims M K N \<and> length A = nat (M * K) \<and> length B = nat (K * N) \<and> length C = nat (M * N)
     \<and> (\<forall>i < nat M. line_mean 8 (line_of True M K A i) \<noteq> None) \<and> (\<forall>j < nat N. line_mean 8 (line_of False K N B j) \<noteq> None)"

definition memory_suffices :: "os_env \<Rightarrow> scratchpad \<Rightarrow> int \<Rightarrow> int \<Rightarrow> int \<Rightarrow> bool" where
  "memory_suffices os s M K N \<longleftrightarrow>
     (\<exists>ps st. scratch.alloc_list (product_requests M K N) (os, s) = Some (ps, st) \<and> nullptr \<notin> set ps)"

definition product_element :: "f32 list \<Rightarrow> f32 list \<Rightarrow> int \<Rightarrow> int \<Rightarrow> int \<Rightarrow> nat \<Rightarrow> nat \<Rightarrow> int \<Rightarrow> f32" where
  "product_element A B M K N i j x =
     product_value K (block_exponent (line_of True M K A i)) 8 (block_mean (line_of True M K A i))
       (block_exponent (line_of False K N B j)) 8 (block_mean (line_of False K N B j)) x"

lemma product_rows_engine:
  assumes "operands_ok A B C M K N" "schedule_ok sched" "transpose_weights B K N = Some S"
    and "make_block 8 junk os sched M K K True A s = Some (fA, s1)" "nullptr \<notin> set (block_ptrs fA)"
    and "make_block 8 junk os sched N K K True S s1 = Some (fB, s2)" "nullptr \<notin> set (block_ptrs fB)"
    and "length out = nat (M * N)"
  shows "\<exists>C'. product_rows sched cond (\<lambda>old v. v) (raw_u16 out) K fA fB M N N C = Some C' \<and> length C' = length C
    \<and> (\<forall>i<nat M. \<forall>j<nat N. C' ! (i * nat N + j) = product_element A B M K N i j (uint (out ! (i * nat N + j)) - 32768))"
proof -
  have d: "product_dims M K N" and len: "length A = nat (M * K)" "length B = nat (K * N)" "length C = nat (M * N)"
    using assms(1) by (simp_all add: operands_ok_def)
  note tl = transposed_line [OF assms(3) d]
  have S: "length S = nat (N * K)" using transpose_weights_nth(1) [OF assms(3) d] len(2) by simp
  note wl = product_dims_lines [OF d]
  note fA = row_block [OF assms(4) wl(1) assms(5,2)] and fB = row_block [OF assms(6) wl(2) assms(7,2)]
  have n: "int (nat M) = M" "int (nat N) = N" "M * N < 2 ^ 31" "nat M * nat N = nat (M * N)"
    using d by (auto simp: product_dims_def nat_mult_distrib)
  have raw: "raw_u16 out (int (i * nat N + j)) = Some (uint (out ! (i * nat N + j)) - 32768)" if "i < nat M" "j < nat N" for i j
    using flat_index(2) [OF that(2,1) n(3)] assms(8) by (simp add: raw_u16_def del: of_nat_add of_nat_mult)
  have la: "lines_at_least (nat M) fA" and lb: "lines_at_least (nat N) fB" using fA(1) fB(1) len S by simp_all
  obtain C' where C': "product_rows sched cond (\<lambda>old v. v) (raw_u16 out) K fA fB (int (nat M)) (int (nat N)) (int (nat N)) C = Some C'"
    "length C' = length C"
    "\<forall>i<nat M. \<forall>j<nat N. C' ! (i * nat N + j) = product_at K fA fB i j (uint (out ! (i * nat N + j)) - 32768)"
    using product_rows_eq [OF assms(2) la lb order_refl, where C = C and upd = "\<lambda>old v. v" and cond = cond and K = K
        and raw = "raw_u16 out" and x = "\<lambda>i j. uint (out ! (i * nat N + j)) - 32768"] raw n len by auto
  have el: "product_at K fA fB i j x = product_element A B M K N i j x" if "i < nat M" "j < nat N" for i j x
    using fA(4) [of i] fB(4) [of j] tl [OF _ that(2)] that len S by (simp add: product_at_def product_element_def)
  show ?thesis using C' el unfolding n by auto
qed

lemma engine_blocks:
  assumes "operands_ok A B C M K N" "schedule_ok sched" "sp_ok (os, s)" "memory_suffices os s M K N"
  obtains fA s1 S fB s2 pA s3 pB s4 pO s5 where "make_block 8 junk os sched M K K True A s = Some (fA, s1)"
    "nullptr \<notin> set (block_ptrs fA)" "transpose_weights B K N = Some S" "make_block 8 junk os sched N K K True S s1 = Some (fB, s2)"
    "nullptr \<notin> set (block_ptrs fB)" "alloc os s2 (nat (M * K)) = Some (pA, s3)" "alloc os s3 (nat (N * K)) = Some (pB, s4)"
    "alloc os s4 (nat (M * N * 2)) = Some (pO, s5)" "pA \<noteq> nullptr" "pB \<noteq> nullptr" "pO \<noteq> nullptr"
    "scratch.owns (block_ptrs fA @ block_ptrs fB @ [pA, pB, pO]) (sp_live s) (os, s5)"
proof -
  have d: "product_dims M K N" and len: "length A = nat (M * K)" "length B = nat (K * N)"
    and mA: "\<forall>i < nat M. line_mean 8 (line_of True M K A i) \<noteq> None" and mB: "\<forall>j < nat N. line_mean 8 (line_of False K N B j) \<noteq> None"
    using assms(1) by (simp_all add: operands_ok_def)
  note wl = product_dims_lines [OF d]
  obtain ps st where al: "scratch.alloc_list (product_requests M K N) (os, s) = Some (ps, st)" "nullptr \<notin> set ps"
    using assms(4) by (auto simp: memory_suffices_def)
  from product_requests_split [OF al] obtain psA psB pA pB pO st1 s2 s3 s4 s5 where
    a: "scratch.alloc_list (block_requests 8 M K 1 True 0) (os, s) = Some (psA, st1)"
    "scratch.alloc_list (block_requests 8 N K 1 True 0) st1 = Some (psB, (os, s2))"
    "alloc os s2 (nat (M * K)) = Some (pA, s3)" "alloc os s3 (nat (N * K)) = Some (pB, s4)"
    "alloc os s4 (nat (M * N * 2)) = Some (pO, s5)" "nullptr \<notin> set psA" "nullptr \<notin> set psB"
    "pA \<noteq> nullptr" "pB \<noteq> nullptr" "pO \<noteq> nullptr" "st = (os, s5)" "ps = psA @ psB @ [pA, pB, pO]" .
  obtain fA s1 where fA: "make_block 8 junk os sched M K K True A s = Some (fA, s1)" "st1 = (os, s1)" "block_ptrs fA = psA"
    using make_block_granted [OF a(1,6) wl(1) _ assms(2), where xs = A and junk = junk] len mA by auto
  obtain S where S: "transpose_weights B K N = Some S" using transpose_weights_eq [OF d] len(2) by simp
  have "length S = nat (N * K)" using transpose_weights_nth(1) [OF S d] len(2) by simp
  moreover have "\<forall>j < nat N. line_mean 8 (line_of True N K S j) \<noteq> None" using mB transposed_line [OF S d] len(2) by simp
  ultimately obtain fB where fB: "make_block 8 junk os sched N K K True S s1 = Some (fB, s2)" "block_ptrs fB = psB"
    using make_block_granted [OF a(2) [unfolded fA(2)] a(7) wl(2) _ assms(2), where xs = S and junk = junk] by auto
  have "scratch.owns [] (sp_live s) (os, s)" using assms(3) by (simp add: scratch.owns_Nil)
  then have "scratch.owns ([] @ ps) (sp_live s) st" by (rule scratch.owns_alloc_list [OF _ product_requests_small [OF d] al(1)])
  then have ow: "scratch.owns (block_ptrs fA @ block_ptrs fB @ [pA, pB, pO]) (sp_live s) (os, s5)" unfolding a(11,12) fA(3) fB(2) by simp
  have nul: "nullptr \<notin> set (block_ptrs fA)" "nullptr \<notin> set (block_ptrs fB)" using a(6,7) fA(3) fB(2) by simp_all
  show thesis by (rule that [OF fA(1) nul(1) S fB(1) nul(2) a(3,4,5,8,9,10) ow])
qed

lemma matmul_engine_run:
  assumes "operands_ok A B C M K N" "schedule_ok (ne_sched env)" "sp_ok (ne_os env, n_sp st)"
    and "memory_suffices (ne_os env) (n_sp st) M K N"
    and "getOrCreateGraph (ne_qnn env) M K N None (n_engine st) = Some (ref, e1)" "get_graph e1 ref = Some g" "isValid g" "raw_tensors g"
    and "interfaceProviderTable (backendContainer (n_engine st)) \<noteq> None" "\<not> useStaticWeights (n_engine st)"
    and "writes_all (ne_qnn env) (nat (M * N))"
  shows "\<exists>C' st' tA tB tC r. matmul_int8_engine env A B C M K N st = Some (C', st')
    \<and> qlog (n_engine st') = (GraphExecute (graphHandle g) [tA, tB] tC, r) # qlog e1
    \<and> t_data tA = Bytes (matrix_bytes True M K A) \<and> t_data tB = Bytes (matrix_bytes False K N B)
    \<and> t_dataSize tA = dimsA g ! 0 * dimsA g ! 1 * getDataTypeSize (t_dataType (tensorA g))
    \<and> length C' = length C
    \<and> (\<forall>i<nat M. \<forall>j<nat N. C' ! (i * nat N + j) = product_element A B M K N i j (uint (r_out r ! (i * nat N + j)) - 32768))
    \<and> sp_inv (n_sp st') \<and> sp_live (n_sp st') = sp_live (n_sp st)"
proof -
  let ?os = "ne_os env" and ?junk = "ne_junk env" and ?sched = "ne_sched env"
  have d: "product_dims M K N" and len: "length A = nat (M * K)" "length B = nat (K * N)"
    using assms(1) by (simp_all add: operands_ok_def)
  note wl = product_dims_lines [OF d] and z = product_sizes [OF d]
  from engine_blocks [OF assms(1-4), where junk = ?junk] obtain fA s1 S fB s2 pA s3 pB s4 pO s5 where
    b: "make_block 8 ?junk ?os ?sched M K K True A (n_sp st) = Some (fA, s1)" "nullptr \<notin> set (block_ptrs fA)"
      "transpose_weights B K N = Some S" "make_block 8 ?junk ?os ?sched N K K True S s1 = Some (fB, s2)" "nullptr \<notin> set (block_ptrs fB)"
    and a: "alloc ?os s2 (nat (M * K)) = Some (pA, s3)" "alloc ?os s3 (nat (N * K)) = Some (pB, s4)"
      "alloc ?os s4 (nat (M * N * 2)) = Some (pO, s5)" "pA \<noteq> nullptr" "pB \<noteq> nullptr" "pO \<noteq> nullptr"
    and ow: "scratch.owns (block_ptrs fA @ block_ptrs fB @ [pA, pB, pO]) (sp_live (n_sp st)) (?os, s5)" .
  have S: "length S = nat (N * K)" using transpose_weights_nth(1) [OF b(3) d] len(2) by simp
  note rA = row_block [OF b(1) wl(1) b(2) assms(2)] and rB = row_block [OF b(4) wl(2) b(5) assms(2)]
  have uA: "offset_bytes pA (M * K) (mantissa fA) = Some (matrix_bytes True M K A)"
    using offset_bytes_eq [OF a(4)] rA(2,3) len(1) by simp
  have uB: "offset_bytes pB (N * K) (mantissa fB) = Some (matrix_bytes False K N B)"
    using offset_bytes_eq [OF a(5)] rB(2,3) S transposed_bytes [OF b(3) d] len(2) by simp
  define out where "out = fresh_u16 ?junk pO (nat (M * N * 2))"
  have "0 \<le> M * N" using d by (simp add: product_dims_def)
  then have "nat (M * N * 2) div 2 = nat (M * N)" by (simp add: nat_mult_distrib)
  then have lo: "length out = nat (M * N)" using a(6) by (auto simp: out_def fresh_u16_def fresh_array_length)
  have e1: "interfaceProviderTable (backendContainer e1) \<noteq> None" "\<not> useStaticWeights e1"
    using getOrCreateGraph_keeps [OF assms(5)] assms(9,10) by (simp_all add: useStaticWeights_def)
  obtain tA tB tC r e2 where x: "execute (ne_qnn env) ref (Bytes (matrix_bytes True M K A)) (matrix_bytes False K N B) out e1 = Some (r_out r, e2)"
    "qlog e2 = (GraphExecute (graphHandle g) [tA, tB] tC, r) # qlog e1" "t_data tA = Bytes (matrix_bytes True M K A)"
    "t_data tB = Bytes (matrix_bytes False K N B)"
    "t_dataSize tA = dimsA g ! 0 * dimsA g ! 1 * getDataTypeSize (t_dataType (tensorA g))" "length (r_out r) = length out"
    using execute_raw [OF e1(1) assms(6) e1(2) assms(8), of "ne_qnn env" out] assms(11) lo by (metis (no_types))
  obtain C' where C': "product_rows ?sched (i32 (M * N) > 10000) (\<lambda>old v. v) (raw_u16 (r_out r)) K fA fB M N N C = Some C'" "length C' = length C"
    "\<forall>i<nat M. \<forall>j<nat N. C' ! (i * nat N + j) = product_element A B M K N i j (uint (r_out r ! (i * nat N + j)) - 32768)"
    using product_rows_engine [OF assms(1,2) b(3,1,2,4,5)] x(6) lo by metis
  obtain s6 s7 s8 s9 s10 where f: "sp_free ?os s5 pA = Some s6" "sp_free ?os s6 pB = Some s7" "sp_free ?os s7 pO = Some s8"
    "FixedPointBlock_delete ?os s8 fB = Some s9" "FixedPointBlock_delete ?os s9 fA = Some s10" "sp_inv s10" "sp_live s10 = sp_live (n_sp st)"
    using product_releases [OF ow] by blast
  have "matmul_int8_engine env A B C M K N st = Some (C', st\<lparr>n_engine := e2, n_sp := s10\<rparr>)"
    unfolding matmul_int8_engine_def Let_def z(1-3) unfolding z(4,5)
    by (simp add: assms(5-7) b a uA uB x(1) C'(1) f flip: out_def)
  then show ?thesis using x(2-5) C'(2,3) f(6,7) by auto
qed

lemma requested_entry:
  assumes "eng_reachable env e" "qnn_complete env" "getOrCreateGraph env M K N None e = Some (ref, e1)" "get_graph e1 ref = Some g" "isValid g"
  shows "dimsA g = [word_of_int M, word_of_int K]" "t_dataType (tensorA g) = QNN_DATATYPE_UFIXED_POINT_16"
    "compiled (qlog e1) (graphHandle g)"
proof -
  have "cache_ok e1" by (rule eng_reachable_cache [OF eng_reachable.graph [OF assms(1,3)] assms(2)])
  moreover have "ref = Cached (graph_key M K N)"
    using assms(3) by (cases rule: getOrCreateGraph_cases)
      (use assms(4,5) in \<open>auto simp: create_graph_def Let_def get_graph_def split: if_splits prod.splits\<close>)
  ultimately have "entry_ok (qlog e1) (graph_key M K N, g)"
    using assms(4) by (auto simp: cache_ok_def get_graph_def dest: map_of_SomeD)
  then show "dimsA g = [word_of_int M, word_of_int K]" "t_dataType (tensorA g) = QNN_DATATYPE_UFIXED_POINT_16"
    "compiled (qlog e1) (graphHandle g)"
    using assms(5) unfolding entry_ok_def by (auto dest: graph_key_suffix_inj)
qed

section \<open>Properties\<close>


section \<open>A concrete product\<close>

text \<open>A library whose graphs leave one accumulator, the process around it, and the operands \<open>(1, -1)\<close>.\<close>

definition sample_qnn :: qnn_env where
  "sample_qnn = demo_qnn\<lparr>qe_resp := \<lambda>l c. (demo_resp l c)\<lparr>r_out := [32770]\<rparr>\<rparr>"

definition sample_tflite :: tflite_env where
  "sample_tflite = \<lparr>tf_build = \<lambda>_. True, tf_interpreter = \<lambda>_. True, tf_bytes_a = \<lambda>_. 2, tf_bytes_b = \<lambda>_. 2, tf_bytes_out = \<lambda>_. 2,
     tf_int16 = \<lambda>_. True, tf_invoke = \<lambda>_ a b. Some (Shorts [0]), tf_delegate = \<lambda>n _. Some n, tf_modify = \<lambda>_ _. True\<rparr>"

definition sample_env :: npu_env where
  "sample_env = \<lparr>ne_qnn = sample_qnn, ne_os = bump_env, ne_tf = sample_tflite, ne_net = \<lparr>net_socket = True, net_connect = True\<rparr>,
     ne_junk = \<lambda>_. 0, ne_sched = sequential\<rparr>"

definition npu_start :: "engine \<Rightarrow> npu" where
  "npu_start e = \<lparr>n_engine = e, n_sp = scratchpad_init, n_pf = prefetch_init, n_models = [], n_sent = [], n_tf = []\<rparr>"

lemma sample_complete: "qnn_complete sample_qnn"
  by (simp add: qnn_complete_def sample_qnn_def demo_qnn_def)

lemma sample_writes: "writes_all sample_qnn (Suc 0)"
  by (simp add: writes_all_def sample_qnn_def)

lemma sample_loaded:
  "isLoaded (demo_engine sample_qnn)" "loadBackend sample_qnn 1 (demo_engine sample_qnn) = demo_engine sample_qnn"
  "\<not> useStaticWeights (demo_engine sample_qnn)" "graphCache (demo_engine sample_qnn) = []"
  "interfaceProviderTable (backendContainer (demo_engine sample_qnn)) \<noteq> None"
  by (simp_all add: demo_engine_def engine_run sample_qnn_def demo_qnn_def demo_resp_def isLoaded_def useStaticWeights_def
      env_is_1_def set_library_paths_def project_libs_dir_def)

lemma sample_graph:
  assumes "0 \<le> N"
  obtains e1 g where "getOrCreateGraph sample_qnn M K N None (demo_engine sample_qnn) = Some (Cached (graph_key M K N), e1)"
    "get_graph e1 (Cached (graph_key M K N)) = Some g" "isValid g" "raw_tensors g"
proof -
  let ?e = "demo_engine sample_qnn"
  obtain status g l where b: "build_graph sample_qnn ''fc_graph'' (backendHandle ?e, deviceHandle ?e) [word_of_int M, word_of_int K]
      [word_of_int N, word_of_int K] [word_of_int M, word_of_int N] None (qlog ?e) = (status, g, l)" by (rule prod_cases3)
  have "status = 0" using b by (auto simp: build_graph_def qcall_eq Let_def sample_qnn_def demo_resp_def split: prod.splits)
  then have "getOrCreateGraph sample_qnn M K N None ?e
      = Some (Cached (graph_key M K N), ?e\<lparr>graphCache := [(graph_key M K N, g\<lparr>isValid := True\<rparr>)], qlog := l\<rparr>)"
    using sample_loaded assms by (simp add: getOrCreateGraph_def create_graph_def b)
  moreover have "raw_tensors (g\<lparr>isValid := True\<rparr>)"
    using build_graph_spec(7,8,10) [OF b] by (auto simp: raw_tensors_def qnn_tensor_def)
  ultimately show thesis by (intro that) (auto simp: get_graph_def)
qed

lemma sample_lines:
  "line_of True 1 2 [0x3F800000, 0xBF800000] 0 = [0x3F800000, 0xBF800000]"
  "line_of False 2 1 [0x3F800000, 0xBF800000] 0 = [0x3F800000, 0xBF800000]"
  "block_exponent [0x3F800000, 0xBF800000] = 1" "block_mean [0x3F800000, 0xBF800000] = 0"
  "line_mean 8 [0x3F800000, 0xBF800000] = Some 0"
proof -
  show "line_of True 1 2 [0x3F800000, 0xBF800000] 0 = [0x3F800000, 0xBF800000]"
    "line_of False 2 1 [0x3F800000, 0xBF800000] 0 = [0x3F800000, 0xBF800000]"
    by (simp_all add: line_of_def upt_rec)
  have two: "block_mean [x, y] = mean_of (f32_add (f32_add 0 x) y) 2" for x y
    by (simp add: block_mean_def block_acc_def fit_elem_def fit_acc_init_def fit_global_init_def Let_def)
  have add: "f32_add (f32_add 0 0x3F800000) 0xBF800000 = 0" by (simp add: f32_eval)
  show e: "block_exponent [0x3F800000, 0xBF800000] = 1" 
    by (simp add: block_exponent_def block_acc_def fit_elem_def fit_acc_init_def fit_global_init_def Let_def exponent_of_def)
  show m: "block_mean [0x3F800000, 0xBF800000] = 0" unfolding two add by (simp add: mean_of_def f32_eval)
  show "line_mean 8 [0x3F800000, 0xBF800000] = Some 0" by (simp add: line_mean_def e m f32_eval fast_pow2_def i32_id)
qed

lemma sample_operands: "operands_ok [0x3F800000, 0xBF800000] [0x3F800000, 0xBF800000] [0] 1 2 1"
  by (simp add: operands_ok_def product_dims_def sample_lines)

lemma sample_memory: "memory_suffices bump_env scratchpad_init 1 2 1"
proof -
  have d: "product_dims 1 2 1" by (simp add: product_dims_def)
  have ok: "sp_ok (bump_env, scratchpad_init)" by (simp add: sp_ok_def bump_env_ok sp_inv_init)
  obtain ps st where a: "scratch.alloc_list (product_requests 1 2 1) (bump_env, scratchpad_init) = Some (ps, st)"
    using scratch.alloc_list_spec [OF ok product_requests_small [OF d]] by blast
  have r: "\<forall>n \<in> set (product_requests 1 2 1). n \<le> 2 ^ 20" "length (product_requests 1 2 1) = 13"
    by (simp_all add: product_requests_def block_requests_def Let_def i32_id to_size_def size_mul_def)
  have "nullptr \<notin> set ps"
    using bump_alloc_list [of _ _ ps "fst st" "snd st", OF _ r(1) init_low(1) _ init_low(2)] a r(2) by simp
  then show ?thesis using a by (auto simp: memory_suffices_def)
qed


end
