(* ===== verification/Fallback.thy ===== *)
theory Fallback
  imports MatmulEngine
begin

text \<open>
  The TFLite fallback of \<^verbatim>\<open>tflite_manager.h\<close>: the lifecycle of a model, the cache of models, the product
  of floats, and the memory of a quantised product.
\<close>

section \<open>Models own their buffers\<close>

definition model_ptrs :: "Model \<Rightarrow> ptr list" where
  "model_ptrs m = [persist_a m, persist_b m, persist_out m]"

lemma Model_delete_owns:
  assumes "scratch.owns (model_ptrs m @ ps) L (os, s)"
  shows "\<exists>s'. Model_delete os m (s, l) = Some (s', case md_delegate m of None \<Rightarrow> l | Some d \<Rightarrow> DelegateDeleted d # l)
     \<and> scratch.owns ps L (os, s')"
proof -
  from assms obtain s1 where s1: "sp_free os s (persist_a m) = Some s1" "scratch.owns (persist_b m # persist_out m # ps) L (os, s1)"
    using free_owns [of "persist_a m" "persist_b m # persist_out m # ps" L os s] by (auto simp: model_ptrs_def)
  then obtain s2 where s2: "sp_free os s1 (persist_b m) = Some s2" "scratch.owns (persist_out m # ps) L (os, s2)"
    using free_owns by blast
  then obtain s3 where s3: "sp_free os s2 (persist_out m) = Some s3" "scratch.owns ps L (os, s3)"
    using free_owns by blast
  show ?thesis using s1 s2 s3 by (simp add: Model_delete_def Let_def)
qed

text \<open>What creating a model does: it sends a request, may attach a delegate and allocates three buffers.\<close>

definition model_requests :: "tflite_env \<Rightarrow> int \<Rightarrow> int \<Rightarrow> int \<Rightarrow> int \<Rightarrow> size_t list" where
  "model_requests tf M K N backend_choice =
     (let file = model_filename M K N backend_choice
      in [input_bytes (tf_bytes_a tf file) M K backend_choice, input_bytes (tf_bytes_b tf file) K N backend_choice, tf_bytes_out tf file])"

definition model_loads :: "tflite_env \<Rightarrow> int \<Rightarrow> int \<Rightarrow> int \<Rightarrow> int \<Rightarrow> bool" where
  "model_loads tf M K N backend_choice \<longleftrightarrow>
     tf_build tf (model_filename M K N backend_choice) \<and> tf_interpreter tf (model_filename M K N backend_choice)"

lemma create_model_fails:
  assumes "\<not> model_loads (ne_tf env) M K N backend_choice"
  shows "create_model env M K N backend_choice st
    = Some (no_model M K N backend_choice (model_filename M K N backend_choice),
            st\<lparr>n_sent := request_tflite_generation (ne_net env) M K N backend_choice (n_sent st)\<rparr>)"
  using assms by (auto simp: create_model_def model_loads_def Let_def)

lemma create_model_loads:
  assumes "model_loads (ne_tf env) M K N backend_choice" "create_model env M K N backend_choice st = Some (m, st')"
  shows "scratch.alloc_list (model_requests (ne_tf env) M K N backend_choice) (ne_os env, n_sp st) = Some (model_ptrs m, (ne_os env, n_sp st'))"
    "[size_a m, size_b m, size_out m] = model_requests (ne_tf env) M K N backend_choice"
    "md_interpreter m" "md_file m = model_filename M K N backend_choice" "same_request M K N backend_choice m"
    "n_tf st' = (if backend_choice > 0
       then snd (attach_delegate (ne_tf env) (md_file m) (project_libs_dir (penv (n_engine st))) backend_choice (n_tf st)) else n_tf st)"
    "md_delegate m = (if backend_choice > 0
       then fst (attach_delegate (ne_tf env) (md_file m) (project_libs_dir (penv (n_engine st))) backend_choice (n_tf st)) else None)"
    "n_models st' = n_models st" "n_pf st' = n_pf st"
    "n_sent st' = request_tflite_generation (ne_net env) M K N backend_choice (n_sent st)"
proof -
  let ?f = "model_filename M K N backend_choice" and ?tf = "ne_tf env"
  let ?d = "attach_delegate ?tf ?f (project_libs_dir (penv (n_engine st))) backend_choice (n_tf st)"
  obtain pa s1 pb s2 po s3 where
    a: "alloc (ne_os env) (n_sp st) (input_bytes (tf_bytes_a ?tf ?f) M K backend_choice) = Some (pa, s1)"
      "alloc (ne_os env) s1 (input_bytes (tf_bytes_b ?tf ?f) K N backend_choice) = Some (pb, s2)"
      "alloc (ne_os env) s2 (tf_bytes_out ?tf ?f) = Some (po, s3)"
    and m: "m = (no_model M K N backend_choice ?f)\<lparr>md_interpreter := True, md_delegate := if backend_choice > 0 then fst ?d else None,
        persist_a := pa, persist_b := pb, persist_out := po, size_a := input_bytes (tf_bytes_a ?tf ?f) M K backend_choice,
        size_b := input_bytes (tf_bytes_b ?tf ?f) K N backend_choice, size_out := tf_bytes_out ?tf ?f\<rparr>"
    and st': "n_sp st' = s3" "n_tf st' = (if backend_choice > 0 then snd ?d else n_tf st)" "n_models st' = n_models st" "n_pf st' = n_pf st"
      "n_sent st' = request_tflite_generation (ne_net env) M K N backend_choice (n_sent st)"
    using assms unfolding create_model_def model_loads_def Let_def
    by (cases "0 < backend_choice") (simp_all add: split_beta bind_option_Some, (elim exE conjE, fastforce)+)
  show "scratch.alloc_list (model_requests ?tf M K N backend_choice) (ne_os env, n_sp st) = Some (model_ptrs m, (ne_os env, n_sp st'))"
    using a by (simp add: model_requests_def sp_alloc_def model_ptrs_def m st' Let_def)
  show "[size_a m, size_b m, size_out m] = model_requests ?tf M K N backend_choice" by (simp add: m model_requests_def Let_def)
  show "md_interpreter m" "md_file m = ?f" "same_request M K N backend_choice m" by (simp_all add: m no_model_def same_request_def)
  then show "n_tf st' = (if backend_choice > 0
       then snd (attach_delegate (ne_tf env) (md_file m) (project_libs_dir (penv (n_engine st))) backend_choice (n_tf st)) else n_tf st)"
    "md_delegate m = (if backend_choice > 0
       then fst (attach_delegate (ne_tf env) (md_file m) (project_libs_dir (penv (n_engine st))) backend_choice (n_tf st)) else None)"
    using st'(2) by (simp_all add: m)
  show "n_models st' = n_models st" "n_pf st' = n_pf st"
    "n_sent st' = request_tflite_generation (ne_net env) M K N backend_choice (n_sent st)" by (rule st')+
qed

text \<open>Delegates created and not deleted.\<close>

definition delegates :: "tf_event list \<Rightarrow> nat \<Rightarrow> int" where
  "delegates l d = int (count_list l (DelegateCreated d)) - int (count_list l (DelegateDeleted d))"

lemma attach_delegate_balance:
  "delegates (snd (attach_delegate tf f dir bc l)) d = delegates l d + (if fst (attach_delegate tf f dir bc l) = Some d then 1 else 0)"
  by (auto simp: attach_delegate_def delegates_def split: option.splits)

lemma deleted_delegate:
  "delegates (case x of None \<Rightarrow> l | Some d' \<Rightarrow> DelegateDeleted d' # l) d = delegates l d - (if x = Some d then 1 else 0)"
  by (simp add: delegates_def split: option.splits)

section \<open>Copies\<close>

lemma copy_in_fits:
  assumes "product_dims M K N" "(r, c) \<in> {(M, K), (K, N)}" "length xs = nat (r * c)" "p \<noteq> nullptr" "k = (if bc = 3 then 4 else 2)"
  shows "copy_in p (input_bytes req r c bc) (i32 (r * c)) k xs = Some xs"
proof -
  have d: "0 \<le> r * c" "r * c < 2147483648" using assms(1,2) by (auto simp: product_dims_def mult.commute)
  then have n: "nat (r * c) < 2147483648" by (simp add: nat_less_iff)
  have sz: "size_mul (to_size (i32 (r * c))) k = nat (r * c) * k"
    using d n assms(5) by (simp add: i32_id to_size_def size_mul_def)
  have "nat (r * c) * k \<le> input_bytes req r c bc" using sz assms(5) by (auto simp: input_bytes_def)
  then show ?thesis using assms(3,4,5) sz by (auto simp: copy_in_def Let_def)
qed

lemma copy_out_all:
  assumes "product_dims M K N" "length xs = nat (M * N)" "length C = nat (M * N)" "p \<noteq> nullptr" "4 * nat (M * N) \<le> bytes"
  shows "copy_out p bytes (i32 (M * N)) xs C = Some xs"
proof -
  have d: "0 \<le> M * N" "M * N < 2147483648" using assms(1) by (auto simp: product_dims_def)
  then have n: "nat (M * N) < 2147483648" by (simp add: nat_less_iff)
  have sz: "size_mul (to_size (i32 (M * N))) 4 = nat (M * N) * 4"
    using d n by (simp add: i32_id to_size_def size_mul_def)
  show ?thesis using assms(2-5) by (auto simp: copy_out_def Let_def sz)
qed

section \<open>The memory of a quantised product\<close>

text \<open>The prefetched block at the head of the queue, when it has the sizes of the weights.\<close>

definition prefetched :: "int \<Rightarrow> int \<Rightarrow> prefetch \<Rightarrow> ptr list" where
  "prefetched K N p = (case pf_queue p of [] \<Rightarrow> [] | b # bs \<Rightarrow> if rows b = K \<and> cols b = N then block_ptrs b else [])"

lemma fetch_weights_owns:
  assumes "fetch_weights env B K N (p, s) = Some ((u, fB), p', s')" "whole_lines K N K False"
    and "scratch.owns (ps @ queue_ptrs p) L (ne_os env, s)"
  shows "pf_queue p' = tl (pf_queue p)" "pf_running p' = pf_running p"
    "scratch.owns (block_ptrs fB @ queue_ptrs p' @ ps) L (ne_os env, s')" "u \<Longrightarrow> block_ptrs fB = prefetched K N p"
    "\<not> u \<Longrightarrow> prefetched K N p = []"
proof -
  let ?make = "\<lambda>p1 s. map_option (\<lambda>(b, s'). ((False, b), p1, s'))
      (make_block 16 (ne_junk env) (ne_os env) (ne_sched env) K N K False B s)"
  have dims: "dims_ok K N K False" by (rule conjunct1 [OF assms(2) [unfolded whole_lines_def]])
  have made: "\<not> u \<and> p' = p1 \<and> scratch.owns (block_ptrs fB @ qs) L (ne_os env, s')"
    if "?make p1 s1 = Some ((u, fB), p', s')" "scratch.owns qs L (ne_os env, s1)" for p1 s1 qs
  proof -
    have "scratch.owns (qs @ block_ptrs fB) L (ne_os env, s')" using that make_block_owns(1) [OF that(2) _ dims] by auto
    then have "scratch.owns (block_ptrs fB @ qs) L (ne_os env, s')" by (rule scratch.owns_perm) simp
    then show ?thesis using that(1) by auto
  qed
  have "pf_queue p' = tl (pf_queue p) \<and> pf_running p' = pf_running p \<and> scratch.owns (block_ptrs fB @ queue_ptrs p' @ ps) L (ne_os env, s')
      \<and> (u \<longrightarrow> block_ptrs fB = prefetched K N p) \<and> (\<not> u \<longrightarrow> prefetched K N p = [])"
  proof (cases "pf_queue p")
    case Nil
    have "scratch.owns (queue_ptrs p @ ps) L (ne_os env, s)" by (rule scratch.owns_perm [OF assms(3)]) simp
    then show ?thesis using made [of p s "queue_ptrs p @ ps"] assms(1) Nil by (auto simp: fetch_weights_def queue_pop_def prefetched_def)
  next
    case (Cons b bs)
    define p1 where "p1 = p\<lparr>pf_queue := bs\<rparr>"
    have ow: "scratch.owns (block_ptrs b @ queue_ptrs p1 @ ps) L (ne_os env, s)"
      by (rule scratch.owns_perm [OF assms(3)]) (simp add: queue_ptrs_def p1_def Cons)
    have pop: "queue_pop p = (Some b, p1)" by (simp add: queue_pop_def Cons p1_def)
    show ?thesis
    proof (cases "rows b = K \<and> cols b = N")
      case True
      then show ?thesis using assms(1) ow by (auto simp: fetch_weights_def pop prefetched_def Cons p1_def)
    next
      case False
      obtain s1 where s1: "FixedPointBlock_delete (ne_os env) s b = Some s1" "scratch.owns (queue_ptrs p1 @ ps) L (ne_os env, s1)"
        using delete_block_owns [OF ow] by blast
      then have "?make p1 s1 = Some ((u, fB), p', s')" using assms(1) False by (auto simp: fetch_weights_def pop)
      from made [OF this s1(2)] False show ?thesis by (auto simp: prefetched_def Cons p1_def)
    qed
  qed
  then show "pf_queue p' = tl (pf_queue p)" "pf_running p' = pf_running p"
    "scratch.owns (block_ptrs fB @ queue_ptrs p' @ ps) L (ne_os env, s')" "u \<Longrightarrow> block_ptrs fB = prefetched K N p"
    "\<not> u \<Longrightarrow> prefetched K N p = []" by blast+
qed

section \<open>Properties\<close>

text \<open>
  A model gives back what it took. Creating a model and deleting it, after any move, restores the live
  memory of the scratchpad and leaves no delegate behind, also when the model could not be loaded or the
  delegate could not be applied; deleting what the model was moved from does nothing.
\<close>

theorem model_lifecycle:
  assumes "create_model env M K N backend_choice st = Some (m, st')" "os_ok (ne_os env)" "sp_inv (n_sp st)"
    and "\<forall>n \<in> set (model_requests (ne_tf env) M K N backend_choice). n \<le> max_request"
  shows "\<exists>s'' l''. Model_delete (ne_os env) (fst (Model_move m)) (n_sp st', n_tf st') = Some (s'', l'')
     \<and> sp_inv s'' \<and> sp_live s'' = sp_live (n_sp st) \<and> (\<forall>d. delegates l'' d = delegates (n_tf st) d)
     \<and> Model_delete (ne_os env) (snd (Model_move m)) (n_sp st', n_tf st') = Some (n_sp st', n_tf st')"
proof -
  have own0: "scratch.owns [] (sp_live (n_sp st)) (ne_os env, n_sp st)" using assms(2,3) by (simp add: scratch.owns_Nil sp_ok_def)
  have moved: "Model_delete (ne_os env) (snd (Model_move m)) (n_sp st', n_tf st') = Some (n_sp st', n_tf st')"
    by (simp add: Model_delete_def Model_move_def sp_free_def Let_def)
  have "scratch.owns (model_ptrs m @ []) (sp_live (n_sp st)) (ne_os env, n_sp st')
      \<and> (\<forall>d. delegates (n_tf st') d = delegates (n_tf st) d + (if md_delegate m = Some d then 1 else 0))"
  proof (cases "model_loads (ne_tf env) M K N backend_choice")
    case True
    note c = create_model_loads [OF True assms(1)]
    show ?thesis using scratch.owns_alloc_list [OF own0 assms(4) c(1)] by (simp add: c(6,7) attach_delegate_balance)
  next
    case False
    then show ?thesis using assms(1) own0 by (auto simp: create_model_fails no_model_def model_ptrs_def scratch.owns_def)
  qed
  then show ?thesis using Model_delete_owns [of m "[]" "sp_live (n_sp st)" "ne_os env" "n_sp st'" "n_tf st'"] moved
    by (auto simp: Model_move_def scratch.owns_Nil sp_ok_def deleted_delegate)
qed

text \<open>
  C35: A model that could not be loaded stays in the cache. When no backend is loaded and the file of the
  sizes does not load, \<open>matmul_int8\<close> returns normally with the result untouched, and from then on every
  call for the same sizes and backend does the same, for any files and any server: no request is sent again.
\<close>

theorem failed_model_stays_cached:
  assumes "\<not> isLoaded (loadBackend (ne_qnn env) backend_choice (n_engine st))"
    and "find (same_request M K N backend_choice) (n_models st) = None" "\<not> model_loads (ne_tf env) M K N backend_choice"
  shows "\<exists>st'. matmul_int8 env A B C M K N backend_choice st = Some (C, st')
     \<and> n_sent st' = request_tflite_generation (ne_net env) M K N backend_choice (n_sent st)
     \<and> (\<forall>env2 A2 B2 C2 st2 more. n_models st2 = n_models st' @ more
          \<longrightarrow> \<not> isLoaded (loadBackend (ne_qnn env2) backend_choice (n_engine st2))
          \<longrightarrow> (\<exists>st3. matmul_int8 env2 A2 B2 C2 M K N backend_choice st2 = Some (C2, st3) \<and> n_sent st3 = n_sent st2
               \<and> n_models st3 = n_models st2))"
proof -
  have "same_request M K N backend_choice (no_model M K N backend_choice f)" "\<not> md_interpreter (no_model M K N backend_choice f)" for f
    by (simp_all add: same_request_def no_model_def)
  moreover have "find P (xs @ x # more) = Some x" if "find P xs = None" "P x" for P :: "Model \<Rightarrow> bool" and xs x more
    using that by (induction xs) (auto split: if_splits)
  ultimately show ?thesis using assms
    by (auto simp: matmul_int8_def Let_def fetch_model_def create_model_fails [OF assms(3)])
qed

text \<open>
  C34: The fallback for floats. When no backend is loaded and the model of the sizes loads, the copies of both
  operands fit the buffers of the model, which are made large enough, and the result is what the
  interpreter computes from the operands; a second call finds the model, sends no request and allocates nothing.
\<close>

theorem fallback_float_product:
  assumes "\<not> isLoaded (loadBackend (ne_qnn env) 3 (n_engine st))" "find (same_request M K N 3) (n_models st) = None"
    and "model_loads (ne_tf env) M K N 3" "product_dims M K N"
    and "length A = nat (M * K)" "length B = nat (K * N)" "length C = nat (M * N)" "length out = nat (M * N)"
    and "scratch.alloc_list (model_requests (ne_tf env) M K N 3) (ne_os env, n_sp st) = Some (ps, sp)" "nullptr \<notin> set ps"
    and "4 * nat (M * N) \<le> tf_bytes_out (ne_tf env) (model_filename M K N 3)"
    and "tf_invoke (ne_tf env) (model_filename M K N 3) (Floats A) (Floats B) = Some (Floats out)"
  shows "\<exists>st'. matmul_int8 env A B C M K N 3 st = Some (out, st')
     \<and> n_sent st' = request_tflite_generation (ne_net env) M K N 3 (n_sent st)
     \<and> (\<not> isLoaded (loadBackend (ne_qnn env) 3 (n_engine st')) \<longrightarrow>
         (\<exists>st''. matmul_int8 env A B C M K N 3 st' = Some (out, st'') \<and> n_sent st'' = n_sent st' \<and> n_sp st'' = n_sp st'))"
proof -
  define st1 where "st1 = st\<lparr>n_engine := loadBackend (ne_qnn env) 3 (n_engine st)\<rparr>"
  have sp1: "n_sp st1 = n_sp st" "n_sent st1 = n_sent st" "n_models st1 = n_models st" "\<not> isLoaded (n_engine st1)"
    using assms(1) by (simp_all add: st1_def)
  obtain m st2 where m: "create_model env M K N 3 st1 = Some (m, st2)"
    using assms(3,9) unfolding create_model_def model_loads_def Let_def model_requests_def
    by (auto simp: split_beta bind_option_Some sp1 sp_alloc_def)
  note c = create_model_loads [OF assms(3) m]
  have ptrs: "persist_a m \<noteq> nullptr" "persist_b m \<noteq> nullptr" "persist_out m \<noteq> nullptr"
    using c(1) assms(9,10) by (auto simp: sp1 model_ptrs_def eq_commute [of nullptr])
  have sizes: "size_a m = input_bytes (tf_bytes_a (ne_tf env) (md_file m)) M K 3"
    "size_b m = input_bytes (tf_bytes_b (ne_tf env) (md_file m)) K N 3" "size_out m = tf_bytes_out (ne_tf env) (md_file m)"
    using c(2,4) by (simp_all add: model_requests_def Let_def)
  have fl: "matmul_float env m A B C M K N = Some out"
    using copy_in_fits [OF assms(4) _ assms(5) ptrs(1), of 4 3] copy_in_fits [OF assms(4) _ assms(6) ptrs(2), of 4 3]
      copy_out_all [OF assms(4,8,7) ptrs(3)] assms(11,12)
    by (simp add: matmul_float_def sizes(1,2) sizes(3) [unfolded c(4)] c(4))
  have found: "find (same_request M K N 3) (n_models st2 @ [m]) = Some m"
  proof -
    have "find P (xs @ [x]) = Some x" if "find P xs = None" "P x" for P :: "Model \<Rightarrow> bool" and xs x
      using that by (induction xs) (auto split: if_splits)
    then show ?thesis using assms(2) c(5,8) sp1(3) by simp
  qed
  have "fetch_model env M K N 3 st1 = Some (m, st2\<lparr>n_models := n_models st2 @ [m]\<rparr>)"
    using assms(2) by (simp add: fetch_model_def m sp1)
  then have "matmul_int8 env A B C M K N 3 st = Some (out, st2\<lparr>n_models := n_models st2 @ [m]\<rparr>)"
    using sp1(4) c(3) fl by (simp add: matmul_int8_def Let_def flip: st1_def)
  moreover have "\<exists>st''. matmul_int8 env A B C M K N 3 (st2\<lparr>n_models := n_models st2 @ [m]\<rparr>) = Some (out, st'') \<and> n_sent st'' = n_sent st2
      \<and> n_sp st'' = n_sp st2" if "\<not> isLoaded (loadBackend (ne_qnn env) 3 (n_engine st2))"
    using that c(3) fl found by (simp add: matmul_int8_def Let_def fetch_model_def)
  ultimately show ?thesis using c(10) sp1 by auto
qed

text \<open>
  C36: The memory of a quantised product on the fallback. It takes the first block of the prefetch queue. Everything
  it allocated is given back, and so is a block of other sizes; a prefetched block it used is not: its memory
  stays live, although the block has left the queue and nothing refers to it any more.
\<close>

theorem prefetched_weights_leak:
  assumes "matmul_quantised env m A B C M K N st = Some (C', st')" "product_dims M K N"
    and "scratch.owns (ps @ queue_ptrs (n_pf st)) L (ne_os env, n_sp st)"
  shows "pf_queue (n_pf st') = tl (pf_queue (n_pf st))
     \<and> scratch.owns (prefetched K N (n_pf st) @ queue_ptrs (n_pf st') @ ps) L (ne_os env, n_sp st')"
proof -
  let ?os = "ne_os env"
  note wl = product_dims_lines [OF assms(2)]
  obtain fA s1 u fB p1 s2 s3 s4 where
    a: "make_block 16 (ne_junk env) ?os (ne_sched env) M K K True A (n_sp st) = Some (fA, s1)"
    and f: "fetch_weights env B K N (n_pf st, s1) = Some ((u, fB), p1, s2)"
    and d: "delete_unless u ?os fB s2 = Some s3" "FixedPointBlock_delete ?os s3 fA = Some s4"
    and st': "n_pf st' = p1" "n_sp st' = s4"
    using assms(1) unfolding matmul_quantised_def Let_def by (auto simp: bind_option_Some split: prod.splits)
  have "dims_ok M K K True" using wl(1) by (simp add: whole_lines_def)
  then have "scratch.owns ((ps @ queue_ptrs (n_pf st)) @ block_ptrs fA) L (?os, s1)" by (intro make_block_owns(1) [OF assms(3) a]) simp_all
  then have "scratch.owns ((block_ptrs fA @ ps) @ queue_ptrs (n_pf st)) L (?os, s1)" by (rule scratch.owns_perm) simp
  note w = fetch_weights_owns [OF f wl(3) this]
  have "scratch.owns (block_ptrs fA @ prefetched K N (n_pf st) @ queue_ptrs p1 @ ps) L (?os, s3)"
  proof (cases u)
    case True
    have "scratch.owns (block_ptrs fA @ block_ptrs fB @ queue_ptrs p1 @ ps) L (?os, s2)" by (rule scratch.owns_perm [OF w(3)]) simp
    then show ?thesis using d(1) w(4) True by (simp add: delete_unless_def)
  next
    case False
    then have "scratch.owns (queue_ptrs p1 @ block_ptrs fA @ ps) L (?os, s3)"
      using delete_block_owns [OF w(3)] d(1) by (simp add: delete_unless_def)
    then have "scratch.owns (block_ptrs fA @ queue_ptrs p1 @ ps) L (?os, s3)" by (rule scratch.owns_perm) simp
    then show ?thesis using w(5) False by simp
  qed
  from delete_block_owns [OF this] show ?thesis using d(2) w(1) by (auto simp: st')
qed

section \<open>Witnesses\<close>

text \<open>A process whose backend libraries do not open, and interpreters for floats, for nothing, and for shorts that fail to run.\<close>

definition dead_qnn :: qnn_env where
  "dead_qnn = demo_qnn\<lparr>qe_resp := \<lambda>l c. \<lparr>r_status = 1, r_handle = None, r_num = 0, r_out = []\<rparr>\<rparr>"

definition fallback_env :: "tflite_env \<Rightarrow> npu_env" where
  "fallback_env tf = sample_env\<lparr>ne_qnn := dead_qnn, ne_tf := tf\<rparr>"

definition float_tflite :: tflite_env where
  "float_tflite = sample_tflite\<lparr>tf_bytes_out := \<lambda>_. 4, tf_invoke := \<lambda>_ a b. Some (Floats [0x40000000])\<rparr>"

lemma fallback_env_parts [simp]:
  "ne_qnn (fallback_env tf) = dead_qnn" "ne_tf (fallback_env tf) = tf" "ne_os (fallback_env tf) = bump_env"
  "ne_net (fallback_env tf) = \<lparr>net_socket = True, net_connect = True\<rparr>" "ne_sched (fallback_env tf) = sequential"
  "ne_junk (fallback_env tf) = (\<lambda>_. 0)"
  by (simp_all add: fallback_env_def sample_env_def)

lemma dead_not_loaded [simp]: "\<not> isLoaded (loadBackend dead_qnn 3 (demo_engine dead_qnn))"
  by (simp add: demo_engine_def engine_run dead_qnn_def demo_qnn_def isLoaded_def env_is_1_def set_library_paths_def project_libs_dir_def)

lemma npu_start_parts [simp]:
  "n_engine (npu_start e) = e" "n_sp (npu_start e) = scratchpad_init" "n_models (npu_start e) = []" "n_sent (npu_start e) = []"
  "n_tf (npu_start e) = []" "n_pf (npu_start e) = prefetch_init"
  by (simp_all add: npu_start_def)

lemma sample_model_requests:
  assumes "tf_bytes_a tf f = 2" "tf_bytes_b tf f = 2" "tf_bytes_out tf f \<le> 4" "f = model_filename 1 1 1 3"
  shows "\<forall>n \<in> set (model_requests tf 1 1 1 3). n \<le> 2 ^ 20" "\<forall>n \<in> set (model_requests tf 1 1 1 3). n \<le> max_request"
    "\<exists>ps st. scratch.alloc_list (model_requests tf 1 1 1 3) (bump_env, scratchpad_init) = Some (ps, st) \<and> nullptr \<notin> set ps"
proof -
  show r: "\<forall>n \<in> set (model_requests tf 1 1 1 3). n \<le> 2 ^ 20" "\<forall>n \<in> set (model_requests tf 1 1 1 3). n \<le> max_request"
    using assms by (simp_all add: model_requests_def input_bytes_def Let_def i32_id to_size_def size_mul_def max_request_def)
  have l: "length (model_requests tf 1 1 1 3) = 3" by (simp add: model_requests_def Let_def)
  have ok: "sp_ok (bump_env, scratchpad_init)" by (simp add: sp_ok_def bump_env_ok sp_inv_init)
  obtain ps st where a: "scratch.alloc_list (model_requests tf 1 1 1 3) (bump_env, scratchpad_init) = Some (ps, st)"
    using scratch.alloc_list_spec [OF ok r(2)] by blast
  have "nullptr \<notin> set ps"
    using bump_alloc_list [of _ _ ps "fst st" "snd st", OF _ r(1) init_low(1) _ init_low(2)] a l by simp
  then show "\<exists>ps st. scratch.alloc_list (model_requests tf 1 1 1 3) (bump_env, scratchpad_init) = Some (ps, st) \<and> nullptr \<notin> set ps"
    using a by blast
qed

theorem failed_model_stays_cached_witness:
  "\<exists>st' st''. matmul_int8 (fallback_env (float_tflite\<lparr>tf_build := \<lambda>_. False\<rparr>)) [0x3F800000] [0x3F800000] [0] 1 1 1 3
       (npu_start (demo_engine dead_qnn)) = Some ([0], st') \<and> length (n_sent st') = 1
     \<and> matmul_int8 (fallback_env float_tflite) [0x3F800000] [0x3F800000] [7] 1 1 1 3 (st'\<lparr>n_engine := demo_engine dead_qnn\<rparr>)
         = Some ([7], st'') \<and> length (n_sent st'') = 1"
proof -
  let ?env = "fallback_env (float_tflite\<lparr>tf_build := \<lambda>_. False\<rparr>)"
  obtain st' where m: "matmul_int8 ?env [0x3F800000] [0x3F800000] [0] 1 1 1 3 (npu_start (demo_engine dead_qnn)) = Some ([0], st')"
    "length (n_sent st') = 1"
    "\<forall>env2 A2 B2 C2 st2 more. n_models st2 = n_models st' @ more
        \<longrightarrow> \<not> isLoaded (loadBackend (ne_qnn env2) 3 (n_engine st2))
        \<longrightarrow> (\<exists>st3. matmul_int8 env2 A2 B2 C2 1 1 1 3 st2 = Some (C2, st3) \<and> n_sent st3 = n_sent st2 \<and> n_models st3 = n_models st2)"
    using failed_model_stays_cached [of ?env 3 "npu_start (demo_engine dead_qnn)" 1 1 1 "[0x3F800000]" "[0x3F800000]" "[0]"]
    by (auto simp: model_loads_def request_tflite_generation_def)
  obtain st'' where "matmul_int8 (fallback_env float_tflite) [0x3F800000] [0x3F800000] [7] 1 1 1 3 (st'\<lparr>n_engine := demo_engine dead_qnn\<rparr>)
      = Some ([7], st'')" "n_sent st'' = n_sent st'"
    using m(3) [rule_format, of "st'\<lparr>n_engine := demo_engine dead_qnn\<rparr>" "[]" "fallback_env float_tflite" "[0x3F800000]" "[0x3F800000]" "[7]"]
    by auto
  then show ?thesis using m(1,2) by auto
qed

theorem fallback_float_product_witness:
  "\<exists>st'. matmul_int8 (fallback_env float_tflite) [0x3F800000] [0x3F800000] [0] 1 1 1 3 (npu_start (demo_engine dead_qnn))
     = Some ([0x40000000], st') \<and> length (n_sent st') = 1"
proof -
  obtain ps sp where a: "scratch.alloc_list (model_requests float_tflite 1 1 1 3) (bump_env, scratchpad_init) = Some (ps, sp)" "nullptr \<notin> set ps"
    using sample_model_requests(3) [OF _ _ _ refl, of float_tflite] by (auto simp: float_tflite_def sample_tflite_def)
  show ?thesis
    using fallback_float_product [of "fallback_env float_tflite" "npu_start (demo_engine dead_qnn)" 1 1 1 "[0x3F800000]" "[0x3F800000]" "[0]"
        "[0x40000000]" ps sp] a
    by (auto simp: model_loads_def request_tflite_generation_def float_tflite_def sample_tflite_def product_dims_def)
qed

theorem model_lifecycle_witness:
  "\<exists>m st' s'' l''. create_model (fallback_env float_tflite) 1 1 1 3 (npu_start (demo_engine dead_qnn)) = Some (m, st')
     \<and> md_interpreter m \<and> Model_delete bump_env (fst (Model_move m)) (n_sp st', n_tf st') = Some (s'', l'')
     \<and> sp_live s'' = sp_live scratchpad_init"
proof -
  let ?env = "fallback_env float_tflite" and ?st = "npu_start (demo_engine dead_qnn)"
  have r: "\<forall>n \<in> set (model_requests float_tflite 1 1 1 3). n \<le> max_request"
    and a: "\<exists>ps st. scratch.alloc_list (model_requests float_tflite 1 1 1 3) (bump_env, scratchpad_init) = Some (ps, st) \<and> nullptr \<notin> set ps"
    using sample_model_requests(2,3) [OF _ _ _ refl, of float_tflite] by (auto simp: float_tflite_def sample_tflite_def)
  have l: "model_loads float_tflite 1 1 1 3" by (simp add: model_loads_def float_tflite_def sample_tflite_def)
  obtain m st' where m: "create_model ?env 1 1 1 3 ?st = Some (m, st')"
    using a l unfolding create_model_def model_loads_def Let_def model_requests_def
    by (auto simp: split_beta bind_option_Some sp_alloc_def)
  have "md_interpreter m" using create_model_loads(3) [OF _ m] l by simp
  then show ?thesis using model_lifecycle [OF m] r m by (auto simp: bump_env_ok sp_inv_init)
qed

text \<open>A queue with the block of the 1 by 1 weights, and a model whose run fails.\<close>

definition idle_model :: Model where
  "idle_model = (no_model 1 1 1 2 [])\<lparr>md_interpreter := True, persist_a := Some 8, persist_b := Some 16, persist_out := Some 24,
     size_a := 2, size_b := 2, size_out := 2\<rparr>"

theorem prefetched_weights_leak_witness:
  "\<exists>b s st'. make_block 16 (\<lambda>_. 0) bump_env sequential 1 1 1 False [0x3F800000] scratchpad_init = Some (b, s)
     \<and> matmul_quantised (fallback_env (sample_tflite\<lparr>tf_invoke := \<lambda>_ _ _. None\<rparr>)) idle_model [0x3F800000] [0x3F800000] [0] 1 1 1
         ((npu_start (demo_engine dead_qnn))\<lparr>n_sp := s, n_pf := \<lparr>pf_queue = [b], pf_running = []\<rparr>\<rparr>) = Some ([0], st')
     \<and> pf_queue (n_pf st') = [] \<and> scratch.owns (block_ptrs b) (sp_live scratchpad_init) (bump_env, n_sp st')"
proof -
  let ?p = "\<lambda>b. \<lparr>pf_queue = [b], pf_running = []\<rparr>" and ?env = "fallback_env (sample_tflite\<lparr>tf_invoke := \<lambda>_ _ _. None\<rparr>)"
  have wl: "whole_lines 1 1 1 bc" for bc by (simp add: whole_lines_def dims_ok_def)
  have dims: "dims_ok 1 1 1 bc" for bc by (simp add: dims_ok_def)
  obtain b s where b: "make_block 16 (\<lambda>_. 0) bump_env sequential 1 1 1 False [0x3F800000] scratchpad_init = Some (b, s)"
    "nullptr \<notin> set (block_ptrs b)" "sp_inv s" "top_of (os_live (os_log s)) \<le> 0 + 2 ^ 31" "total_size s = total_size scratchpad_init"
    using unit_block [OF sp_inv_init init_low(1) _ init_low(2), where bc = False and junk = "\<lambda>_. 0"] by auto
  obtain a s1 where a: "make_block 16 (\<lambda>_. 0) bump_env sequential 1 1 1 True [0x3F800000] s = Some (a, s1)" "nullptr \<notin> set (block_ptrs a)"
    using unit_block [OF b(3,4), where bc = True and junk = "\<lambda>_. 0"] b(5) init_low(2) by auto
  have lines: "1 \<le> length (mantissa x)" if "make_block 16 (\<lambda>_. 0) bump_env sequential 1 1 1 bc [0x3F800000] s0 = Some (x, s0')"
    "nullptr \<notin> set (block_ptrs x)" for x bc s0 s0'
  proof -
    note m = make_block_lines [OF that(1) wl _ that(2) schedules_ok(1)]
    have "fp_wf x" "fp_dims x = (1, 1, 1, bc)" using m(1,2) by simp_all
    then show ?thesis using whole_lines_shape(9) [OF _ wl, of x bc] by (simp add: fp_wf_def)
  qed
  have dm: "rows b = 1" "cols b = 1" using make_block_client(3) [OF b(1) dims] by (simp_all add: fp_dims_def)
  let ?st = "(npu_start (demo_engine dead_qnn))\<lparr>n_sp := s, n_pf := ?p b\<rparr>"
  have ow: "scratch.owns (block_ptrs b) (sp_live scratchpad_init) (bump_env, s)" using make_block_owns(1) [OF init_owns b(1) dims] by simp
  then have "scratch.owns (block_ptrs b @ block_ptrs a) (sp_live scratchpad_init) (bump_env, s1)"
    using make_block_owns(1) [OF _ a(1) dims] by simp
  then have "scratch.owns (block_ptrs a @ block_ptrs b) (sp_live scratchpad_init) (bump_env, s1)" by (rule scratch.owns_perm) simp
  then obtain s2 where s2: "FixedPointBlock_delete bump_env s1 a = Some s2" using delete_block_owns by blast
  have fw: "fetch_weights ?env [0x3F800000] 1 1 (?p b, s1) = Some ((True, b), \<lparr>pf_queue = [], pf_running = []\<rparr>, s1)"
    by (simp add: fetch_weights_def queue_pop_def dm)
  have cp: "copy_in (Some x) 2 (i32 1) 2 (mantissa y) = Some (take 1 (mantissa y))" if "1 \<le> length (mantissa y)" for x y
    using that by (auto simp: copy_in_def Let_def i32_id to_size_def size_mul_def)
  have m: "matmul_quantised ?env idle_model [0x3F800000] [0x3F800000] [0] 1 1 1 ?st
      = Some ([0], ?st\<lparr>n_pf := \<lparr>pf_queue = [], pf_running = []\<rparr>, n_sp := s2\<rparr>)"
    using cp [OF lines [OF a]] cp [OF lines [OF b(1,2)]]
    by (simp add: matmul_quantised_def Let_def a(1) fw idle_model_def s2 delete_unless_def)
  have "scratch.owns ([] @ queue_ptrs (n_pf ?st)) (sp_live scratchpad_init) (ne_os ?env, n_sp ?st)"
    using ow by (simp add: queue_ptrs_def)
  from prefetched_weights_leak [OF m _ this] m b(1) dm show ?thesis
    by (auto simp: product_dims_def prefetched_def queue_ptrs_def)
qed

end
