(* ===== verification/Pipeline.thy ===== *)
theory Pipeline
  imports Fallback
begin

text \<open>
  The tiled product of \<^verbatim>\<open>pipeline.h\<close>: a graph for one tile with weights written at run time, cached
  for the life of the process, and \<open>matmul_tiled\<close>, which runs it once per slice of the common dimension and
  adds the results up.
\<close>

section \<open>Graphs\<close>

record DynamicFCGraph =
  dg_isValid :: bool
  dg_contextHandle :: handle
  dg_graphHandle :: handle
  dg_tensorA :: Qnn_Tensor
  dg_tensorB :: Qnn_Tensor
  dg_tensorFC_Out :: Qnn_Tensor
  dg_tensorBias :: Qnn_Tensor
  dg_biasData :: "int list"
  dg_dimsA :: "u32 list"
  dg_dimsB :: "u32 list"
  dg_dimsC :: "u32 list"
  dg_dimsBias :: "u32 list"

type_synonym dynamic_graphs = "(string \<times> DynamicFCGraph) list"

text \<open>The graph of a tile, with the four tensors registered, the node added, and the graph compiled.\<close>

definition new_dynamic_graph :: "qnn_env \<Rightarrow> handle \<times> handle \<Rightarrow> int \<Rightarrow> int \<Rightarrow> int \<Rightarrow> qnn_log \<Rightarrow> DynamicFCGraph \<times> qnn_log" where
  "new_dynamic_graph env handles M_block K_block N_block l0 =
     (let dA = [word_of_int M_block, word_of_int K_block]; dB = [word_of_int N_block, word_of_int K_block];
          dC = [word_of_int M_block, word_of_int N_block]; dBias = [word_of_int N_block];
          bias = replicate (nat N_block) 0;
          (rc, l1) = qcall env (ContextCreate (fst handles) (snd handles)) l0;
          (rg, l2) = qcall env (GraphCreate (r_handle rc) ''dynamic_fc_graph'') l1;
          gh = r_handle rg;
          (tA, l3) = create_tensor env gh (qnn_tensor 0 ''A'' QNN_TENSOR_TYPE_APP_WRITE True QNN_DATATYPE_UFIXED_POINT_16 dA NoData 0 (Some 127)) l2;
          (tB, l4) = create_tensor env gh (qnn_tensor 1 ''B'' QNN_TENSOR_TYPE_APP_WRITE True QNN_DATATYPE_UFIXED_POINT_8 dB NoData 0 (Some 127)) l3;
          (tBias, l5) = create_tensor env gh
             (qnn_tensor 2 ''bias'' QNN_TENSOR_TYPE_STATIC True QNN_DATATYPE_SFIXED_POINT_32 dBias (Ints bias) (word_of_int (N_block * 4)) (Some 0)) l4;
          (tC, l6) = create_tensor env gh
             (qnn_tensor 3 ''C'' QNN_TENSOR_TYPE_APP_READ True QNN_DATATYPE_UFIXED_POINT_16 dC NoData 0 (Some 32768)) l5;
          l7 = qdo env (GraphAddNode gh (fully_connected ''fc_node'' [tA, tB, tBias] [tC])) l6;
          (rf, l8) = qcall env (GraphFinalize gh) l7
      in (\<lparr>dg_isValid = (r_status rf = 0), dg_contextHandle = r_handle rc, dg_graphHandle = gh, dg_tensorA = tA, dg_tensorB = tB,
           dg_tensorFC_Out = tC, dg_tensorBias = tBias, dg_biasData = bias, dg_dimsA = dA, dg_dimsB = dB, dg_dimsC = dC,
           dg_dimsBias = dBias\<rparr>, l8))"

text \<open>The cache: the graph of the sizes, or a new one, kept whether it compiled or not.\<close>

definition dynamic_graph ::
  "qnn_env \<Rightarrow> int \<Rightarrow> int \<Rightarrow> int \<Rightarrow> engine \<times> dynamic_graphs \<Rightarrow> (DynamicFCGraph \<times> engine \<times> dynamic_graphs) option" where
  "dynamic_graph env M_block K_block N_block = (\<lambda>(e, dyn).
     let key = graph_key M_block K_block N_block
     in case map_of dyn key of
          Some g \<Rightarrow> Some (g, e, dyn)
        | None \<Rightarrow>
            if interfaceProviderTable (backendContainer e) = None \<or> N_block < 0 then None
            else let (g, l) = new_dynamic_graph env (backendHandle e, deviceHandle e) M_block K_block N_block (qlog e)
                 in Some (g, e\<lparr>qlog := l\<rparr>, (key, g) # dyn))"

section \<open>Tiles\<close>

text \<open>
  The part of a quantised matrix with \<open>K\<close> columns that slice \<open>i\<close> of the common dimension takes: \<open>R\<close> rows,
  \<open>K_block\<close> columns, shifted to unsigned.
\<close>

definition tile_words :: "ptr \<Rightarrow> int \<Rightarrow> int \<Rightarrow> int \<Rightarrow> int \<Rightarrow> int list \<Rightarrow> 'a::len word list option" where
  "tile_words p K i K_block R mant =
     (if p = None \<and> R > 0 \<and> K_block > 0 then None
      else those (concat (map (\<lambda>r. map (\<lambda>c. map_option (\<lambda>m. word_of_int (m + 127))
             (array_get mant (i32 (i32 (i32 (r * K) + i32 (i * K_block)) + c)))) [0..K_block - 1]) [0..R - 1])))"

text \<open>A cleared output buffer, and the cleared result.\<close>

definition zeroed_u16 :: "ptr \<Rightarrow> int \<Rightarrow> u16 list option" where
  "zeroed_u16 p n =
     (let size = size_mul (to_size n) 2 in if p = None \<and> size > 0 then None else Some (replicate (size div 2) 0))"

definition zero_fill :: "int \<Rightarrow> f32 list \<Rightarrow> f32 list option" where
  "zero_fill n C =
     (let size = size_mul (to_size n) 4
      in if length C * 4 < size then None else Some (replicate (size div 4) 0 @ drop (size div 4) C))"

text \<open>One slice: fill the inputs, run the graph, add the scaled accumulators to the result.\<close>

definition tile_step ::
  "npu_env \<Rightarrow> DynamicFCGraph \<Rightarrow> FixedPointBlock \<Rightarrow> FixedPointBlock \<Rightarrow> int \<Rightarrow> int \<Rightarrow> int \<Rightarrow> int \<Rightarrow> int \<Rightarrow> ptr \<Rightarrow> int
    \<Rightarrow> f32 list \<times> scratchpad \<times> qnn_log \<Rightarrow> (f32 list \<times> scratchpad \<times> qnn_log) option" where
  "tile_step env g block_A block_B K N M_block K_block N_block pO i = (\<lambda>(C, s0, l0).
     let os = ne_os env in
     Option.bind (alloc os s0 (size_mul (to_size (i32 (M_block * K_block))) 2)) (\<lambda>(pA, s1).
     Option.bind (alloc os s1 (size_mul (to_size (i32 (N_block * K_block))) 1)) (\<lambda>(pB, s2).
     Option.bind (tile_words pA K i K_block M_block (mantissa block_A)) (\<lambda>u_A.
     Option.bind (tile_words pB K i K_block N_block (mantissa block_B)) (\<lambda>u_B.
     Option.bind (zeroed_u16 pO (i32 (M_block * N_block))) (\<lambda>zeros.
       let tA = (dg_tensorA g)\<lparr>t_data := Halves u_A, t_dataSize := word_of_int (M_block * K_block * 2)\<rparr>;
           tB = (dg_tensorB g)\<lparr>t_data := Bytes u_B, t_dataSize := word_of_int (N_block * K_block)\<rparr>;
           tC = (dg_tensorFC_Out g)\<lparr>t_data := Halves zeros, t_dataSize := word_of_int (M_block * N_block * 2)\<rparr>;
           (r, l1) = qcall (ne_qnn env) (GraphExecute (dg_graphHandle g) [tA, tB] tC) l0
       in Option.bind (write_output zeros r) (\<lambda>exec_out.
          Option.bind (product_rows (ne_sched env) (i32 (M_block * N_block) > 4000) f32_add (raw_u16 exec_out) K_block
                         block_A block_B M_block N_block N C) (\<lambda>C'.
          Option.bind (sp_free os s2 pA) (\<lambda>s3.
          Option.bind (sp_free os s3 pB) (\<lambda>s4.
            Some (C', s4, l1))))))))))) "

definition run_tiles ::
  "npu_env \<Rightarrow> DynamicFCGraph \<Rightarrow> FixedPointBlock \<Rightarrow> FixedPointBlock \<Rightarrow> int \<Rightarrow> int \<Rightarrow> int \<Rightarrow> int \<Rightarrow> int \<Rightarrow> int
    \<Rightarrow> f32 list \<times> scratchpad \<times> qnn_log \<Rightarrow> (f32 list \<times> scratchpad \<times> qnn_log) option" where
  "run_tiles env g block_A block_B K N M_block K_block N_block k_split = (\<lambda>(C, s, l).
     Option.bind (alloc (ne_os env) s (size_mul (to_size (i32 (M_block * N_block))) 2)) (\<lambda>(pO, s1).
     Option.bind (loop_opt (tile_step env g block_A block_B K N M_block K_block N_block pO) [0..k_split - 1] (C, s1, l)) (\<lambda>(C', s2, l').
       map_option (\<lambda>s3. (C', s3, l')) (sp_free (ne_os env) s2 pO))))"

section \<open>The product\<close>

text \<open>Division of ints, undefined for zero and when the quotient does not fit.\<close>

definition block_extent :: "int \<Rightarrow> int \<Rightarrow> int option" where
  "block_extent a b = (if b = 0 \<or> c_div a b \<ge> 2 ^ 31 then None else Some (c_div a b))"

definition matmul_tiled ::
  "npu_env \<Rightarrow> f32 list \<Rightarrow> f32 list \<Rightarrow> f32 list \<Rightarrow> int \<Rightarrow> int \<Rightarrow> int \<Rightarrow> int \<Rightarrow> int \<Rightarrow> int \<Rightarrow> int \<Rightarrow> npu \<times> dynamic_graphs
    \<Rightarrow> (f32 list \<times> npu \<times> dynamic_graphs) option" where
  "matmul_tiled env A B C M K N m_split k_split n_split backend_choice = (\<lambda>(st, dyn).
     let e = loadBackend (ne_qnn env) backend_choice (n_engine st); os = ne_os env; sched = ne_sched env; junk = ne_junk env
     in if \<not> isLoaded e then Some (C, st\<lparr>n_engine := e\<rparr>, dyn)
        else
          Option.bind (block_extent M m_split) (\<lambda>M_block.
          Option.bind (block_extent K k_split) (\<lambda>K_block.
          Option.bind (block_extent N n_split) (\<lambda>N_block.
          Option.bind (make_block 16 junk os sched M K K True A (n_sp st)) (\<lambda>(block_A, s1).
          Option.bind (transpose_weights B K N) (\<lambda>B_transposed.
          Option.bind (make_block 8 junk os sched N K K True B_transposed s1) (\<lambda>(block_B, s2).
          Option.bind (zero_fill (i32 (M * N)) C) (\<lambda>C0.
          Option.bind (dynamic_graph (ne_qnn env) M_block K_block N_block (e, dyn)) (\<lambda>(g, e1, dyn1).
          Option.bind (if dg_isValid g then run_tiles env g block_A block_B K N M_block K_block N_block k_split (C0, s2, qlog e1)
                       else Some (C0, s2, qlog e1)) (\<lambda>(C', s3, l).
          Option.bind (FixedPointBlock_delete os s3 block_B) (\<lambda>s4.
          Option.bind (FixedPointBlock_delete os s4 block_A) (\<lambda>s5.
            Some (C', st\<lparr>n_engine := e1\<lparr>qlog := l\<rparr>, n_sp := s5\<rparr>, dyn1)))))))))))))"

end
