(* ===== verification/TiledProduct.thy ===== *)
theory TiledProduct
  imports Pipeline
begin

text \<open>
  What the tiled product computes: the slices the accelerator is given, the sum over the slices, the
  elements that no slice reaches, and the memory.
\<close>

section \<open>Slices\<close>

text \<open>Slice \<open>i\<close> of the mantissas of some lines, \<open>kb\<close> elements of each line.\<close>

definition slice_words :: "nat \<Rightarrow> f32 list list \<Rightarrow> nat \<Rightarrow> nat \<Rightarrow> 'a::len word list" where
  "slice_words w lines kb i = concat (map (\<lambda>vs. map (\<lambda>c. word_of_int (line_mantissa w vs (i * kb + c) + 127)) [0..<kb]) lines)"

lemma slice_index:
  assumes "l < nat R" "c < nat kb" "(int i + 1) * kb \<le> K" "R * K < 2 ^ 31"
  shows "i32 (i32 (i32 (int l * K) + i32 (int i * kb)) + int c) = int (l * nat K + (i * nat kb + c))"
    "l * nat K + (i * nat kb + c) < nat (R * K)" "i * nat kb + c < nat K"
proof -
  have kb: "0 < kb" using assms(2) by linarith
  have ik: "int i * kb + kb \<le> K" using assms(3) by (simp add: algebra_simps)
  have nn: "0 \<le> int i * kb" using kb by simp
  have K: "0 < K" using ik nn kb by linarith
  have "(int l + 1) * K \<le> R * K" using assms(1) K by (intro mult_right_mono) linarith+
  then have lk: "int l * K + K \<le> R * K" by (simp add: algebra_simps)
  have nl: "0 \<le> int l * K" using K by simp
  have small: "R * K < 2147483648" using assms(4) by simp
  have c: "int c < kb" using assms(2) by linarith
  have 1: "i32 (int l * K) = int l * K" using lk nl small K by (intro i32_id) linarith+
  have 2: "i32 (int i * kb) = int i * kb" using lk nl small ik nn kb by (intro i32_id) linarith+
  have 3: "i32 (int l * K + int i * kb) = int l * K + int i * kb" using lk nl small ik nn kb by (intro i32_id) linarith+
  have 4: "i32 (int l * K + int i * kb + int c) = int l * K + int i * kb + int c" using lk nl small ik nn c by (intro i32_id) linarith+
  show "i32 (i32 (i32 (int l * K) + i32 (int i * kb)) + int c) = int (l * nat K + (i * nat kb + c))"
    unfolding 1 2 3 4 using K kb by simp
  have "int (l * nat K + (i * nat kb + c)) < R * K" using lk ik c K kb by simp
  then show "l * nat K + (i * nat kb + c) < nat (R * K)" by (simp only: zless_nat_eq_int_zless)
  have "int (i * nat kb + c) < K" using ik c kb by simp
  then show "i * nat kb + c < nat K" by (simp only: zless_nat_eq_int_zless)
qed

lemma tile_words_eq:
  assumes "p \<noteq> nullptr" "(int i + 1) * kb \<le> K" "0 \<le> kb" "0 \<le> R" "R \<le> R'" "R' * K < 2 ^ 31" "nat (R' * K) \<le> length mant"
    and "\<And>l k. l < nat R \<Longrightarrow> k < nat K \<Longrightarrow> mant ! (l * nat K + k) = line_mantissa w (line l) k"
  shows "tile_words p K (int i) kb R mant = Some (slice_words w (map line [0..<nat R]) (nat kb) i)"
proof -
  have e: "[0..R - 1] = map int [0..<nat R]" "[0..kb - 1] = map int [0..<nat kb]"
    using assms(3,4) upto_0_int [of "nat R"] upto_0_int [of "nat kb"] by simp_all
  have get: "array_get mant (i32 (i32 (i32 (int l * K) + i32 (int i * kb)) + int c))
      = Some (line_mantissa w (line l) (i * nat kb + c))" if "l < nat R" "c < nat kb" for l c
  proof -
    have l: "l < nat R'" using that(1) assms(4,5) by linarith
    note ix = slice_index [OF l that(2) assms(2,6)]
    have "l * nat K + (i * nat kb + c) < length mant" using ix(2) assms(7) by linarith
    then show ?thesis unfolding ix(1) using assms(8) [OF that(1) ix(3)] by (simp del: of_nat_add of_nat_mult)
  qed
  have "concat (map (\<lambda>r. map (\<lambda>c. map_option (\<lambda>m. word_of_int (m + 127) :: 'a word)
      (array_get mant (i32 (i32 (i32 (r * K) + i32 (int i * kb)) + c)))) [0..kb - 1]) [0..R - 1])
      = map Some (slice_words w (map line [0..<nat R]) (nat kb) i)"
    unfolding e map_map map_concat slice_words_def by (intro arg_cong [of _ _ concat] map_cong refl) (simp add: get)
  then show ?thesis using assms(1) unfolding tile_words_def by (simp only: those_Some_map) simp
qed

section \<open>Memory of the slices\<close>

text \<open>Each of the next \<open>n\<close> slices gets its two buffers and gives them back.\<close>

fun slices_granted :: "os_env \<Rightarrow> size_t \<Rightarrow> size_t \<Rightarrow> nat \<Rightarrow> scratchpad \<Rightarrow> bool" where
  "slices_granted os a b 0 s \<longleftrightarrow> True"
| "slices_granted os a b (Suc n) s \<longleftrightarrow>
     (case alloc os s a of None \<Rightarrow> False | Some (pA, s1) \<Rightarrow> pA \<noteq> nullptr \<and>
     (case alloc os s1 b of None \<Rightarrow> False | Some (pB, s2) \<Rightarrow> pB \<noteq> nullptr \<and>
     (case Option.bind (sp_free os s2 pA) (\<lambda>s3. sp_free os s3 pB) of None \<Rightarrow> False | Some s4 \<Rightarrow> slices_granted os a b n s4)))"

lemma slice_buffers:
  assumes "slices_granted os a b (Suc n) s" "scratch.owns ps L (os, s)" "a \<le> max_request" "b \<le> max_request"
  obtains pA s1 pB s2 s3 s4 where "alloc os s a = Some (pA, s1)" "alloc os s1 b = Some (pB, s2)" "pA \<noteq> nullptr" "pB \<noteq> nullptr"
    "sp_free os s2 pA = Some s3" "sp_free os s3 pB = Some s4" "slices_granted os a b n s4" "scratch.owns ps L (os, s4)"
proof -
  obtain pA s1 pB s2 where a: "alloc os s a = Some (pA, s1)" "alloc os s1 b = Some (pB, s2)" "pA \<noteq> nullptr" "pB \<noteq> nullptr"
    using assms(1) by (cases "alloc os s a"; cases "alloc os (snd (the (alloc os s a))) b") auto
  have "scratch.owns ((ps @ [pA]) @ [pB]) L (os, s2)" by (intro alloc_owns [OF alloc_owns [OF assms(2,3) a(1)] assms(4) a(2)])
  then have "scratch.owns (pA # pB # ps) L (os, s2)" by (rule scratch.owns_perm) simp
  then obtain s3 where s3: "sp_free os s2 pA = Some s3" "scratch.owns (pB # ps) L (os, s3)" using free_owns by blast
  then obtain s4 where s4: "sp_free os s3 pB = Some s4" "scratch.owns ps L (os, s4)" using free_owns by blast
  have "slices_granted os a b n s4" using assms(1) a s3(1) s4(1) by simp
  with a s3(1) s4 show thesis by (intro that)
qed

section \<open>One slice\<close>

text \<open>The element of the result a slice adds: the scaled accumulator and the product of the means.\<close>

definition slice_element :: "f32 list \<Rightarrow> f32 list \<Rightarrow> int \<Rightarrow> int \<Rightarrow> int \<Rightarrow> int \<Rightarrow> nat \<Rightarrow> nat \<Rightarrow> int \<Rightarrow> f32" where
  "slice_element A B M K N K_block r c x =
     product_value K_block (block_exponent (line_of True M K A r)) 8 (block_mean (line_of True M K A r))
       (block_exponent (line_of False K N B c)) 8 (block_mean (line_of False K N B c)) x"

text \<open>A call that runs slice \<open>i\<close>.\<close>

definition runs_slice :: "DynamicFCGraph \<Rightarrow> f32 list list \<Rightarrow> f32 list list \<Rightarrow> nat \<Rightarrow> nat \<Rightarrow> qnn_call \<Rightarrow> bool" where
  "runs_slice g As Bs kb i call \<longleftrightarrow> (\<exists>tA tB tC. call = GraphExecute (dg_graphHandle g) [tA, tB] tC
     \<and> t_data tA = Halves (slice_words 16 As kb i) \<and> t_data tB = Bytes (slice_words 8 Bs kb i))"

text \<open>The sizes of a tiling: the tile fits the matrices, and the slices the common dimension.\<close>

definition tiling :: "int \<Rightarrow> int \<Rightarrow> int \<Rightarrow> int \<Rightarrow> int \<Rightarrow> int \<Rightarrow> int \<Rightarrow> bool" where
  "tiling M K N mb kb nb k \<longleftrightarrow> product_dims M K N \<and> 0 \<le> mb \<and> mb \<le> M \<and> 0 \<le> kb \<and> k * kb \<le> K \<and> 0 \<le> nb \<and> nb \<le> N \<and> 0 < k"

lemma tiling_sizes:
  assumes "tiling M K N mb kb nb k"
  shows "size_mul (to_size (i32 (mb * kb))) 2 = nat (mb * kb) * 2" "size_mul (to_size (i32 (nb * kb))) 1 = nat (nb * kb)"
    "size_mul (to_size (i32 (mb * nb))) 2 = nat (mb * nb) * 2" "i32 (mb * nb) = mb * nb"
    "nat (mb * kb) * 2 \<le> max_request" "nat (nb * kb) \<le> max_request" "nat (mb * nb) * 2 \<le> max_request"
proof -
  have d: "product_dims M K N" "0 \<le> mb" "mb \<le> M" "0 \<le> kb" "k * kb \<le> K" "0 \<le> nb" "nb \<le> N" "0 < k"
    using assms by (simp_all add: tiling_def)
  have "1 * kb \<le> k * kb" using d by (intro mult_right_mono) linarith+
  then have kb: "kb \<le> K" using d(5) by linarith
  have p: "M * K < 2147483648" "N * K < 2147483648" "M * N * 2 < 2147483648" "0 \<le> M" "0 \<le> N" "0 \<le> K"
    using d(1) by (simp_all add: product_dims_def)
  have le: "mb * kb \<le> M * K" "nb * kb \<le> N * K" "mb * nb \<le> M * N" using d kb p by (simp_all add: mult_mono)
  have nn: "0 \<le> mb * kb" "0 \<le> nb * kb" "0 \<le> mb * nb" using d by simp_all
  have b: "nat (mb * kb) < 2147483648" "nat (nb * kb) < 2147483648" "nat (mb * nb) < 2147483648"
    using le nn p by (simp_all add: nat_less_iff)
  have i: "i32 (mb * kb) = mb * kb" "i32 (nb * kb) = nb * kb" using le nn p by (simp_all add: i32_id)
  show "i32 (mb * nb) = mb * nb" using le nn p by (simp add: i32_id)
  then show "size_mul (to_size (i32 (mb * kb))) 2 = nat (mb * kb) * 2" "size_mul (to_size (i32 (nb * kb))) 1 = nat (nb * kb)"
    "size_mul (to_size (i32 (mb * nb))) 2 = nat (mb * nb) * 2"
    using i b nn le p by (simp_all add: to_size_def size_mul_def)
  show "nat (mb * kb) * 2 \<le> max_request" "nat (nb * kb) \<le> max_request" "nat (mb * nb) * 2 \<le> max_request"
    using b by (simp_all add: max_request_def)
qed

text \<open>A block of whole rows, as the tiles use it: \<open>n\<close> lines of \<open>k\<close> elements.\<close>

definition line_block :: "nat \<Rightarrow> FixedPointBlock \<Rightarrow> (nat \<Rightarrow> f32 list) \<Rightarrow> nat \<Rightarrow> nat \<Rightarrow> bool" where
  "line_block w b line n k \<longleftrightarrow> lines_at_least n b \<and> n * k \<le> length (mantissa b)
     \<and> (\<forall>l<n. exponents b ! l = block_exponent (line l) \<and> means b ! l = block_mean (line l) \<and> precisions b ! l = 8)
     \<and> (\<forall>l<n. \<forall>c<k. mantissa b ! (l * k + c) = line_mantissa w (line l) c)"

lemma make_line_block:
  assumes "make_block w junk os sched r c c True xs s = Some (b, s')" "whole_lines r c c True" "w \<in> {8, 16, 32}"
    and "nullptr \<notin> set (block_ptrs b)" "schedule_ok sched" "nat (r * c) \<le> length xs"
  shows "line_block w b (line_of True r c xs) (nat r) (nat c)"
proof -
  note m = make_block_lines [OF assms]
  note sh = whole_lines_shape [OF m(2) assms(2)]
  have n: "0 \<le> r" "0 \<le> c" using assms(2) by (auto simp: whole_lines_def dims_ok_def)
  have "lines_at_least (nat r) b" "nat r * nat c \<le> length (mantissa b)"
    using m(1) sh n by (auto simp: fp_wf_def lines_at_least_def nat_mult_distrib)
  then show ?thesis unfolding line_block_def using m(3,4) by simp
qed

lemma line_block_cong: "line_block w b f n k \<Longrightarrow> (\<And>l. l < n \<Longrightarrow> f l = h l) \<Longrightarrow> line_block w b h n k"
  by (simp add: line_block_def)

lemma tile_words_block:
  assumes "line_block w b line (nat R') (nat K)" "p \<noteq> nullptr" "(int i + 1) * kb \<le> K" "0 \<le> kb" "0 \<le> R" "R \<le> R'" "R' * K < 2 ^ 31"
  shows "tile_words p K (int i) kb R (mantissa b) = Some (slice_words w (map line [0..<nat R]) (nat kb) i)"
proof (rule tile_words_eq [OF assms(2-7)])
  have "0 \<le> K" using assms(3,4) by (metis mult_nonneg_nonneg of_nat_0_le_iff add_nonneg_nonneg order_trans zero_le_one)
  then show "nat (R' * K) \<le> length (mantissa b)" using assms(1,5,6) by (simp add: line_block_def nat_mult_distrib)
  show "mantissa b ! (l * nat K + k) = line_mantissa w (line l) k" if "l < nat R" "k < nat K" for l k
    using assms(1,6) that by (simp add: line_block_def)
qed

lemma tile_step_run:
  assumes "tiling M K N mb kb nb k" "i < nat k" "schedule_ok (ne_sched env)" "writes_all (ne_qnn env) (nat (mb * nb))"
    and "line_block 16 fA lA (nat M) (nat K)" "line_block 8 fB lB (nat N) (nat K)" "length C = nat (M * N)" "pO \<noteq> nullptr"
    and "slices_granted (ne_os env) (nat (mb * kb) * 2) (nat (nb * kb)) (Suc n) s" "scratch.owns ps L (ne_os env, s)"
  shows "\<exists>C' s' call r. tile_step env g fA fB K N mb kb nb pO (int i) (C, s, l) = Some (C', s', (call, r) # l)
    \<and> runs_slice g (map lA [0..<nat mb]) (map lB [0..<nat nb]) (nat kb) i call
    \<and> slices_granted (ne_os env) (nat (mb * kb) * 2) (nat (nb * kb)) n s' \<and> scratch.owns ps L (ne_os env, s') \<and> length C' = length C
    \<and> (\<forall>a<nat mb. \<forall>b<nat nb. C' ! (a * nat N + b) = f32_add (C ! (a * nat N + b))
         (product_at kb fA fB a b (uint (r_out r ! (a * nat nb + b)) - 32768)))
    \<and> (\<forall>p<length C. \<not> (p div nat N < nat mb \<and> p mod nat N < nat nb) \<longrightarrow> C' ! p = C ! p)"
proof -
  let ?os = "ne_os env"
  have d: "product_dims M K N" "0 \<le> mb" "mb \<le> M" "0 \<le> kb" "k * kb \<le> K" "0 \<le> nb" "nb \<le> N"
    using assms(1) by (simp_all add: tiling_def)
  note z = tiling_sizes [OF assms(1)]
  have p: "M * K < 2 ^ 31" "N * K < 2 ^ 31" "M * N < 2 ^ 31" "0 \<le> M" "0 \<le> N"
    using d(1) by (auto simp: product_dims_def)
  have "(int i + 1) * kb \<le> k * kb" using assms(2) d(4) by (intro mult_right_mono) linarith+
  then have ik: "(int i + 1) * kb \<le> K" using d(5) by linarith
  from slice_buffers [OF assms(9,10) z(5,6)] obtain pA s1 pB s2 s3 s4 where
    a: "alloc ?os s (nat (mb * kb) * 2) = Some (pA, s1)" "alloc ?os s1 (nat (nb * kb)) = Some (pB, s2)" "pA \<noteq> nullptr" "pB \<noteq> nullptr"
    "sp_free ?os s2 pA = Some s3" "sp_free ?os s3 pB = Some s4" "slices_granted ?os (nat (mb * kb) * 2) (nat (nb * kb)) n s4"
    "scratch.owns ps L (?os, s4)" .
  have uA: "tile_words pA K (int i) kb mb (mantissa fA) = Some (slice_words 16 (map lA [0..<nat mb]) (nat kb) i)"
    by (rule tile_words_block [OF assms(5) a(3) ik d(4,2,3) p(1)])
  have uB: "tile_words pB K (int i) kb nb (mantissa fB) = Some (slice_words 8 (map lB [0..<nat nb]) (nat kb) i)"
    by (rule tile_words_block [OF assms(6) a(4) ik d(4,6,7) p(2)])
  have zr: "zeroed_u16 pO (mb * nb) = Some (replicate (nat (mb * nb)) 0)"
    using z(3) assms(8) by (auto simp: zeroed_u16_def Let_def z(4))
  define call where "call = GraphExecute (dg_graphHandle g)
     [(dg_tensorA g)\<lparr>t_data := Halves (slice_words 16 (map lA [0..<nat mb]) (nat kb) i), t_dataSize := word_of_int (mb * kb * 2)\<rparr>,
      (dg_tensorB g)\<lparr>t_data := Bytes (slice_words 8 (map lB [0..<nat nb]) (nat kb) i), t_dataSize := word_of_int (nb * kb)\<rparr>]
     ((dg_tensorFC_Out g)\<lparr>t_data := Halves (replicate (nat (mb * nb)) 0), t_dataSize := word_of_int (mb * nb * 2)\<rparr>)"
  define r where "r = qe_resp (ne_qnn env) l call"
  have lr: "length (r_out r) = nat (mb * nb)" using assms(4) by (simp add: r_def call_def writes_all_def)
  then have wo: "write_output (replicate (nat (mb * nb)) 0) r = Some (r_out r)" by (simp add: write_output_def)
  have n: "int (nat mb) = mb" "int (nat nb) = nb" "int (nat N) = N" using d p by simp_all
  have raw: "raw_u16 (r_out r) (int (a * nat nb + b)) = Some (uint (r_out r ! (a * nat nb + b)) - 32768)"
    if "a < nat mb" "b < nat nb" for a b
  proof -
    have "mb * nb \<le> M * N" using d p by (simp add: mult_mono)
    then have "mb * nb < 2 ^ 31" using p(3) by linarith
    from flat_index(2) [OF that(2,1) this] show ?thesis using lr by (simp add: raw_u16_def del: of_nat_add of_nat_mult)
  qed
  have la: "lines_at_least (nat mb) fA" "lines_at_least (nat nb) fB"
    using assms(5,6) nat_mono [OF d(3)] nat_mono [OF d(7)] unfolding line_block_def lines_at_least_def by linarith+
  have "mb * N \<le> M * N" using d p by (simp add: mult_right_mono)
  then have small: "int (nat mb) * int (nat N) < 2 ^ 31" "nat mb * nat N \<le> length C"
    using p d assms(7) by (simp_all add: n nat_mult_distrib [symmetric] nat_mono)
  obtain C' where C': "product_rows (ne_sched env) (mb * nb > 4000) f32_add (raw_u16 (r_out r)) kb fA fB mb nb N C = Some C'"
    "length C' = length C"
    "\<forall>a<nat mb. \<forall>b<nat nb. C' ! (a * nat N + b) = f32_add (C ! (a * nat N + b))
       (product_at kb fA fB a b (uint (r_out r ! (a * nat nb + b)) - 32768))"
    "\<forall>p<length C. \<not> (p div nat N < nat mb \<and> p mod nat N < nat nb) \<longrightarrow> C' ! p = C ! p"
    using product_rows_eq [OF assms(3) la _ small, where raw = "raw_u16 (r_out r)" and upd = f32_add and K = kb
        and cond = "mb * nb > 4000" and x = "\<lambda>a b. uint (r_out r ! (a * nat nb + b)) - 32768"] raw nat_mono [OF d(7)]
    unfolding n by auto
  have "tile_step env g fA fB K N mb kb nb pO (int i) (C, s, l) = Some (C', s4, (call, r) # l)"
    unfolding tile_step_def Let_def prod.case z(1-3) unfolding z(4)
    using wo C'(1) by (simp add: a(1,2,5,6) uA uB zr qcall_eq call_def r_def)
  moreover have "runs_slice g (map lA [0..<nat mb]) (map lB [0..<nat nb]) (nat kb) i call" by (simp add: runs_slice_def call_def)
  ultimately show ?thesis using C'(2-4) a(7,8) by blast
qed

section \<open>All slices\<close>

text \<open>The sum of what the slices add to an element, in order.\<close>

definition slice_sum :: "(int \<Rightarrow> f32) \<Rightarrow> nat \<Rightarrow> qnn_resp list \<Rightarrow> f32" where
  "slice_sum el p rs = foldl (\<lambda>acc r. f32_add acc (el (uint (r_out r ! p) - 32768))) 0 rs"

lemma tile_loop_run:
  assumes "tiling M K N mb kb nb k" "schedule_ok (ne_sched env)" "writes_all (ne_qnn env) (nat (mb * nb))"
    and "line_block 16 fA lA (nat M) (nat K)" "line_block 8 fB lB (nat N) (nat K)" "C = replicate (nat (M * N)) 0" "pO \<noteq> nullptr"
    and "slices_granted (ne_os env) (nat (mb * kb) * 2) (nat (nb * kb)) (nat k) s" "scratch.owns ps L (ne_os env, s)" "m \<le> nat k"
  shows "\<exists>C' s' calls. loop_opt (tile_step env g fA fB K N mb kb nb pO) (map int [0..<m]) (C, s, l) = Some (C', s', rev calls @ l)
    \<and> length calls = m \<and> (\<forall>i<m. runs_slice g (map lA [0..<nat mb]) (map lB [0..<nat nb]) (nat kb) i (fst (calls ! i)))
    \<and> slices_granted (ne_os env) (nat (mb * kb) * 2) (nat (nb * kb)) (nat k - m) s' \<and> scratch.owns ps L (ne_os env, s')
    \<and> length C' = length C
    \<and> (\<forall>a<nat mb. \<forall>b<nat nb. C' ! (a * nat N + b) = slice_sum (product_at kb fA fB a b) (a * nat nb + b) (map snd calls))
    \<and> (\<forall>p<length C. \<not> (p div nat N < nat mb \<and> p mod nat N < nat nb) \<longrightarrow> C' ! p = 0)"
  using assms(10)
proof (induction m)
  case 0
  have "a * nat N + b < nat (M * N)" if "a < nat mb" "b < nat nb" for a b
  proof -
    have d: "mb \<le> M" "nb \<le> N" "M * N < 2 ^ 31" using assms(1) by (auto simp: tiling_def product_dims_def)
    have "b < nat N" "a < nat M" using that nat_mono [OF d(1)] nat_mono [OF d(2)] by linarith+
    then show ?thesis using flat_index(2) d(3) by blast
  qed
  then show ?case using assms(6,8,9) by (intro exI [of _ C] exI [of _ s] exI [of _ "[]"]) (simp add: slice_sum_def)
next
  case (Suc m)
  then obtain C1 s1 calls where IH: "loop_opt (tile_step env g fA fB K N mb kb nb pO) (map int [0..<m]) (C, s, l) = Some (C1, s1, rev calls @ l)"
    "length calls = m" "\<forall>i<m. runs_slice g (map lA [0..<nat mb]) (map lB [0..<nat nb]) (nat kb) i (fst (calls ! i))"
    "slices_granted (ne_os env) (nat (mb * kb) * 2) (nat (nb * kb)) (nat k - m) s1" "scratch.owns ps L (ne_os env, s1)" "length C1 = length C"
    "\<forall>a<nat mb. \<forall>b<nat nb. C1 ! (a * nat N + b) = slice_sum (product_at kb fA fB a b) (a * nat nb + b) (map snd calls)"
    "\<forall>p<length C. \<not> (p div nat N < nat mb \<and> p mod nat N < nat nb) \<longrightarrow> C1 ! p = 0" by auto
  have "nat k - m = Suc (nat k - Suc m)" and m: "m < nat k" using Suc.prems by simp_all
  then have gr: "slices_granted (ne_os env) (nat (mb * kb) * 2) (nat (nb * kb)) (Suc (nat k - Suc m)) s1" using IH(4) by simp
  have len: "length C1 = nat (M * N)" using IH(6) assms(6) by simp
  obtain C2 s2 call r where st: "tile_step env g fA fB K N mb kb nb pO (int m) (C1, s1, rev calls @ l) = Some (C2, s2, (call, r) # rev calls @ l)"
    "runs_slice g (map lA [0..<nat mb]) (map lB [0..<nat nb]) (nat kb) m call"
    "slices_granted (ne_os env) (nat (mb * kb) * 2) (nat (nb * kb)) (nat k - Suc m) s2" "scratch.owns ps L (ne_os env, s2)" "length C2 = length C1"
    "\<forall>a<nat mb. \<forall>b<nat nb. C2 ! (a * nat N + b) = f32_add (C1 ! (a * nat N + b))
       (product_at kb fA fB a b (uint (r_out r ! (a * nat nb + b)) - 32768))"
    "\<forall>p<length C1. \<not> (p div nat N < nat mb \<and> p mod nat N < nat nb) \<longrightarrow> C2 ! p = C1 ! p"
    using tile_step_run [OF assms(1) m assms(2-5) len assms(7) gr IH(5)] by blast
  have "loop_opt (tile_step env g fA fB K N mb kb nb pO) (map int [0..<Suc m]) (C, s, l) = Some (C2, s2, rev (calls @ [(call, r)]) @ l)"
    using IH(1) st(1) by (simp add: loop_opt_append)
  moreover have "\<forall>i<Suc m. runs_slice g (map lA [0..<nat mb]) (map lB [0..<nat nb]) (nat kb) i (fst ((calls @ [(call, r)]) ! i))"
    using IH(2,3) st(2) by (auto simp: nth_append less_Suc_eq)
  moreover have "\<forall>a<nat mb. \<forall>b<nat nb. C2 ! (a * nat N + b)
      = slice_sum (product_at kb fA fB a b) (a * nat nb + b) (map snd (calls @ [(call, r)]))"
    using IH(7) st(6) by (simp add: slice_sum_def)
  moreover have "\<forall>p<length C. \<not> (p div nat N < nat mb \<and> p mod nat N < nat nb) \<longrightarrow> C2 ! p = 0" using IH(6,8) st(7) by simp
  ultimately show ?case using IH(2,6) st(3-5) by (intro exI [of _ C2] exI [of _ s2] exI [of _ "calls @ [(call, r)]"]) simp
qed

section \<open>The whole product\<close>

definition tiled_operands :: "f32 list \<Rightarrow> f32 list \<Rightarrow> f32 list \<Rightarrow> int \<Rightarrow> int \<Rightarrow> int \<Rightarrow> bool" where
  "tiled_operands A B C M K N \<longleftrightarrow> product_dims M K N \<and> length A = nat (M * K) \<and> length B = nat (K * N) \<and> length C = nat (M * N)
     \<and> (\<forall>i < nat M. line_mean 16 (line_of True M K A i) \<noteq> None) \<and> (\<forall>j < nat N. line_mean 8 (line_of False K N B j) \<noteq> None)"

text \<open>The requests before the slices, and that each of them and each slice's is granted.\<close>

definition tiled_requests :: "int \<Rightarrow> int \<Rightarrow> int \<Rightarrow> int \<Rightarrow> int \<Rightarrow> size_t list" where
  "tiled_requests M K N mb nb = block_requests 16 M K 1 True 0 @ block_requests 8 N K 1 True 0 @ [nat (mb * nb) * 2]"

definition tiled_memory :: "os_env \<Rightarrow> scratchpad \<Rightarrow> int \<Rightarrow> int \<Rightarrow> int \<Rightarrow> int \<Rightarrow> int \<Rightarrow> int \<Rightarrow> int \<Rightarrow> bool" where
  "tiled_memory os s M K N mb kb nb k \<longleftrightarrow>
     (\<exists>ps s'. scratch.alloc_list (tiled_requests M K N mb nb) (os, s) = Some (ps, (os, s')) \<and> nullptr \<notin> set ps
        \<and> slices_granted os (nat (mb * kb) * 2) (nat (nb * kb)) (nat k) s')"

lemma tiling_div:
  assumes "product_dims M K N" "0 < m" "0 < k" "0 < n"
  shows "tiling M K N (M div m) (K div k) (N div n) k" "block_extent M m = Some (M div m)" "block_extent K k = Some (K div k)" "block_extent N n = Some (N div n)"
proof -
  have d: "0 \<le> M" "0 \<le> K" "0 \<le> N" "M < 2 ^ 31" "N < 2 ^ 31" "K < 2 ^ 31" using assms(1) by (auto simp: product_dims_def)
  have q: "0 \<le> a div b" "a div b \<le> a" "block_extent a b = Some (a div b)" if "0 \<le> a" "a < 2 ^ 31" "0 < b" for a b :: int
  proof -
    show nn: "0 \<le> a div b" using that by (simp add: pos_imp_zdiv_nonneg_iff)
    show le: "a div b \<le> a" using that zdiv_mono2 [of a 1 b] by simp
    show "block_extent a b = Some (a div b)" using le that by (simp add: block_extent_def c_div_nonneg)
  qed
  have "k * (K div k) \<le> K" using assms(3) by (metis minus_mod_eq_mult_div pos_mod_sign diff_le_eq le_add_same_cancel1)
  then show "tiling M K N (M div m) (K div k) (N div n) k" using assms q d by (simp add: tiling_def)
  show "block_extent M m = Some (M div m)" "block_extent K k = Some (K div k)" "block_extent N n = Some (N div n)" using q d assms by simp_all
qed

lemma zero_fill_all:
  assumes "product_dims M K N" "length C = nat (M * N)"
  shows "zero_fill (i32 (M * N)) C = Some (replicate (nat (M * N)) 0)"
proof -
  have "0 \<le> M * N" "M * N < 2147483648" using assms(1) by (auto simp: product_dims_def)
  moreover from this have "nat (M * N) < 2147483648" by (simp add: nat_less_iff)
  ultimately have "size_mul (to_size (i32 (M * N))) 4 = nat (M * N) * 4" by (simp add: i32_id to_size_def size_mul_def)
  then show ?thesis using assms(2) by (simp add: zero_fill_def Let_def)
qed

lemma tiled_blocks:
  assumes "tiled_operands A B C M K N" "schedule_ok sched" "sp_ok (os, s)" "tiled_memory os s M K N mb kb nb k"
    and "tiling M K N mb kb nb k"
  obtains fA s1 S fB s2 pO s3 where "make_block 16 junk os sched M K K True A s = Some (fA, s1)"
    "line_block 16 fA (line_of True M K A) (nat M) (nat K)" "transpose_weights B K N = Some S"
    "make_block 8 junk os sched N K K True S s1 = Some (fB, s2)" "line_block 8 fB (line_of False K N B) (nat N) (nat K)"
    "alloc os s2 (nat (mb * nb) * 2) = Some (pO, s3)" "pO \<noteq> nullptr" "slices_granted os (nat (mb * kb) * 2) (nat (nb * kb)) (nat k) s3"
    "scratch.owns (pO # block_ptrs fB @ block_ptrs fA) (sp_live s) (os, s3)"
proof -
  have d: "product_dims M K N" and len: "length A = nat (M * K)" "length B = nat (K * N)"
    and mA: "\<forall>i < nat M. line_mean 16 (line_of True M K A i) \<noteq> None" and mB: "\<forall>j < nat N. line_mean 8 (line_of False K N B j) \<noteq> None"
    using assms(1) by (simp_all add: tiled_operands_def)
  note wl = product_dims_lines [OF d]
  obtain ps s3 where al: "scratch.alloc_list (tiled_requests M K N mb nb) (os, s) = Some (ps, (os, s3))" "nullptr \<notin> set ps"
    and gr: "slices_granted os (nat (mb * kb) * 2) (nat (nb * kb)) (nat k) s3"
    using assms(4) by (auto simp: tiled_memory_def)
  obtain psA st1 psB st2 pO where a: "scratch.alloc_list (block_requests 16 M K 1 True 0) (os, s) = Some (psA, st1)"
    "scratch.alloc_list (block_requests 8 N K 1 True 0) st1 = Some (psB, st2)" "sp_alloc st2 (nat (mb * nb) * 2) = Some (pO, (os, s3))"
    "ps = psA @ psB @ [pO]"
    using al(1) unfolding tiled_requests_def scratch.alloc_list_append by (auto simp: bind_option_Some)
  have nul: "nullptr \<notin> set psA" "nullptr \<notin> set psB" "pO \<noteq> nullptr" using al(2) a(4) by (auto simp: eq_commute [of nullptr])
  obtain fA s1 where fA: "make_block 16 junk os sched M K K True A s = Some (fA, s1)" "st1 = (os, s1)" "block_ptrs fA = psA"
    using make_block_granted [OF a(1) nul(1) wl(1) _ assms(2), where xs = A and junk = junk] len mA by auto
  obtain S where S: "transpose_weights B K N = Some S" using transpose_weights_eq [OF d] len(2) by simp
  have lS: "length S = nat (N * K)" using transpose_weights_nth(1) [OF S d] len(2) by simp
  have tl: "line_of True N K S j = line_of False K N B j" if "j < nat N" for j using transposed_line [OF S d] len(2) that by simp
  obtain fB s2 where fB: "make_block 8 junk os sched N K K True S s1 = Some (fB, s2)" "st2 = (os, s2)" "block_ptrs fB = psB"
    using make_block_granted [OF a(2) [unfolded fA(2)] nul(2) wl(2) _ assms(2), where xs = S and junk = junk] lS mB tl by auto
  have lA: "line_block 16 fA (line_of True M K A) (nat M) (nat K)"
    by (rule make_line_block [OF fA(1) wl(1) _ _ assms(2)]) (use nul fA(3) len in simp_all)
  have "line_block 8 fB (line_of True N K S) (nat N) (nat K)"
    by (rule make_line_block [OF fB(1) wl(2) _ _ assms(2)]) (use nul fB(3) lS in simp_all)
  then have lB: "line_block 8 fB (line_of False K N B) (nat N) (nat K)" by (rule line_block_cong) (rule tl)
  have pO: "alloc os s2 (nat (mb * nb) * 2) = Some (pO, s3)" using a(3) fB(2) by (auto simp: sp_alloc_def)
  have "\<forall>n \<in> set (tiled_requests M K N mb nb). n \<le> max_request"
    using whole_lines_requests(2) [OF wl(1), of 16] whole_lines_requests(2) [OF wl(2), of 8] tiling_sizes(7) [OF assms(5)]
    by (auto simp: tiled_requests_def)
  then have "scratch.owns ([] @ ps) (sp_live s) (os, s3)"
    using scratch.owns_alloc_list [OF _ _ al(1), of "[]" "sp_live s"] assms(3) by (simp add: scratch.owns_Nil)
  then have ow: "scratch.owns (pO # block_ptrs fB @ block_ptrs fA) (sp_live s) (os, s3)"
    by (rule scratch.owns_perm) (simp add: a(4) fA(3) fB(3))
  show thesis by (rule that [OF fA(1) lA S fB(1) lB pO nul(3) gr ow])
qed

section \<open>Properties\<close>


section \<open>The cache of graphs\<close>

lemma new_dynamic_graph_balance:
  assumes "new_dynamic_graph env hs mb kb nb l = (g, l')"
  shows "balance Context h l' = balance Context h l + int (holds (dg_contextHandle g) h)"
  using assms by (auto simp: new_dynamic_graph_def Let_def q_simps balance_handle)

lemma unload_contexts:
  assumes "qnn_complete env" "interfaceProviderTable (backendContainer e) = Some qnn"
  shows "balance Context h (qlog (unloadActiveBackend env e)) = balance Context h (qlog e) - int (owned Context e h)"
proof -
  obtain b l where u: "unloadQnnBackendSharedLibrary env (backendContainer e)
      (snd (free_handle env (logHandle e) (qe_has env qnn ''logFree'') LogFree
        (snd (free_handle env (backendHandle e) True (\<lambda>x. BackendFree (Some x))
          (snd (free_handle env (deviceHandle e) (qe_has env qnn ''deviceFree'') DeviceFree
             (fold (\<lambda>(k, g) l. qdo env (ContextFree (contextHandle g)) l) (graphCache e) (qlog e)))))))) = (b, l)"
    by (rule prod.exhaust)
  have "qlog (unloadActiveBackend env e) = l"
    using u unfolding unloadActiveBackend_def assms(2) by (simp add: split_beta Let_def)
  then show ?thesis using unload_library [OF u, of Context h] free_handles_balance(1) [OF assms] by simp
qed

text \<open>
  C37: A graph of the tiled product outlives the backend it was compiled for. When a graph is compiled and the backend is then
  switched, the cache still returns this graph for its sizes and nothing is compiled for the new backend;
  and the context of the graph is never given back: the engine frees only the contexts of its own cache, so
  after unloading one context more is alive than before.
\<close>

theorem tiled_graph_outlives_backend:
  assumes "eng_reachable env e" "qnn_complete env" "finalized_all (qlog e)" "map_of dyn (graph_key mb kb nb) = None"
    and "dynamic_graph env mb kb nb (e, dyn) = Some (g, e1, dyn1)"
  shows "dynamic_graph env mb kb nb (loadBackend env other e1, dyn1) = Some (g, loadBackend env other e1, dyn1)
    \<and> (\<forall>h. balance Context h (qlog (unloadActiveBackend env e1)) = int (holds (dg_contextHandle g) h))"
proof -
  obtain qnn l where q: "interfaceProviderTable (backendContainer e) = Some qnn" "e1 = e\<lparr>qlog := l\<rparr>" "dyn1 = (graph_key mb kb nb, g) # dyn"
    "new_dynamic_graph env (backendHandle e, deviceHandle e) mb kb nb (qlog e) = (g, l)"
    using assms(4,5) by (auto simp: dynamic_graph_def Let_def split: if_splits prod.splits)
  have "balanced e" using eng_reachable_inv [OF assms(1,2)] assms(3) by (simp add: eng_inv_def)
  then have "balance Context h (qlog (unloadActiveBackend env e1)) = int (holds (dg_contextHandle g) h)" for h
    using unload_contexts [OF assms(2), of e1 qnn h] q(1) new_dynamic_graph_balance [OF q(4), of h] by (simp add: q(2) balanced_def)
  then show ?thesis by (simp add: dynamic_graph_def q(3))
qed

section \<open>Witnesses\<close>

lemma sample_dynamic_graph:
  assumes "0 \<le> nb"
  obtains g l where "dynamic_graph sample_qnn mb kb nb (demo_engine sample_qnn, [])
      = Some (g, (demo_engine sample_qnn)\<lparr>qlog := l\<rparr>, [(graph_key mb kb nb, g)])" "dg_isValid g"
proof -
  let ?e = "demo_engine sample_qnn"
  obtain g l where g: "new_dynamic_graph sample_qnn (backendHandle ?e, deviceHandle ?e) mb kb nb (qlog ?e) = (g, l)" by (rule prod.exhaust)
  have "dg_isValid g" using g by (auto simp: new_dynamic_graph_def Let_def qcall_eq sample_qnn_def demo_resp_def split: prod.splits)
  moreover have "dynamic_graph sample_qnn mb kb nb (?e, []) = Some (g, ?e\<lparr>qlog := l\<rparr>, [(graph_key mb kb nb, g)])"
    using sample_loaded(5) assms by (simp add: dynamic_graph_def g)
  ultimately show thesis by (intro that)
qed

lemma sample_tiled_memory: "tiled_memory bump_env scratchpad_init 2 2 1 1 2 1 1"
proof -
  let ?r = "tiled_requests 2 2 1 1 1 @ [4, 2]"
  have r: "\<forall>n \<in> set ?r. n \<le> 2 ^ 20" "length ?r = 13" "\<forall>n \<in> set ?r. n \<le> max_request"
    by (simp_all add: tiled_requests_def block_requests_def Let_def i32_id to_size_def size_mul_def max_request_def)
  have ok: "sp_ok (bump_env, scratchpad_init)" by (simp add: sp_ok_def bump_env_ok sp_inv_init)
  obtain ps st where a: "scratch.alloc_list ?r (bump_env, scratchpad_init) = Some (ps, st)"
    using scratch.alloc_list_spec [OF ok r(3)] by blast
  have nul: "nullptr \<notin> set ps"
    using bump_alloc_list [of _ _ ps "fst st" "snd st", OF _ r(1) init_low(1) _ init_low(2)] a r(2) by simp
  obtain ps1 st1 pA s2 pB s3 where b: "scratch.alloc_list (tiled_requests 2 2 1 1 1) (bump_env, scratchpad_init) = Some (ps1, st1)"
    "alloc (fst st1) (snd st1) 4 = Some (pA, s2)" "alloc (fst st1) s2 2 = Some (pB, s3)" "ps = ps1 @ [pA, pB]"
    using a unfolding scratch.alloc_list_append by (auto simp: bind_option_Some sp_alloc_def)
  have "fst st' = fst st0" if "scratch.alloc_list ns st0 = Some (rs, st')" for ns st0 rs st'
    using that by (induction ns arbitrary: st0 rs) (fastforce simp: sp_alloc_def bind_option_Some split: prod.splits)+
  then obtain s1 where s1: "st1 = (bump_env, s1)" using b(1) by (metis fst_conv prod.collapse)
  have "scratch.owns ([] @ ps1) (sp_live scratchpad_init) (bump_env, s1)"
    by (rule scratch.owns_alloc_list [OF init_owns _ b(1) [unfolded s1]]) (use r(3) in auto)
  then have "scratch.owns ((([] @ ps1) @ [pA]) @ [pB]) (sp_live scratchpad_init) (bump_env, s3)"
    using b(2,3) s1 by (intro alloc_owns [OF alloc_owns]) (auto simp: max_request_def)
  then have "scratch.owns (pA # pB # ps1) (sp_live scratchpad_init) (bump_env, s3)" by (rule scratch.owns_perm) simp
  then obtain s4 where s4: "sp_free bump_env s3 pA = Some s4" "scratch.owns (pB # ps1) (sp_live scratchpad_init) (bump_env, s4)"
    using free_owns by blast
  then obtain s5 where "sp_free bump_env s4 pB = Some s5" using free_owns by blast
  then have "slices_granted bump_env 4 2 1 s1" using b(2,3) s1 s4(1) nul b(4) by (auto simp: eq_commute [of nullptr])
  then show ?thesis using b(1,4) s1 nul unfolding tiled_memory_def by auto
qed


theorem tiled_graph_outlives_backend_witness:
  "\<exists>g e1 dyn1 h. dynamic_graph sample_qnn 1 2 1 (demo_engine sample_qnn, []) = Some (g, e1, dyn1) \<and> dg_contextHandle g = Some h
     \<and> dynamic_graph sample_qnn 1 2 1 (loadBackend sample_qnn 2 e1, dyn1) = Some (g, loadBackend sample_qnn 2 e1, dyn1)
     \<and> balance Context h (qlog (unloadActiveBackend sample_qnn e1)) = 1"
proof -
  let ?e = "demo_engine sample_qnn"
  have fin: "finalized_all (qlog ?e)"
    by (simp add: demo_engine_def engine_run sample_qnn_def demo_qnn_def demo_resp_def env_is_1_def set_library_paths_def project_libs_dir_def)
  obtain g l where g: "dynamic_graph sample_qnn 1 2 1 (?e, []) = Some (g, ?e\<lparr>qlog := l\<rparr>, [(graph_key 1 2 1, g)])" "dg_isValid g"
    by (rule sample_dynamic_graph [of 1]) simp
  then obtain l' where "new_dynamic_graph sample_qnn (backendHandle ?e, deviceHandle ?e) 1 2 1 (qlog ?e) = (g, l')"
    by (auto simp: dynamic_graph_def Let_def split: if_splits prod.splits)
  then have "dg_contextHandle g = Some (length (qlog ?e))"
    by (auto simp: new_dynamic_graph_def Let_def q_simps sample_qnn_def demo_resp_def)
  with tiled_graph_outlives_backend [OF demo_engine_reachable sample_complete fin _ g(1), of 2] g(1) show ?thesis
    by (auto simp: holds_def)
qed

end
