(* ===== verification/Npublas.thy ===== *)
theory Npublas
  imports TiledProduct
begin

text \<open>
  The functions \<^verbatim>\<open>npublas.cpp\<close> offers to Python: products of tensors, plain and tiled, and the management of
  the engine. A tensor is two sizes and its floats, in rows. The sizes are 64-bit and are passed on as ints.
\<close>

record Tensor =
  tn_rows :: int
  tn_cols :: int
  tn_data :: "f32 list"

definition torch_zeros :: "int \<Rightarrow> int \<Rightarrow> Tensor option" where
  "torch_zeros m n = (if m < 0 \<or> n < 0 then None else Some \<lparr>tn_rows = m, tn_cols = n, tn_data = replicate (nat (m * n)) 0\<rparr>)"

definition matmul_npu_out :: "npu_env \<Rightarrow> Tensor \<Rightarrow> Tensor \<Rightarrow> Tensor \<Rightarrow> int \<Rightarrow> npu \<Rightarrow> (Tensor \<times> npu) option" where
  "matmul_npu_out env a b out backend_choice st =
     (let m = tn_rows a; k = tn_cols a; n = tn_cols b
      in map_option (\<lambda>(C, st'). (out\<lparr>tn_data := C\<rparr>, st'))
           (matmul_int8 env (tn_data a) (tn_data b) (tn_data out) (i32 m) (i32 k) (i32 n) backend_choice st))"

definition matmul_npu :: "npu_env \<Rightarrow> Tensor \<Rightarrow> Tensor \<Rightarrow> int \<Rightarrow> npu \<Rightarrow> (Tensor \<times> npu) option" where
  "matmul_npu env a b backend_choice st =
     Option.bind (torch_zeros (tn_rows a) (tn_cols b)) (\<lambda>out. matmul_npu_out env a b out backend_choice st)"

definition matmul_tiled_npu_out ::
  "npu_env \<Rightarrow> Tensor \<Rightarrow> Tensor \<Rightarrow> Tensor \<Rightarrow> int \<Rightarrow> int \<Rightarrow> int \<Rightarrow> int \<Rightarrow> npu \<times> dynamic_graphs \<Rightarrow> (Tensor \<times> npu \<times> dynamic_graphs) option" where
  "matmul_tiled_npu_out env a b out m_split k_split n_split backend_choice st =
     (let m = tn_rows a; k = tn_cols a; n = tn_cols b
      in map_option (\<lambda>(C, st'). (out\<lparr>tn_data := C\<rparr>, st'))
           (matmul_tiled env (tn_data a) (tn_data b) (tn_data out) (i32 m) (i32 k) (i32 n) m_split k_split n_split backend_choice st))"

definition matmul_tiled_npu ::
  "npu_env \<Rightarrow> Tensor \<Rightarrow> Tensor \<Rightarrow> int \<Rightarrow> int \<Rightarrow> int \<Rightarrow> int \<Rightarrow> npu \<times> dynamic_graphs \<Rightarrow> (Tensor \<times> npu \<times> dynamic_graphs) option" where
  "matmul_tiled_npu env a b m_split k_split n_split backend_choice st =
     Option.bind (torch_zeros (tn_rows a) (tn_cols b)) (\<lambda>out. matmul_tiled_npu_out env a b out m_split k_split n_split backend_choice st)"

definition set_power_mode_npu :: "npu_env \<Rightarrow> int \<Rightarrow> npu \<Rightarrow> npu option" where
  "set_power_mode_npu env power_mode st = map_option (\<lambda>e. st\<lparr>n_engine := e\<rparr>) (setPowerMode (ne_qnn env) power_mode (n_engine st))"

definition set_backend_npu :: "npu_env \<Rightarrow> int \<Rightarrow> npu \<Rightarrow> npu" where
  "set_backend_npu env backend_choice st = st\<lparr>n_engine := loadBackend (ne_qnn env) backend_choice (n_engine st)\<rparr>"

definition initialize_npublas :: "npu_env \<Rightarrow> int \<Rightarrow> npu \<Rightarrow> npu option" where
  "initialize_npublas env backend_choice st =
     map_option (\<lambda>e. st\<lparr>n_engine := e\<rparr>)
       (performDiagnosticsIfNeeded (ne_qnn env) (loadBackend (ne_qnn env) backend_choice (n_engine st)))"

definition has_graph_npu :: "int \<Rightarrow> int \<Rightarrow> int \<Rightarrow> npu \<Rightarrow> bool" where
  "has_graph_npu m k n st = hasGraph (n_engine st) m k n"

definition prepare_matmul_npu :: "npu_env \<Rightarrow> int \<Rightarrow> int \<Rightarrow> int \<Rightarrow> npu \<Rightarrow> npu option" where
  "prepare_matmul_npu env m k n st =
     map_option (\<lambda>(ref, e). st\<lparr>n_engine := e\<rparr>) (getOrCreateGraph (ne_qnn env) m k n None (n_engine st))"

section \<open>Preparing a product\<close>



end
