(* ===== verification/Arena.thy ===== *)
theory Arena
  imports Prelude
begin

text \<open>
  The memory arena of the TFLite interpreter (\<^verbatim>\<open>simple_memory_arena.cc\<close>), on which the fallback of the
  matrix product runs: a buffer that grows with its alignment and its content kept, and the placement of tensors
  with usage intervals in it, best fit first. The system's allocator is an environment.
\<close>

section \<open>Sizes\<close>

definition AlignTo :: "size_t \<Rightarrow> size_t \<Rightarrow> size_t" where
  "AlignTo alignment offset =
     (if offset mod alignment = 0 then offset else size_add offset (alignment - offset mod alignment))"

lemma AlignTo_spec:
  assumes "0 < alignment" "offset + alignment < 2 ^ 64"
  shows "offset \<le> AlignTo alignment offset" "AlignTo alignment offset < offset + alignment" "AlignTo alignment offset mod alignment = 0"
proof -
  have m: "offset mod alignment < alignment" using assms(1) by simp
  then have "offset + (alignment - offset mod alignment) < 2 ^ 64 \<or> offset mod alignment = 0" using assms(2) by linarith
  then have e: "AlignTo alignment offset = (if offset mod alignment = 0 then offset else offset + (alignment - offset mod alignment))"
    by (auto simp: AlignTo_def size_add_id)
  show "offset \<le> AlignTo alignment offset" "AlignTo alignment offset < offset + alignment" using m assms(1) unfolding e by (auto simp del: add_diff_assoc)
  have "offset + (alignment - offset mod alignment) = (offset div alignment + 1) * alignment"
    unfolding add_mult_distrib mult_1 using m div_mult_mod_eq [of offset alignment] by linarith
  then show "AlignTo alignment offset mod alignment = 0" by (simp add: e)
qed

section \<open>The buffer\<close>

text \<open>
  Live blocks of the system's allocator, with their bytes. The environment says whether the platform has
  \<open>aligned_alloc\<close>, where the next block goes, if anywhere, and what fresh memory holds.
\<close>

type_synonym heap = "(nat \<times> u8 list) list"

record heap_env =
  he_has_aligned_alloc :: bool
  he_alloc :: "heap \<Rightarrow> size_t \<Rightarrow> size_t \<Rightarrow> ptr"
  he_junk :: "nat \<Rightarrow> u8"

record PointerAlignedPointerPair =
  pp_pointer :: ptr
  pp_aligned_pointer :: ptr

definition fresh_block :: "heap_env \<Rightarrow> ptr \<Rightarrow> size_t \<Rightarrow> heap \<Rightarrow> heap" where
  "fresh_block env p n h = (case p of None \<Rightarrow> h | Some a \<Rightarrow> (a, map (\<lambda>i. he_junk env (a + i)) [0..<n]) # h)"

definition AlignedAlloc :: "heap_env \<Rightarrow> size_t \<Rightarrow> size_t \<Rightarrow> heap \<Rightarrow> PointerAlignedPointerPair \<times> heap" where
  "AlignedAlloc env bytes alignment h =
     (let n = size_sub (size_add bytes alignment) 1
      in if he_has_aligned_alloc env
         then let allocation_size = AlignTo alignment n; p = he_alloc env h alignment allocation_size
              in (\<lparr>pp_pointer = p, pp_aligned_pointer = p\<rparr>, fresh_block env p allocation_size h)
         else let p = he_alloc env h 1 n
              in (\<lparr>pp_pointer = p, pp_aligned_pointer = map_option (AlignTo alignment) p\<rparr>, fresh_block env p n h))"

definition AlignedFree :: "PointerAlignedPointerPair \<Rightarrow> heap \<Rightarrow> heap option" where
  "AlignedFree buffer h =
     (case pp_pointer buffer of
        None \<Rightarrow> Some h
      | Some a \<Rightarrow> if map_of h a = None then None else Some (filter (\<lambda>(b, bs). b \<noteq> a) h))"

text \<open>The bytes at an aligned pointer, within the block it was cut from, and a copy to there.\<close>

definition read_bytes :: "PointerAlignedPointerPair \<Rightarrow> size_t \<Rightarrow> heap \<Rightarrow> u8 list option" where
  "read_bytes buffer n h =
     (case (pp_pointer buffer, pp_aligned_pointer buffer) of
        (Some a, Some q) \<Rightarrow>
          Option.bind (map_of h a) (\<lambda>bs. if a \<le> q \<and> q - a + n \<le> length bs then Some (take n (drop (q - a) bs)) else None)
      | _ \<Rightarrow> None)"

definition write_bytes :: "PointerAlignedPointerPair \<Rightarrow> u8 list \<Rightarrow> heap \<Rightarrow> heap option" where
  "write_bytes buffer xs h =
     (case (pp_pointer buffer, pp_aligned_pointer buffer) of
        (Some a, Some q) \<Rightarrow>
          Option.bind (map_of h a) (\<lambda>bs.
            if a \<le> q \<and> q - a + length xs \<le> length bs
            then Some (map (\<lambda>(b, ys). if b = a then (b, take (q - a) ys @ xs @ drop (q - a + length xs) ys) else (b, ys)) h)
            else None)
      | _ \<Rightarrow> None)"

definition AlignedRealloc ::
  "heap_env \<Rightarrow> PointerAlignedPointerPair \<Rightarrow> size_t \<Rightarrow> size_t \<Rightarrow> size_t \<Rightarrow> heap \<Rightarrow> (PointerAlignedPointerPair \<times> heap) option" where
  "AlignedRealloc env old_buffer old_size new_size alignment h =
     (let (new_buffer, h1) = AlignedAlloc env new_size alignment h
      in Option.bind
           (if new_size > 0 \<and> old_size > 0
            then Option.bind (read_bytes old_buffer (min new_size old_size) h1) (\<lambda>bs. write_bytes new_buffer bs h1)
            else Some h1)
           (\<lambda>h2. map_option (\<lambda>h3. (new_buffer, h3)) (AlignedFree old_buffer h2)))"

record ResizableAlignedBuffer =
  rb_buffer :: PointerAlignedPointerPair
  rb_data_size :: size_t
  rb_alignment :: size_t

definition null_pair :: PointerAlignedPointerPair where
  "null_pair = \<lparr>pp_pointer = None, pp_aligned_pointer = None\<rparr>"

definition ResizableAlignedBuffer_new :: "size_t \<Rightarrow> ResizableAlignedBuffer" where
  "ResizableAlignedBuffer_new alignment = \<lparr>rb_buffer = null_pair, rb_data_size = 0, rb_alignment = alignment\<rparr>"

text \<open>Growing; the answer says whether the data moved.\<close>

definition Resize ::
  "heap_env \<Rightarrow> size_t \<Rightarrow> ResizableAlignedBuffer \<times> heap \<Rightarrow> (bool \<times> ResizableAlignedBuffer \<times> heap) option" where
  "Resize env new_size = (\<lambda>(b, h).
     if new_size \<le> rb_data_size b then Some (False, b, h)
     else map_option (\<lambda>(nb, h').
            (pp_aligned_pointer nb \<noteq> pp_aligned_pointer (rb_buffer b), b\<lparr>rb_buffer := nb, rb_data_size := new_size\<rparr>, h'))
          (AlignedRealloc env (rb_buffer b) (rb_data_size b) new_size (rb_alignment b) h))"

definition Release :: "ResizableAlignedBuffer \<times> heap \<Rightarrow> (ResizableAlignedBuffer \<times> heap) option" where
  "Release = (\<lambda>(b, h).
     if pp_pointer (rb_buffer b) = None then Some (b, h)
     else map_option (\<lambda>h'. (b\<lparr>rb_buffer := null_pair, rb_data_size := 0\<rparr>, h')) (AlignedFree (rb_buffer b) h))"

section \<open>Allocations\<close>

record ArenaAllocWithUsageInterval =
  aa_offset :: size_t
  aa_size :: size_t
  aa_tensor :: int
  aa_first_node :: int
  aa_last_node :: int

definition no_alloc :: ArenaAllocWithUsageInterval where
  "no_alloc = \<lparr>aa_offset = 0, aa_size = 0, aa_tensor = - 1, aa_first_node = - 1, aa_last_node = - 1\<rparr>"

record SimpleMemoryArena =
  ar_committed :: bool
  ar_high_water_mark :: size_t
  ar_buffer :: ResizableAlignedBuffer
  ar_active :: "ArenaAllocWithUsageInterval list"

definition SimpleMemoryArena_new :: "size_t \<Rightarrow> SimpleMemoryArena" where
  "SimpleMemoryArena_new arena_alignment =
     \<lparr>ar_committed = False, ar_high_water_mark = 0, ar_buffer = ResizableAlignedBuffer_new arena_alignment, ar_active = []\<rparr>"

text \<open>Both purges mark the allocations to drop with the tensor -1 and erase all that have it.\<close>

definition purge :: "(ArenaAllocWithUsageInterval \<Rightarrow> bool) \<Rightarrow> ArenaAllocWithUsageInterval list \<Rightarrow> ArenaAllocWithUsageInterval list" where
  "purge dropped as = filter (\<lambda>a. aa_tensor a \<noteq> - 1) (map (\<lambda>a. if dropped a then a\<lparr>aa_tensor := - 1\<rparr> else a) as)"

definition PurgeAfter :: "int \<Rightarrow> SimpleMemoryArena \<Rightarrow> SimpleMemoryArena" where
  "PurgeAfter node a = a\<lparr>ar_active := purge (\<lambda>x. aa_first_node x > node) (ar_active a)\<rparr>"

definition PurgeActiveAllocs :: "int \<Rightarrow> SimpleMemoryArena \<Rightarrow> SimpleMemoryArena" where
  "PurgeActiveAllocs node a = a\<lparr>ar_active := purge (\<lambda>x. aa_last_node x < node) (ar_active a)\<rparr>"

definition CalculateActiveAllocs :: "ArenaAllocWithUsageInterval list \<Rightarrow> int \<Rightarrow> SimpleMemoryArena \<Rightarrow> SimpleMemoryArena" where
  "CalculateActiveAllocs allocs node a =
     a\<lparr>ar_active := sort_key aa_offset (filter (\<lambda>x. aa_first_node x \<le> node \<and> aa_last_node x \<ge> node) allocs)\<rparr>"

definition ResetAllocs :: "SimpleMemoryArena \<Rightarrow> SimpleMemoryArena" where
  "ResetAllocs a = a\<lparr>ar_active := []\<rparr>"

datatype TfLiteStatus = kTfLiteOk | kTfLiteError

definition kOffsetNotAssigned :: size_t where
  "kOffsetNotAssigned = 2 ^ 64 - 1"

text \<open>The scan over the allocations in use at the same time, for the smallest gap that is large enough.\<close>

definition intersects :: "int \<Rightarrow> int \<Rightarrow> ArenaAllocWithUsageInterval \<Rightarrow> bool" where
  "intersects first_node last_node a \<longleftrightarrow> \<not> (aa_last_node a < first_node \<or> aa_first_node a > last_node)"

fun find_gap ::
  "size_t \<Rightarrow> size_t \<Rightarrow> int \<Rightarrow> int \<Rightarrow> ArenaAllocWithUsageInterval list \<Rightarrow> size_t \<Rightarrow> size_t \<Rightarrow> size_t \<Rightarrow> size_t \<times> size_t" where
  "find_gap alignment bytes first_node last_node [] best_offset best_offset_fit current_offset = (best_offset, current_offset)"
| "find_gap alignment bytes first_node last_node (a # as) best_offset best_offset_fit current_offset =
     (if \<not> intersects first_node last_node a
      then find_gap alignment bytes first_node last_node as best_offset best_offset_fit current_offset
      else
        let aligned_current_offset = AlignTo alignment current_offset;
            (best, fit) = (if size_add aligned_current_offset bytes \<le> aa_offset a
                              \<and> size_sub (aa_offset a) aligned_current_offset < best_offset_fit
                           then (aligned_current_offset, size_sub (aa_offset a) current_offset) else (best_offset, best_offset_fit));
            current = max current_offset (size_add (aa_offset a) (aa_size a))
        in if fit = 0 then (best, current) else find_gap alignment bytes first_node last_node as best fit current)"

text \<open>The place of a new allocation among those ordered by offset.\<close>

definition insert_alloc :: "ArenaAllocWithUsageInterval \<Rightarrow> ArenaAllocWithUsageInterval list \<Rightarrow> ArenaAllocWithUsageInterval list" where
  "insert_alloc x as =
     takeWhile (\<lambda>a. \<not> aa_offset x < aa_offset a) as @ x # dropWhile (\<lambda>a. \<not> aa_offset x < aa_offset a) as"

text \<open>Allocating; an alignment of zero is undefined, one above the buffer's is refused before anything is written.\<close>

definition Allocate ::
  "size_t \<Rightarrow> size_t \<Rightarrow> int \<Rightarrow> int \<Rightarrow> int \<Rightarrow> ArenaAllocWithUsageInterval \<times> SimpleMemoryArena
    \<Rightarrow> (TfLiteStatus \<times> ArenaAllocWithUsageInterval \<times> SimpleMemoryArena) option" where
  "Allocate alignment bytes tensor first_node last_node = (\<lambda>(old, a).
     if alignment > rb_alignment (ar_buffer a) then Some (kTfLiteError, old, a)
     else
       let new_alloc = \<lparr>aa_offset = aa_offset old, aa_size = bytes, aa_tensor = tensor, aa_first_node = first_node, aa_last_node = last_node\<rparr>
       in if bytes = 0 then Some (kTfLiteOk, new_alloc\<lparr>aa_offset := 0\<rparr>, a)
          else if alignment = 0 then None
          else
            let (gap, current) = find_gap alignment bytes first_node last_node (ar_active a) kOffsetNotAssigned kOffsetNotAssigned 0;
                best = (if gap = kOffsetNotAssigned then AlignTo alignment current else gap);
                new_alloc = new_alloc\<lparr>aa_offset := best\<rparr>
            in Some (kTfLiteOk, new_alloc,
                 a\<lparr>ar_high_water_mark := max (ar_high_water_mark a) (size_add best bytes),
                   ar_active := insert_alloc new_alloc (ar_active a)\<rparr>))"

definition arena_Commit :: "heap_env \<Rightarrow> SimpleMemoryArena \<times> heap \<Rightarrow> (bool \<times> SimpleMemoryArena \<times> heap) option" where
  "arena_Commit env = (\<lambda>(a, h).
     map_option (\<lambda>(r, b, h'). (r, a\<lparr>ar_buffer := b, ar_committed := True\<rparr>, h'))
       (Resize env (ar_high_water_mark a) (ar_buffer a, h)))"

definition ResolveAlloc :: "SimpleMemoryArena \<Rightarrow> ArenaAllocWithUsageInterval \<Rightarrow> TfLiteStatus \<times> ptr option" where
  "ResolveAlloc a x =
     (if \<not> ar_committed a \<or> rb_data_size (ar_buffer a) < size_add (aa_offset x) (aa_size x) then (kTfLiteError, None)
      else if aa_size x = 0 then (kTfLiteOk, Some None)
      else (kTfLiteOk, Some (map_option (\<lambda>p. p + aa_offset x) (pp_aligned_pointer (rb_buffer (ar_buffer a))))))"

definition ClearPlan :: "SimpleMemoryArena \<Rightarrow> SimpleMemoryArena" where
  "ClearPlan a = a\<lparr>ar_committed := False, ar_high_water_mark := 0, ar_active := []\<rparr>"

definition ReleaseBuffer :: "SimpleMemoryArena \<times> heap \<Rightarrow> (SimpleMemoryArena \<times> heap) option" where
  "ReleaseBuffer = (\<lambda>(a, h). map_option (\<lambda>(b, h'). (a\<lparr>ar_committed := False, ar_buffer := b\<rparr>, h')) (Release (ar_buffer a, h)))"

definition BasePointer :: "SimpleMemoryArena \<Rightarrow> nat" where
  "BasePointer a = (case pp_aligned_pointer (rb_buffer (ar_buffer a)) of None \<Rightarrow> 0 | Some p \<Rightarrow> p)"

end
