(* ===== verification/ArenaPlanner.thy ===== *)
theory ArenaPlanner
  imports Arena
begin

text \<open>
  The memory planner of the TFLite interpreter (\<^verbatim>\<open>arena_planner.cc\<close>): which node first and last uses
  every tensor, which outputs take over the buffer of an input, and where in two arenas the tensors go. The graph
  is what \<^verbatim>\<open>GraphInfo\<close> shows of it. An operation is \<^term>\<open>None\<close> where an index is out of range or the code does
  not return. The orders that the library leaves open (over a hash set, of equal elements after a sort) are those
  of an environment.
\<close>

section \<open>The graph\<close>

datatype TfLiteAllocationType =
  kTfLiteMemNone | kTfLiteMmapRo | kTfLiteArenaRw | kTfLiteArenaRwPersistent | kTfLiteDynamic | kTfLitePersistentRo
| kTfLiteCustom | kTfLiteVariantObject | kTfLiteNonCpu

record TfLiteTensor =
  tt_allocation_type :: TfLiteAllocationType
  tt_bytes :: size_t
  tt_data :: ptr

record TfLiteNode =
  tn_inputs :: "int list"
  tn_outputs :: "int list"
  tn_temporaries :: "int list"
  tn_inplace_operator :: "64 word"
  tn_might_have_side_effect :: bool

record GraphInfo =
  gi_tensors :: "TfLiteTensor list"
  gi_nodes :: "TfLiteNode list"
  gi_num_total_nodes :: nat
  gi_node_index :: "int list"
  gi_inputs :: "int list"
  gi_outputs :: "int list"
  gi_variables :: "int list"

definition kTfLiteOptionalTensor :: int where
  "kTfLiteOptionalTensor = - 1"

definition kTfLiteInplaceOpNone :: "64 word" where
  "kTfLiteInplaceOpNone = 0"

definition kTfLiteInplaceOpDataUnmodified :: "64 word" where
  "kTfLiteInplaceOpDataUnmodified = 1"

definition kTfLiteInplaceOpInput0Shared :: "64 word" where
  "kTfLiteInplaceOpInput0Shared = 4"

definition kTfLiteMaxSharableOpInputs :: nat where
  "kTfLiteMaxSharableOpInputs = 3"

section \<open>The planner\<close>

definition kLastActiveNodeUndefined :: int where
  "kLastActiveNodeUndefined = 2 ^ 31 - 1"

definition kNodeNotAssigned :: int where
  "kNodeNotAssigned = 2 ^ 31 - 1"

definition kScalarTensorBytes :: nat where
  "kScalarTensorBytes = 4"

definition kDefaultArenaAlignment :: size_t where
  "kDefaultArenaAlignment = 64"

record ArenaPlanner =
  ap_allocs :: "ArenaAllocWithUsageInterval list"
  ap_nodes_to_tensors :: "int list list"
  ap_alloc_node :: "int list"
  ap_dealloc_node :: "int list"
  ap_arena :: SimpleMemoryArena
  ap_has_nonpersistent_memory :: bool
  ap_persistent_arena :: SimpleMemoryArena
  ap_preserve_all_tensors :: bool
  ap_tensor_alignment :: int
  ap_last_active_node :: int
  ap_actual_tensor_id :: "int \<rightharpoonup> int"
  ap_refcounts :: "int list"

definition ArenaPlanner_new :: "bool \<Rightarrow> int \<Rightarrow> ArenaPlanner" where
  "ArenaPlanner_new preserve_all_tensors tensor_alignment =
     \<lparr>ap_allocs = [], ap_nodes_to_tensors = [], ap_alloc_node = [], ap_dealloc_node = [],
      ap_arena = SimpleMemoryArena_new kDefaultArenaAlignment, ap_has_nonpersistent_memory = False,
      ap_persistent_arena = SimpleMemoryArena_new kDefaultArenaAlignment,
      ap_preserve_all_tensors = preserve_all_tensors, ap_tensor_alignment = tensor_alignment,
      ap_last_active_node = kLastActiveNodeUndefined, ap_actual_tensor_id = Map.empty, ap_refcounts = []\<rparr>"

definition ArenaPlanner_delete :: "ArenaPlanner \<times> heap \<Rightarrow> heap option" where
  "ArenaPlanner_delete = (\<lambda>(p, h).
     Option.bind (ReleaseBuffer (ap_arena p, h)) (\<lambda>(_, h1).
       map_option snd (ReleaseBuffer (ap_persistent_arena p, h1))))"

definition planner_BasePointer :: "TfLiteAllocationType \<Rightarrow> ArenaPlanner \<Rightarrow> nat" where
  "planner_BasePointer type p =
     (if type = kTfLiteArenaRwPersistent then BasePointer (ap_persistent_arena p)
      else if type = kTfLiteArenaRw then BasePointer (ap_arena p)
      else 0)"

section \<open>Statuses\<close>

text \<open>A call whose error is returned at once, and a loop of such calls.\<close>

definition ensure_status ::
  "(TfLiteStatus \<times> 's) option \<Rightarrow> ('s \<Rightarrow> (TfLiteStatus \<times> 's) option) \<Rightarrow> (TfLiteStatus \<times> 's) option" where
  "ensure_status m k = Option.bind m (\<lambda>(status, s). if status = kTfLiteOk then k s else Some (status, s))"

fun loop_status :: "('i \<Rightarrow> 's \<Rightarrow> (TfLiteStatus \<times> 's) option) \<Rightarrow> 'i list \<Rightarrow> 's \<Rightarrow> (TfLiteStatus \<times> 's) option" where
  "loop_status body [] s = Some (kTfLiteOk, s)"
| "loop_status body (i # js) s = ensure_status (body i s) (loop_status body js)"

definition status_ok :: "'s option \<Rightarrow> (TfLiteStatus \<times> 's) option" where
  "status_ok m = map_option (\<lambda>s. (kTfLiteOk, s)) m"

definition array_upd :: "'a list \<Rightarrow> int \<Rightarrow> ('a \<Rightarrow> 'a) \<Rightarrow> 'a list option" where
  "array_upd xs i f = Option.bind (array_get xs i) (\<lambda>v. array_set xs i (f v))"

definition set_insert :: "int \<Rightarrow> int list \<Rightarrow> int list" where
  "set_insert t ts = (if t \<in> set ts then ts else ts @ [t])"

section \<open>Resetting\<close>

definition ResetAllocations :: "GraphInfo \<Rightarrow> ArenaPlanner \<Rightarrow> ArenaPlanner" where
  "ResetAllocations g p =
     p\<lparr>ap_arena := ClearPlan (ap_arena p), ap_persistent_arena := ClearPlan (ap_persistent_arena p),
       ap_allocs := replicate (length (gi_tensors g)) no_alloc, ap_last_active_node := kLastActiveNodeUndefined\<rparr>"

definition reset_after ::
  "int \<Rightarrow> int \<Rightarrow> ArenaAllocWithUsageInterval list \<times> TfLiteTensor list \<Rightarrow> (ArenaAllocWithUsageInterval list \<times> TfLiteTensor list) option" where
  "reset_after node i = (\<lambda>(allocs, tensors).
     Option.bind (array_get allocs i) (\<lambda>x.
       if aa_first_node x > node \<and> aa_size x > 0
       then Option.bind (array_get tensors i) (\<lambda>tensor.
              if tt_allocation_type tensor = kTfLiteArenaRw
              then Option.bind (array_set allocs i no_alloc) (\<lambda>allocs'.
                     map_option (\<lambda>tensors'. (allocs', tensors')) (array_set tensors i (tensor\<lparr>tt_data := nullptr\<rparr>)))
              else Some (allocs, tensors))
       else Some (allocs, tensors)))"

definition ResetAllocationsAfter :: "int \<Rightarrow> ArenaPlanner \<times> GraphInfo \<Rightarrow> (ArenaPlanner \<times> GraphInfo) option" where
  "ResetAllocationsAfter node = (\<lambda>(p, g).
     Option.bind (loop_opt (reset_after node) [0..int (length (ap_allocs p)) - 1] (ap_allocs p, gi_tensors g)) (\<lambda>(allocs, tensors).
       Some (p\<lparr>ap_allocs := allocs,
               ap_arena := (if ap_last_active_node p > node then CalculateActiveAllocs allocs node (ap_arena p)
                            else PurgeAfter node (ap_arena p)),
               ap_last_active_node := node\<rparr>,
             g\<lparr>gi_tensors := tensors\<rparr>)))"

section \<open>Sharing\<close>

definition FindSharedTensor :: "ArenaPlanner \<Rightarrow> int \<Rightarrow> int" where
  "FindSharedTensor p tensor_index = (case ap_actual_tensor_id p tensor_index of None \<Rightarrow> tensor_index | Some t \<Rightarrow> t)"

definition InputTensorCanBeShared ::
  "ArenaPlanner \<Rightarrow> GraphInfo \<Rightarrow> TfLiteTensor \<Rightarrow> TfLiteTensor \<Rightarrow> int \<Rightarrow> int \<Rightarrow> bool \<Rightarrow> bool option" where
  "InputTensorCanBeShared p g input_tensor output_tensor input_id output_id tensor_changed =
     (let rest = input_id \<notin> set (gi_inputs g) \<and> output_id \<notin> set (gi_outputs g)
                 \<and> \<not> (tt_allocation_type input_tensor \<noteq> tt_allocation_type output_tensor
                      \<and> tt_allocation_type input_tensor \<noteq> kTfLiteArenaRw)
                 \<and> \<not> ap_preserve_all_tensors p
      in if tensor_changed
         then if tt_bytes input_tensor \<noteq> tt_bytes output_tensor \<or> tt_bytes input_tensor \<le> kScalarTensorBytes then Some False
              else Option.bind (array_get (ap_refcounts p) input_id) (\<lambda>r. Some (\<not> r > 1 \<and> rest))
         else Some rest)"

text \<open>The loop over the inputs of a node, for the first that can be shared; -1 when there is none.\<close>

fun shareable_input ::
  "ArenaPlanner \<Rightarrow> GraphInfo \<Rightarrow> TfLiteNode \<Rightarrow> TfLiteTensor \<Rightarrow> int \<Rightarrow> bool \<Rightarrow> nat \<Rightarrow> int list \<Rightarrow> int option" where
  "shareable_input p g node output_tensor output_id tensor_changed i [] = Some (- 1)"
| "shareable_input p g node output_tensor output_id tensor_changed i (t # ts) =
     (if t = kTfLiteOptionalTensor \<or> tn_inplace_operator node AND push_bit i kTfLiteInplaceOpInput0Shared = 0
      then shareable_input p g node output_tensor output_id tensor_changed (Suc i) ts
      else Option.bind (array_get (gi_tensors g) t) (\<lambda>input_tensor.
             Option.bind (InputTensorCanBeShared p g input_tensor output_tensor t output_id tensor_changed) (\<lambda>shared.
               if shared then Some t
               else shareable_input p g node output_tensor output_id tensor_changed (Suc i) ts)))"

definition identify_in_place :: "GraphInfo \<Rightarrow> TfLiteNode \<Rightarrow> ArenaPlanner \<Rightarrow> ArenaPlanner option" where
  "identify_in_place g node p =
     (case tn_outputs node of
        [] \<Rightarrow> Some p
      | output_id # _ \<Rightarrow>
          let tensor_changed = (tn_inplace_operator node AND kTfLiteInplaceOpDataUnmodified = 0)
          in if tn_inplace_operator node = kTfLiteInplaceOpNone then Some p
             else Option.bind (array_get (gi_tensors g) output_id) (\<lambda>output_tensor.
               Option.bind (shareable_input p g node output_tensor output_id tensor_changed 0
                              (take kTfLiteMaxSharableOpInputs (tn_inputs node))) (\<lambda>input_id.
                 if input_id = - 1 then Some p
                 else
                   let actual_output_tensor_id = FindSharedTensor p input_id;
                       share = Some (p\<lparr>ap_actual_tensor_id := (ap_actual_tensor_id p)(output_id \<mapsto> actual_output_tensor_id)\<rparr>)
                   in if tensor_changed
                      then Option.bind (array_get (ap_refcounts p) actual_output_tensor_id) (\<lambda>r. if r > 1 then Some p else share)
                      else share)))"

definition IdentifyInPlaceTensors :: "GraphInfo \<Rightarrow> ArenaPlanner \<Rightarrow> ArenaPlanner option" where
  "IdentifyInPlaceTensors g p = loop_opt (identify_in_place g) (gi_nodes g) (p\<lparr>ap_actual_tensor_id := Map.empty\<rparr>)"

section \<open>Planning\<close>

definition planner_allocate :: "int \<Rightarrow> int \<Rightarrow> ArenaPlanner \<Rightarrow> (TfLiteStatus \<times> ArenaPlanner) option" where
  "planner_allocate node tensor p =
     Option.bind (array_get (ap_alloc_node p) tensor) (\<lambda>an.
       if an \<noteq> kNodeNotAssigned then Some (kTfLiteOk, p)
       else Option.bind (array_get (ap_dealloc_node p) tensor) (\<lambda>dn.
              if dn \<noteq> kNodeNotAssigned then Some (kTfLiteError, p)
              else map_option (\<lambda>ns. (kTfLiteOk, p\<lparr>ap_alloc_node := ns\<rparr>)) (array_set (ap_alloc_node p) tensor node)))"

definition planner_deallocate :: "int \<Rightarrow> int \<Rightarrow> ArenaPlanner \<Rightarrow> (TfLiteStatus \<times> ArenaPlanner) option" where
  "planner_deallocate node tensor p =
     Option.bind (array_get (ap_alloc_node p) tensor) (\<lambda>an.
       if an = kNodeNotAssigned then Some (kTfLiteOk, p)
       else Option.bind (array_get (ap_dealloc_node p) tensor) (\<lambda>dn.
              if dn \<noteq> kNodeNotAssigned then Some (kTfLiteError, p)
              else map_option (\<lambda>ns. (kTfLiteOk, p\<lparr>ap_dealloc_node := ns\<rparr>)) (array_set (ap_dealloc_node p) tensor node)))"

definition count_reference :: "int \<Rightarrow> ArenaPlanner \<Rightarrow> ArenaPlanner option" where
  "count_reference t p = map_option (\<lambda>rs. p\<lparr>ap_refcounts := rs\<rparr>) (array_upd (ap_refcounts p) t (\<lambda>r. r + 1))"

definition queue_tensor :: "int \<Rightarrow> int \<Rightarrow> ArenaPlanner \<Rightarrow> ArenaPlanner option" where
  "queue_tensor node t p =
     map_option (\<lambda>ns. p\<lparr>ap_nodes_to_tensors := ns\<rparr>) (array_upd (ap_nodes_to_tensors p) node (set_insert t))"

definition plan_variable :: "int \<Rightarrow> ArenaPlanner \<Rightarrow> (TfLiteStatus \<times> ArenaPlanner) option" where
  "plan_variable t p =
     Option.bind (count_reference t p) (\<lambda>p1.
       if t = kTfLiteOptionalTensor then Some (kTfLiteError, p1)
       else ensure_status (planner_allocate 0 t p1) (\<lambda>p2. status_ok (queue_tensor 0 t p2)))"

definition plan_input :: "int \<Rightarrow> ArenaPlanner \<Rightarrow> (TfLiteStatus \<times> ArenaPlanner) option" where
  "plan_input t p =
     (if t = kTfLiteOptionalTensor then Some (kTfLiteOk, p)
      else Option.bind (count_reference t p) (\<lambda>p1.
             ensure_status (planner_allocate 0 t p1) (\<lambda>p2. status_ok (queue_tensor 0 t p2))))"

definition count_used :: "int \<Rightarrow> ArenaPlanner \<Rightarrow> ArenaPlanner option" where
  "count_used t p = (if t = kTfLiteOptionalTensor then Some p else count_reference t p)"

definition count_shared :: "ArenaPlanner \<Rightarrow> int \<Rightarrow> int list \<Rightarrow> int list option" where
  "count_shared p t rs = (if t = kTfLiteOptionalTensor then Some rs else array_upd rs (FindSharedTensor p t) (\<lambda>r. r + 1))"

definition plan_output :: "int \<Rightarrow> int \<Rightarrow> ArenaPlanner \<Rightarrow> (TfLiteStatus \<times> ArenaPlanner) option" where
  "plan_output i t p =
     (if t = kTfLiteOptionalTensor then Some (kTfLiteOk, p)
      else Option.bind (queue_tensor i t p) (planner_allocate i t))"

definition plan_use :: "int \<Rightarrow> int \<Rightarrow> ArenaPlanner \<times> int list \<Rightarrow> (TfLiteStatus \<times> ArenaPlanner \<times> int list) option" where
  "plan_use i t = (\<lambda>(p, refcounts).
     if t = kTfLiteOptionalTensor then Some (kTfLiteOk, p, refcounts)
     else
       let r = FindSharedTensor p t
       in Option.bind (array_upd refcounts r (\<lambda>c. c - 1)) (\<lambda>refcounts'.
            Option.bind (array_get refcounts' r) (\<lambda>c.
              if c = 0 then map_option (\<lambda>(status, p'). (status, p', refcounts')) (planner_deallocate i r p)
              else Some (kTfLiteOk, p, refcounts'))))"

definition plan_node :: "int \<times> TfLiteNode \<Rightarrow> ArenaPlanner \<times> int list \<Rightarrow> (TfLiteStatus \<times> ArenaPlanner \<times> int list) option" where
  "plan_node = (\<lambda>(i, node) (p, refcounts).
     Option.bind (loop_status (plan_output i) (tn_outputs node) p) (\<lambda>(status, p1).
       if status \<noteq> kTfLiteOk then Some (status, p1, refcounts)
       else if ap_preserve_all_tensors p1 then Some (kTfLiteOk, p1, refcounts)
       else loop_status (plan_use i) (tn_inputs node) (p1, refcounts)))"

definition execution_nodes :: "GraphInfo \<Rightarrow> (int \<times> TfLiteNode) list" where
  "execution_nodes g = zip [0..int (length (gi_nodes g)) - 1] (gi_nodes g)"

definition plan_reset :: "GraphInfo \<Rightarrow> ArenaPlanner \<Rightarrow> ArenaPlanner" where
  "plan_reset g p =
     (ResetAllocations g p)\<lparr>ap_alloc_node := replicate (length (gi_tensors g)) kNodeNotAssigned,
        ap_dealloc_node := replicate (length (gi_tensors g)) kNodeNotAssigned,
        ap_nodes_to_tensors := replicate (max (length (gi_nodes g)) 1) [],
        ap_refcounts := replicate (length (gi_tensors g)) 0\<rparr>"

definition node_uses :: "GraphInfo \<Rightarrow> int list" where
  "node_uses g = concat (map tn_inputs (gi_nodes g))"

definition PlanAllocations :: "GraphInfo \<Rightarrow> ArenaPlanner \<Rightarrow> (TfLiteStatus \<times> ArenaPlanner) option" where
  "PlanAllocations g p =
     Option.bind (loop_opt count_used (gi_outputs g) (plan_reset g p)) (\<lambda>p1.
       ensure_status (loop_status plan_variable (gi_variables g) p1) (\<lambda>p2.
         ensure_status (loop_status plan_input (gi_inputs g) p2) (\<lambda>p3.
           Option.bind (loop_opt count_used (node_uses g) p3) (\<lambda>p4.
             Option.bind (IdentifyInPlaceTensors g p4) (\<lambda>p5.
               Option.bind (loop_opt (count_shared p5) (node_uses g) (ap_refcounts p3)) (\<lambda>refcounts.
                 map_option (\<lambda>(status, p6, _). (status, p6)) (loop_status plan_node (execution_nodes g) (p5, refcounts))))))))"

section \<open>Allocating\<close>

record planner_env =
  pe_heap :: heap_env
  pe_set_order :: "int list \<Rightarrow> int list"
  pe_sort :: "(int \<Rightarrow> int \<Rightarrow> bool) \<Rightarrow> int list \<Rightarrow> int list"

definition whole_life :: "ArenaPlanner \<Rightarrow> int \<Rightarrow> bool" where
  "whole_life p t \<longleftrightarrow> ap_alloc_node p ! nat t = 0 \<and> ap_dealloc_node p ! nat t = kNodeNotAssigned"

text \<open>The indices compared have been looked up in \<^verbatim>\<open>tensors\<close> before, and the other vectors are as long.\<close>

definition tensor_compare :: "ArenaPlanner \<Rightarrow> TfLiteTensor list \<Rightarrow> int \<Rightarrow> int \<Rightarrow> bool" where
  "tensor_compare p tensors idx1 idx2 =
     (if whole_life p idx1 then if whole_life p idx2 then idx1 < idx2 else True
      else if whole_life p idx2 then False
      else
        let size1 = tt_bytes (tensors ! nat idx1); size2 = tt_bytes (tensors ! nat idx2)
        in if size1 \<noteq> size2 then size1 > size2 else ap_alloc_node p ! nat idx1 < ap_alloc_node p ! nat idx2)"

definition CreateTensorAllocationVector :: "planner_env \<Rightarrow> ArenaPlanner \<Rightarrow> TfLiteTensor list \<Rightarrow> int list \<Rightarrow> int list" where
  "CreateTensorAllocationVector env p tensors ts = pe_sort env (tensor_compare p tensors) ts"

definition GetTensorsToAllocate :: "planner_env \<Rightarrow> int \<Rightarrow> int \<Rightarrow> ArenaPlanner \<Rightarrow> int list option" where
  "GetTensorsToAllocate env first_node last_node p =
     map_option concat (those (map (\<lambda>i. map_option (pe_set_order env) (array_get (ap_nodes_to_tensors p) i)) [first_node..last_node]))"

text \<open>The tensors that have no room yet; every tensor of the persistent arena is one of them.\<close>

definition needs_allocation :: "ArenaPlanner \<Rightarrow> TfLiteTensor list \<Rightarrow> int \<Rightarrow> bool option" where
  "needs_allocation p tensors t =
     Option.bind (array_get tensors t) (\<lambda>tensor.
       if tt_allocation_type tensor = kTfLiteArenaRw
       then map_option (\<lambda>x. aa_size x < tt_bytes tensor) (array_get (ap_allocs p) t)
       else Some (tt_allocation_type tensor = kTfLiteArenaRwPersistent))"

fun filter_opt :: "('a \<Rightarrow> bool option) \<Rightarrow> 'a list \<Rightarrow> 'a list option" where
  "filter_opt P [] = Some []"
| "filter_opt P (x # xs) = Option.bind (P x) (\<lambda>b. map_option (\<lambda>ys. if b then x # ys else ys) (filter_opt P xs))"

text \<open>The place of one tensor in its arena.\<close>

definition allocate_rw :: "TfLiteTensor \<Rightarrow> int \<Rightarrow> ArenaPlanner \<Rightarrow> (TfLiteStatus \<times> ArenaPlanner) option" where
  "allocate_rw tensor t p =
     (if tt_allocation_type tensor \<noteq> kTfLiteArenaRw then Some (kTfLiteOk, p)
      else Option.bind (array_get (ap_alloc_node p) t) (\<lambda>f.
        Option.bind (array_get (ap_dealloc_node p) t) (\<lambda>l.
          Option.bind (array_get (ap_allocs p) t) (\<lambda>old.
            Option.bind (Allocate (to_size (ap_tensor_alignment p)) (tt_bytes tensor) t f l (old, ap_arena p)) (\<lambda>(status, x, a).
              map_option (\<lambda>xs. (status, p\<lparr>ap_arena := a, ap_allocs := xs\<rparr>)) (array_set (ap_allocs p) t x))))))"

definition allocate_persistent :: "TfLiteTensor \<Rightarrow> int \<Rightarrow> ArenaPlanner \<Rightarrow> (TfLiteStatus \<times> ArenaPlanner) option" where
  "allocate_persistent tensor t p =
     (if tt_allocation_type tensor \<noteq> kTfLiteArenaRwPersistent then Some (kTfLiteOk, p)
      else Option.bind (array_get (ap_allocs p) t) (\<lambda>old.
        if aa_size old \<noteq> 0 \<or> \<not> aa_size old < tt_bytes tensor then Some (kTfLiteOk, p)
        else Option.bind (array_get (ap_alloc_node p) t) (\<lambda>f.
          Option.bind (Allocate (to_size (ap_tensor_alignment p)) (tt_bytes tensor) t f (2 ^ 31 - 1) (old, ap_persistent_arena p)) (\<lambda>(status, x, a).
            map_option (\<lambda>xs. (status, p\<lparr>ap_persistent_arena := a, ap_allocs := xs\<rparr>)) (array_set (ap_allocs p) t x)))))"

definition allocate_tensor :: "TfLiteTensor list \<Rightarrow> int \<Rightarrow> ArenaPlanner \<Rightarrow> (TfLiteStatus \<times> ArenaPlanner) option" where
  "allocate_tensor tensors t p =
     Option.bind (array_get tensors t) (\<lambda>tensor.
       let place = (\<lambda>p. ensure_status (allocate_rw tensor t p) (allocate_persistent tensor t))
       in case ap_actual_tensor_id p t of
            None \<Rightarrow> place p
          | Some s \<Rightarrow>
              Option.bind (array_get tensors s) (\<lambda>root.
                if tt_allocation_type root \<noteq> kTfLiteArenaRw \<or> tt_bytes root \<noteq> tt_bytes tensor
                then place (p\<lparr>ap_actual_tensor_id := (ap_actual_tensor_id p)(t := None)\<rparr>)
                else Some (kTfLiteOk, p)))"

definition CalculateAllocations ::
  "planner_env \<Rightarrow> int \<Rightarrow> int \<Rightarrow> GraphInfo \<Rightarrow> ArenaPlanner \<Rightarrow> (TfLiteStatus \<times> ArenaPlanner \<times> int list) option" where
  "CalculateAllocations env first_node last_node g p =
     Option.bind (GetTensorsToAllocate env first_node last_node p) (\<lambda>tensors_to_allocate.
       Option.bind (filter_opt (needs_allocation p (gi_tensors g)) tensors_to_allocate) (\<lambda>needed.
         if needed = [] then Some (kTfLiteOk, p\<lparr>ap_last_active_node := last_node\<rparr>, [])
         else
           let p1 = (if first_node < ap_last_active_node p
                     then p\<lparr>ap_arena := ResetAllocs (ap_arena p), ap_last_active_node := first_node\<rparr>
                     else p\<lparr>ap_arena := PurgeActiveAllocs first_node (ap_arena p)\<rparr>);
               tensors_allocated = CreateTensorAllocationVector env p1 (gi_tensors g) needed
           in map_option (\<lambda>(status, p2).
                if status = kTfLiteOk then (kTfLiteOk, p2\<lparr>ap_last_active_node := last_node\<rparr>, tensors_allocated)
                else (status, p2, tensors_allocated))
              (loop_status (allocate_tensor (gi_tensors g)) tensors_allocated p1)))"

definition planner_Commit :: "planner_env \<Rightarrow> ArenaPlanner \<times> heap \<Rightarrow> (bool \<times> ArenaPlanner \<times> heap) option" where
  "planner_Commit env = (\<lambda>(p, h).
     Option.bind (arena_Commit (pe_heap env) (ap_arena p, h)) (\<lambda>(r1, a, h1).
       map_option (\<lambda>(r2, b, h2). (r1 \<or> r2, p\<lparr>ap_arena := a, ap_has_nonpersistent_memory := True, ap_persistent_arena := b\<rparr>, h2))
         (arena_Commit (pe_heap env) (ap_persistent_arena p, h1))))"

section \<open>Addresses\<close>

definition AreTensorsAllocatedInSameArena :: "TfLiteTensor \<Rightarrow> TfLiteTensor \<Rightarrow> bool" where
  "AreTensorsAllocatedInSameArena root_tensor tensor \<longleftrightarrow>
     tt_allocation_type root_tensor = kTfLiteArenaRw \<and> tt_allocation_type tensor = kTfLiteArenaRw
     \<or> tt_allocation_type root_tensor = kTfLiteArenaRwPersistent \<and> tt_allocation_type tensor = kTfLiteArenaRwPersistent"

text \<open>The address of a tensor that owns its buffer; a failed resolution leaves the old address.\<close>

definition resolve_own :: "ArenaPlanner \<Rightarrow> int \<Rightarrow> TfLiteTensor list \<Rightarrow> (TfLiteStatus \<times> TfLiteTensor list) option" where
  "resolve_own p t tensors =
     Option.bind (array_get tensors t) (\<lambda>tensor.
       Option.bind (array_get (ap_allocs p) t) (\<lambda>x.
         let resolve = (\<lambda>a. case ResolveAlloc a x of
               (status, None) \<Rightarrow> Some (status, tensors)
             | (status, Some q) \<Rightarrow> map_option (\<lambda>ts. (status, ts)) (array_set tensors t (tensor\<lparr>tt_data := q\<rparr>)))
         in if tt_allocation_type tensor = kTfLiteArenaRw \<and> aa_size x \<noteq> 0 then resolve (ap_arena p)
            else if tt_allocation_type tensor = kTfLiteArenaRwPersistent then resolve (ap_persistent_arena p)
            else Some (kTfLiteOk, tensors)))"

text \<open>A shared tensor takes the address of its root, resolved first, with the status of that ignored.\<close>

partial_function (option) ResolveTensorAllocation ::
  "ArenaPlanner \<Rightarrow> int \<Rightarrow> TfLiteTensor list \<Rightarrow> (TfLiteStatus \<times> TfLiteTensor list) option" where
  "ResolveTensorAllocation p t tensors =
     Option.bind (array_get tensors t) (\<lambda>tensor.
       let s = FindSharedTensor p t
       in Option.bind (array_get tensors s) (\<lambda>root_tensor.
            if s \<noteq> t \<and> AreTensorsAllocatedInSameArena root_tensor tensor
            then Option.bind (ResolveTensorAllocation p s tensors) (\<lambda>(_, tensors').
                   Option.bind (array_get tensors' s) (\<lambda>root'.
                     map_option (\<lambda>ts. (kTfLiteOk, ts)) (array_upd tensors' t (\<lambda>x. x\<lparr>tt_data := tt_data root'\<rparr>))))
            else resolve_own p t tensors))"

section \<open>Executing the plan\<close>

definition resize_vec :: "'a list \<Rightarrow> nat \<Rightarrow> 'a \<Rightarrow> 'a list" where
  "resize_vec xs n v = take n xs @ replicate (n - length xs) v"

definition plan_temporary :: "int \<Rightarrow> int \<Rightarrow> ArenaPlanner \<Rightarrow> ArenaPlanner option" where
  "plan_temporary i t p =
     Option.bind (array_set (ap_alloc_node p) t i) (\<lambda>ns.
       Option.bind (queue_tensor i t (p\<lparr>ap_alloc_node := ns\<rparr>)) (\<lambda>p1.
         if ap_preserve_all_tensors p1 then Some p1
         else map_option (\<lambda>ds. p1\<lparr>ap_dealloc_node := ds\<rparr>) (array_set (ap_dealloc_node p1) t i)))"

definition plan_temporaries :: "int \<Rightarrow> int \<Rightarrow> GraphInfo \<Rightarrow> ArenaPlanner \<Rightarrow> ArenaPlanner option" where
  "plan_temporaries first_node last_node g =
     loop_opt (\<lambda>i. loop_opt (plan_temporary (int i)) (tn_temporaries (gi_nodes g ! i)))
       [to_size first_node ..< min (Suc (to_size last_node)) (length (gi_nodes g))]"

definition ExecuteAllocations ::
  "planner_env \<Rightarrow> int \<Rightarrow> int \<Rightarrow> ArenaPlanner \<times> GraphInfo \<times> heap \<Rightarrow> (TfLiteStatus \<times> ArenaPlanner \<times> GraphInfo \<times> heap) option" where
  "ExecuteAllocations env first_node last_node = (\<lambda>(p, g, h).
     let n = length (gi_tensors g)
     in if n < length (ap_allocs p) then Some (kTfLiteError, p, g, h)
        else
          let p1 = p\<lparr>ap_alloc_node := resize_vec (ap_alloc_node p) n kNodeNotAssigned,
                     ap_dealloc_node := resize_vec (ap_dealloc_node p) n kNodeNotAssigned,
                     ap_allocs := resize_vec (ap_allocs p) n no_alloc\<rparr>
          in Option.bind (plan_temporaries first_node last_node g p1) (\<lambda>p2.
               Option.bind (CalculateAllocations env first_node last_node g p2) (\<lambda>(status, p3, tensors_allocated).
                 if status \<noteq> kTfLiteOk then Some (status, p3, g, h)
                 else Option.bind (planner_Commit env (p3, h)) (\<lambda>(arena_reallocated, p4, h').
                        map_option (\<lambda>(status, ts). (status, p4, g\<lparr>gi_tensors := ts\<rparr>, h'))
                          (loop_status (ResolveTensorAllocation p4)
                             (if arena_reallocated then [0..int n - 1] else tensors_allocated) (gi_tensors g))))))"

section \<open>Giving memory back and taking it again\<close>

definition ReleaseNonPersistentMemory :: "ArenaPlanner \<times> GraphInfo \<times> heap \<Rightarrow> (ArenaPlanner \<times> GraphInfo \<times> heap) option" where
  "ReleaseNonPersistentMemory = (\<lambda>(p, g, h).
     map_option (\<lambda>(a, h').
       (p\<lparr>ap_arena := a, ap_has_nonpersistent_memory := False\<rparr>,
        g\<lparr>gi_tensors := map (\<lambda>t. if tt_allocation_type t = kTfLiteArenaRw then t\<lparr>tt_data := nullptr\<rparr> else t) (gi_tensors g)\<rparr>, h'))
     (ReleaseBuffer (ap_arena p, h)))"

definition AcquireNonPersistentMemory ::
  "planner_env \<Rightarrow> ArenaPlanner \<times> GraphInfo \<times> heap \<Rightarrow> (TfLiteStatus \<times> ArenaPlanner \<times> GraphInfo \<times> heap) option" where
  "AcquireNonPersistentMemory env = (\<lambda>(p, g, h).
     Option.bind (arena_Commit (pe_heap env) (ap_arena p, h)) (\<lambda>(_, a, h').
       let p' = p\<lparr>ap_arena := a, ap_has_nonpersistent_memory := True\<rparr>
       in map_option (\<lambda>(status, ts). (status, p', g\<lparr>gi_tensors := ts\<rparr>, h'))
            (loop_status (\<lambda>i ts. Option.bind (array_get ts i) (\<lambda>t.
                 if tt_allocation_type t = kTfLiteArenaRw then ResolveTensorAllocation p' i ts else Some (kTfLiteOk, ts)))
               [0..int (length (gi_tensors g)) - 1] (gi_tensors g))))"

definition GetAllocInfo :: "ArenaPlanner \<Rightarrow> size_t \<times> size_t" where
  "GetAllocInfo p = (rb_data_size (ar_buffer (ap_arena p)), rb_data_size (ar_buffer (ap_persistent_arena p)))"

end
