(* ===== verification/ArenaProps.thy ===== *)
theory ArenaProps
  imports Arena
begin

text \<open>
  Tensors that are in use at the same time get memory of their own: the search for a gap, the invariant of an
  arena, and runs of its operations. Purging is an optimisation with no effect on later allocations.
\<close>

section \<open>The search for a gap\<close>

definition apart_allocs :: "ArenaAllocWithUsageInterval \<Rightarrow> ArenaAllocWithUsageInterval \<Rightarrow> bool" where
  "apart_allocs x y \<longleftrightarrow> aa_offset x + aa_size x \<le> aa_offset y \<or> aa_offset y + aa_size y \<le> aa_offset x"

definition same_time :: "ArenaAllocWithUsageInterval \<Rightarrow> ArenaAllocWithUsageInterval \<Rightarrow> bool" where
  "same_time x y \<longleftrightarrow> intersects (aa_first_node x) (aa_last_node x) y"

lemma same_time_sym: "same_time x y \<longleftrightarrow> same_time y x"
  by (auto simp: same_time_def intersects_def)

lemma apart_allocs_sym: "apart_allocs x y \<longleftrightarrow> apart_allocs y x"
  by (auto simp: apart_allocs_def)

text \<open>Allocations that are not in use at the same time do not matter.\<close>

lemma find_gap_filter:
  assumes "\<And>a. a \<in> set as \<Longrightarrow> \<not> P a \<Longrightarrow> \<not> intersects f l a"
  shows "find_gap al n f l (filter P as) best fit cur = find_gap al n f l as best fit cur"
  using assms by (induction as arbitrary: best fit cur) (auto simp: Let_def split: prod.splits)

lemma find_gap_spec:
  assumes "sorted (map aa_offset as)" "\<forall>a \<in> set as. aa_offset a + aa_size a \<le> hw" "cur \<le> hw" "0 < fit"
    and "best \<noteq> kOffsetNotAssigned \<Longrightarrow> \<forall>a \<in> set as. best + n \<le> aa_offset a"
    and "find_gap al n f l as best fit cur = (best', cur')" and al: "0 < al" "0 < n" "hw + al + n < 2 ^ 64"
  shows "cur \<le> cur' \<and> cur' \<le> hw
    \<and> (best' = best \<or> cur \<le> best' \<and> best' mod al = 0 \<and> best' + n \<le> hw)
    \<and> (\<forall>a \<in> set as. intersects f l a \<longrightarrow>
         (if best' = kOffsetNotAssigned then aa_offset a + aa_size a \<le> cur'
          else best' + n \<le> aa_offset a \<or> aa_offset a + aa_size a \<le> best'))"
  using assms(1-6)
proof (induction as arbitrary: best fit cur)
  case (Cons a as)
  show ?case
  proof (cases "intersects f l a")
    case False
    then show ?thesis using Cons.IH [of cur fit best] Cons.prems by simp
  next
    case True
    define ac where "ac = AlignTo al cur"
    have ac: "cur \<le> ac" "ac < cur + al" "ac mod al = 0"
      using AlignTo_spec [of al cur] al Cons.prems(3) by (simp_all add: ac_def)
    have big: "ac + n < 2 ^ 64" using ac(2) Cons.prems(3) al(3) by linarith
    have fin: "aa_offset a + aa_size a \<le> hw" using Cons.prems(2) by simp
    have sub: "size_sub (aa_offset a) x = aa_offset a - x" if "x \<le> aa_offset a" for x
      using that fin al(3) by (intro size_sub_id) linarith+
    have cur1: "max cur (size_add (aa_offset a) (aa_size a)) = max cur (aa_offset a + aa_size a)"
      using fin al(3) by (subst size_add_id) linarith+
    have later: "aa_offset a \<le> aa_offset b" if "b \<in> set as" for b using Cons.prems(1) that by simp
    define take where "take \<longleftrightarrow> ac + n \<le> aa_offset a \<and> aa_offset a - ac < fit"
    let ?best = "if take then ac else best" and ?fit = "if take then aa_offset a - cur else fit" and ?cur = "max cur (aa_offset a + aa_size a)"
    have pos: "0 < ?fit" using ac(1) al(2) Cons.prems(4) by (auto simp: take_def)
    have step: "find_gap al n f l (a # as) best fit cur = find_gap al n f l as ?best ?fit ?cur"
      using True pos ac(1) al(2) by (auto simp: ac_def [symmetric] Let_def size_add_id [OF big] cur1 take_def sub)
    have b1: "?best \<noteq> kOffsetNotAssigned \<Longrightarrow> \<forall>b \<in> set as. ?best + n \<le> aa_offset b"
      using Cons.prems(5) later by (auto simp: take_def intro: order_trans)
    have IH: "?cur \<le> cur' \<and> cur' \<le> hw \<and> (best' = ?best \<or> ?cur \<le> best' \<and> best' mod al = 0 \<and> best' + n \<le> hw)
      \<and> (\<forall>b \<in> set as. intersects f l b \<longrightarrow> (if best' = kOffsetNotAssigned then aa_offset b + aa_size b \<le> cur'
           else best' + n \<le> aa_offset b \<or> aa_offset b + aa_size b \<le> best'))"
      by (rule Cons.IH) (use Cons.prems fin pos b1 step in auto)
    have na: "ac \<noteq> kOffsetNotAssigned" using big al(2) by (simp add: kOffsetNotAssigned_def)
    have first: "if best' = kOffsetNotAssigned then aa_offset a + aa_size a \<le> cur'
        else best' + n \<le> aa_offset a \<or> aa_offset a + aa_size a \<le> best'"
      using IH Cons.prems(5) na by (auto simp: take_def split: if_splits)
    moreover have "best' = best \<or> cur \<le> best' \<and> best' mod al = 0 \<and> best' + n \<le> hw"
      using IH ac fin by (auto simp: take_def split: if_splits)
    ultimately show ?thesis using IH by simp
  qed
qed simp

section \<open>The invariant of an arena\<close>

definition arena_ok :: "SimpleMemoryArena \<Rightarrow> bool" where
  "arena_ok a \<longleftrightarrow> sorted (map aa_offset (ar_active a)) \<and> ar_high_water_mark a < 2 ^ 64
     \<and> (\<forall>x \<in> set (ar_active a). aa_offset x + aa_size x \<le> ar_high_water_mark a \<and> aa_tensor x \<noteq> - 1)"

lemma insert_alloc_simps:
  "insert_alloc x [] = [x]"
  "insert_alloc x (a # as) = (if aa_offset x < aa_offset a then x # a # as else a # insert_alloc x as)"
  by (simp_all add: insert_alloc_def)

lemma insert_alloc_set: "set (insert_alloc x as) = insert x (set as)"
  by (induction as) (auto simp: insert_alloc_simps)

lemma insert_alloc_sorted: "sorted (map aa_offset as) \<Longrightarrow> sorted (map aa_offset (insert_alloc x as))"
  by (induction as) (auto simp: insert_alloc_simps insert_alloc_set)

lemma insert_alloc_first: "\<forall>a \<in> set as. aa_offset x < aa_offset a \<Longrightarrow> insert_alloc x as = x # as"
  by (cases as) (auto simp: insert_alloc_simps)

lemma insert_alloc_filter:
  assumes "P x" "sorted (map aa_offset as)"
  shows "filter P (insert_alloc x as) = insert_alloc x (filter P as)"
  using assms(2)
proof (induction as)
  case (Cons a as)
  show ?case
  proof (cases "aa_offset x < aa_offset a")
    case True
    with Cons.prems have "\<forall>b \<in> set (filter P (a # as)). aa_offset x < aa_offset b" by auto
    then show ?thesis using True assms(1) insert_alloc_first [of "filter P (a # as)" x] by (simp add: insert_alloc_simps)
  next
    case False
    then show ?thesis using Cons by (simp add: insert_alloc_simps)
  qed
qed (simp add: insert_alloc_simps assms(1))

text \<open>What an allocation gives: an aligned place apart from everything in use at the same time.\<close>

lemma Allocate_spec:
  assumes "arena_ok a" "0 < al" "al \<le> rb_alignment (ar_buffer a)" "ar_high_water_mark a + al + n < 2 ^ 64" "t \<noteq> - 1"
    and "Allocate al n t f l (old, a) = Some (status, x, a')"
  shows "status = kTfLiteOk" "aa_size x = n" "aa_tensor x = t" "aa_first_node x = f" "aa_last_node x = l" "aa_offset x mod al = 0"
    "arena_ok a'" "ar_buffer a' = ar_buffer a" "ar_high_water_mark a \<le> ar_high_water_mark a'"
    "ar_high_water_mark a' \<le> ar_high_water_mark a + al + n" "aa_offset x + aa_size x \<le> ar_high_water_mark a'" "0 < n \<Longrightarrow> set (ar_active a') = insert x (set (ar_active a))" "n = 0 \<Longrightarrow> a' = a"
    "\<forall>y \<in> set (ar_active a). 0 < n \<longrightarrow> same_time x y \<longrightarrow> apart_allocs x y"
proof -
  have "status = kTfLiteOk \<and> aa_size x = n \<and> aa_tensor x = t \<and> aa_first_node x = f \<and> aa_last_node x = l \<and> aa_offset x mod al = 0
    \<and> arena_ok a' \<and> ar_buffer a' = ar_buffer a \<and> ar_high_water_mark a \<le> ar_high_water_mark a'
    \<and> ar_high_water_mark a' \<le> ar_high_water_mark a + al + n \<and> aa_offset x + aa_size x \<le> ar_high_water_mark a' \<and> (0 < n \<longrightarrow> set (ar_active a') = insert x (set (ar_active a))) \<and> (n = 0 \<longrightarrow> a' = a)
    \<and> (\<forall>y \<in> set (ar_active a). 0 < n \<longrightarrow> same_time x y \<longrightarrow> apart_allocs x y)"
  proof (cases "n = 0")
    case True
    then show ?thesis using assms by (auto simp: Allocate_def Let_def)
  next
    case False
    let ?hw = "ar_high_water_mark a"
    obtain gap cur where g: "find_gap al n f l (ar_active a) kOffsetNotAssigned kOffsetNotAssigned 0 = (gap, cur)" by (rule prod.exhaust)
    define best where "best = (if gap = kOffsetNotAssigned then AlignTo al cur else gap)"
    have ok: "sorted (map aa_offset (ar_active a))" "\<forall>x \<in> set (ar_active a). aa_offset x + aa_size x \<le> ?hw"
      using assms(1) by (auto simp: arena_ok_def)
    have sp: "0 \<le> cur \<and> cur \<le> ?hw \<and> (gap = kOffsetNotAssigned \<or> 0 \<le> gap \<and> gap mod al = 0 \<and> gap + n \<le> ?hw)
        \<and> (\<forall>a \<in> set (ar_active a). intersects f l a \<longrightarrow> (if gap = kOffsetNotAssigned then aa_offset a + aa_size a \<le> cur
             else gap + n \<le> aa_offset a \<or> aa_offset a + aa_size a \<le> gap))"
      by (rule find_gap_spec [OF ok _ _ _ g assms(2) _ assms(4)]) (use False in \<open>simp_all add: kOffsetNotAssigned_def\<close>)
    have al: "cur \<le> AlignTo al cur" "AlignTo al cur < cur + al" "AlignTo al cur mod al = 0"
      using AlignTo_spec [of al cur] assms(2,4) sp by auto
    have best: "best mod al = 0" "best + n \<le> ?hw + al + n" using sp al by (auto simp: best_def)
    have dis: "best + n \<le> aa_offset y \<or> aa_offset y + aa_size y \<le> best" if "y \<in> set (ar_active a)" "intersects f l y" for y
      using sp that al(1) by (auto simp: best_def split: if_splits)
    have sum: "size_add best n = best + n" using best(2) assms(4) by (intro size_add_id) linarith
    have x: "x = \<lparr>aa_offset = best, aa_size = n, aa_tensor = t, aa_first_node = f, aa_last_node = l\<rparr>" "status = kTfLiteOk"
      "a' = a\<lparr>ar_high_water_mark := max ?hw (best + n), ar_active := insert_alloc x (ar_active a)\<rparr>"
      using assms(2,3,6) False by (auto simp: Allocate_def g Let_def sum simp flip: best_def)
    have "max ?hw (best + n) < 2 ^ 64" using best(2) assms(4) by simp
    then have "arena_ok a'" using assms(1,5) insert_alloc_sorted [OF ok(1), of x] unfolding arena_ok_def x(3)
      by (auto simp: insert_alloc_set x(1) max_def)
    moreover have "\<forall>y \<in> set (ar_active a). same_time x y \<longrightarrow> apart_allocs x y"
      using dis by (simp add: same_time_def apart_allocs_def x(1))
    ultimately show ?thesis using False best by (simp add: x insert_alloc_set)
  qed
  then show "status = kTfLiteOk" "aa_size x = n" "aa_tensor x = t" "aa_first_node x = f" "aa_last_node x = l" "aa_offset x mod al = 0"
    "arena_ok a'" "ar_buffer a' = ar_buffer a" "ar_high_water_mark a \<le> ar_high_water_mark a'"
    "ar_high_water_mark a' \<le> ar_high_water_mark a + al + n" "aa_offset x + aa_size x \<le> ar_high_water_mark a'" "0 < n \<Longrightarrow> set (ar_active a') = insert x (set (ar_active a))" "n = 0 \<Longrightarrow> a' = a"
    "\<forall>y \<in> set (ar_active a). 0 < n \<longrightarrow> same_time x y \<longrightarrow> apart_allocs x y" by blast+
qed

section \<open>Purging\<close>

text \<open>Allocations are kept ordered, and none has the mark of the dropped ones.\<close>

definition active_ok :: "SimpleMemoryArena \<Rightarrow> bool" where
  "active_ok a \<longleftrightarrow> sorted (map aa_offset (ar_active a)) \<and> (\<forall>x \<in> set (ar_active a). aa_tensor x \<noteq> - 1)"

lemma purge_filter: "purge dropped as = filter (\<lambda>a. \<not> dropped a \<and> aa_tensor a \<noteq> - 1) as"
  by (induction as) (auto simp: purge_def)

lemma active_ok_purge: "active_ok a \<Longrightarrow> active_ok (PurgeActiveAllocs m a)"
  by (auto simp: active_ok_def PurgeActiveAllocs_def purge_filter sorted_filter)

lemma active_ok_Allocate:
  assumes "active_ok a" "t \<noteq> - 1" "Allocate al n t f l (old, a) = Some (status, x, b)"
  shows "active_ok b"
  using assms by (auto simp: Allocate_def active_ok_def Let_def insert_alloc_set insert_alloc_sorted split: if_splits prod.splits)

text \<open>A purge before an allocation is a purge after it.\<close>

lemma Allocate_purge:
  assumes "active_ok a" "t \<noteq> - 1" "m \<le> f" "f \<le> l"
  shows "Allocate al n t f l (old, PurgeActiveAllocs m a)
    = map_option (\<lambda>(status, x, b). (status, x, PurgeActiveAllocs m b)) (Allocate al n t f l (old, a))"
proof -
  have pa: "purge (\<lambda>x. aa_last_node x < m) as = filter (\<lambda>x. m \<le> aa_last_node x) as"
    if "\<forall>x \<in> set as. aa_tensor x \<noteq> - 1" for as
    using that by (auto simp: purge_filter not_less intro: filter_cong)
  have ok: "sorted (map aa_offset (ar_active a))" "\<forall>x \<in> set (ar_active a). aa_tensor x \<noteq> - 1"
    using assms(1) by (simp_all add: active_ok_def)
  have gap: "find_gap al n f l (filter (\<lambda>x. m \<le> aa_last_node x) (ar_active a)) best fit cur
      = find_gap al n f l (ar_active a) best fit cur" for best fit cur
    by (rule find_gap_filter) (use assms(3) in \<open>auto simp: intersects_def\<close>)
  have ins: "purge (\<lambda>x. aa_last_node x < m) (insert_alloc x (ar_active a))
      = insert_alloc x (filter (\<lambda>x. m \<le> aa_last_node x) (ar_active a))" if "aa_tensor x = t" "aa_last_node x = l" for x
    using that assms(2-4) ok by (subst pa) (auto simp: insert_alloc_set insert_alloc_filter)
  show ?thesis
    by (auto simp: Allocate_def PurgeActiveAllocs_def pa ok(2) gap ins Let_def split: prod.splits)
qed

text \<open>A sequence of requests: alignment, bytes, tensor, first and last node.\<close>

type_synonym request = "size_t \<times> size_t \<times> int \<times> int \<times> int"

fun allocate_all ::
  "request list \<Rightarrow> SimpleMemoryArena \<Rightarrow> ((TfLiteStatus \<times> ArenaAllocWithUsageInterval) list \<times> SimpleMemoryArena) option" where
  "allocate_all [] a = Some ([], a)"
| "allocate_all ((al, n, t, f, l) # rs) a =
     Option.bind (Allocate al n t f l (no_alloc, a)) (\<lambda>(status, x, b).
       map_option (\<lambda>(xs, c). ((status, x) # xs, c)) (allocate_all rs b))"

lemma active_ok_allocate_all:
  "active_ok a \<Longrightarrow> \<forall>(al, n, t, f, l) \<in> set rs. t \<noteq> - 1 \<Longrightarrow> allocate_all rs a = Some (xs, b) \<Longrightarrow> active_ok b"
  by (induction rs a arbitrary: xs rule: allocate_all.induct)
    (auto split: bind_splits dest: active_ok_Allocate)

lemma allocate_all_purge:
  "active_ok a \<Longrightarrow> \<forall>(al, n, t, f, l) \<in> set rs. t \<noteq> - 1 \<and> m \<le> f \<and> f \<le> l \<Longrightarrow>
   allocate_all rs (PurgeActiveAllocs m a) = map_option (\<lambda>(xs, b). (xs, PurgeActiveAllocs m b)) (allocate_all rs a)"
proof (induction rs a rule: allocate_all.induct)
  case (2 al n t f l rs a)
  then have r: "t \<noteq> - 1" "m \<le> f" "f \<le> l" by auto
  show ?case
  proof (cases "Allocate al n t f l (no_alloc, a)")
    case (Some r)
    obtain status x b where s: "r = (status, x, b)" by (cases r)
    have "active_ok b" using active_ok_Allocate "2.prems"(1) r(1) Some s by blast
    then have "allocate_all rs (PurgeActiveAllocs m b) = map_option (\<lambda>(xs, b). (xs, PurgeActiveAllocs m b)) (allocate_all rs b)"
      using "2.IH" [OF Some s [symmetric] refl] "2.prems"(2) by auto
    then show ?thesis using Some s by (simp add: Allocate_purge [OF "2.prems"(1) r] option.map_comp case_prod_unfold comp_def)
  qed (simp add: Allocate_purge [OF "2.prems"(1) r])
qed simp

text \<open>C7: Dropping the allocations that end before a node (\<^verbatim>\<open>PurgeActiveAllocs\<close>) changes nothing for requests
  that start at that node or later: after any requests \<open>rs\<close> on a cleared arena, every request of \<open>qs\<close> gets the same
  status and the same place with the purge as without, the high-water mark is the same, and the allocations left are
  those that a purge at the end would leave. The remarks in the source promise this.\<close>

theorem purge_active_no_effect:
  assumes "\<forall>(al, n, t, f, l) \<in> set rs. t \<noteq> - 1" "allocate_all rs (ClearPlan a) = Some (xs, b)"
    and "\<forall>(al, n, t, f, l) \<in> set qs. t \<noteq> - 1 \<and> m \<le> f \<and> f \<le> l" "allocate_all qs b = Some (ys, c)"
  shows "\<exists>d. allocate_all qs (PurgeActiveAllocs m b) = Some (ys, d) \<and> ar_high_water_mark d = ar_high_water_mark c
    \<and> ar_active d = filter (\<lambda>x. m \<le> aa_last_node x) (ar_active c)"
proof -
  have ok: "active_ok b" by (rule active_ok_allocate_all [OF _ assms(1,2)]) (simp add: active_ok_def ClearPlan_def)
  have "\<forall>(al, n, t, f, l) \<in> set qs. t \<noteq> - 1" using assms(3) by auto
  then have "active_ok c" by (rule active_ok_allocate_all [OF ok _ assms(4)])
  then have "ar_active (PurgeActiveAllocs m c) = filter (\<lambda>x. m \<le> aa_last_node x) (ar_active c)"
    by (auto simp: PurgeActiveAllocs_def purge_filter active_ok_def not_less intro: filter_cong)
  moreover have "allocate_all qs (PurgeActiveAllocs m b) = Some (ys, PurgeActiveAllocs m c)"
    using allocate_all_purge [OF ok assms(3)] assms(4) by simp
  ultimately show ?thesis by (auto simp: PurgeActiveAllocs_def)
qed

definition small_arena :: SimpleMemoryArena where
  "small_arena = SimpleMemoryArena_new 64"

lemmas arena_eval = small_arena_def SimpleMemoryArena_new_def ResizableAlignedBuffer_new_def ClearPlan_def Allocate_def
  kOffsetNotAssigned_def Let_def insert_alloc_simps intersects_def AlignTo_def size_add_def size_sub_def no_alloc_def

theorem purge_active_no_effect_witness:
  "\<exists>d. allocate_all [(64, 50, 2, 3, 4)] (PurgeActiveAllocs 3 (small_arena
          \<lparr>ar_high_water_mark := 264, ar_active := [\<lparr>aa_offset = 0, aa_size = 100, aa_tensor = 0, aa_first_node = 0, aa_last_node = 2\<rparr>,
             \<lparr>aa_offset = 128, aa_size = 136, aa_tensor = 1, aa_first_node = 1, aa_last_node = 9\<rparr>]\<rparr>))
     = Some ([(kTfLiteOk, \<lparr>aa_offset = 0, aa_size = 50, aa_tensor = 2, aa_first_node = 3, aa_last_node = 4\<rparr>)], d)
     \<and> ar_high_water_mark d = 264 \<and> length (ar_active d) = 2"
proof -
  let ?b = "small_arena\<lparr>ar_high_water_mark := 264, ar_active := [\<lparr>aa_offset = 0, aa_size = 100, aa_tensor = 0, aa_first_node = 0, aa_last_node = 2\<rparr>,
             \<lparr>aa_offset = 128, aa_size = 136, aa_tensor = 1, aa_first_node = 1, aa_last_node = 9\<rparr>]\<rparr>"
  have 1: "allocate_all [(64, 100, 0, 0, 2), (64, 136, 1, 1, 9)] (ClearPlan small_arena)
      = Some ([(kTfLiteOk, \<lparr>aa_offset = 0, aa_size = 100, aa_tensor = 0, aa_first_node = 0, aa_last_node = 2\<rparr>),
               (kTfLiteOk, \<lparr>aa_offset = 128, aa_size = 136, aa_tensor = 1, aa_first_node = 1, aa_last_node = 9\<rparr>)], ?b)"
    by (simp add: arena_eval)
  have 2: "allocate_all [(64, 50, 2, 3, 4)] ?b
      = Some ([(kTfLiteOk, \<lparr>aa_offset = 0, aa_size = 50, aa_tensor = 2, aa_first_node = 3, aa_last_node = 4\<rparr>)],
           ?b\<lparr>ar_active := [\<lparr>aa_offset = 0, aa_size = 100, aa_tensor = 0, aa_first_node = 0, aa_last_node = 2\<rparr>,
             \<lparr>aa_offset = 0, aa_size = 50, aa_tensor = 2, aa_first_node = 3, aa_last_node = 4\<rparr>,
             \<lparr>aa_offset = 128, aa_size = 136, aa_tensor = 1, aa_first_node = 1, aa_last_node = 9\<rparr>]\<rparr>)"
    by (simp add: arena_eval)
  show ?thesis
    using purge_active_no_effect [OF _ 1 _ 2, of 3] by auto
qed

text \<open>Dropping those that start after a node (\<^verbatim>\<open>PurgeAfter\<close>) does change what later requests get.\<close>

lemma purge_after_has_effect:
  "\<exists>a x. allocate_all [(64, 100, 0, 5, 6)] (ClearPlan small_arena) = Some ([(kTfLiteOk, x)], a)
    \<and> map_option (map (aa_offset \<circ> snd) \<circ> fst) (allocate_all [(64, 100, 1, 4, 6)] a) = Some [128]
    \<and> map_option (map (aa_offset \<circ> snd) \<circ> fst) (allocate_all [(64, 100, 1, 4, 6)] (PurgeAfter 3 a)) = Some [0]"
  by (simp add: arena_eval PurgeAfter_def purge_def)

end
