(* ===== verification/PlannerProps.thy ===== *)
theory PlannerProps
  imports ArenaPlanner ArenaProps
begin

text \<open>
  Planning always succeeds on a graph whose indices are in range, and it keeps every buffer from the node that
  first writes it to the last node that reads it, through any tensor that shares it.
\<close>

section \<open>Loops that return a status\<close>

lemma ensure_status_Some: "m = Some (kTfLiteOk, s) \<Longrightarrow> ensure_status m k = k s"
  by (simp add: ensure_status_def)

lemma loop_status_total:
  assumes "\<And>pre i post s. js = pre @ i # post \<Longrightarrow> P pre (i # post) s \<Longrightarrow> \<exists>s'. body i s = Some (kTfLiteOk, s') \<and> P (pre @ [i]) post s'"
    and "P [] js s"
  shows "\<exists>s'. loop_status body js s = Some (kTfLiteOk, s') \<and> P js [] s'"
proof -
  have "\<exists>s'. loop_status body post s = Some (kTfLiteOk, s') \<and> P js [] s'" if "js = pre @ post" "P pre post s" for pre post s
    using that
  proof (induction post arbitrary: pre s)
    case (Cons i post)
    obtain t where t: "body i s = Some (kTfLiteOk, t)" "P (pre @ [i]) post t" using assms(1) [OF Cons.prems] by blast
    show ?case using Cons.IH [of "pre @ [i]" t] Cons.prems(1) t by (simp add: ensure_status_def)
  qed simp
  from this [of "[]" js s] assms(2) show ?thesis by simp
qed

lemma loop_opt_prefix:
  assumes "\<And>pre i post s. js = pre @ i # post \<Longrightarrow> P pre (i # post) s \<Longrightarrow> \<exists>s'. body i s = Some s' \<and> P (pre @ [i]) post s'"
    and "P [] js s"
  shows "\<exists>s'. loop_opt body js s = Some s' \<and> P js [] s'"
proof -
  have "\<exists>s'. loop_opt body post s = Some s' \<and> P js [] s'" if "js = pre @ post" "P pre post s" for pre post s
    using that
  proof (induction post arbitrary: pre s)
    case (Cons i post)
    obtain t where t: "body i s = Some t" "P (pre @ [i]) post t" using assms(1) [OF Cons.prems] by blast
    show ?case using Cons.IH [of "pre @ [i]" t] Cons.prems(1) t by simp
  qed simp
  from this [of "[]" js s] assms(2) show ?thesis by simp
qed

lemma map_update_same: "f y = f (xs ! k) \<Longrightarrow> map f (xs[k := y]) = map f xs"
  by (cases "k < length xs") (simp_all add: map_update list_update_beyond list_update_same_conv)

section \<open>Well-formed graphs\<close>

definition tensor_ok :: "GraphInfo \<Rightarrow> int \<Rightarrow> bool" where
  "tensor_ok g t \<longleftrightarrow> 0 \<le> t \<and> t < int (length (gi_tensors g))"

definition graph_ok :: "GraphInfo \<Rightarrow> bool" where
  "graph_ok g \<longleftrightarrow>
     (\<forall>t \<in> set (gi_inputs g) \<union> set (gi_outputs g). t = kTfLiteOptionalTensor \<or> tensor_ok g t)
     \<and> (\<forall>t \<in> set (gi_variables g). tensor_ok g t)
     \<and> (\<forall>node \<in> set (gi_nodes g). \<forall>t \<in> set (tn_inputs node) \<union> set (tn_outputs node). t = kTfLiteOptionalTensor \<or> tensor_ok g t)
     \<and> (\<forall>node \<in> set (gi_nodes g). tn_inplace_operator node \<noteq> kTfLiteInplaceOpNone \<longrightarrow> tn_outputs node \<noteq> [] \<longrightarrow> tensor_ok g (hd (tn_outputs node)))
     \<and> length (gi_nodes g) < 2 ^ 31 - 1"

lemma tensor_ok_get:
  assumes "tensor_ok g t" "length xs = length (gi_tensors g)"
  shows "array_get xs t = Some (xs ! nat t)" "array_set xs t v = Some (xs[nat t := v])" "array_upd xs t f = Some (xs[nat t := f (xs ! nat t)])"
  using assms by (auto simp: tensor_ok_def array_get_def array_set_def array_upd_def nat_less_iff)

lemma tensor_ok_not_optional: "tensor_ok g t \<Longrightarrow> t \<noteq> kTfLiteOptionalTensor"
  by (simp add: tensor_ok_def kTfLiteOptionalTensor_def)

lemma tensor_ok_nat: "tensor_ok g t \<Longrightarrow> nat t < length (gi_tensors g) \<and> int (nat t) = t"
  by (auto simp: tensor_ok_def nat_less_iff)

lemma graph_ok_node:
  assumes "graph_ok g" "node \<in> set (gi_nodes g)"
  shows "\<forall>t \<in> set (tn_inputs node). t = kTfLiteOptionalTensor \<or> tensor_ok g t"
    "\<forall>t \<in> set (tn_outputs node). t = kTfLiteOptionalTensor \<or> tensor_ok g t"
  using assms by (auto simp: graph_ok_def)

text \<open>The vectors of a planner that has been reset for a graph.\<close>

definition plan_ok :: "GraphInfo \<Rightarrow> ArenaPlanner \<Rightarrow> bool" where
  "plan_ok g p \<longleftrightarrow> length (ap_alloc_node p) = length (gi_tensors g) \<and> length (ap_dealloc_node p) = length (gi_tensors g)
     \<and> length (ap_refcounts p) = length (gi_tensors g) \<and> length (ap_nodes_to_tensors p) = max (length (gi_nodes g)) 1
     \<and> (\<forall>ts \<in> set (ap_nodes_to_tensors p). distinct ts \<and> (\<forall>t \<in> set ts. tensor_ok g t))"

text \<open>What planning does not touch.\<close>

definition memory_frame :: "ArenaPlanner \<Rightarrow> ArenaPlanner \<Rightarrow> bool" where
  "memory_frame p q \<longleftrightarrow> ap_allocs q = ap_allocs p \<and> ap_arena q = ap_arena p \<and> ap_persistent_arena q = ap_persistent_arena p
     \<and> ap_has_nonpersistent_memory q = ap_has_nonpersistent_memory p \<and> ap_preserve_all_tensors q = ap_preserve_all_tensors p
     \<and> ap_tensor_alignment q = ap_tensor_alignment p \<and> ap_last_active_node q = ap_last_active_node p"

definition frame :: "ArenaPlanner \<Rightarrow> ArenaPlanner \<Rightarrow> bool" where
  "frame p q \<longleftrightarrow> memory_frame p q \<and> ap_refcounts q = ap_refcounts p \<and> ap_actual_tensor_id q = ap_actual_tensor_id p"

section \<open>References and inputs\<close>

text \<open>The state before the nodes are planned: the tensors of \<open>S\<close> are referred to, those of \<open>A\<close> allocated at the start.\<close>

definition prepared :: "GraphInfo \<Rightarrow> ArenaPlanner \<Rightarrow> int set \<Rightarrow> int set \<Rightarrow> ArenaPlanner \<Rightarrow> bool" where
  "prepared g p0 S A p \<longleftrightarrow> memory_frame p0 p \<and> plan_ok g p
     \<and> (\<forall>k < length (gi_tensors g). ap_dealloc_node p ! k = kNodeNotAssigned \<and> ap_alloc_node p ! k \<in> {0, kNodeNotAssigned} \<and> 0 \<le> ap_refcounts p ! k)
     \<and> (\<forall>t \<in> S. t \<noteq> kTfLiteOptionalTensor \<longrightarrow> 1 \<le> ap_refcounts p ! nat t)
     \<and> (\<forall>t \<in> A. t \<noteq> kTfLiteOptionalTensor \<longrightarrow> ap_alloc_node p ! nat t = 0 \<and> t \<in> set (ap_nodes_to_tensors p ! 0))"

lemma set_insert_set [simp]: "set (set_insert t ts) = insert t (set ts)"
  by (auto simp: set_insert_def)

lemma set_insert_distinct [simp]: "distinct (set_insert t ts) \<longleftrightarrow> distinct ts"
  by (auto simp: set_insert_def)

lemma queue_tensor_ok:
  assumes "plan_ok g p" "tensor_ok g t" "0 \<le> i" "nat i < max (length (gi_nodes g)) 1"
  shows "queue_tensor i t p = Some (p\<lparr>ap_nodes_to_tensors := (ap_nodes_to_tensors p)[nat i := set_insert t (ap_nodes_to_tensors p ! nat i)]\<rparr>)"
    "plan_ok g (p\<lparr>ap_nodes_to_tensors := (ap_nodes_to_tensors p)[nat i := set_insert t (ap_nodes_to_tensors p ! nat i)]\<rparr>)"
proof -
  have i: "nat i < length (ap_nodes_to_tensors p)" using assms by (simp add: plan_ok_def)
  have "distinct (ap_nodes_to_tensors p ! nat i) \<and> (\<forall>x \<in> set (ap_nodes_to_tensors p ! nat i). tensor_ok g x)" using nth_mem [OF i] assms(1) by (simp add: plan_ok_def)
  then show "plan_ok g (p\<lparr>ap_nodes_to_tensors := (ap_nodes_to_tensors p)[nat i := set_insert t (ap_nodes_to_tensors p ! nat i)]\<rparr>)"
    using assms(1,2) by (auto simp: plan_ok_def dest!: set_update_subset_insert [THEN subsetD])
  show "queue_tensor i t p = Some (p\<lparr>ap_nodes_to_tensors := (ap_nodes_to_tensors p)[nat i := set_insert t (ap_nodes_to_tensors p ! nat i)]\<rparr>)"
    using i assms(3) by (simp add: queue_tensor_def array_upd_def array_get_def array_set_def)
qed

lemma planner_allocate_ok:
  assumes "plan_ok g p" "tensor_ok g t" "ap_dealloc_node p ! nat t = kNodeNotAssigned \<or> ap_alloc_node p ! nat t \<noteq> kNodeNotAssigned"
  shows "planner_allocate i t p = Some (kTfLiteOk,
    p\<lparr>ap_alloc_node := (ap_alloc_node p)[nat t := if ap_alloc_node p ! nat t = kNodeNotAssigned then i else ap_alloc_node p ! nat t]\<rparr>)"
  using assms by (auto simp: planner_allocate_def plan_ok_def tensor_ok_get)

lemma count_reference_ok:
  assumes "prepared g p0 S A p" "tensor_ok g t"
  shows "\<exists>q. count_reference t p = Some q \<and> prepared g p0 (insert t S) A q \<and> ap_alloc_node q = ap_alloc_node p"
proof -
  let ?q = "p\<lparr>ap_refcounts := (ap_refcounts p)[nat t := ap_refcounts p ! nat t + 1]\<rparr>"
  have "count_reference t p = Some ?q" using assms by (simp add: count_reference_def prepared_def plan_ok_def tensor_ok_get)
  moreover have "prepared g p0 (insert t S) A ?q"
    using assms tensor_ok_nat [OF assms(2)] by (auto simp: prepared_def plan_ok_def memory_frame_def nth_list_update)
  ultimately show ?thesis by simp
qed

lemma count_used_ok:
  assumes "prepared g p0 S A p" "t = kTfLiteOptionalTensor \<or> tensor_ok g t"
  shows "\<exists>q. count_used t p = Some q \<and> prepared g p0 (insert t S) A q"
proof (cases "t = kTfLiteOptionalTensor")
  case True
  then show ?thesis using assms(1) by (auto simp: count_used_def prepared_def)
next
  case False
  then show ?thesis using count_reference_ok [of g p0 S A p t] assms by (auto simp: count_used_def)
qed

lemma queue_start_ok:
  assumes "prepared g p0 S A p" "tensor_ok g t"
  shows "\<exists>q. ensure_status (planner_allocate 0 t p) (\<lambda>p2. status_ok (queue_tensor 0 t p2)) = Some (kTfLiteOk, q) \<and> prepared g p0 S (insert t A) q"
proof -
  let ?a = "p\<lparr>ap_alloc_node := (ap_alloc_node p)[nat t := 0]\<rparr>"
  let ?q = "?a\<lparr>ap_nodes_to_tensors := (ap_nodes_to_tensors p)[0 := set_insert t (ap_nodes_to_tensors p ! 0)]\<rparr>"
  have t: "nat t < length (gi_tensors g)" using tensor_ok_nat [OF assms(2)] ..
  have "ap_alloc_node p ! nat t \<in> {0, kNodeNotAssigned}" and dealloc: "ap_dealloc_node p ! nat t = kNodeNotAssigned" and lengths: "plan_ok g p"
    using assms(1) t by (auto simp: prepared_def)
  then have "(if ap_alloc_node p ! nat t = kNodeNotAssigned then 0 else ap_alloc_node p ! nat t) = 0" by auto
  then have 1: "planner_allocate 0 t p = Some (kTfLiteOk, ?a)"
    using planner_allocate_ok [OF lengths assms(2), of 0] dealloc by (simp only: simp_thms)
  have "plan_ok g ?a" using lengths by (simp add: plan_ok_def)
  from queue_tensor_ok [OF this assms(2), of 0]
  have 2: "queue_tensor 0 t ?a = Some ?q" "plan_ok g ?q" by simp_all
  have "prepared g p0 S (insert t A) ?q"
    using assms(1) 2(2) t by (auto simp: prepared_def memory_frame_def nth_list_update plan_ok_def)
  then show ?thesis by (simp add: 1 2(1) ensure_status_def status_ok_def)
qed

lemma plan_variable_ok:
  assumes "prepared g p0 S A p" "tensor_ok g t"
  shows "\<exists>q. plan_variable t p = Some (kTfLiteOk, q) \<and> prepared g p0 (insert t S) (insert t A) q"
proof -
  obtain q where q: "count_reference t p = Some q" "prepared g p0 (insert t S) A q" using count_reference_ok [OF assms] by blast
  show ?thesis using queue_start_ok [OF q(2) assms(2)] by (simp add: plan_variable_def q(1) tensor_ok_not_optional [OF assms(2)])
qed

lemma plan_input_ok:
  assumes "prepared g p0 S A p" "t = kTfLiteOptionalTensor \<or> tensor_ok g t"
  shows "\<exists>q. plan_input t p = Some (kTfLiteOk, q) \<and> prepared g p0 (insert t S) (insert t A) q"
proof (cases "t = kTfLiteOptionalTensor")
  case True
  then show ?thesis using assms(1) by (auto simp: plan_input_def prepared_def)
next
  case False
  with assms(2) have t: "tensor_ok g t" by simp
  obtain q where q: "count_reference t p = Some q" "prepared g p0 (insert t S) A q" using count_reference_ok [OF assms(1) t] by blast
  show ?thesis using queue_start_ok [OF q(2) t] by (simp add: plan_input_def q(1) False)
qed

lemma plan_reset_prepared: "prepared g (ResetAllocations g p) {} {} (plan_reset g p)"
  by (auto simp: prepared_def plan_reset_def memory_frame_def plan_ok_def)

text \<open>The three loops before the nodes.\<close>

lemma count_outputs_ok:
  assumes "prepared g p0 S A p" "\<forall>t \<in> set ts. t = kTfLiteOptionalTensor \<or> tensor_ok g t"
  shows "\<exists>q. loop_opt count_used ts p = Some q \<and> prepared g p0 (S \<union> set ts) A q"
  using loop_opt_prefix [of ts "\<lambda>pre post. prepared g p0 (S \<union> set pre) A" count_used p] assms count_used_ok by (simp add: Un_commute)

lemma plan_variables_ok:
  assumes "prepared g p0 S A p" "\<forall>t \<in> set ts. tensor_ok g t"
  shows "\<exists>q. loop_status plan_variable ts p = Some (kTfLiteOk, q) \<and> prepared g p0 (S \<union> set ts) (A \<union> set ts) q"
  using loop_status_total [of ts "\<lambda>pre post. prepared g p0 (S \<union> set pre) (A \<union> set pre)" plan_variable p] assms plan_variable_ok
  by (simp add: Un_commute)

lemma plan_inputs_ok:
  assumes "prepared g p0 S A p" "\<forall>t \<in> set ts. t = kTfLiteOptionalTensor \<or> tensor_ok g t"
  shows "\<exists>q. loop_status plan_input ts p = Some (kTfLiteOk, q) \<and> prepared g p0 (S \<union> set ts) (A \<union> set ts) q"
  using loop_status_total [of ts "\<lambda>pre post. prepared g p0 (S \<union> set pre) (A \<union> set pre)" plan_input p] assms plan_input_ok
  by (simp add: Un_commute)

section \<open>Sharing\<close>

definition roots_ok :: "GraphInfo \<Rightarrow> ArenaPlanner \<Rightarrow> bool" where
  "roots_ok g p \<longleftrightarrow> (\<forall>t s. ap_actual_tensor_id p t = Some s \<longrightarrow> tensor_ok g t \<and> tensor_ok g s)"

lemma FindSharedTensor_ok: "roots_ok g p \<Longrightarrow> tensor_ok g t \<Longrightarrow> tensor_ok g (FindSharedTensor p t)"
  by (auto simp: roots_ok_def FindSharedTensor_def split: option.splits)

lemma InputTensorCanBeShared_ok:
  assumes "length (ap_refcounts p) = length (gi_tensors g)" "tensor_ok g t"
  shows "\<exists>b. InputTensorCanBeShared p g x y t u c = Some b"
  using assms by (auto simp: InputTensorCanBeShared_def Let_def tensor_ok_get)

lemma shareable_input_ok:
  assumes "length (ap_refcounts p) = length (gi_tensors g)" "\<forall>t \<in> set ts. t = kTfLiteOptionalTensor \<or> tensor_ok g t"
  shows "\<exists>x. shareable_input p g node y u c i ts = Some x \<and> (x = - 1 \<or> tensor_ok g x)"
  using assms(2)
proof (induction ts arbitrary: i)
  case (Cons t ts)
  then have IH: "\<exists>x. shareable_input p g node y u c (Suc i) ts = Some x \<and> (x = - 1 \<or> tensor_ok g x)" by simp
  show ?case
  proof (cases "t = kTfLiteOptionalTensor \<or> tn_inplace_operator node AND push_bit i kTfLiteInplaceOpInput0Shared = 0")
    case False
    then have t: "tensor_ok g t" using Cons.prems by auto
    then obtain b where "InputTensorCanBeShared p g (gi_tensors g ! nat t) y t u c = Some b"
      using InputTensorCanBeShared_ok [OF assms(1)] by blast
    then show ?thesis using False IH t by (simp add: tensor_ok_get)
  qed (use IH in simp)
qed simp

lemma identify_in_place_ok:
  assumes "graph_ok g" "node \<in> set (gi_nodes g)" "prepared g p0 S A p" "roots_ok g p"
  shows "\<exists>q. identify_in_place g node p = Some q \<and> prepared g p0 S A q \<and> roots_ok g q"
proof (cases "tn_outputs node = [] \<or> tn_inplace_operator node = kTfLiteInplaceOpNone")
  case True
  then show ?thesis using assms(3,4) by (auto simp: identify_in_place_def split: list.splits)
next
  case False
  then obtain u us where u: "tn_outputs node = u # us" by (cases "tn_outputs node") auto
  have uok: "tensor_ok g u" using assms(1,2) False u by (force simp: graph_ok_def)
  have lengths: "length (ap_refcounts p) = length (gi_tensors g)" using assms(3) by (simp add: prepared_def plan_ok_def)
  have ins: "\<forall>t \<in> set (take kTfLiteMaxSharableOpInputs (tn_inputs node)). t = kTfLiteOptionalTensor \<or> tensor_ok g t"
    using graph_ok_node(1) [OF assms(1,2)] by (meson in_set_takeD)
  let ?c = "tn_inplace_operator node AND kTfLiteInplaceOpDataUnmodified = 0"
  obtain x where x: "shareable_input p g node (gi_tensors g ! nat u) u ?c 0 (take kTfLiteMaxSharableOpInputs (tn_inputs node)) = Some x"
      "x = - 1 \<or> tensor_ok g x"
    using shareable_input_ok [OF lengths ins] by blast
  show ?thesis
  proof (cases "x = - 1")
    case True
    then show ?thesis using False x assms(3,4) by (simp add: identify_in_place_def u tensor_ok_get [OF uok])
  next
    case ne: False
    with x(2) have xok: "tensor_ok g (FindSharedTensor p x)" by (simp add: FindSharedTensor_ok [OF assms(4)])
    let ?q = "p\<lparr>ap_actual_tensor_id := (ap_actual_tensor_id p)(u \<mapsto> FindSharedTensor p x)\<rparr>"
    have "prepared g p0 S A ?q" using assms(3) by (simp add: prepared_def plan_ok_def memory_frame_def)
    moreover have "roots_ok g ?q" using assms(4) uok xok by (simp add: roots_ok_def)
    ultimately show ?thesis
      using False x ne assms(3,4) by (simp add: identify_in_place_def u tensor_ok_get [OF uok] tensor_ok_get [OF xok] lengths Let_def)
  qed
qed

lemma IdentifyInPlaceTensors_ok:
  assumes "graph_ok g" "prepared g p0 S A p"
  shows "\<exists>q. IdentifyInPlaceTensors g p = Some q \<and> prepared g p0 S A q \<and> roots_ok g q"
proof -
  have "prepared g p0 S A (p\<lparr>ap_actual_tensor_id := Map.empty\<rparr>)" using assms(2) by (simp add: prepared_def plan_ok_def memory_frame_def)
  moreover have "roots_ok g (p\<lparr>ap_actual_tensor_id := Map.empty\<rparr>)" by (simp add: roots_ok_def)
  ultimately show ?thesis
    using loop_opt_prefix [of "gi_nodes g" "\<lambda>pre post q. prepared g p0 S A q \<and> roots_ok g q" "identify_in_place g"] identify_in_place_ok [OF assms(1)]
    by (simp add: IdentifyInPlaceTensors_def)
qed

text \<open>The tensors whose buffers a list of inputs reads.\<close>

definition roots :: "ArenaPlanner \<Rightarrow> int list \<Rightarrow> int list" where
  "roots p ts = map (FindSharedTensor p) (filter (\<lambda>t. t \<noteq> kTfLiteOptionalTensor) ts)"

lemma count_shared_ok:
  assumes "roots_ok g p" "length rs = length (gi_tensors g)" "\<forall>t \<in> set ts. t = kTfLiteOptionalTensor \<or> tensor_ok g t"
  shows "\<exists>rs'. loop_opt (count_shared p) ts rs = Some rs' \<and> length rs' = length (gi_tensors g)
    \<and> (\<forall>k < length (gi_tensors g). rs' ! k = rs ! k + int (count_list (roots p ts) (int k)))"
  using assms(2,3)
proof (induction ts arbitrary: rs)
  case (Cons t ts)
  show ?case
  proof (cases "t = kTfLiteOptionalTensor")
    case True
    then show ?thesis using Cons.IH [of rs] Cons.prems by (simp add: count_shared_def roots_def)
  next
    case False
    let ?r = "FindSharedTensor p t" and ?n = "length (gi_tensors g)"
    have r: "tensor_ok g ?r" using False Cons.prems(2) by (intro FindSharedTensor_ok [OF assms(1)]) simp
    let ?rs = "rs[nat ?r := rs ! nat ?r + 1]"
    obtain rs' where rs': "loop_opt (count_shared p) ts ?rs = Some rs'" "length rs' = ?n"
        "\<forall>k < ?n. rs' ! k = ?rs ! k + int (count_list (roots p ts) (int k))"
      using Cons.IH [of ?rs] Cons.prems by auto
    have "\<forall>k < ?n. rs' ! k = rs ! k + int (count_list (roots p (t # ts)) (int k))"
      using rs'(3) Cons.prems(1) r False by (auto simp: nth_list_update roots_def tensor_ok_def)
    moreover have "count_shared p t rs = Some ?rs" using False Cons.prems(1) r by (simp add: count_shared_def tensor_ok_get)
    ultimately show ?thesis using rs'(1,2) by simp
  qed
qed (simp add: roots_def)

end
