(* ===== verification/PlannerLives.thy ===== *)
theory PlannerLives
  imports PlannerProps
begin

text \<open>
  The loop over the nodes: the references still to come are counted exactly, so a buffer is given up at the node
  of its last use and no other.
\<close>

section \<open>The invariant of the loop\<close>

text \<open>
  At node \<open>i\<close>, after the uses \<open>past\<close> (node and root) and before the uses \<open>rest\<close> (roots): \<open>outs\<close> are the outputs
  queued, \<open>starts\<close> the tensors allocated at the start, \<open>pre\<close> the references that are never given up.
\<close>

definition lives ::
  "GraphInfo \<Rightarrow> ArenaPlanner \<Rightarrow> int list \<Rightarrow> int set \<Rightarrow> int \<Rightarrow> (int \<times> int) list \<Rightarrow> int list \<Rightarrow> (int \<times> int) list
    \<Rightarrow> ArenaPlanner \<times> int list \<Rightarrow> bool" where
  "lives g p0 pre starts i past rest outs = (\<lambda>(p, rc).
     frame p0 p \<and> plan_ok g p \<and> length rc = length (gi_tensors g)
     \<and> (\<forall>k < length (gi_tensors g).
          (ap_alloc_node p ! k = kNodeNotAssigned \<or> 0 \<le> ap_alloc_node p ! k \<and> ap_alloc_node p ! k \<le> i)
          \<and> rc ! k = pre ! k + int (count_list rest (int k))
          \<and> (ap_dealloc_node p ! k \<noteq> kNodeNotAssigned \<longrightarrow>
               (ap_dealloc_node p ! k, int k) \<in> set past \<and> int k \<notin> set rest \<and> pre ! k = 0 \<and> ap_alloc_node p ! k \<noteq> kNodeNotAssigned))
     \<and> (\<forall>(j, r) \<in> set past. j \<le> i \<and> j \<le> ap_dealloc_node p ! nat r)
     \<and> (\<forall>(j, t) \<in> set outs. 0 \<le> ap_alloc_node p ! nat t \<and> ap_alloc_node p ! nat t \<le> j \<and> t \<in> set (ap_nodes_to_tensors p ! nat j))
     \<and> (\<forall>t \<in> starts. ap_alloc_node p ! nat t = 0 \<and> t \<in> set (ap_nodes_to_tensors p ! 0)))"

lemma livesI:
  assumes "frame p0 p" "plan_ok g p" "length rc = length (gi_tensors g)"
    and "\<And>k. k < length (gi_tensors g) \<Longrightarrow> ap_alloc_node p ! k = kNodeNotAssigned \<or> 0 \<le> ap_alloc_node p ! k \<and> ap_alloc_node p ! k \<le> i"
    and "\<And>k. k < length (gi_tensors g) \<Longrightarrow> rc ! k = pre ! k + int (count_list rest (int k))"
    and "\<And>k. k < length (gi_tensors g) \<Longrightarrow> ap_dealloc_node p ! k \<noteq> kNodeNotAssigned \<Longrightarrow>
               (ap_dealloc_node p ! k, int k) \<in> set past \<and> int k \<notin> set rest \<and> pre ! k = 0 \<and> ap_alloc_node p ! k \<noteq> kNodeNotAssigned"
    and "\<And>j r. (j, r) \<in> set past \<Longrightarrow> j \<le> i \<and> j \<le> ap_dealloc_node p ! nat r"
    and "\<And>j t. (j, t) \<in> set outs \<Longrightarrow> 0 \<le> ap_alloc_node p ! nat t \<and> ap_alloc_node p ! nat t \<le> j \<and> t \<in> set (ap_nodes_to_tensors p ! nat j)"
    and "\<And>t. t \<in> starts \<Longrightarrow> ap_alloc_node p ! nat t = 0 \<and> t \<in> set (ap_nodes_to_tensors p ! 0)"
  shows "lives g p0 pre starts i past rest outs (p, rc)"
  using assms unfolding lives_def by auto

lemma livesD:
  assumes "lives g p0 pre starts i past rest outs (p, rc)"
  shows "frame p0 p" "plan_ok g p" "length rc = length (gi_tensors g)"
    and "\<And>k. k < length (gi_tensors g) \<Longrightarrow> ap_alloc_node p ! k = kNodeNotAssigned \<or> 0 \<le> ap_alloc_node p ! k \<and> ap_alloc_node p ! k \<le> i"
    and "\<And>k. k < length (gi_tensors g) \<Longrightarrow> rc ! k = pre ! k + int (count_list rest (int k))"
    and "\<And>k. k < length (gi_tensors g) \<Longrightarrow> ap_dealloc_node p ! k \<noteq> kNodeNotAssigned \<Longrightarrow>
               (ap_dealloc_node p ! k, int k) \<in> set past \<and> int k \<notin> set rest \<and> pre ! k = 0 \<and> ap_alloc_node p ! k \<noteq> kNodeNotAssigned"
    and "\<And>j r. (j, r) \<in> set past \<Longrightarrow> j \<le> i \<and> j \<le> ap_dealloc_node p ! nat r"
    and "\<And>j t. (j, t) \<in> set outs \<Longrightarrow> 0 \<le> ap_alloc_node p ! nat t \<and> ap_alloc_node p ! nat t \<le> j \<and> t \<in> set (ap_nodes_to_tensors p ! nat j)"
    and "\<And>t. t \<in> starts \<Longrightarrow> ap_alloc_node p ! nat t = 0 \<and> t \<in> set (ap_nodes_to_tensors p ! 0)"
  using assms unfolding lives_def by auto

lemma lives_later:
  assumes "lives g p0 pre starts i past rest outs s" "i \<le> j"
  shows "lives g p0 pre starts j past rest outs s"
proof -
  obtain p rc where s: "s = (p, rc)" by (cases s)
  note d = livesD [OF assms(1) [unfolded s]]
  show ?thesis unfolding s
  proof (rule livesI)
    show "ap_alloc_node p ! k = kNodeNotAssigned \<or> 0 \<le> ap_alloc_node p ! k \<and> ap_alloc_node p ! k \<le> j" if "k < length (gi_tensors g)" for k
      using d(4) [OF that] assms(2) by auto
    show "l \<le> j \<and> l \<le> ap_dealloc_node p ! nat r" if "(l, r) \<in> set past" for l r using d(7) [OF that] assms(2) by auto
  qed (use d(1-3,5,6,8,9) in auto)
qed

section \<open>One output\<close>

lemma plan_output_ok:
  assumes l: "lives g p0 pre starts i past rest outs (p, rc)" and t: "t = kTfLiteOptionalTensor \<or> tensor_ok g t"
    and i: "0 \<le> i" "nat i < length (gi_nodes g)" "i < kNodeNotAssigned"
  shows "\<exists>q. plan_output i t p = Some (kTfLiteOk, q)
    \<and> lives g p0 pre starts i past rest (outs @ (if t = kTfLiteOptionalTensor then [] else [(i, t)])) (q, rc)"
proof (cases "t = kTfLiteOptionalTensor")
  case True
  then show ?thesis using l by (simp add: plan_output_def)
next
  case False
  with t have tok: "tensor_ok g t" by simp
  note d = livesD [OF l]
  have n: "nat t < length (gi_tensors g)" "int (nat t) = t" using tensor_ok_nat [OF tok] by auto
  define a where "a = (if ap_alloc_node p ! nat t = kNodeNotAssigned then i else ap_alloc_node p ! nat t)"
  have a: "0 \<le> a" "a \<le> i" "a \<noteq> kNodeNotAssigned" using d(4) [OF n(1)] i by (auto simp: a_def)
  let ?p = "p\<lparr>ap_nodes_to_tensors := (ap_nodes_to_tensors p)[nat i := set_insert t (ap_nodes_to_tensors p ! nat i)]\<rparr>"
  let ?q = "?p\<lparr>ap_alloc_node := (ap_alloc_node p)[nat t := a]\<rparr>"
  have q: "queue_tensor i t p = Some ?p" "plan_ok g ?p" using queue_tensor_ok [OF d(2) tok i(1)] i(2) by simp_all
  have "ap_dealloc_node ?p ! nat t = kNodeNotAssigned \<or> ap_alloc_node ?p ! nat t \<noteq> kNodeNotAssigned" using d(6) [OF n(1)] by auto
  from planner_allocate_ok [OF q(2) tok this, of i]
  have "planner_allocate i t ?p = Some (kTfLiteOk, ?q)" by (simp add: a_def cong: if_cong)
  then have run: "plan_output i t p = Some (kTfLiteOk, ?q)" using False q(1) by (simp add: plan_output_def)
  have lengths: "length (ap_alloc_node p) = length (gi_tensors g)" "length (ap_nodes_to_tensors p) = max (length (gi_nodes g)) 1"
    using d(2) by (simp_all add: plan_ok_def)
  have keep: "ap_alloc_node p ! k \<noteq> kNodeNotAssigned \<Longrightarrow> ap_alloc_node ?q ! k = ap_alloc_node p ! k" for k
    using n(1) lengths(1) by (cases "k = nat t") (auto simp: a_def)
  have queued: "u \<in> set (ap_nodes_to_tensors p ! k) \<Longrightarrow> u \<in> set (ap_nodes_to_tensors ?q ! k)" for k u
    by (cases "k = nat i"; cases "nat i < length (ap_nodes_to_tensors p)") (auto simp: list_update_beyond)
  have small: "ap_alloc_node p ! nat u \<noteq> kNodeNotAssigned" if "(j, u) \<in> set outs" "j \<le> i" for j u
    using d(8) [OF that(1)] that(2) i(3) by auto
  have "lives g p0 pre starts i past rest (outs @ [(i, t)]) (?q, rc)"
  proof (rule livesI)
    show "frame p0 ?q" using d(1) by (simp add: frame_def memory_frame_def)
    show "plan_ok g ?q" using q(2) by (simp add: plan_ok_def)
    show "ap_alloc_node ?q ! k = kNodeNotAssigned \<or> 0 \<le> ap_alloc_node ?q ! k \<and> ap_alloc_node ?q ! k \<le> i" if "k < length (gi_tensors g)" for k
      using d(4) [OF that] a lengths(1) that by (cases "k = nat t") auto
    show "(ap_dealloc_node ?q ! k, int k) \<in> set past \<and> int k \<notin> set rest \<and> pre ! k = 0 \<and> ap_alloc_node ?q ! k \<noteq> kNodeNotAssigned"
      if "k < length (gi_tensors g)" "ap_dealloc_node ?q ! k \<noteq> kNodeNotAssigned" for k
      using d(6) [of k] that keep [of k] by simp
    show "0 \<le> ap_alloc_node ?q ! nat u \<and> ap_alloc_node ?q ! nat u \<le> j \<and> u \<in> set (ap_nodes_to_tensors ?q ! nat j)"
      if "(j, u) \<in> set (outs @ [(i, t)])" for j u
    proof (cases "(j, u) = (i, t)")
      case True
      then show ?thesis using a n lengths i by (auto simp: max_def)
    next
      case other: False
      then have old: "(j, u) \<in> set outs" using that by auto
      show ?thesis
      proof (cases "ap_alloc_node p ! nat u = kNodeNotAssigned \<and> nat u = nat t")
        case True
        with d(8) [OF old] show ?thesis using a i(3) n(1) lengths(1) queued by (auto simp: a_def)
      next
        case False
        then have "ap_alloc_node ?q ! nat u = ap_alloc_node p ! nat u" using n(1) lengths(1) by (cases "nat u = nat t") (auto simp: a_def)
        then show ?thesis using d(8) [OF old] queued by simp
      qed
    qed
    show "ap_alloc_node ?q ! nat u = 0 \<and> u \<in> set (ap_nodes_to_tensors ?q ! 0)" if "u \<in> starts" for u
      using d(9) [OF that] keep [of "nat u"] queued by (auto simp: kNodeNotAssigned_def)
  qed (use d in auto)
  with run False show ?thesis by simp
qed

section \<open>One use\<close>

lemma plan_use_ok:
  assumes l: "lives g p0 pre starts i past (roots p0 [t] @ rest) outs (p, rc)" and t: "t = kTfLiteOptionalTensor \<or> tensor_ok g t"
    and i: "0 \<le> i" "i < kNodeNotAssigned" and r: "roots_ok g p0" and pre: "\<forall>k < length (gi_tensors g). 0 \<le> pre ! k"
  shows "\<exists>s. plan_use i t (p, rc) = Some (kTfLiteOk, s) \<and> lives g p0 pre starts i (past @ map (Pair i) (roots p0 [t])) rest outs s"
proof (cases "t = kTfLiteOptionalTensor")
  case True
  then show ?thesis using l by (simp add: plan_use_def roots_def)
next
  case False
  let ?r = "FindSharedTensor p0 t" and ?n = "length (gi_tensors g)"
  have rok: "tensor_ok g ?r" using FindSharedTensor_ok [OF r] False t by simp
  have n: "nat ?r < ?n" "int (nat ?r) = ?r" using tensor_ok_nat [OF rok] by auto
  have roots: "roots p0 [t] = [?r]" using False by (simp add: roots_def)
  note d = livesD [OF l [unfolded roots]]
  have same: "FindSharedTensor p t = ?r" using d(1) by (simp add: frame_def FindSharedTensor_def)
  define rc' where "rc' = rc[nat ?r := rc ! nat ?r - 1]"
  have rc': "\<And>k. k < ?n \<Longrightarrow> rc' ! k = pre ! k + int (count_list rest (int k))"
    using d(3,5) n by (auto simp: rc'_def nth_list_update)
  have len: "length rc' = ?n" "length (ap_dealloc_node p) = ?n" using d(2,3) by (simp_all add: rc'_def plan_ok_def)
  have alive: "ap_dealloc_node p ! nat ?r = kNodeNotAssigned" using d(6) [OF n(1)] n(2) by auto
  show ?thesis
  proof (cases "rc' ! nat ?r = 0 \<and> ap_alloc_node p ! nat ?r \<noteq> kNodeNotAssigned")
    case True
    let ?q = "p\<lparr>ap_dealloc_node := (ap_dealloc_node p)[nat ?r := i]\<rparr>"
    have last: "?r \<notin> set rest" "pre ! nat ?r = 0"
      using True rc' [OF n(1)] pre n by (auto simp: count_list_0_iff [symmetric] simp del: count_list_0_iff)
    have "planner_deallocate i ?r p = Some (kTfLiteOk, ?q)"
      using True alive d(2) rok by (simp add: planner_deallocate_def plan_ok_def tensor_ok_get)
    then have "plan_use i t (p, rc) = Some (kTfLiteOk, ?q, rc')"
      using False True d(3) rok len by (simp add: plan_use_def same tensor_ok_get Let_def flip: rc'_def)
    moreover have "lives g p0 pre starts i (past @ [(i, ?r)]) rest outs (?q, rc')"
    proof (rule livesI)
      show "frame p0 ?q" using d(1) by (simp add: frame_def memory_frame_def)
      show "plan_ok g ?q" using d(2) by (simp add: plan_ok_def)
      show "(ap_dealloc_node ?q ! k, int k) \<in> set (past @ [(i, ?r)]) \<and> int k \<notin> set rest \<and> pre ! k = 0 \<and> ap_alloc_node ?q ! k \<noteq> kNodeNotAssigned"
        if "k < ?n" "ap_dealloc_node ?q ! k \<noteq> kNodeNotAssigned" for k
        using d(6) [OF that(1)] that(2) last True n(2) len(2) n(1) by (cases "k = nat ?r") auto
      show "j \<le> i \<and> j \<le> ap_dealloc_node ?q ! nat u" if "(j, u) \<in> set (past @ [(i, ?r)])" for j u
        using d(7) [of j u] that len(2) n(1) by (cases "nat u = nat ?r") auto
    qed (use d rc' len in auto)
    ultimately show ?thesis by (simp add: roots)
  next
    case idle: False
    have "plan_use i t (p, rc) = Some (kTfLiteOk, p, rc')"
      using False idle d(2,3) rok len by (auto simp: plan_use_def same tensor_ok_get planner_deallocate_def plan_ok_def Let_def simp flip: rc'_def)
    moreover have "lives g p0 pre starts i (past @ [(i, ?r)]) rest outs (p, rc')"
    proof (rule livesI)
      show "j \<le> i \<and> j \<le> ap_dealloc_node p ! nat u" if "(j, u) \<in> set (past @ [(i, ?r)])" for j u
        using d(7) [of j u] that alive i(2) by auto
      show "(ap_dealloc_node p ! k, int k) \<in> set (past @ [(i, ?r)]) \<and> int k \<notin> set rest \<and> pre ! k = 0 \<and> ap_alloc_node p ! k \<noteq> kNodeNotAssigned"
        if "k < ?n" "ap_dealloc_node p ! k \<noteq> kNodeNotAssigned" for k
        using d(6) [OF that] by auto
    qed (use d rc' len in auto)
    ultimately show ?thesis by (simp add: roots)
  qed
qed

section \<open>All nodes\<close>

definition uses_of :: "ArenaPlanner \<Rightarrow> (int \<times> TfLiteNode) list \<Rightarrow> (int \<times> int) list" where
  "uses_of p ns = concat (map (\<lambda>(i, node). map (Pair i) (roots p (tn_inputs node))) ns)"

definition outputs_of :: "(int \<times> TfLiteNode) list \<Rightarrow> (int \<times> int) list" where
  "outputs_of ns = concat (map (\<lambda>(i, node). map (Pair i) (filter (\<lambda>t. t \<noteq> kTfLiteOptionalTensor) (tn_outputs node))) ns)"

lemma plan_outputs_ok:
  assumes l: "lives g p0 pre starts i past rest outs (p, rc)" and t: "\<forall>t \<in> set ts. t = kTfLiteOptionalTensor \<or> tensor_ok g t"
    and i: "0 \<le> i" "nat i < length (gi_nodes g)" "i < kNodeNotAssigned"
  shows "\<exists>q. loop_status (plan_output i) ts p = Some (kTfLiteOk, q)
    \<and> lives g p0 pre starts i past rest (outs @ map (Pair i) (filter (\<lambda>t. t \<noteq> kTfLiteOptionalTensor) ts)) (q, rc)"
proof -
  let ?P = "\<lambda>ds post q. lives g p0 pre starts i past rest (outs @ map (Pair i) (filter (\<lambda>t. t \<noteq> kTfLiteOptionalTensor) ds)) (q, rc)"
  have "\<exists>q. loop_status (plan_output i) ts p = Some (kTfLiteOk, q) \<and> ?P ts [] q"
  proof (rule loop_status_total)
    show "\<exists>s'. plan_output i u s = Some (kTfLiteOk, s') \<and> ?P (ds @ [u]) post s'" if "ts = ds @ u # post" "?P ds (u # post) s" for ds u post s
      using plan_output_ok [OF that(2) _ i, of u] t that(1) by (auto split: if_splits)
  qed (use l in simp)
  then show ?thesis .
qed

lemma plan_uses_ok:
  assumes l: "lives g p0 pre starts i past (roots p0 ts @ rest) outs s" and t: "\<forall>t \<in> set ts. t = kTfLiteOptionalTensor \<or> tensor_ok g t"
    and i: "0 \<le> i" "i < kNodeNotAssigned" and r: "roots_ok g p0" and pre: "\<forall>k < length (gi_tensors g). 0 \<le> pre ! k"
  shows "\<exists>s'. loop_status (plan_use i) ts s = Some (kTfLiteOk, s') \<and> lives g p0 pre starts i (past @ map (Pair i) (roots p0 ts)) rest outs s'"
proof -
  let ?P = "\<lambda>ds post. lives g p0 pre starts i (past @ map (Pair i) (roots p0 ds)) (roots p0 post @ rest) outs"
  have split: "roots p0 (xs @ ys) = roots p0 xs @ roots p0 ys" for xs ys by (simp add: roots_def)
  have "\<exists>s'. loop_status (plan_use i) ts s = Some (kTfLiteOk, s') \<and> ?P ts [] s'"
  proof (rule loop_status_total)
    show "\<exists>s'. plan_use i u s = Some (kTfLiteOk, s') \<and> ?P (ds @ [u]) post s'" if "ts = ds @ u # post" "?P ds (u # post) s" for ds u post s
    proof -
      obtain p rc where s: "s = (p, rc)" by (cases s)
      have "lives g p0 pre starts i (past @ map (Pair i) (roots p0 ds)) (roots p0 [u] @ roots p0 post @ rest) outs (p, rc)"
        using that(2) split [of "[u]" post] by (simp add: s)
      from plan_use_ok [OF this _ i r pre] t that(1) show ?thesis by (simp add: s split)
    qed
  qed (use l in \<open>simp add: roots_def\<close>)
  then show ?thesis by (simp add: roots_def)
qed

text \<open>When every tensor is to be preserved, no use is counted.\<close>

definition node_lives :: "GraphInfo \<Rightarrow> ArenaPlanner \<Rightarrow> int list \<Rightarrow> int set \<Rightarrow> (int \<times> TfLiteNode) list \<Rightarrow> (int \<times> TfLiteNode) list
    \<Rightarrow> ArenaPlanner \<times> int list \<Rightarrow> bool" where
  "node_lives g p0 pre starts before after =
     (if ap_preserve_all_tensors p0
      then lives g p0 pre starts (int (length before)) [] (map snd (uses_of p0 (before @ after))) (outputs_of before)
      else lives g p0 pre starts (int (length before)) (uses_of p0 before) (map snd (uses_of p0 after)) (outputs_of before))"

lemma execution_nodes_at:
  assumes "execution_nodes g = before @ (i, node) # after"
  shows "i = int (length before)" "node \<in> set (gi_nodes g)" "length before < length (gi_nodes g)"
proof -
  let ?k = "length before"
  have l: "?k < length (execution_nodes g)" by (simp add: assms)
  then show k: "length before < length (gi_nodes g)" by (simp add: execution_nodes_def)
  have "execution_nodes g ! ?k = (i, node)" by (simp add: assms)
  then have "i = [0..int (length (gi_nodes g)) - 1] ! ?k" "node = gi_nodes g ! ?k" using l k by (simp_all add: execution_nodes_def)
  then show "i = int (length before)" "node \<in> set (gi_nodes g)" using k by simp_all
qed

lemma plan_node_ok:
  assumes g: "graph_ok g" and at: "execution_nodes g = before @ (i, node) # after" and l: "node_lives g p0 pre starts before ((i, node) # after) s"
    and r: "roots_ok g p0" and pre: "\<forall>k < length (gi_tensors g). 0 \<le> pre ! k"
  shows "\<exists>s'. plan_node (i, node) s = Some (kTfLiteOk, s') \<and> node_lives g p0 pre starts (before @ [(i, node)]) after s'"
proof -
  obtain p rc where s: "s = (p, rc)" by (cases s)
  note e = execution_nodes_at [OF at]
  have i: "0 \<le> i" "nat i < length (gi_nodes g)" "i < kNodeNotAssigned"
    using e g by (simp_all add: graph_ok_def kNodeNotAssigned_def)
  note ok = graph_ok_node [OF g e(2)]
  let ?outs = "outputs_of before @ map (Pair i) (filter (\<lambda>t. t \<noteq> kTfLiteOptionalTensor) (tn_outputs node))"
  have outs: "outputs_of (before @ [(i, node)]) = ?outs" by (simp add: outputs_of_def)
  have uses: "uses_of p0 (before @ [(i, node)]) = uses_of p0 before @ map (Pair i) (roots p0 (tn_inputs node))"
    "map snd (uses_of p0 ((i, node) # after)) = roots p0 (tn_inputs node) @ map snd (uses_of p0 after)"
    by (simp_all add: uses_of_def comp_def)
  have le: "i \<le> int (length (before @ [(i, node)]))" using e(1) by simp
  show ?thesis
  proof (cases "ap_preserve_all_tensors p0")
    case True
    with l have "lives g p0 pre starts i [] (map snd (uses_of p0 (before @ (i, node) # after))) (outputs_of before) (p, rc)"
      by (simp add: node_lives_def s e(1))
    from plan_outputs_ok [OF this ok(2) i] obtain q where q: "loop_status (plan_output i) (tn_outputs node) p = Some (kTfLiteOk, q)"
      "lives g p0 pre starts i [] (map snd (uses_of p0 (before @ (i, node) # after))) ?outs (q, rc)" by blast
    have "ap_preserve_all_tensors q" using livesD(1) [OF q(2)] True by (simp add: frame_def memory_frame_def)
    then show ?thesis using lives_later [OF q(2) le] True by (simp add: plan_node_def s q(1) node_lives_def outs)
  next
    case False
    with l have "lives g p0 pre starts i (uses_of p0 before) (map snd (uses_of p0 ((i, node) # after))) (outputs_of before) (p, rc)"
      by (simp add: node_lives_def s e(1))
    from plan_outputs_ok [OF this ok(2) i] obtain q where q: "loop_status (plan_output i) (tn_outputs node) p = Some (kTfLiteOk, q)"
      "lives g p0 pre starts i (uses_of p0 before) (map snd (uses_of p0 ((i, node) # after))) ?outs (q, rc)" by blast
    have np: "\<not> ap_preserve_all_tensors q" using livesD(1) [OF q(2)] False by (simp add: frame_def memory_frame_def)
    from plan_uses_ok [OF q(2) [unfolded uses(2)] ok(1) i(1,3) r pre] obtain s' where s': "loop_status (plan_use i) (tn_inputs node) (q, rc) = Some (kTfLiteOk, s')"
      "lives g p0 pre starts i (uses_of p0 before @ map (Pair i) (roots p0 (tn_inputs node))) (map snd (uses_of p0 after)) ?outs s'" by blast
    then show ?thesis using lives_later [OF s'(2) le] False np by (simp add: plan_node_def s q(1) node_lives_def outs uses(1))
  qed
qed

lemma plan_nodes_ok:
  assumes g: "graph_ok g" and l: "node_lives g p0 pre starts [] (execution_nodes g) s"
    and r: "roots_ok g p0" and pre: "\<forall>k < length (gi_tensors g). 0 \<le> pre ! k"
  shows "\<exists>s'. loop_status plan_node (execution_nodes g) s = Some (kTfLiteOk, s') \<and> node_lives g p0 pre starts (execution_nodes g) [] s'"
proof (rule loop_status_total)
  show "\<exists>s'. plan_node x s = Some (kTfLiteOk, s') \<and> node_lives g p0 pre starts (before @ [x]) after s'"
    if "execution_nodes g = before @ x # after" "node_lives g p0 pre starts before (x # after) s" for before x after s
    using plan_node_ok [OF g _ _ r pre] that by (cases x) blast
qed (rule l)

section \<open>The plan\<close>

definition kept_tensors :: "GraphInfo \<Rightarrow> int set" where
  "kept_tensors g = {t \<in> set (gi_inputs g) \<union> set (gi_outputs g) \<union> set (gi_variables g). t \<noteq> kTfLiteOptionalTensor}"

definition start_tensors :: "GraphInfo \<Rightarrow> int set" where
  "start_tensors g = {t \<in> set (gi_inputs g) \<union> set (gi_variables g). t \<noteq> kTfLiteOptionalTensor}"

lemma kept_tensor_ok: "graph_ok g \<Longrightarrow> t \<in> kept_tensors g \<Longrightarrow> tensor_ok g t"
  by (auto simp: graph_ok_def kept_tensors_def)

lemma node_lives_start:
  assumes "prepared g p0 S A p" "A = set (gi_inputs g) \<union> set (gi_variables g)" "length rc = length (gi_tensors g)"
    and "\<forall>k < length (gi_tensors g). rc ! k = pre ! k + int (count_list (roots p (node_uses g)) (int k))"
  shows "node_lives g p pre (start_tensors g) [] (execution_nodes g) (p, rc)"
proof -
  have s2: "map snd (execution_nodes g) = gi_nodes g" by (simp add: execution_nodes_def)
  have "map snd (uses_of p ns) = roots p (concat (map tn_inputs (map snd ns)))" for ns
    by (induction ns) (auto simp: uses_of_def roots_def comp_def)
  from this [of "execution_nodes g"] have "map snd (uses_of p (execution_nodes g)) = roots p (node_uses g)" unfolding s2 node_uses_def .
  moreover have "lives g p pre (start_tensors g) 0 [] (roots p (node_uses g)) [] (p, rc)"
    by (rule livesI) (use assms in \<open>auto simp: prepared_def frame_def memory_frame_def start_tensors_def\<close>)
  ultimately show ?thesis by (simp add: node_lives_def uses_of_def [of _ "[]"] outputs_of_def)
qed

lemma uses_of_bounds:
  assumes "graph_ok g" "roots_ok g p" "(j, r) \<in> set (uses_of p (execution_nodes g))"
  shows "j < kNodeNotAssigned" "tensor_ok g r"
proof -
  from assms(3) obtain node where n: "(j, node) \<in> set (execution_nodes g)" "r \<in> set (roots p (tn_inputs node))"
    by (auto simp: uses_of_def)
  then show "j < kNodeNotAssigned"
    using assms(1) by (auto simp: execution_nodes_def graph_ok_def kNodeNotAssigned_def dest!: set_zip_leftD)
  from n(1) have "node \<in> set (gi_nodes g)" by (auto simp: execution_nodes_def dest: set_zip_rightD)
  from graph_ok_node(1) [OF assms(1) this] n(2) show "tensor_ok g r" using FindSharedTensor_ok [OF assms(2)] by (auto simp: roots_def)
qed

text \<open>The state before the nodes are planned.\<close>

lemma plan_prepared:
  assumes g: "graph_ok g"
  shows "\<exists>p3 p5 rc S. PlanAllocations g p = map_option (\<lambda>(status, q, _). (status, q)) (loop_status plan_node (execution_nodes g) (p5, rc))
    \<and> prepared g (ResetAllocations g p) (kept_tensors g) (start_tensors g) p3
    \<and> prepared g (ResetAllocations g p) S (set (gi_inputs g) \<union> set (gi_variables g)) p5 \<and> roots_ok g p5 \<and> length rc = length (gi_tensors g)
    \<and> (\<forall>k < length (gi_tensors g). rc ! k = ap_refcounts p3 ! k + int (count_list (roots p5 (node_uses g)) (int k)))"
proof -
  let ?p0 = "ResetAllocations g p"
  let ?S = "set (gi_outputs g) \<union> set (gi_variables g) \<union> set (gi_inputs g)" and ?A = "set (gi_variables g) \<union> set (gi_inputs g)"
  have ok: "\<forall>t \<in> set (gi_outputs g). t = kTfLiteOptionalTensor \<or> tensor_ok g t" "\<forall>t \<in> set (gi_variables g). tensor_ok g t"
    "\<forall>t \<in> set (gi_inputs g). t = kTfLiteOptionalTensor \<or> tensor_ok g t" using g by (auto simp: graph_ok_def)
  have used: "\<forall>t \<in> set (node_uses g). t = kTfLiteOptionalTensor \<or> tensor_ok g t"
    using graph_ok_node(1) [OF g] by (auto simp: node_uses_def)
  obtain p1 where 1: "loop_opt count_used (gi_outputs g) (plan_reset g p) = Some p1" "prepared g ?p0 (set (gi_outputs g)) {} p1"
    using count_outputs_ok [OF plan_reset_prepared ok(1)] by auto
  obtain p2 where 2: "loop_status plan_variable (gi_variables g) p1 = Some (kTfLiteOk, p2)"
      "prepared g ?p0 (set (gi_outputs g) \<union> set (gi_variables g)) (set (gi_variables g)) p2"
    using plan_variables_ok [OF 1(2) ok(2)] by auto
  obtain p3 where 3: "loop_status plan_input (gi_inputs g) p2 = Some (kTfLiteOk, p3)" "prepared g ?p0 ?S ?A p3"
    using plan_inputs_ok [OF 2(2) ok(3)] by auto
  obtain p4 where 4: "loop_opt count_used (node_uses g) p3 = Some p4" "prepared g ?p0 (?S \<union> set (node_uses g)) ?A p4"
    using count_outputs_ok [OF 3(2) used] by auto
  obtain p5 where 5: "IdentifyInPlaceTensors g p4 = Some p5" "prepared g ?p0 (?S \<union> set (node_uses g)) ?A p5" "roots_ok g p5"
    using IdentifyInPlaceTensors_ok [OF g 4(2)] by blast
  have len: "length (ap_refcounts p3) = length (gi_tensors g)" using 3(2) by (auto simp: prepared_def plan_ok_def)
  obtain rc where rc: "loop_opt (count_shared p5) (node_uses g) (ap_refcounts p3) = Some rc" "length rc = length (gi_tensors g)"
      "\<forall>k < length (gi_tensors g). rc ! k = ap_refcounts p3 ! k + int (count_list (roots p5 (node_uses g)) (int k))"
    using count_shared_ok [OF 5(3) len used] by blast
  have "PlanAllocations g p = map_option (\<lambda>(status, q, _). (status, q)) (loop_status plan_node (execution_nodes g) (p5, rc))"
    by (simp add: PlanAllocations_def 1(1) ensure_status_Some [OF 2(1)] ensure_status_Some [OF 3(1)] 4(1) 5(1) rc(1))
  moreover have "prepared g ?p0 (kept_tensors g) (start_tensors g) p3"
    using 3(2) by (auto simp: prepared_def kept_tensors_def start_tensors_def)
  ultimately show ?thesis using 5(2,3) rc(2,3) by (auto simp: Un_commute)
qed

text \<open>What planning gives, for any state of the planner before.\<close>

lemma plan_result:
  assumes g: "graph_ok g"
  shows "\<exists>q. PlanAllocations g p = Some (kTfLiteOk, q) \<and> memory_frame (ResetAllocations g p) q \<and> plan_ok g q \<and> roots_ok g q
    \<and> (\<forall>(j, r) \<in> set (uses_of q (execution_nodes g)). j \<le> ap_dealloc_node q ! nat r)
    \<and> (\<forall>k < length (gi_tensors g). ap_dealloc_node q ! k \<noteq> kNodeNotAssigned \<longrightarrow> (ap_dealloc_node q ! k, int k) \<in> set (uses_of q (execution_nodes g)))
    \<and> (\<forall>(j, t) \<in> set (outputs_of (execution_nodes g)).
         0 \<le> ap_alloc_node q ! nat t \<and> ap_alloc_node q ! nat t \<le> j \<and> t \<in> set (ap_nodes_to_tensors q ! nat j))
    \<and> (\<forall>t \<in> start_tensors g. ap_alloc_node q ! nat t = 0 \<and> t \<in> set (ap_nodes_to_tensors q ! 0))
    \<and> (\<forall>t \<in> kept_tensors g. ap_dealloc_node q ! nat t = kNodeNotAssigned)"
proof -
  let ?n = "length (gi_tensors g)" and ?ns = "execution_nodes g"
  obtain p3 p5 rc S where 3: "prepared g (ResetAllocations g p) (kept_tensors g) (start_tensors g) p3"
    and 5: "prepared g (ResetAllocations g p) S (set (gi_inputs g) \<union> set (gi_variables g)) p5" "roots_ok g p5"
    and rc: "length rc = ?n" "\<forall>k < ?n. rc ! k = ap_refcounts p3 ! k + int (count_list (roots p5 (node_uses g)) (int k))"
    and run: "PlanAllocations g p = map_option (\<lambda>(status, q, _). (status, q)) (loop_status plan_node ?ns (p5, rc))"
    using plan_prepared [OF g, of p] by auto
  have pre: "\<forall>k < ?n. 0 \<le> ap_refcounts p3 ! k" using 3 by (auto simp: prepared_def)
  have "node_lives g p5 (ap_refcounts p3) (start_tensors g) [] ?ns (p5, rc)" by (rule node_lives_start [OF 5(1) refl rc])
  from plan_nodes_ok [OF g this 5(2) pre] obtain q rc' where q: "loop_status plan_node ?ns (p5, rc) = Some (kTfLiteOk, q, rc')"
    "node_lives g p5 (ap_refcounts p3) (start_tensors g) ?ns [] (q, rc')" by auto
  let ?past = "if ap_preserve_all_tensors p5 then [] else uses_of p5 ?ns"
  from q(2) obtain rest where "lives g p5 (ap_refcounts p3) (start_tensors g) (int (length ?ns)) ?past rest (outputs_of ?ns) (q, rc')"
    by (auto simp: node_lives_def split: if_splits)
  note d = livesD [OF this]
  have f: "memory_frame (ResetAllocations g p) q" using d(1) 5(1) by (simp add: frame_def prepared_def memory_frame_def)
  have same: "ap_actual_tensor_id q = ap_actual_tensor_id p5" using d(1) by (simp add: frame_def)
  then have uses: "uses_of q ?ns = uses_of p5 ?ns" by (simp add: uses_of_def roots_def FindSharedTensor_def [abs_def])
  have roots: "roots_ok g q" using 5(2) same by (simp add: roots_ok_def)
  have kept: "\<forall>t \<in> kept_tensors g. ap_dealloc_node q ! nat t = kNodeNotAssigned"
    using d(6) 3 tensor_ok_nat [OF kept_tensor_ok [OF g]] by (force simp: prepared_def kept_tensors_def)
  have last: "\<forall>k < ?n. ap_dealloc_node q ! k \<noteq> kNodeNotAssigned \<longrightarrow> (ap_dealloc_node q ! k, int k) \<in> set (uses_of q ?ns)"
  proof (intro allI impI)
    fix k assume "k < ?n" "ap_dealloc_node q ! k \<noteq> kNodeNotAssigned"
    from d(6) [OF this] have "(ap_dealloc_node q ! k, int k) \<in> set ?past" by blast
    then show "(ap_dealloc_node q ! k, int k) \<in> set (uses_of q ?ns)" unfolding uses by (simp split: if_splits)
  qed
  have later: "j \<le> ap_dealloc_node q ! nat r" if "(j, r) \<in> set (uses_of q ?ns)" for j r
  proof (cases "ap_preserve_all_tensors p5")
    case True
    have b: "j < kNodeNotAssigned" "nat r < ?n" using uses_of_bounds [OF g roots that] by (auto dest: tensor_ok_nat)
    then have "ap_dealloc_node q ! nat r = kNodeNotAssigned" using d(6) [OF b(2)] True by auto
    with b(1) show ?thesis by simp
  qed (use d(7) [of j r] that uses in simp)
  have "\<forall>(j, t) \<in> set (outputs_of ?ns).
      0 \<le> ap_alloc_node q ! nat t \<and> ap_alloc_node q ! nat t \<le> j \<and> t \<in> set (ap_nodes_to_tensors q ! nat j)" using d(8) by blast
  moreover have "\<forall>t \<in> start_tensors g. ap_alloc_node q ! nat t = 0 \<and> t \<in> set (ap_nodes_to_tensors q ! 0)" using d(9) by blast
  ultimately show ?thesis using run q(1) f d(2) roots kept last later by auto
qed

text \<open>C6: Planning succeeds on every graph whose indices are in range, whatever the planner did before, and gives
  every buffer a lifetime that covers its uses: the outputs of a node are allocated at that node or before; a buffer
  that a node reads, through any tensor that shares it, is not given up before that node; it is given up exactly at
  the last node that reads it, or never; and the buffers of the graph's inputs, outputs and variables are never given
  up, the inputs and variables being there from the first node.\<close>

theorem plan_lifetimes:
  assumes "graph_ok g"
  shows "\<exists>q. PlanAllocations g p = Some (kTfLiteOk, q)
    \<and> (\<forall>(i, node) \<in> set (execution_nodes g).
         (\<forall>t \<in> set (tn_outputs node). t \<noteq> kTfLiteOptionalTensor \<longrightarrow> 0 \<le> ap_alloc_node q ! nat t \<and> ap_alloc_node q ! nat t \<le> i)
         \<and> (\<forall>t \<in> set (tn_inputs node). t \<noteq> kTfLiteOptionalTensor \<longrightarrow> i \<le> ap_dealloc_node q ! nat (FindSharedTensor q t)))
    \<and> (\<forall>k < length (gi_tensors g). ap_dealloc_node q ! k = kNodeNotAssigned
         \<or> (\<exists>(i, node) \<in> set (execution_nodes g). ap_dealloc_node q ! k = i
              \<and> (\<exists>t \<in> set (tn_inputs node). t \<noteq> kTfLiteOptionalTensor \<and> FindSharedTensor q t = int k)))
    \<and> (\<forall>t \<in> set (gi_inputs g) \<union> set (gi_outputs g) \<union> set (gi_variables g).
         t \<noteq> kTfLiteOptionalTensor \<longrightarrow> ap_dealloc_node q ! nat t = kNodeNotAssigned)
    \<and> (\<forall>t \<in> set (gi_inputs g) \<union> set (gi_variables g). t \<noteq> kTfLiteOptionalTensor \<longrightarrow> ap_alloc_node q ! nat t = 0)"
proof -
  let ?ns = "execution_nodes g"
  obtain q where q: "PlanAllocations g p = Some (kTfLiteOk, q)"
    and use: "\<forall>(j, r) \<in> set (uses_of q ?ns). j \<le> ap_dealloc_node q ! nat r"
    and last: "\<forall>k < length (gi_tensors g). ap_dealloc_node q ! k \<noteq> kNodeNotAssigned \<longrightarrow> (ap_dealloc_node q ! k, int k) \<in> set (uses_of q ?ns)"
    and out: "\<forall>(j, t) \<in> set (outputs_of ?ns). 0 \<le> ap_alloc_node q ! nat t \<and> ap_alloc_node q ! nat t \<le> j \<and> t \<in> set (ap_nodes_to_tensors q ! nat j)"
    and start: "\<forall>t \<in> start_tensors g. ap_alloc_node q ! nat t = 0 \<and> t \<in> set (ap_nodes_to_tensors q ! 0)"
    and kept: "\<forall>t \<in> kept_tensors g. ap_dealloc_node q ! nat t = kNodeNotAssigned"
    using plan_result [OF assms, of p] by blast
  have "(i, FindSharedTensor q t) \<in> set (uses_of q ?ns)" if "(i, node) \<in> set ?ns" "t \<in> set (tn_inputs node)" "t \<noteq> kTfLiteOptionalTensor" for i node t
    using that by (force simp: uses_of_def roots_def)
  then have 1: "\<forall>(i, node) \<in> set ?ns. \<forall>t \<in> set (tn_inputs node). t \<noteq> kTfLiteOptionalTensor \<longrightarrow> i \<le> ap_dealloc_node q ! nat (FindSharedTensor q t)"
    using use by fast
  have "(i, t) \<in> set (outputs_of ?ns)" if "(i, node) \<in> set ?ns" "t \<in> set (tn_outputs node)" "t \<noteq> kTfLiteOptionalTensor" for i node t
    using that by (force simp: outputs_of_def)
  then have 2: "\<forall>(i, node) \<in> set ?ns. \<forall>t \<in> set (tn_outputs node). t \<noteq> kTfLiteOptionalTensor \<longrightarrow> 0 \<le> ap_alloc_node q ! nat t \<and> ap_alloc_node q ! nat t \<le> i"
    using out by fast
  have "\<exists>(i, node) \<in> set ?ns. j = i \<and> (\<exists>t \<in> set (tn_inputs node). t \<noteq> kTfLiteOptionalTensor \<and> FindSharedTensor q t = r)"
    if "(j, r) \<in> set (uses_of q ?ns)" for j r
    using that by (force simp: uses_of_def roots_def)
  then have 3: "\<forall>k < length (gi_tensors g). ap_dealloc_node q ! k = kNodeNotAssigned
      \<or> (\<exists>(i, node) \<in> set ?ns. ap_dealloc_node q ! k = i \<and> (\<exists>t \<in> set (tn_inputs node). t \<noteq> kTfLiteOptionalTensor \<and> FindSharedTensor q t = int k))"
    using last by blast
  have 4: "\<forall>t \<in> set (gi_inputs g) \<union> set (gi_outputs g) \<union> set (gi_variables g). t \<noteq> kTfLiteOptionalTensor \<longrightarrow> ap_dealloc_node q ! nat t = kNodeNotAssigned"
    using kept by (simp add: kept_tensors_def)
  have 5: "\<forall>t \<in> set (gi_inputs g) \<union> set (gi_variables g). t \<noteq> kTfLiteOptionalTensor \<longrightarrow> ap_alloc_node q ! nat t = 0"
    using start by (simp add: start_tensors_def)
  have "\<forall>(i, node) \<in> set ?ns.
         (\<forall>t \<in> set (tn_outputs node). t \<noteq> kTfLiteOptionalTensor \<longrightarrow> 0 \<le> ap_alloc_node q ! nat t \<and> ap_alloc_node q ! nat t \<le> i)
         \<and> (\<forall>t \<in> set (tn_inputs node). t \<noteq> kTfLiteOptionalTensor \<longrightarrow> i \<le> ap_dealloc_node q ! nat (FindSharedTensor q t))"
    using 1 2 by auto
  then show ?thesis by (intro exI [of _ q] conjI q 3 4 5)
qed

text \<open>
  A graph: node 0 computes tensor 1 from the input, node 1 reshapes it to tensor 2, node 2 reshapes that to tensor 3,
  node 3 changes tensor 3 in place to tensor 4, and node 4 reads tensors 2 and 4 for the output, tensor 5.
\<close>

definition sample_tensor :: TfLiteTensor where
  "sample_tensor = \<lparr>tt_allocation_type = kTfLiteArenaRw, tt_bytes = 16, tt_data = nullptr\<rparr>"

definition sample_node :: "int list \<Rightarrow> int list \<Rightarrow> 64 word \<Rightarrow> TfLiteNode" where
  "sample_node ins outs flags = \<lparr>tn_inputs = ins, tn_outputs = outs, tn_temporaries = [], tn_inplace_operator = flags, tn_might_have_side_effect = False\<rparr>"

definition reuse_graph :: GraphInfo where
  "reuse_graph =
     \<lparr>gi_tensors = replicate 6 sample_tensor,
      gi_nodes = [sample_node [0] [1] 0, sample_node [1] [2] 5, sample_node [2] [3] 5, sample_node [3] [4] 4, sample_node [2, 4] [5] 0],
      gi_num_total_nodes = 5, gi_node_index = [0, 1, 2, 3, 4], gi_inputs = [0], gi_outputs = [5], gi_variables = []\<rparr>"

lemma reuse_graph_ok: "graph_ok reuse_graph"
  by (simp add: graph_ok_def reuse_graph_def sample_node_def tensor_ok_def kTfLiteOptionalTensor_def kTfLiteInplaceOpNone_def)

definition reuse_plan :: ArenaPlanner where
  "reuse_plan = (case PlanAllocations reuse_graph (ArenaPlanner_new False 64) of Some (_, q) \<Rightarrow> q | None \<Rightarrow> ArenaPlanner_new False 64)"

lemma reuse_plan_eq: "PlanAllocations reuse_graph (ArenaPlanner_new False 64) = Some (kTfLiteOk, reuse_plan)"
  using plan_result [OF reuse_graph_ok, of "ArenaPlanner_new False 64"] by (auto simp: reuse_plan_def)

theorem plan_lifetimes_witness:
  "PlanAllocations reuse_graph (ArenaPlanner_new False 64) = Some (kTfLiteOk, reuse_plan)
   \<and> 4 \<le> ap_dealloc_node reuse_plan ! nat (FindSharedTensor reuse_plan 2) \<and> ap_dealloc_node reuse_plan ! 0 = kNodeNotAssigned"
proof -
  have n: "(4, sample_node [2, 4] [5] 0) \<in> set (execution_nodes reuse_graph)" by (simp add: execution_nodes_def reuse_graph_def upto_rec1)
  note all = plan_lifetimes [OF reuse_graph_ok, of "ArenaPlanner_new False 64", unfolded reuse_plan_eq option.inject prod.inject simp_thms]
  have "\<forall>t \<in> set (tn_inputs (sample_node [2, 4] [5] 0)). t \<noteq> kTfLiteOptionalTensor \<longrightarrow> 4 \<le> ap_dealloc_node reuse_plan ! nat (FindSharedTensor reuse_plan t)"
    using bspec [OF conjunct1 [OF all] n] by simp
  then have "4 \<le> ap_dealloc_node reuse_plan ! nat (FindSharedTensor reuse_plan 2)" by (simp add: sample_node_def kTfLiteOptionalTensor_def)
  moreover have "ap_dealloc_node reuse_plan ! 0 = kNodeNotAssigned"
    using conjunct1 [OF conjunct2 [OF conjunct2 [OF all]]] by (simp add: reuse_graph_def kTfLiteOptionalTensor_def)
  ultimately show ?thesis using reuse_plan_eq by simp
qed


end
