(* ===== verification/PlannerApart.thy ===== *)
theory PlannerApart
  imports PlannerLives "HOL-Library.Multiset"
begin

text \<open>
  Executing a plan gives tensors in use at the same time disjoint places of the arena, and addresses to match.
\<close>

section \<open>Placing tensors\<close>

lemma filter_opt_Some: "filter_opt P xs = Some ys \<Longrightarrow> ys = filter (\<lambda>x. P x = Some True) xs \<and> (\<forall>x \<in> set xs. P x \<noteq> None)"
  by (induction xs arbitrary: ys) (auto split: bind_splits if_splits)

definition alloc_for :: "GraphInfo \<Rightarrow> ArenaPlanner \<Rightarrow> int \<Rightarrow> ArenaAllocWithUsageInterval \<Rightarrow> bool" where
  "alloc_for g p t x \<longleftrightarrow> aa_tensor x = t \<and> aa_size x = tt_bytes (gi_tensors g ! nat t) \<and> aa_first_node x = ap_alloc_node p ! nat t
     \<and> aa_last_node x = ap_dealloc_node p ! nat t \<and> aa_offset x mod to_size (ap_tensor_alignment p) = 0"

definition rw_tensor :: "GraphInfo \<Rightarrow> int \<Rightarrow> bool" where
  "rw_tensor g t \<longleftrightarrow> tt_allocation_type (gi_tensors g ! nat t) = kTfLiteArenaRw \<and> 0 < tt_bytes (gi_tensors g ! nat t)"

text \<open>The room that a tensor can take.\<close>

definition room :: "GraphInfo \<Rightarrow> ArenaPlanner \<Rightarrow> int \<Rightarrow> nat" where
  "room g p t = to_size (ap_tensor_alignment p) + tt_bytes (gi_tensors g ! nat t)"

text \<open>The tensors of \<open>T\<close> that own a buffer have a place, within \<open>r\<close> bytes.\<close>

definition placed :: "GraphInfo \<Rightarrow> ArenaPlanner \<Rightarrow> int set \<Rightarrow> nat \<Rightarrow> ArenaPlanner \<Rightarrow> bool" where
  "placed g p0 T r p \<longleftrightarrow>
     ap_alloc_node p = ap_alloc_node p0 \<and> ap_dealloc_node p = ap_dealloc_node p0 \<and> ap_tensor_alignment p = ap_tensor_alignment p0
     \<and> ap_nodes_to_tensors p = ap_nodes_to_tensors p0 \<and> length (ap_allocs p) = length (gi_tensors g) \<and> ar_buffer (ap_arena p) = ar_buffer (ap_arena p0)
     \<and> arena_ok (ap_arena p) \<and> ar_high_water_mark (ap_arena p) \<le> r
     \<and> (\<forall>x \<in> set (ar_active (ap_arena p)). \<forall>y \<in> set (ar_active (ap_arena p)). x \<noteq> y \<longrightarrow> same_time x y \<longrightarrow> apart_allocs x y)
     \<and> (\<forall>t \<in> T. ap_actual_tensor_id p t = None \<longrightarrow> rw_tensor g t \<longrightarrow>
          ap_allocs p ! nat t \<in> set (ar_active (ap_arena p)) \<and> alloc_for g p0 t (ap_allocs p ! nat t))"

lemma placed_cong:
  assumes "placed g p0 T r p" "\<And>t. t \<in> T \<Longrightarrow> ap_actual_tensor_id q t = None \<Longrightarrow> rw_tensor g t \<Longrightarrow>
      ap_actual_tensor_id p t = None \<and> ap_allocs q ! nat t = ap_allocs p ! nat t"
    and "ap_alloc_node q = ap_alloc_node p" "ap_dealloc_node q = ap_dealloc_node p" "ap_tensor_alignment q = ap_tensor_alignment p"
    and "ap_nodes_to_tensors q = ap_nodes_to_tensors p" "length (ap_allocs q) = length (ap_allocs p)" "ap_arena q = ap_arena p"
  shows "placed g p0 T r q"
  using assms unfolding placed_def by metis

text \<open>A tensor of the other arena, or one that shares a buffer, changes nothing.\<close>

lemma placed_more: "placed g p0 T r p \<Longrightarrow> ap_actual_tensor_id p t \<noteq> None \<or> \<not> rw_tensor g t \<Longrightarrow> placed g p0 (insert t T) (r + room g p0 t) p"
  by (fastforce simp: placed_def)

lemma allocate_persistent_placed:
  assumes "placed g p0 T r p" "tensor_ok g t" "tensor = gi_tensors g ! nat t"
    "\<forall>u \<in> T. tensor_ok g u" "allocate_persistent tensor t p = Some (status, q)"
  shows "placed g p0 T r q \<and> ap_actual_tensor_id q = ap_actual_tensor_id p"
proof (cases "tt_allocation_type tensor = kTfLiteArenaRwPersistent")
  case False
  then show ?thesis using assms(1,5) by (auto simp: allocate_persistent_def)
next
  case True
  then have "q = p \<or> (\<exists>a x. q = p\<lparr>ap_persistent_arena := a, ap_allocs := (ap_allocs p)[nat t := x]\<rparr>)"
    using assms(5) by (auto simp: allocate_persistent_def array_set_def split: bind_splits if_splits) blast+
  moreover have "nat t \<noteq> nat u" if "u \<in> T" "rw_tensor g u" for u
    using that True assms(3) by (auto simp: rw_tensor_def)
  ultimately show ?thesis using assms(1) by (auto intro!: placed_cong [OF assms(1)])
qed

text \<open>What placing tensors relies on.\<close>

definition placeable :: "GraphInfo \<Rightarrow> ArenaPlanner \<Rightarrow> bool" where
  "placeable g p \<longleftrightarrow> length (ap_alloc_node p) = length (gi_tensors g) \<and> length (ap_dealloc_node p) = length (gi_tensors g)
     \<and> 0 < to_size (ap_tensor_alignment p) \<and> to_size (ap_tensor_alignment p) \<le> rb_alignment (ar_buffer (ap_arena p))"

lemma allocate_rw_placed:
  assumes p: "placed g p0 T r p" and t: "tensor_ok g t" and T: "\<forall>u \<in> T. tensor_ok g u" and p0: "placeable g p0"
    and room: "r + room g p0 t < 2 ^ 64"
    and run: "allocate_rw (gi_tensors g ! nat t) t p = Some (status, q)" and own: "ap_actual_tensor_id p t = None"
  shows "placed g p0 (insert t T) (r + room g p0 t) q \<and> ap_actual_tensor_id q = ap_actual_tensor_id p \<and> status = kTfLiteOk"
proof (cases "tt_allocation_type (gi_tensors g ! nat t) = kTfLiteArenaRw")
  case False
  then have "\<not> rw_tensor g t" "q = p" "status = kTfLiteOk" using run by (auto simp: rw_tensor_def allocate_rw_def)
  then show ?thesis using placed_more [OF p] by simp
next
  case True
  let ?n = "tt_bytes (gi_tensors g ! nat t)" and ?al = "to_size (ap_tensor_alignment p0)"
  have len: "length (ap_alloc_node p0) = length (gi_tensors g)" "length (ap_dealloc_node p0) = length (gi_tensors g)"
    and al: "0 < ?al" "?al \<le> rb_alignment (ar_buffer (ap_arena p0))" using p0 by (auto simp: placeable_def)
  have lens: "length (ap_allocs p) = length (gi_tensors g)" "ap_alloc_node p = ap_alloc_node p0" "ap_dealloc_node p = ap_dealloc_node p0"
    "ap_tensor_alignment p = ap_tensor_alignment p0" "ar_buffer (ap_arena p) = ar_buffer (ap_arena p0)" "arena_ok (ap_arena p)"
    "ap_nodes_to_tensors p = ap_nodes_to_tensors p0" and hw: "ar_high_water_mark (ap_arena p) \<le> r" using p by (auto simp: placed_def)
  from run True obtain x a where A: "Allocate ?al ?n t (ap_alloc_node p0 ! nat t) (ap_dealloc_node p0 ! nat t) (ap_allocs p ! nat t, ap_arena p) = Some (status, x, a)"
    and q: "q = p\<lparr>ap_arena := a, ap_allocs := (ap_allocs p)[nat t := x]\<rparr>"
    using lens len t by (auto simp: allocate_rw_def tensor_ok_get split: bind_splits)
  have t1: "t \<noteq> - 1" using tensor_ok_not_optional [OF t] by (simp add: kTfLiteOptionalTensor_def)
  have big: "ar_high_water_mark (ap_arena p) + ?al + ?n < 2 ^ 64" using hw room by (simp add: room_def)
  note sp = Allocate_spec [OF lens(6) al(1) _ big t1 A, simplified lens(5), OF al(2)]
  have other: "nat u = nat t \<longleftrightarrow> u = t" if "u \<in> T" for u using T t that by (metis tensor_ok_nat)
  have tn: "nat t < length (ap_allocs p)" using tensor_ok_nat [OF t] lens(1) by simp
  have act: "set (ar_active a) = (if ?n = 0 then set (ar_active (ap_arena p)) else insert x (set (ar_active (ap_arena p))))"
    using sp(12,13) by auto
  have pair: "apart_allocs y z" if "y \<in> set (ar_active a)" "z \<in> set (ar_active a)" "y \<noteq> z" "same_time y z" for y z
    using that p sp(14) same_time_sym apart_allocs_sym unfolding act placed_def by (metis insert_iff neq0_conv)
  have "placed g p0 (insert t T) (r + room g p0 t) q"
    unfolding placed_def
  proof (intro conjI)
    show "ar_high_water_mark (ap_arena q) \<le> r + room g p0 t" using sp(10) hw by (simp add: q room_def)
    show "\<forall>u \<in> insert t T. ap_actual_tensor_id q u = None \<longrightarrow> rw_tensor g u \<longrightarrow>
        ap_allocs q ! nat u \<in> set (ar_active (ap_arena q)) \<and> alloc_for g p0 u (ap_allocs q ! nat u)"
    proof (intro ballI impI)
      fix u assume u: "u \<in> insert t T" "ap_actual_tensor_id q u = None" "rw_tensor g u"
      show "ap_allocs q ! nat u \<in> set (ar_active (ap_arena q)) \<and> alloc_for g p0 u (ap_allocs q ! nat u)"
      proof (cases "u = t")
        case True
        then show ?thesis using u(3) tn sp(2-6) by (auto simp: q act rw_tensor_def alloc_for_def)
      next
        case False
        with u have "u \<in> T" by simp
        then have "nat t \<noteq> nat u" using other False by metis
        then show ?thesis using p u \<open>u \<in> T\<close> by (auto simp: q act placed_def)
      qed
    qed
  qed (use lens sp pair in \<open>auto simp: q\<close>)
  then show ?thesis using sp(1) by (simp add: q)
qed

lemma allocate_tensor_placed:
  assumes p: "placed g p0 T r p" and t: "tensor_ok g t" and T: "\<forall>u \<in> T. tensor_ok g u" and p0: "placeable g p0"
    and room: "r + room g p0 t < 2 ^ 64" and run: "allocate_tensor (gi_tensors g) t p = Some (status, q)"
  shows "placed g p0 (insert t T) (r + room g p0 t) q \<and> ap_actual_tensor_id q \<subseteq>\<^sub>m ap_actual_tensor_id p"
proof -
  let ?tensor = "gi_tensors g ! nat t" and ?T = "insert t T" and ?r = "r + room g p0 t"
  have place: "placed g p0 ?T ?r q \<and> ap_actual_tensor_id q = ap_actual_tensor_id p'"
    if "placed g p0 U r p'" "insert t U = ?T" "ap_actual_tensor_id p' t = None"
      "ensure_status (allocate_rw ?tensor t p') (allocate_persistent ?tensor t) = Some (status, q)" for p' U
  proof -
    have U: "\<forall>u \<in> U. tensor_ok g u" "\<forall>u \<in> ?T. tensor_ok g u" using that(2) T t by auto
    from that(4) obtain s z where z: "allocate_rw ?tensor t p' = Some (s, z)" by (auto simp: ensure_status_def split: bind_splits)
    note a = allocate_rw_placed [OF that(1) t U(1) p0 room z that(3), unfolded that(2)]
    then have "allocate_persistent ?tensor t z = Some (status, q)" using that(4) z by (simp add: ensure_status_def)
    from allocate_persistent_placed [OF conjunct1 [OF a] t refl U(2) this] a show ?thesis by simp
  qed
  have get: "array_get (gi_tensors g) t = Some ?tensor" by (simp add: tensor_ok_get [OF t])
  show ?thesis
  proof (cases "ap_actual_tensor_id p t")
    case None
    then show ?thesis using place [OF p refl None] run by (auto simp: allocate_tensor_def get Let_def)
  next
    case (Some s)
    let ?p = "p\<lparr>ap_actual_tensor_id := (ap_actual_tensor_id p)(t := None)\<rparr>"
    show ?thesis
    proof (cases "q = p")
      case True
      then show ?thesis using placed_more [OF p, of t] Some by simp
    next
      case False
      then have e: "ensure_status (allocate_rw ?tensor t ?p) (allocate_persistent ?tensor t) = Some (status, q)"
        using run Some by (auto simp: allocate_tensor_def get Let_def split: bind_splits if_splits)
      have "placed g p0 (T - {t}) r p" using p by (auto simp: placed_def)
      then have "placed g p0 (T - {t}) r ?p" by (rule placed_cong) (auto split: if_splits)
      from place [OF this _ _ e] show ?thesis by (auto simp: map_le_def split: if_splits)
    qed
  qed
qed

lemma ensure_status_OkD:
  assumes "ensure_status m k = Some (kTfLiteOk, s)"
  obtains u where "m = Some (kTfLiteOk, u)" "k u = Some (kTfLiteOk, s)"
  using assms by (auto simp: ensure_status_def split: bind_splits if_splits)

lemma allocate_tensors_placed:
  assumes "placed g p0 T r p" "\<forall>u \<in> T \<union> set js. tensor_ok g u" "placeable g p0" "r + sum_list (map (room g p0) js) < 2 ^ 64"
    "loop_status (allocate_tensor (gi_tensors g)) js p = Some (kTfLiteOk, q)"
  shows "placed g p0 (T \<union> set js) (r + sum_list (map (room g p0) js)) q"
  using assms
proof (induction js arbitrary: T r p)
  case (Cons t js)
  from Cons.prems(5) obtain p' where p': "allocate_tensor (gi_tensors g) t p = Some (kTfLiteOk, p')"
      "loop_status (allocate_tensor (gi_tensors g)) js p' = Some (kTfLiteOk, q)"
    by (auto elim: ensure_status_OkD)
  have "placed g p0 (insert t T) (r + room g p0 t) p'"
    using allocate_tensor_placed [OF Cons.prems(1) _ _ Cons.prems(3) _ p'(1)] Cons.prems(2,4) by simp
  from Cons.IH [OF this _ Cons.prems(3) _ p'(2)] show ?case using Cons.prems(2,4) by (simp add: add.assoc)
qed simp

section \<open>Committing\<close>

lemma arena_Commit_result:
  assumes "arena_Commit env (a, h) = Some (moved, a', h')"
  shows "ar_committed a'" "ar_active a' = ar_active a" "ar_high_water_mark a' = ar_high_water_mark a"
    "ar_high_water_mark a \<le> rb_data_size (ar_buffer a')"
  using assms by (auto simp: arena_Commit_def Resize_def split: if_splits)

lemma planner_Commit_result:
  assumes "planner_Commit env (p, h) = Some (moved, q, h')"
  shows "ap_allocs q = ap_allocs p" "ap_actual_tensor_id q = ap_actual_tensor_id p" "ap_alloc_node q = ap_alloc_node p"
    "ap_dealloc_node q = ap_dealloc_node p" "ap_nodes_to_tensors q = ap_nodes_to_tensors p" "\<exists>m h1. arena_Commit (pe_heap env) (ap_arena p, h) = Some (m, ap_arena q, h1)"
  using assms by (auto simp: planner_Commit_def split: bind_splits)

section \<open>Addresses\<close>

text \<open>The tensors of \<open>T\<close> own their buffers, and their places in the committed arena have the addresses \<open>A\<close>.\<close>

definition addressed :: "GraphInfo \<Rightarrow> ArenaPlanner \<Rightarrow> int set \<Rightarrow> (int \<Rightarrow> ptr) \<Rightarrow> bool" where
  "addressed g p T A \<longleftrightarrow> (\<forall>t \<in> T. tensor_ok g t \<and> FindSharedTensor p t = t \<and> rw_tensor g t \<and> aa_size (ap_allocs p ! nat t) \<noteq> 0
     \<and> ResolveAlloc (ap_arena p) (ap_allocs p ! nat t) = (kTfLiteOk, Some (A t)))"

text \<open>Tensors as in the graph, up to their addresses.\<close>

definition same_tensors :: "TfLiteTensor list \<Rightarrow> TfLiteTensor list \<Rightarrow> bool" where
  "same_tensors ts us \<longleftrightarrow> map tt_allocation_type us = map tt_allocation_type ts \<and> map tt_bytes us = map tt_bytes ts"

lemma same_tensors_nth:
  assumes "same_tensors ts us"
  shows "length us = length ts" "k < length ts \<Longrightarrow> tt_allocation_type (us ! k) = tt_allocation_type (ts ! k)"
    "k < length ts \<Longrightarrow> tt_bytes (us ! k) = tt_bytes (ts ! k)"
proof -
  show l: "length us = length ts" using assms by (metis same_tensors_def length_map)
  show "k < length ts \<Longrightarrow> tt_allocation_type (us ! k) = tt_allocation_type (ts ! k)" "k < length ts \<Longrightarrow> tt_bytes (us ! k) = tt_bytes (ts ! k)"
    using assms l by (auto simp: same_tensors_def dest!: arg_cong [of _ _ "\<lambda>xs. xs ! k"])
qed

lemma same_tensors_data: "same_tensors ts (us[k := (us ! k)\<lparr>tt_data := d\<rparr>]) \<longleftrightarrow> same_tensors ts us"
  by (simp add: same_tensors_def map_update_same)

text \<open>What one resolution may do: the owners get their address or keep the old one.\<close>

definition resolution :: "GraphInfo \<Rightarrow> int set \<Rightarrow> (int \<Rightarrow> ptr) \<Rightarrow> TfLiteTensor list \<Rightarrow> TfLiteTensor list \<Rightarrow> bool" where
  "resolution g T A us vs \<longleftrightarrow> same_tensors (gi_tensors g) vs
     \<and> (\<forall>t \<in> T. tt_data (vs ! nat t) = A t \<or> tt_data (vs ! nat t) = tt_data (us ! nat t))"

lemma resolve_own_addressed:
  assumes "addressed g p T A" "same_tensors (gi_tensors g) us" "resolve_own p t us = Some (status, vs)"
  shows "resolution g T A us vs \<and> (t \<in> T \<longrightarrow> tt_data (vs ! nat t) = A t)"
proof -
  have len: "length us = length (gi_tensors g)" by (rule same_tensors_nth(1) [OF assms(2)])
  have t: "tensor_ok g t" using assms(3) len by (auto simp: resolve_own_def array_get_def tensor_ok_def split: bind_splits if_splits)
  have n: "nat t < length us" using tensor_ok_nat [OF t] len by simp
  have v: "vs = us \<or> (\<exists>d. vs = us[nat t := (us ! nat t)\<lparr>tt_data := d\<rparr>])"
    using assms(3) by (auto simp: resolve_own_def tensor_ok_get [OF t len] Let_def split: bind_splits if_splits prod.splits option.splits)
  have own: "vs = us[nat t := (us ! nat t)\<lparr>tt_data := A t\<rparr>]" if "t \<in> T"
  proof -
    have a: "rw_tensor g t" "aa_size (ap_allocs p ! nat t) \<noteq> 0" "ResolveAlloc (ap_arena p) (ap_allocs p ! nat t) = (kTfLiteOk, Some (A t))"
      using assms(1) that by (auto simp: addressed_def)
    have "tt_allocation_type (us ! nat t) = kTfLiteArenaRw" using a(1) same_tensors_nth(2) [OF assms(2)] n len by (simp add: rw_tensor_def)
    then show ?thesis using assms(3) a(2,3)
      by (auto simp: resolve_own_def tensor_ok_get [OF t len] array_get_def Let_def split: bind_splits if_splits)
  qed
  have "tt_data (vs ! nat u) = A u \<or> tt_data (vs ! nat u) = tt_data (us ! nat u)" if u: "u \<in> T" for u
  proof (cases "u = t")
    case False
    then have "nat t \<noteq> nat u" using assms(1) u t by (metis addressed_def tensor_ok_nat)
    then show ?thesis using v by auto
  qed (use own u n in simp)
  moreover have "same_tensors (gi_tensors g) vs" using v assms(2) same_tensors_data by metis
  ultimately show ?thesis using own n by (simp add: resolution_def)
qed

lemma ResolveTensorAllocation_addressed:
  assumes "ResolveTensorAllocation p t us = Some y" "addressed g p T A" "same_tensors (gi_tensors g) us"
  shows "resolution g T A us (snd y) \<and> (t \<in> T \<longrightarrow> tt_data (snd y ! nat t) = A t)"
  using assms
proof (induction p t us y rule: ResolveTensorAllocation.raw_induct [rotated, consumes 1])
  case (1 R p t us y)
  let ?s = "FindSharedTensor p t"
  have len: "length us = length (gi_tensors g)" by (rule same_tensors_nth(1) [OF 1(4)])
  from 1(2) have t: "tensor_ok g t" and s: "tensor_ok g ?s"
    using len by (auto simp: array_get_def tensor_ok_def Let_def split: bind_splits if_splits)
  show ?case
  proof (cases "?s \<noteq> t \<and> AreTensorsAllocatedInSameArena (us ! nat ?s) (us ! nat t)")
    case False
    then have "resolve_own p t us = Some y" using 1(2) by (auto simp: tensor_ok_get [OF t len] tensor_ok_get [OF s len] Let_def split: if_splits)
    then show ?thesis using resolve_own_addressed [OF 1(3,4)] by (cases y) simp
  next
    case True
    then obtain st vs where r: "R p ?s us = Some (st, vs)" and y: "Option.bind (array_get vs ?s) (\<lambda>root'.
        map_option (\<lambda>ts. (kTfLiteOk, ts)) (array_upd vs t (\<lambda>x. x\<lparr>tt_data := tt_data root'\<rparr>))) = Some y"
      using 1(2) by (auto simp: tensor_ok_get [OF t len] tensor_ok_get [OF s len] Let_def split: bind_splits)
    have v: "resolution g T A us vs" using 1(1) [OF r 1(3,4)] by simp
    then have lv: "length vs = length (gi_tensors g)" by (simp add: resolution_def same_tensors_nth(1))
    from y have "snd y = vs[nat t := (vs ! nat t)\<lparr>tt_data := tt_data (vs ! nat ?s)\<rparr>]"
      by (auto simp: tensor_ok_get [OF t lv] tensor_ok_get [OF s lv])
    moreover have "t \<notin> T" using True 1(3) by (auto simp: addressed_def)
    moreover have "nat t \<noteq> nat u" if "u \<in> T" for u using 1(3) that t \<open>t \<notin> T\<close> by (metis addressed_def tensor_ok_nat)
    ultimately show ?thesis using v by (auto simp: resolution_def same_tensors_data)
  qed
qed

lemma resolve_all_addressed:
  assumes "loop_status (ResolveTensorAllocation p) js us = Some (kTfLiteOk, vs)" "addressed g p T A" "same_tensors (gi_tensors g) us"
  shows "same_tensors (gi_tensors g) vs \<and> (\<forall>t \<in> T. (t \<in> set js \<or> tt_data (us ! nat t) = A t) \<longrightarrow> tt_data (vs ! nat t) = A t)"
  using assms(1,3)
proof (induction js arbitrary: us)
  case (Cons j js)
  from Cons.prems(1) obtain ws where w: "ResolveTensorAllocation p j us = Some (kTfLiteOk, ws)"
      "loop_status (ResolveTensorAllocation p) js ws = Some (kTfLiteOk, vs)" by (auto elim: ensure_status_OkD)
  have r: "resolution g T A us ws" "j \<in> T \<longrightarrow> tt_data (ws ! nat j) = A j"
    using ResolveTensorAllocation_addressed [OF w(1) assms(2) Cons.prems(2)] by auto
  then have "same_tensors (gi_tensors g) ws" by (simp add: resolution_def)
  from Cons.IH [OF w(2) this] r show ?case by (auto simp: resolution_def)
qed simp

section \<open>Temporaries\<close>

lemma plan_temporary_keeps:
  assumes "plan_temporary i t p = Some q" "plan_ok g p"
  shows "plan_ok g q \<and> memory_frame p q"
proof -
  from assms(1) obtain ns p1 where 1: "array_set (ap_alloc_node p) t i = Some ns" "queue_tensor i t (p\<lparr>ap_alloc_node := ns\<rparr>) = Some p1"
    and 2: "q = p1 \<or> (\<exists>ds. array_set (ap_dealloc_node p1) t i = Some ds \<and> q = p1\<lparr>ap_dealloc_node := ds\<rparr>)"
    by (auto simp: plan_temporary_def split: bind_splits if_splits)
  have t: "tensor_ok g t" using 1(1) assms(2) by (auto simp: array_set_def plan_ok_def tensor_ok_def split: if_splits)
  have "length ns = length (gi_tensors g)" using array_set_length [OF 1(1)] assms(2) by (simp add: plan_ok_def)
  then have ok: "plan_ok g (p\<lparr>ap_alloc_node := ns\<rparr>)" using assms(2) by (simp add: plan_ok_def)
  have "0 \<le> i \<and> nat i < max (length (gi_nodes g)) 1"
    using 1(2) ok by (auto simp: queue_tensor_def array_upd_def array_get_def plan_ok_def split: bind_splits if_splits)
  from queue_tensor_ok [OF ok t conjunct1 [OF this] conjunct2 [OF this]] 1(2) have "plan_ok g p1 \<and> memory_frame p p1"
    by (auto simp: memory_frame_def)
  then show ?thesis using 2 by (auto simp: plan_ok_def memory_frame_def dest: array_set_length)
qed

lemma memory_frame_trans: "memory_frame p q \<Longrightarrow> memory_frame q r \<Longrightarrow> memory_frame p r"
  by (simp add: memory_frame_def)

lemma plan_temporaries_keeps:
  assumes "plan_temporaries a b g p = Some q" "plan_ok g p"
  shows "plan_ok g q \<and> memory_frame p q"
proof -
  let ?P = "\<lambda>q. plan_ok g q \<and> memory_frame p q"
  have "?P r'" if "loop_opt (plan_temporary i) ts r = Some r'" "?P r" for i ts r r'
    by (rule loop_opt_invariant [of _ _ _ _ ?P, OF that]) (use plan_temporary_keeps memory_frame_trans in blast)
  then show ?thesis
    by (intro loop_opt_invariant [of _ _ _ _ ?P, OF assms(1) [unfolded plan_temporaries_def]]) (use assms(2) in \<open>auto simp: memory_frame_def\<close>)
qed

section \<open>The queue\<close>

definition queued :: "ArenaPlanner \<Rightarrow> int set" where
  "queued p = (\<Union>ts \<in> set (ap_nodes_to_tensors p). set ts)"

lemma sum_tensors_le:
  fixes f :: "int \<Rightarrow> nat"
  assumes "distinct ts" "\<forall>t \<in> set ts. tensor_ok g t"
  shows "sum_list (map f ts) \<le> (\<Sum>k < length (gi_tensors g). f (int k))"
proof -
  have "sum_list (map f ts) = sum f (set ts)" by (rule sum_list_distinct_conv_sum_set [OF assms(1)])
  also have "\<dots> \<le> sum f (int ` {..<length (gi_tensors g)})"
    by (rule sum_mono2) (use assms(2) in \<open>force simp: tensor_ok_def image_iff intro: bexI [of _ "nat _"]\<close>)+
  also have "\<dots> = (\<Sum>k < length (gi_tensors g). f (int k))" by (simp add: sum.reindex)
  finally show ?thesis .
qed

text \<open>The tensors of all nodes, in the order of the hash sets.\<close>

lemma GetTensorsToAllocate_all:
  assumes p: "plan_ok g p" and ord: "\<forall>xs. mset (pe_set_order env xs) = mset xs" and m: "0 < length (gi_nodes g)"
    and run: "GetTensorsToAllocate env 0 (int (length (gi_nodes g)) - 1) p = Some ts"
  shows "set ts = queued p" "\<forall>t \<in> set ts. tensor_ok g t"
    "sum_list (map f ts) \<le> length (gi_nodes g) * (\<Sum>k < length (gi_tensors g). f (int k))"
proof -
  have len: "length (ap_nodes_to_tensors p) = length (gi_nodes g)" using p m by (simp add: plan_ok_def)
  have get: "map (\<lambda>i. map_option (pe_set_order env) (array_get (ap_nodes_to_tensors p) i)) [0..int (length (gi_nodes g)) - 1]
      = map Some (map (pe_set_order env) (ap_nodes_to_tensors p))"
    by (rule nth_equalityI) (auto simp: len array_get_def)
  have ts: "ts = concat (map (pe_set_order env) (ap_nodes_to_tensors p))"
    using run unfolding GetTensorsToAllocate_def get by (simp only: those_Some_map) simp
  have same: "set (pe_set_order env xs) = set xs" for xs using ord by (metis set_mset_mset)
  show "set ts = queued p" by (auto simp: ts queued_def same)
  then show "\<forall>t \<in> set ts. tensor_ok g t" using p by (auto simp: queued_def plan_ok_def)
  let ?b = "\<Sum>k < length (gi_tensors g). f (int k)"
  have each: "sum_list (map f (pe_set_order env xs)) \<le> ?b" if "xs \<in> set (ap_nodes_to_tensors p)" for xs
  proof -
    have "sum_list (map f (pe_set_order env xs)) = sum_list (map f xs)" using ord by (metis mset_map sum_mset_sum_list)
    also have "\<dots> \<le> ?b" using that p by (intro sum_tensors_le) (auto simp: plan_ok_def)
    finally show ?thesis .
  qed
  have "sum_list (map f (concat (map (pe_set_order env) xss))) \<le> length xss * ?b" if "set xss \<subseteq> set (ap_nodes_to_tensors p)" for xss
    using that by (induction xss) (auto simp: each intro: add_mono)
  from this [of "ap_nodes_to_tensors p"] show "sum_list (map f ts) \<le> length (gi_nodes g) * ?b" by (simp add: ts len)
qed

section \<open>All tensors at once\<close>

text \<open>A planner that has just planned a graph.\<close>

definition fresh_plan :: "GraphInfo \<Rightarrow> ArenaPlanner \<Rightarrow> bool" where
  "fresh_plan g p \<longleftrightarrow> plan_ok g p \<and> placeable g p \<and> ap_allocs p = replicate (length (gi_tensors g)) no_alloc
     \<and> ap_last_active_node p = kLastActiveNodeUndefined \<and> ar_high_water_mark (ap_arena p) = 0 \<and> ar_active (ap_arena p) = []"

lemma needs_allocation_rw:
  assumes "tensor_ok g t" "ap_allocs p = replicate (length (gi_tensors g)) no_alloc" "rw_tensor g t"
  shows "needs_allocation p (gi_tensors g) t = Some True"
  using assms tensor_ok_nat [OF assms(1)] by (simp add: needs_allocation_def tensor_ok_get rw_tensor_def no_alloc_def)

lemma sum_list_filter_le: "sum_list (map f (filter P xs)) \<le> sum_list (map (f :: 'a \<Rightarrow> nat) xs)"
  by (induction xs) auto

text \<open>The first allocation after planning: every tensor that needs room and owns its buffer has its place.\<close>

lemma CalculateAllocations_placed:
  assumes p: "fresh_plan g p" and m: "0 < length (gi_nodes g)" "length (gi_nodes g) < 2 ^ 31 - 1"
    and ord: "\<forall>xs. mset (pe_set_order env xs) = mset xs" "\<forall>c xs. mset (pe_sort env c xs) = mset xs"
    and room: "length (gi_nodes g) * (\<Sum>k < length (gi_tensors g). room g p (int k)) < 2 ^ 64"
    and run: "CalculateAllocations env 0 (int (length (gi_nodes g)) - 1) g p = Some (kTfLiteOk, q, js)"
  shows "(\<exists>r < 2 ^ 64. placed g p (set js) r q) \<and> (\<forall>t \<in> queued p. rw_tensor g t \<longrightarrow> t \<in> set js) \<and> (\<forall>t \<in> set js. tensor_ok g t)"
proof -
  let ?b = "int (length (gi_nodes g)) - 1" and ?need = "needs_allocation p (gi_tensors g)"
  let ?p1 = "p\<lparr>ap_arena := ResetAllocs (ap_arena p), ap_last_active_node := 0\<rparr>"
  note f = p [unfolded fresh_plan_def]
  from run obtain ts needed where ts: "GetTensorsToAllocate env 0 ?b p = Some ts" and nd: "filter_opt ?need ts = Some needed"
    by (auto simp: CalculateAllocations_def split: bind_splits)
  note gt = GetTensorsToAllocate_all [OF conjunct1 [OF f] ord(1) m(1) ts]
  have needed: "needed = filter (\<lambda>t. ?need t = Some True) ts" using filter_opt_Some [OF nd] by simp
  let ?js = "CreateTensorAllocationVector env ?p1 (gi_tensors g) needed"
  have last: "0 < ap_last_active_node p" using f by (simp add: kLastActiveNodeUndefined_def)
  have empty: "placed g p {} 0 ?p1" using f by (simp add: placed_def ResetAllocs_def arena_ok_def)
  have cases: "needed = [] \<and> js = [] \<and> q = p\<lparr>ap_last_active_node := ?b\<rparr>
      \<or> js = ?js \<and> (\<exists>q1. loop_status (allocate_tensor (gi_tensors g)) ?js ?p1 = Some (kTfLiteOk, q1) \<and> q = q1\<lparr>ap_last_active_node := ?b\<rparr>)"
    using run last by (auto simp: CalculateAllocations_def ts nd Let_def split: if_splits)
  have js: "mset js = mset needed" using cases ord(2) by (auto simp: CreateTensorAllocationVector_def)
  then have set: "set js = set needed" by (metis set_mset_mset)
  have ok: "\<forall>t \<in> set js. tensor_ok g t" using gt(2) by (simp add: set needed)
  have all: "\<forall>t \<in> queued p. rw_tensor g t \<longrightarrow> t \<in> set js"
    using needs_allocation_rw gt(1,2) f by (auto simp: set needed)
  have "sum_list (map (room g p) js) = sum_list (map (room g p) needed)" using js by (metis mset_map sum_mset_sum_list)
  then have r: "sum_list (map (room g p) js) < 2 ^ 64"
    using sum_list_filter_le [of "room g p" "\<lambda>t. ?need t = Some True" ts] gt(3) [of "room g p"] room by (simp only: needed)
  from cases have "placed g p (set js) (sum_list (map (room g p) js)) q"
  proof
    assume "needed = [] \<and> js = [] \<and> q = p\<lparr>ap_last_active_node := ?b\<rparr>"
    then show ?thesis using f by (simp add: placed_def arena_ok_def)
  next
    assume j: "js = ?js \<and> (\<exists>q1. loop_status (allocate_tensor (gi_tensors g)) ?js ?p1 = Some (kTfLiteOk, q1) \<and> q = q1\<lparr>ap_last_active_node := ?b\<rparr>)"
    then obtain q1 where q1: "loop_status (allocate_tensor (gi_tensors g)) js ?p1 = Some (kTfLiteOk, q1)" "q = q1\<lparr>ap_last_active_node := ?b\<rparr>" by auto
    have "placed g p ({} \<union> set js) (0 + sum_list (map (room g p) js)) q1"
      by (rule allocate_tensors_placed [OF empty _ _ _ q1(1)]) (use ok f r in auto)
    then show ?thesis by (auto simp: q1(2) intro: placed_cong)
  qed
  then show ?thesis using r ok all by blast
qed

text \<open>A place in an arena that is committed has an address within its buffer.\<close>

lemma ResolveAlloc_active:
  assumes "arena_ok a" "x \<in> set (ar_active a)" "0 < aa_size x" "arena_Commit env (a, h) = Some (moved, c, h')"
  shows "ResolveAlloc c x = (kTfLiteOk, Some (map_option (\<lambda>b. b + aa_offset x) (pp_aligned_pointer (rb_buffer (ar_buffer c)))))"
    "aa_offset x + aa_size x \<le> rb_data_size (ar_buffer c)"
proof -
  have "aa_offset x + aa_size x \<le> ar_high_water_mark a" "ar_high_water_mark a < 2 ^ 64" using assms(1,2) by (auto simp: arena_ok_def)
  moreover note arena_Commit_result [OF assms(4)]
  ultimately show "aa_offset x + aa_size x \<le> rb_data_size (ar_buffer c)"
    "ResolveAlloc c x = (kTfLiteOk, Some (map_option (\<lambda>b. b + aa_offset x) (pp_aligned_pointer (rb_buffer (ar_buffer c)))))"
    using assms(3) by (auto simp: ResolveAlloc_def size_add_id)
qed

text \<open>What executing a fresh plan gives: places in the committed arena, and their addresses.\<close>

lemma ExecuteAllocations_placed:
  assumes p: "fresh_plan g p" and m: "0 < length (gi_nodes g)" "length (gi_nodes g) < 2 ^ 31 - 1"
    and ord: "\<forall>xs. mset (pe_set_order env xs) = mset xs" "\<forall>c xs. mset (pe_sort env c xs) = mset xs"
    and room: "length (gi_nodes g) * (\<Sum>k < length (gi_tensors g). room g p (int k)) < 2 ^ 64"
    and run: "ExecuteAllocations env 0 (int (length (gi_nodes g)) - 1) (p, g, h) = Some (kTfLiteOk, q, g', h')"
  shows "\<exists>p2 r p3 h1 moved h2. placed g p2 (queued q) r p3 \<and> r < 2 ^ 64
    \<and> arena_Commit (pe_heap env) (ap_arena p3, h1) = Some (moved, ap_arena q, h2)
    \<and> ap_allocs q = ap_allocs p3 \<and> ap_actual_tensor_id q = ap_actual_tensor_id p3
    \<and> ap_alloc_node q = ap_alloc_node p2 \<and> ap_dealloc_node q = ap_dealloc_node p2
    \<and> (\<forall>t \<in> queued q. ap_actual_tensor_id q t = None \<longrightarrow> rw_tensor g t \<longrightarrow>
         tt_data (gi_tensors g' ! nat t) = map_option (\<lambda>b. b + aa_offset (ap_allocs q ! nat t)) (pp_aligned_pointer (rb_buffer (ar_buffer (ap_arena q)))))"
proof -
  let ?n = "length (gi_tensors g)" and ?b = "int (length (gi_nodes g)) - 1"
  have len: "length (ap_alloc_node p) = ?n" "length (ap_dealloc_node p) = ?n" "length (ap_allocs p) = ?n"
    using p by (auto simp: fresh_plan_def plan_ok_def)
  have rs: "resize_vec (ap_alloc_node p) ?n v = ap_alloc_node p" "resize_vec (ap_dealloc_node p) ?n v = ap_dealloc_node p"
    "resize_vec (ap_allocs p) ?n w = ap_allocs p" for v w by (simp_all add: resize_vec_def len)
  from run obtain p2 p3 js moved vs where 2: "plan_temporaries 0 ?b g p = Some p2"
    and 3: "CalculateAllocations env 0 ?b g p2 = Some (kTfLiteOk, p3, js)" and 4: "planner_Commit env (p3, h) = Some (moved, q, h')"
    and 5: "loop_status (ResolveTensorAllocation q) (if moved then [0..int ?n - 1] else js) (gi_tensors g) = Some (kTfLiteOk, vs)"
    and g': "g' = g\<lparr>gi_tensors := vs\<rparr>"
    by (auto simp: ExecuteAllocations_def len rs Let_def split: bind_splits if_splits)
  have k: "plan_ok g p2" "memory_frame p p2" using plan_temporaries_keeps [OF 2] p by (simp_all add: fresh_plan_def)
  then have f2: "fresh_plan g p2" using p by (auto simp: fresh_plan_def memory_frame_def placeable_def plan_ok_def)
  have "room g p2 = room g p" using k(2) by (simp add: room_def [abs_def] memory_frame_def)
  with CalculateAllocations_placed [OF f2 m ord _ 3] room obtain r where r: "placed g p2 (set js) r p3" "r < 2 ^ 64"
    and js: "\<forall>t \<in> queued p2. rw_tensor g t \<longrightarrow> t \<in> set js" "\<forall>t \<in> set js. tensor_ok g t" by auto
  note c = planner_Commit_result [OF 4]
  obtain mv h1 where cm: "arena_Commit (pe_heap env) (ap_arena p3, h) = Some (mv, ap_arena q, h1)" using c(6) by blast
  have nq: "queued q = queued p2" using c(5) r(1) by (simp add: queued_def placed_def)
  have pq: "placed g p2 (queued q) r p3" using r(1) js(1) unfolding nq placed_def by blast
  let ?T = "{t \<in> queued q. ap_actual_tensor_id q t = None \<and> rw_tensor g t}"
  let ?A = "\<lambda>t. map_option (\<lambda>b. b + aa_offset (ap_allocs q ! nat t)) (pp_aligned_pointer (rb_buffer (ar_buffer (ap_arena q))))"
  have in_js: "t \<in> set js" if "t \<in> ?T" for t using js(1) that nq by simp
  have "addressed g q ?T ?A"
    unfolding addressed_def
  proof (intro ballI)
    fix t assume t: "t \<in> ?T"
    then have x: "ap_allocs p3 ! nat t \<in> set (ar_active (ap_arena p3))" "aa_size (ap_allocs p3 ! nat t) = tt_bytes (gi_tensors g ! nat t)"
      and ok: "arena_ok (ap_arena p3)" using pq c(2) by (auto simp: placed_def alloc_for_def)
    have pos: "0 < aa_size (ap_allocs p3 ! nat t)" using x(2) t by (simp add: rw_tensor_def)
    show "tensor_ok g t \<and> FindSharedTensor q t = t \<and> rw_tensor g t \<and> aa_size (ap_allocs q ! nat t) \<noteq> 0
        \<and> ResolveAlloc (ap_arena q) (ap_allocs q ! nat t) = (kTfLiteOk, Some (?A t))"
      using ResolveAlloc_active(1) [OF ok x(1) pos cm] pos js(2) in_js [OF t] t c(1) by (simp add: FindSharedTensor_def)
  qed
  from resolve_all_addressed [OF 5 this] have "\<forall>t \<in> ?T. t \<in> set (if moved then [0..int ?n - 1] else js) \<longrightarrow> tt_data (vs ! nat t) = ?A t"
    by (simp add: same_tensors_def)
  moreover have "t \<in> set (if moved then [0..int ?n - 1] else js)" if "t \<in> ?T" for t
    using in_js [OF that] js(2) by (auto simp: tensor_ok_def)
  ultimately have "\<forall>t \<in> ?T. tt_data (gi_tensors g' ! nat t) = ?A t" by (simp add: g')
  moreover have "ap_alloc_node q = ap_alloc_node p2" "ap_dealloc_node q = ap_dealloc_node p2" using c(3,4) r(1) by (simp_all add: placed_def)
  ultimately show ?thesis using pq r(2) cm c(1,2) by blast
qed

text \<open>C5: After planning a graph and executing the plan for all its nodes, two tensors that own buffers in the arena
  and are in use at a common node have disjoint buffers: with lifetimes (first node to last node) that meet and sizes
  that are not zero, their addresses are at least the size of the lower one apart, and both buffers lie within the
  arena's. This is for every order in which the library walks hash sets and sorts equal elements, every allocator,
  every alignment of tensors up to the arena's, and sizes whose sum, with an alignment for each, times the number of
  nodes, is below the range of \<^verbatim>\<open>size_t\<close>.\<close>

theorem planned_tensors_apart:
  assumes "graph_ok g" "0 < length (gi_nodes g)"
    and "rb_alignment (ar_buffer (ap_arena p)) = kDefaultArenaAlignment" "0 < ap_tensor_alignment p" "ap_tensor_alignment p \<le> int kDefaultArenaAlignment"
    and "\<forall>xs. mset (pe_set_order env xs) = mset xs" "\<forall>c xs. mset (pe_sort env c xs) = mset xs"
    and "length (gi_nodes g) * (\<Sum>k < length (gi_tensors g). kDefaultArenaAlignment + tt_bytes (gi_tensors g ! k)) < 2 ^ 64"
    and "PlanAllocations g p = Some (kTfLiteOk, q)"
    and "ExecuteAllocations env 0 (int (length (gi_nodes g)) - 1) (q, g, h) = Some (kTfLiteOk, q', g', h')"
    and "t \<in> queued q'" "u \<in> queued q'" "t \<noteq> u" "ap_actual_tensor_id q' t = None" "ap_actual_tensor_id q' u = None"
    and "rw_tensor g t" "rw_tensor g u"
    and "ap_alloc_node q' ! nat t \<le> ap_dealloc_node q' ! nat u" "ap_alloc_node q' ! nat u \<le> ap_dealloc_node q' ! nat t"
    and "tt_data (gi_tensors g' ! nat t) = Some a" "tt_data (gi_tensors g' ! nat u) = Some b"
  shows "(a + tt_bytes (gi_tensors g ! nat t) \<le> b \<or> b + tt_bytes (gi_tensors g ! nat u) \<le> a)
    \<and> BasePointer (ap_arena q') \<le> min a b
    \<and> max (a + tt_bytes (gi_tensors g ! nat t)) (b + tt_bytes (gi_tensors g ! nat u)) \<le> BasePointer (ap_arena q') + fst (GetAllocInfo q')"
proof -
  have q: "memory_frame (ResetAllocations g p) q" "plan_ok g q" using plan_result [OF assms(1), of p] assms(9) by auto
  have al: "to_size (ap_tensor_alignment q) = nat (ap_tensor_alignment p)" "nat (ap_tensor_alignment p) \<le> kDefaultArenaAlignment"
    using q(1) assms(4,5) by (auto simp: memory_frame_def ResetAllocations_def kDefaultArenaAlignment_def to_size_def)
  have fresh: "fresh_plan g q"
    using q al assms(3,4) by (auto simp: fresh_plan_def placeable_def plan_ok_def memory_frame_def ResetAllocations_def ClearPlan_def)
  have "(\<Sum>k < length (gi_tensors g). room g q (int k)) \<le> (\<Sum>k < length (gi_tensors g). kDefaultArenaAlignment + tt_bytes (gi_tensors g ! k))"
    using al by (intro sum_mono) (simp add: room_def)
  with assms(8) have room: "length (gi_nodes g) * (\<Sum>k < length (gi_tensors g). room g q (int k)) < 2 ^ 64"
    by (meson le_less_trans mult_le_mono2)
  have nodes: "length (gi_nodes g) < 2 ^ 31 - 1" using assms(1) by (simp add: graph_ok_def)
  obtain p2 r p3 h1 moved h2 where P: "placed g p2 (queued q') r p3" "arena_Commit (pe_heap env) (ap_arena p3, h1) = Some (moved, ap_arena q', h2)"
    and e: "ap_allocs q' = ap_allocs p3" "ap_actual_tensor_id q' = ap_actual_tensor_id p3" "ap_alloc_node q' = ap_alloc_node p2" "ap_dealloc_node q' = ap_dealloc_node p2"
    and d: "\<forall>t \<in> queued q'. ap_actual_tensor_id q' t = None \<longrightarrow> rw_tensor g t \<longrightarrow>
         tt_data (gi_tensors g' ! nat t) = map_option (\<lambda>b. b + aa_offset (ap_allocs q' ! nat t)) (pp_aligned_pointer (rb_buffer (ar_buffer (ap_arena q'))))"
    using ExecuteAllocations_placed [OF fresh assms(2) nodes assms(6,7) room assms(10)] by blast
  let ?x = "ap_allocs p3 ! nat t" and ?y = "ap_allocs p3 ! nat u"
  have x: "?x \<in> set (ar_active (ap_arena p3))" "alloc_for g p2 t ?x" "?y \<in> set (ar_active (ap_arena p3))" "alloc_for g p2 u ?y"
    and ok: "arena_ok (ap_arena p3)" using P(1) assms(11-17) e(2) by (auto simp: placed_def)
  have "same_time ?x ?y" using x(2,4) assms(18,19) e(3,4) by (auto simp: same_time_def intersects_def alloc_for_def)
  moreover have "?x \<noteq> ?y" using x(2,4) assms(13) by (auto simp: alloc_for_def)
  ultimately have apart: "apart_allocs ?x ?y" using P(1) x(1,3) by (auto simp: placed_def)
  from d assms(11-17,20,21) obtain base where base: "pp_aligned_pointer (rb_buffer (ar_buffer (ap_arena q'))) = Some base"
    and ab: "a = base + aa_offset ?x" "b = base + aa_offset ?y" by (auto simp: e(1))
  have pos: "0 < aa_size ?x" "0 < aa_size ?y" using x(2,4) assms(16,17) by (auto simp: alloc_for_def rw_tensor_def)
  note inside = ResolveAlloc_active(2) [OF ok x(1) pos(1) P(2)] ResolveAlloc_active(2) [OF ok x(3) pos(2) P(2)]
  show ?thesis using apart inside x(2,4) by (auto simp: apart_allocs_def alloc_for_def ab BasePointer_def base GetAllocInfo_def)
qed

text \<open>An environment: sets in the order of insertion, a stable sort, and every block at one address.\<close>

definition sample_heap_env :: heap_env where
  "sample_heap_env = \<lparr>he_has_aligned_alloc = True, he_alloc = (\<lambda>h alignment n. Some 4096), he_junk = (\<lambda>a. 0)\<rparr>"

definition sample_planner_env :: planner_env where
  "sample_planner_env = \<lparr>pe_heap = sample_heap_env, pe_set_order = (\<lambda>xs. xs),
     pe_sort = (\<lambda>less xs. foldr (\<lambda>x ys. takeWhile (\<lambda>y. less y x) ys @ x # dropWhile (\<lambda>y. less y x) ys) xs [])\<rparr>"

definition pair_graph :: GraphInfo where
  "pair_graph = \<lparr>gi_tensors = [sample_tensor, sample_tensor], gi_nodes = [sample_node [0] [1] 0],
     gi_num_total_nodes = 1, gi_node_index = [0], gi_inputs = [0], gi_outputs = [1], gi_variables = []\<rparr>"

definition pair_plan :: ArenaPlanner where
  "pair_plan = (ArenaPlanner_new False 64)\<lparr>ap_allocs := [no_alloc, no_alloc], ap_alloc_node := [0, 0],
     ap_dealloc_node := [kNodeNotAssigned, kNodeNotAssigned], ap_nodes_to_tensors := [[0, 1]], ap_refcounts := [2, 1]\<rparr>"

lemma pair_plan_eq: "PlanAllocations pair_graph (ArenaPlanner_new False 64) = Some (kTfLiteOk, pair_plan)"
  by (simp add: PlanAllocations_def pair_graph_def pair_plan_def plan_reset_def ResetAllocations_def ArenaPlanner_new_def
      SimpleMemoryArena_new_def ClearPlan_def sample_node_def count_used_def count_reference_def array_upd_def array_get_def array_set_def
      plan_input_def planner_allocate_def ensure_status_def queue_tensor_def set_insert_def status_ok_def kTfLiteOptionalTensor_def kNodeNotAssigned_def
      node_uses_def IdentifyInPlaceTensors_def identify_in_place_def kTfLiteInplaceOpNone_def count_shared_def FindSharedTensor_def
      execution_nodes_def plan_node_def plan_output_def plan_use_def upto_rec1 Let_def numeral_2_eq_2)

definition pair_places :: "ArenaAllocWithUsageInterval list" where
  "pair_places = [\<lparr>aa_offset = 0, aa_size = 16, aa_tensor = 0, aa_first_node = 0, aa_last_node = kNodeNotAssigned\<rparr>,
     \<lparr>aa_offset = 64, aa_size = 16, aa_tensor = 1, aa_first_node = 0, aa_last_node = kNodeNotAssigned\<rparr>]"

lemma pair_calculate:
  "\<exists>q. CalculateAllocations sample_planner_env 0 0 pair_graph pair_plan = Some (kTfLiteOk, q, [0, 1])
    \<and> ap_allocs q = pair_places \<and> ap_arena q = (ap_arena pair_plan)\<lparr>ar_active := pair_places, ar_high_water_mark := 80\<rparr>
    \<and> ap_actual_tensor_id q = Map.empty \<and> ap_persistent_arena q = ap_persistent_arena pair_plan
    \<and> ap_alloc_node q = [0, 0] \<and> ap_dealloc_node q = [kNodeNotAssigned, kNodeNotAssigned] \<and> ap_nodes_to_tensors q = [[0, 1]]"
  by (simp add: CalculateAllocations_def GetTensorsToAllocate_def needs_allocation_def pair_graph_def pair_plan_def pair_places_def sample_tensor_def
      sample_planner_env_def CreateTensorAllocationVector_def tensor_compare_def whole_life_def ArenaPlanner_new_def arena_eval
      allocate_tensor_def allocate_rw_def allocate_persistent_def ensure_status_def array_get_def array_set_def ResetAllocs_def
      kLastActiveNodeUndefined_def kNodeNotAssigned_def kDefaultArenaAlignment_def to_size_def)

definition pair_tensor :: "nat \<Rightarrow> TfLiteTensor" where
  "pair_tensor a = \<lparr>tt_allocation_type = kTfLiteArenaRw, tt_bytes = 16, tt_data = Some a\<rparr>"

lemma pair_execute:
  "\<exists>q h. ExecuteAllocations sample_planner_env 0 0 (pair_plan, pair_graph, [])
      = Some (kTfLiteOk, q, pair_graph\<lparr>gi_tensors := [pair_tensor 4096, pair_tensor 4160]\<rparr>, h)
    \<and> ap_actual_tensor_id q = Map.empty \<and> ap_alloc_node q = [0, 0] \<and> ap_dealloc_node q = [kNodeNotAssigned, kNodeNotAssigned]
    \<and> ap_nodes_to_tensors q = [[0, 1]] \<and> BasePointer (ap_arena q) = 4096 \<and> GetAllocInfo q = (80, 0)"
proof -
  obtain q where q: "CalculateAllocations sample_planner_env 0 0 pair_graph pair_plan = Some (kTfLiteOk, q, [0, 1])"
    "ap_allocs q = pair_places" "ap_arena q = (ap_arena pair_plan)\<lparr>ar_active := pair_places, ar_high_water_mark := 80\<rparr>"
    "ap_actual_tensor_id q = Map.empty" "ap_persistent_arena q = ap_persistent_arena pair_plan"
    "ap_alloc_node q = [0, 0]" "ap_dealloc_node q = [kNodeNotAssigned, kNodeNotAssigned]" "ap_nodes_to_tensors q = [[0, 1]]"
    using pair_calculate by blast
  have t: "plan_temporaries 0 0 pair_graph pair_plan = Some pair_plan"
    by (simp add: plan_temporaries_def to_size_def pair_graph_def sample_node_def)
  have r: "pair_plan\<lparr>ap_alloc_node := resize_vec (ap_alloc_node pair_plan) 2 kNodeNotAssigned,
      ap_dealloc_node := resize_vec (ap_dealloc_node pair_plan) 2 kNodeNotAssigned, ap_allocs := resize_vec (ap_allocs pair_plan) 2 no_alloc\<rparr> = pair_plan"
    by (simp add: pair_plan_def resize_vec_def)
  define a where "a = (ap_arena q)\<lparr>ar_buffer := \<lparr>rb_buffer = \<lparr>pp_pointer = Some 4096, pp_aligned_pointer = Some 4096\<rparr>, rb_data_size = 80, rb_alignment = 64\<rparr>, ar_committed := True\<rparr>"
  obtain p4 h where c: "planner_Commit sample_planner_env (q, []) = Some (True, p4, h)" "ap_arena p4 = a" "ap_allocs p4 = pair_places"
    "ap_actual_tensor_id p4 = Map.empty" "ap_alloc_node p4 = [0, 0]" "ap_dealloc_node p4 = [kNodeNotAssigned, kNodeNotAssigned]"
    "ap_nodes_to_tensors p4 = [[0, 1]]" "rb_data_size (ar_buffer (ap_persistent_arena p4)) = 0"
    by (simp add: planner_Commit_def arena_Commit_def Resize_def AlignedRealloc_def AlignedAlloc_def AlignedFree_def fresh_block_def null_pair_def
        sample_planner_env_def sample_heap_env_def q pair_plan_def ArenaPlanner_new_def arena_eval a_def kDefaultArenaAlignment_def)
  have own: "FindSharedTensor p4 t = t" for t by (simp add: FindSharedTensor_def c(4))
  have l: "loop_status (ResolveTensorAllocation p4) [0, 1] [sample_tensor, sample_tensor] = Some (kTfLiteOk, [pair_tensor 4096, pair_tensor 4160])"
    by (simp add: ResolveTensorAllocation.simps own resolve_own_def array_get_def array_set_def ensure_status_def c(2,3) a_def pair_places_def
        ResolveAlloc_def size_add_def sample_tensor_def pair_tensor_def)
  have "ExecuteAllocations sample_planner_env 0 0 (pair_plan, pair_graph, [])
      = Some (kTfLiteOk, p4, pair_graph\<lparr>gi_tensors := [pair_tensor 4096, pair_tensor 4160]\<rparr>, h)"
  proof -
    have "gi_tensors pair_graph = [sample_tensor, sample_tensor]" "length (ap_allocs pair_plan) = 2" by (simp_all add: pair_graph_def pair_plan_def)
    moreover have "[0..1 :: int] = [0, 1]" by (simp add: upto_rec1)
    ultimately show ?thesis using t r q(1) c(1) l by (simp add: ExecuteAllocations_def Let_def numeral_2_eq_2)
  qed
  then show ?thesis using c by (simp add: a_def BasePointer_def GetAllocInfo_def)
qed

lemma sample_sort: "mset (foldr (\<lambda>x ys. takeWhile (\<lambda>y. lt y x) ys @ x # dropWhile (\<lambda>y. lt y x) ys) xs []) = mset xs"
proof (induction xs)
  case (Cons x xs)
  have "mset (takeWhile P ys) + mset (dropWhile P ys) = mset ys" for P and ys :: "'a list"
    by (metis mset_append takeWhile_dropWhile_id)
  then show ?case using Cons by simp
qed simp

theorem planned_tensors_apart_witness:
  "\<exists>q. PlanAllocations pair_graph (ArenaPlanner_new False 64) = Some (kTfLiteOk, pair_plan)
    \<and> (\<exists>g h. ExecuteAllocations sample_planner_env 0 0 (pair_plan, pair_graph, []) = Some (kTfLiteOk, q, g, h)
         \<and> tt_data (gi_tensors g ! 0) = Some 4096 \<and> tt_data (gi_tensors g ! 1) = Some 4160)
    \<and> (4096 + 16 \<le> (4160 :: nat) \<or> 4160 + 16 \<le> (4096 :: nat))
    \<and> BasePointer (ap_arena q) \<le> min 4096 4160 \<and> max (4096 + 16) (4160 + 16) \<le> BasePointer (ap_arena q) + fst (GetAllocInfo q)"
proof -
  obtain q h where e: "ExecuteAllocations sample_planner_env 0 0 (pair_plan, pair_graph, [])
      = Some (kTfLiteOk, q, pair_graph\<lparr>gi_tensors := [pair_tensor 4096, pair_tensor 4160]\<rparr>, h)"
    and f: "ap_actual_tensor_id q = Map.empty" "ap_alloc_node q = [0, 0]" "ap_dealloc_node q = [kNodeNotAssigned, kNodeNotAssigned]"
      "ap_nodes_to_tensors q = [[0, 1]]"
    using pair_execute by blast
  have g: "graph_ok pair_graph" "length (gi_nodes pair_graph) = 1" "gi_tensors pair_graph = [sample_tensor, sample_tensor]"
    by (simp_all add: pair_graph_def sample_node_def graph_ok_def tensor_ok_def kTfLiteOptionalTensor_def kTfLiteInplaceOpNone_def)
  have srt: "\<forall>c xs. mset (pe_sort sample_planner_env c xs) = mset xs"
    unfolding sample_planner_env_def planner_env.simps by (intro allI sample_sort)
  have room: "length (gi_nodes pair_graph) * (\<Sum>k < length (gi_tensors pair_graph). kDefaultArenaAlignment + tt_bytes (gi_tensors pair_graph ! k)) < 2 ^ 64"
    by (simp add: g(2,3) sample_tensor_def kDefaultArenaAlignment_def)
  have e': "ExecuteAllocations sample_planner_env 0 (int (length (gi_nodes pair_graph)) - 1) (pair_plan, pair_graph, [])
      = Some (kTfLiteOk, q, pair_graph\<lparr>gi_tensors := [pair_tensor 4096, pair_tensor 4160]\<rparr>, h)" using e g(2) by simp
  have "(4096 + tt_bytes (gi_tensors pair_graph ! nat 0) \<le> 4160 \<or> 4160 + tt_bytes (gi_tensors pair_graph ! nat 1) \<le> 4096)
    \<and> BasePointer (ap_arena q) \<le> min 4096 4160
    \<and> max (4096 + tt_bytes (gi_tensors pair_graph ! nat 0)) (4160 + tt_bytes (gi_tensors pair_graph ! nat 1)) \<le> BasePointer (ap_arena q) + fst (GetAllocInfo q)"
    by (rule planned_tensors_apart [OF g(1) _ _ _ _ _ srt room pair_plan_eq e'])
      (simp_all add: f g(2,3) queued_def rw_tensor_def sample_tensor_def pair_tensor_def kNodeNotAssigned_def kDefaultArenaAlignment_def
        ArenaPlanner_new_def SimpleMemoryArena_new_def ResizableAlignedBuffer_new_def sample_planner_env_def)
  then show ?thesis using e pair_plan_eq by (auto simp: g(3) sample_tensor_def pair_tensor_def)
qed

end
