(* ===== verification/PlannerTotal.thy ===== *)
theory PlannerTotal
  imports PlannerApart
begin

text \<open>
  Executing a plan succeeds: no index leaves its array, every request is granted, and the resolution of addresses
  ends, since a tensor whose buffer is shared does not itself share one.
\<close>

section \<open>Chains of sharing\<close>

text \<open>No node reads the output of an in-place operator before it or at it.\<close>

definition reads_after_writes :: "GraphInfo \<Rightarrow> bool" where
  "reads_after_writes g \<longleftrightarrow> (\<forall>j < length (gi_nodes g). \<forall>i \<le> j. \<forall>u us. tn_outputs (gi_nodes g ! j) = u # us \<longrightarrow>
     tn_inplace_operator (gi_nodes g ! j) \<noteq> kTfLiteInplaceOpNone \<longrightarrow> u \<notin> set (tn_inputs (gi_nodes g ! i)))"

definition flat :: "ArenaPlanner \<Rightarrow> bool" where
  "flat p \<longleftrightarrow> (\<forall>t s. ap_actual_tensor_id p t = Some s \<longrightarrow> ap_actual_tensor_id p s = None)"

lemma flat_le: "flat p \<Longrightarrow> ap_actual_tensor_id q \<subseteq>\<^sub>m ap_actual_tensor_id p \<Longrightarrow> flat q"
  unfolding flat_def map_le_def by (metis domIff option.distinct(1))

lemma shareable_input_member:
  "shareable_input p g node y u c i ts = Some x \<Longrightarrow> x = - 1 \<or> x \<in> set ts"
proof (induction ts arbitrary: i)
  case (Cons t ts)
  then show ?case by (auto split: bind_splits if_splits)
qed simp

text \<open>After some nodes: the tensors that are shared are inputs of these nodes.\<close>

lemma identify_in_place_cases:
  assumes "identify_in_place g node p = Some q"
  obtains "q = p"
  | u us x where "tn_outputs node = u # us" "tn_inplace_operator node \<noteq> kTfLiteInplaceOpNone" "x \<in> set (tn_inputs node)"
      "q = p\<lparr>ap_actual_tensor_id := (ap_actual_tensor_id p)(u \<mapsto> FindSharedTensor p x)\<rparr>"
proof (cases "q = p")
  case False
  with assms obtain u us x where u: "tn_outputs node = u # us" "tn_inplace_operator node \<noteq> kTfLiteInplaceOpNone" "x \<noteq> - 1"
      "q = p\<lparr>ap_actual_tensor_id := (ap_actual_tensor_id p)(u \<mapsto> FindSharedTensor p x)\<rparr>"
    and x: "\<exists>y c. shareable_input p g node y u c 0 (take kTfLiteMaxSharableOpInputs (tn_inputs node)) = Some x"
    by (auto simp: identify_in_place_def Let_def split: list.splits bind_splits if_splits)
  then have "x \<in> set (tn_inputs node)" using shareable_input_member in_set_takeD by metis
  with u that show ?thesis by blast
qed

lemma identify_flat:
  assumes g: "reads_after_writes g" and run: "IdentifyInPlaceTensors g p = Some q"
  shows "flat q"
proof -
  let ?in = "\<lambda>ns. \<Union>node \<in> set ns. set (tn_inputs node)"
  have "flat r' \<and> ran (ap_actual_tensor_id r') \<subseteq> ?in (gi_nodes g)"
    if "gi_nodes g = pre @ post" "loop_opt (identify_in_place g) post r = Some r'" "flat r" "ran (ap_actual_tensor_id r) \<subseteq> ?in pre" for pre post r r'
    using that
  proof (induction post arbitrary: pre r)
    case (Cons node post)
    from Cons.prems(2) obtain s where s: "identify_in_place g node r = Some s" "loop_opt (identify_in_place g) post s = Some r'"
      by (auto split: bind_splits)
    from s(1) have "flat s \<and> ran (ap_actual_tensor_id s) \<subseteq> ?in (pre @ [node])"
    proof (cases rule: identify_in_place_cases)
      case 1
      then show ?thesis using Cons.prems by auto
    next
      case (2 u us x)
      have "gi_nodes g ! length pre = node" "length pre < length (gi_nodes g)" using Cons.prems(1) by auto
      then have "u \<notin> set (tn_inputs (gi_nodes g ! i))" if "i \<le> length pre" for i using g that 2(1,2) unfolding reads_after_writes_def by blast
      moreover have "\<exists>i \<le> length pre. m = gi_nodes g ! i" if m: "m \<in> set (pre @ [node])" for m
      proof -
        obtain i where "i < Suc (length pre)" "(pre @ [node]) ! i = m" using m unfolding in_set_conv_nth by auto
        then show ?thesis using Cons.prems(1) by (intro exI [of _ i]) (auto simp: nth_append less_Suc_eq)
      qed
      ultimately have u: "u \<notin> ?in (pre @ [node])" by blast
      let ?s = "FindSharedTensor r x"
      have in_s: "?s \<in> ?in (pre @ [node])" using Cons.prems(4) 2(3) by (auto simp: FindSharedTensor_def ran_def split: option.splits)
      have free: "ap_actual_tensor_id r ?s = None" using Cons.prems(3) by (auto simp: FindSharedTensor_def flat_def split: option.splits)
      have "?s \<noteq> u" using in_s u by blast
      moreover have "t \<noteq> u" if "ap_actual_tensor_id r v = Some t" for v t using that Cons.prems(4) u by (auto simp: ran_def)
      ultimately have "flat s" using Cons.prems(3) free by (auto simp: flat_def 2(4))
      moreover have "ran (ap_actual_tensor_id s) \<subseteq> insert ?s (ran (ap_actual_tensor_id r))" by (auto simp: 2(4) ran_def)
      ultimately show ?thesis using Cons.prems(4) in_s by auto
    qed
    then show ?case using Cons.IH [of "pre @ [node]" s] Cons.prems(1) s(2) by simp
  qed auto
  from this [of "[]"] run show ?thesis by (simp add: IdentifyInPlaceTensors_def flat_def)
qed

text \<open>The loop over the nodes leaves the sharing as it is.\<close>

lemma loop_status_keeps:
  assumes "\<And>i s t st. body i s = Some (st, t) \<Longrightarrow> f t = f s" "loop_status body js s = Some (st, t)"
  shows "f t = f s"
  using assms(2)
proof (induction js arbitrary: s)
  case (Cons j js)
  then obtain st' u where "body j s = Some (st', u)" "u = t \<or> loop_status body js u = Some (st, t)"
    by (auto simp: ensure_status_def split: bind_splits if_splits)
  then show ?case using Cons.IH assms(1) by metis
qed simp

lemma plan_output_sharing: "plan_output i t p = Some (st, q) \<Longrightarrow> ap_actual_tensor_id q = ap_actual_tensor_id p"
  by (auto simp: plan_output_def queue_tensor_def planner_allocate_def split: bind_splits if_splits)

lemma plan_use_sharing: "plan_use i t s = Some (st, s') \<Longrightarrow> ap_actual_tensor_id (fst s') = ap_actual_tensor_id (fst s)"
  by (auto simp: plan_use_def planner_deallocate_def Let_def split: bind_splits if_splits prod.splits)

lemma plan_node_sharing:
  assumes "plan_node x s = Some (st, s')"
  shows "ap_actual_tensor_id (fst s') = ap_actual_tensor_id (fst s)"
proof -
  obtain i node p rc where x: "x = (i, node)" "s = (p, rc)" by (metis surj_pair)
  with assms obtain st1 p1 where 1: "loop_status (plan_output i) (tn_outputs node) p = Some (st1, p1)"
    and 2: "fst s' = p1 \<or> loop_status (plan_use i) (tn_inputs node) (p1, rc) = Some (st, s')"
    by (auto simp: plan_node_def split: bind_splits if_splits)
  have "ap_actual_tensor_id p1 = ap_actual_tensor_id p" by (rule loop_status_keeps [OF plan_output_sharing 1])
  moreover have "ap_actual_tensor_id (fst s') = ap_actual_tensor_id p1"
  proof (cases "fst s' = p1")
    case False
    with 2 have "loop_status (plan_use i) (tn_inputs node) (p1, rc) = Some (st, s')" by blast
    from loop_status_keeps [where f = "\<lambda>s. ap_actual_tensor_id (fst s)", OF plan_use_sharing this] show ?thesis by simp
  qed simp
  ultimately show ?thesis by (simp add: x(2))
qed

lemma plan_flat:
  assumes "reads_after_writes g" "PlanAllocations g p = Some (kTfLiteOk, q)"
  shows "flat q"
proof -
  from assms(2) obtain p4 p5 rc rc' where 5: "IdentifyInPlaceTensors g p4 = Some p5"
    and l: "loop_status plan_node (execution_nodes g) (p5, rc) = Some (kTfLiteOk, q, rc')"
    by (auto simp: PlanAllocations_def elim!: ensure_status_OkD split: bind_splits)
  have "ap_actual_tensor_id q = ap_actual_tensor_id p5"
    using loop_status_keeps [where f = "\<lambda>s. ap_actual_tensor_id (fst s)", OF plan_node_sharing l] by simp
  then show ?thesis using identify_flat [OF assms(1) 5] by (simp add: flat_def)
qed

section \<open>Temporaries\<close>

lemma plan_temporary_total:
  assumes "plan_ok g p" "tensor_ok g t" "i < length (gi_nodes g)"
  shows "\<exists>q. plan_temporary (int i) t p = Some q \<and> plan_ok g q \<and> memory_frame p q \<and> ap_actual_tensor_id q = ap_actual_tensor_id p"
proof -
  let ?p = "p\<lparr>ap_alloc_node := (ap_alloc_node p)[nat t := int i]\<rparr>"
  have ok: "plan_ok g ?p" using assms(1) by (simp add: plan_ok_def)
  from queue_tensor_ok(1) [OF this assms(2), of "int i"] assms(3) obtain ns where
    "queue_tensor (int i) t ?p = Some (?p\<lparr>ap_nodes_to_tensors := ns\<rparr>)" by auto
  then have "\<exists>q. plan_temporary (int i) t p = Some q \<and> ap_actual_tensor_id q = ap_actual_tensor_id p"
    using assms(1,2) by (auto simp: plan_temporary_def plan_ok_def tensor_ok_get)
  then show ?thesis using plan_temporary_keeps assms(1) by blast
qed

lemma plan_temporaries_total:
  assumes "plan_ok g p" "\<forall>node \<in> set (gi_nodes g). \<forall>t \<in> set (tn_temporaries node). tensor_ok g t"
  shows "\<exists>q. plan_temporaries a b g p = Some q \<and> plan_ok g q \<and> memory_frame p q \<and> ap_actual_tensor_id q = ap_actual_tensor_id p"
proof -
  let ?P = "\<lambda>q. plan_ok g q \<and> memory_frame p q \<and> ap_actual_tensor_id q = ap_actual_tensor_id p"
  have inner: "\<exists>r'. loop_opt (plan_temporary (int i)) (tn_temporaries (gi_nodes g ! i)) r = Some r' \<and> ?P r'"
    if "i < length (gi_nodes g)" "?P r" for i r
  proof (rule loop_opt_prefix [where P = "\<lambda>_ _. ?P"])
    fix pre t post s assume "tn_temporaries (gi_nodes g ! i) = pre @ t # post" "?P s"
    then show "\<exists>s'. plan_temporary (int i) t s = Some s' \<and> ?P s'"
      using plan_temporary_total [of g s t i] assms(2) that(1) memory_frame_trans by (metis in_set_conv_decomp nth_mem)
  qed (rule that(2))
  have "\<exists>q. loop_opt (\<lambda>i. loop_opt (plan_temporary (int i)) (tn_temporaries (gi_nodes g ! i)))
      [to_size a ..< min (Suc (to_size b)) (length (gi_nodes g))] p = Some q \<and> ?P q"
  proof (rule loop_opt_prefix [where P = "\<lambda>_ _. ?P"])
    fix pre i post s assume "[to_size a ..< min (Suc (to_size b)) (length (gi_nodes g))] = pre @ i # post" "?P s"
    then have "i \<in> set [to_size a ..< min (Suc (to_size b)) (length (gi_nodes g))]" by simp
    then show "\<exists>s'. loop_opt (plan_temporary (int i)) (tn_temporaries (gi_nodes g ! i)) s = Some s' \<and> ?P s'"
      using inner [OF _ \<open>?P s\<close>] by simp
  qed (use assms(1) in \<open>simp add: memory_frame_def\<close>)
  then show ?thesis by (simp add: plan_temporaries_def)
qed

section \<open>Requests\<close>

text \<open>Every tensor's place is below the high-water mark of its arena.\<close>

definition covered :: "GraphInfo \<Rightarrow> ArenaPlanner \<Rightarrow> bool" where
  "covered g p \<longleftrightarrow> length (ap_allocs p) = length (gi_tensors g) \<and> (\<forall>k < length (gi_tensors g).
     let n = size_add (aa_offset (ap_allocs p ! k)) (aa_size (ap_allocs p ! k))
     in (tt_allocation_type (gi_tensors g ! k) = kTfLiteArenaRw \<longrightarrow> n \<le> ar_high_water_mark (ap_arena p))
        \<and> (tt_allocation_type (gi_tensors g ! k) = kTfLiteArenaRwPersistent \<longrightarrow> n \<le> ar_high_water_mark (ap_persistent_arena p)))"

text \<open>What placing leaves of a planner: the sharing shrinks, the buffers stay.\<close>

definition places :: "ArenaPlanner \<Rightarrow> ArenaPlanner \<Rightarrow> bool" where
  "places p q \<longleftrightarrow> ap_alloc_node q = ap_alloc_node p \<and> ap_dealloc_node q = ap_dealloc_node p \<and> ap_tensor_alignment q = ap_tensor_alignment p
     \<and> ar_buffer (ap_arena q) = ar_buffer (ap_arena p) \<and> ar_buffer (ap_persistent_arena q) = ar_buffer (ap_persistent_arena p)
     \<and> ap_actual_tensor_id q \<subseteq>\<^sub>m ap_actual_tensor_id p"

lemma places_trans: "places p q \<Longrightarrow> places q r \<Longrightarrow> places p r"
  by (auto simp: places_def intro: map_le_trans)

lemma Allocate_total:
  assumes "0 < alignment" "alignment \<le> rb_alignment (ar_buffer a)"
  shows "\<exists>x b. Allocate alignment n t f l (old, a) = Some (kTfLiteOk, x, b) \<and> ar_buffer b = ar_buffer a
    \<and> ar_high_water_mark a \<le> ar_high_water_mark b \<and> size_add (aa_offset x) (aa_size x) \<le> ar_high_water_mark b"
  using assms by (auto simp: Allocate_def Let_def size_add_def split: prod.splits)

definition aligned_for :: "ArenaPlanner \<Rightarrow> bool" where
  "aligned_for p \<longleftrightarrow> 0 < to_size (ap_tensor_alignment p) \<and> to_size (ap_tensor_alignment p) \<le> rb_alignment (ar_buffer (ap_arena p))
     \<and> to_size (ap_tensor_alignment p) \<le> rb_alignment (ar_buffer (ap_persistent_arena p))"

lemma allocate_rw_total:
  assumes c: "covered g p" and p: "placeable g p" and a: "aligned_for p" and t: "tensor_ok g t"
  shows "\<exists>q. allocate_rw (gi_tensors g ! nat t) t p = Some (kTfLiteOk, q) \<and> covered g q \<and> places p q \<and> ap_actual_tensor_id q = ap_actual_tensor_id p"
proof (cases "tt_allocation_type (gi_tensors g ! nat t) = kTfLiteArenaRw")
  case True
  let ?al = "to_size (ap_tensor_alignment p)" and ?n = "tt_bytes (gi_tensors g ! nat t)"
  have len: "length (ap_alloc_node p) = length (gi_tensors g)" "length (ap_dealloc_node p) = length (gi_tensors g)"
    "length (ap_allocs p) = length (gi_tensors g)" using p c by (auto simp: placeable_def covered_def)
  obtain x b where A: "Allocate ?al ?n t (ap_alloc_node p ! nat t) (ap_dealloc_node p ! nat t) (ap_allocs p ! nat t, ap_arena p) = Some (kTfLiteOk, x, b)"
    "ar_buffer b = ar_buffer (ap_arena p)" "ar_high_water_mark (ap_arena p) \<le> ar_high_water_mark b"
    "size_add (aa_offset x) (aa_size x) \<le> ar_high_water_mark b" using Allocate_total a unfolding aligned_for_def by metis
  let ?q = "p\<lparr>ap_arena := b, ap_allocs := (ap_allocs p)[nat t := x]\<rparr>"
  have "allocate_rw (gi_tensors g ! nat t) t p = Some (kTfLiteOk, ?q)" using True A(1) by (simp add: allocate_rw_def tensor_ok_get [OF t] len)
  moreover have "covered g ?q" using c A(3,4) True tensor_ok_nat [OF t] by (auto simp: covered_def Let_def nth_list_update intro: le_trans)
  ultimately show ?thesis using A(2) by (simp add: places_def)
qed (use c in \<open>simp add: allocate_rw_def places_def\<close>)

lemma allocate_persistent_total:
  assumes c: "covered g p" and p: "placeable g p" and a: "aligned_for p" and t: "tensor_ok g t"
  shows "\<exists>q. allocate_persistent (gi_tensors g ! nat t) t p = Some (kTfLiteOk, q) \<and> covered g q \<and> places p q"
proof (cases "tt_allocation_type (gi_tensors g ! nat t) = kTfLiteArenaRwPersistent
    \<and> aa_size (ap_allocs p ! nat t) = 0 \<and> 0 < tt_bytes (gi_tensors g ! nat t)")
  case True
  let ?al = "to_size (ap_tensor_alignment p)" and ?n = "tt_bytes (gi_tensors g ! nat t)"
  have len: "length (ap_alloc_node p) = length (gi_tensors g)" "length (ap_allocs p) = length (gi_tensors g)"
    using p c by (auto simp: placeable_def covered_def)
  obtain x b where A: "Allocate ?al ?n t (ap_alloc_node p ! nat t) (2 ^ 31 - 1) (ap_allocs p ! nat t, ap_persistent_arena p) = Some (kTfLiteOk, x, b)"
    "ar_buffer b = ar_buffer (ap_persistent_arena p)" "ar_high_water_mark (ap_persistent_arena p) \<le> ar_high_water_mark b"
    "size_add (aa_offset x) (aa_size x) \<le> ar_high_water_mark b" using Allocate_total a unfolding aligned_for_def by metis
  let ?q = "p\<lparr>ap_persistent_arena := b, ap_allocs := (ap_allocs p)[nat t := x]\<rparr>"
  have "allocate_persistent (gi_tensors g ! nat t) t p = Some (kTfLiteOk, ?q)"
    using True A(1) by (simp add: allocate_persistent_def tensor_ok_get [OF t] len)
  moreover have "covered g ?q" using c A(3,4) True tensor_ok_nat [OF t] by (auto simp: covered_def Let_def nth_list_update intro: le_trans)
  ultimately show ?thesis using A(2) by (auto simp: places_def)
next
  case False
  have "length (ap_allocs p) = length (gi_tensors g)" using c by (simp add: covered_def)
  then show ?thesis using False c by (auto simp: allocate_persistent_def places_def tensor_ok_get [OF t])
qed

lemma places_kept:
  "places p q \<Longrightarrow> placeable g p \<Longrightarrow> placeable g q" "places p q \<Longrightarrow> aligned_for p \<Longrightarrow> aligned_for q"
  by (simp_all add: places_def placeable_def aligned_for_def)

lemma allocate_tensor_total:
  assumes c: "covered g p" and p: "placeable g p" "aligned_for p" "roots_ok g p" and t: "tensor_ok g t"
  shows "\<exists>q. allocate_tensor (gi_tensors g) t p = Some (kTfLiteOk, q) \<and> covered g q \<and> places p q"
proof -
  let ?place = "\<lambda>p. ensure_status (allocate_rw (gi_tensors g ! nat t) t p) (allocate_persistent (gi_tensors g ! nat t) t)"
  have place: "\<exists>q. ?place r = Some (kTfLiteOk, q) \<and> covered g q \<and> places r q" if r: "covered g r" "placeable g r" "aligned_for r" for r
  proof -
    from allocate_rw_total [OF r t] obtain q where q: "allocate_rw (gi_tensors g ! nat t) t r = Some (kTfLiteOk, q)" "covered g q" "places r q" by blast
    from allocate_persistent_total [OF q(2) places_kept(1) [OF q(3) r(2)] places_kept(2) [OF q(3) r(3)] t] q(1,3) show ?thesis
      by (auto simp: ensure_status_def intro: places_trans)
  qed
  show ?thesis
  proof (cases "ap_actual_tensor_id p t")
    case None
    then show ?thesis using place [OF c p(1,2)] by (simp add: allocate_tensor_def tensor_ok_get [OF t])
  next
    case (Some s)
    then have s: "tensor_ok g s" using p(3) by (auto simp: roots_ok_def)
    let ?r = "p\<lparr>ap_actual_tensor_id := (ap_actual_tensor_id p)(t := None)\<rparr>"
    have "covered g ?r" "placeable g ?r" "aligned_for ?r" using c p by (simp_all add: covered_def placeable_def aligned_for_def)
    moreover have "places p ?r" by (auto simp: places_def map_le_def)
    ultimately have "\<exists>q. ?place ?r = Some (kTfLiteOk, q) \<and> covered g q \<and> places p q" using place places_trans by meson
    then show ?thesis using Some c by (auto simp: allocate_tensor_def tensor_ok_get [OF t] tensor_ok_get [OF s] places_def)
  qed
qed

lemma roots_ok_le: "roots_ok g p \<Longrightarrow> ap_actual_tensor_id q \<subseteq>\<^sub>m ap_actual_tensor_id p \<Longrightarrow> roots_ok g q"
  unfolding roots_ok_def map_le_def by (metis domIff option.distinct(1))

lemma allocate_tensors_total:
  assumes "covered g p" "placeable g p" "aligned_for p" "roots_ok g p" "\<forall>t \<in> set ts. tensor_ok g t"
  shows "\<exists>q. loop_status (allocate_tensor (gi_tensors g)) ts p = Some (kTfLiteOk, q) \<and> covered g q \<and> places p q"
proof (rule loop_status_total [where P = "\<lambda>_ _ q. covered g q \<and> places p q"])
  fix pre t post s assume s: "ts = pre @ t # post" "covered g s \<and> places p s"
  then have "roots_ok g s" using roots_ok_le [OF assms(4)] by (simp add: places_def)
  then show "\<exists>s'. allocate_tensor (gi_tensors g) t s = Some (kTfLiteOk, s') \<and> covered g s' \<and> places p s'"
    using allocate_tensor_total [of g s t] s assms(2,3,5) places_kept places_trans by (metis in_set_conv_decomp)
qed (use assms(1) in \<open>simp add: places_def\<close>)

lemma filter_opt_total: "\<forall>x \<in> set xs. P x \<noteq> None \<Longrightarrow> \<exists>ys. filter_opt P xs = Some ys \<and> set ys \<subseteq> set xs"
  by (induction xs) fastforce+

lemma GetTensorsToAllocate_total:
  assumes "plan_ok g p" "0 < length (gi_nodes g)"
  shows "\<exists>ts. GetTensorsToAllocate env 0 (int (length (gi_nodes g)) - 1) p = Some ts"
proof -
  have len: "length (ap_nodes_to_tensors p) = length (gi_nodes g)" using assms by (simp add: plan_ok_def)
  have "map (\<lambda>i. map_option (pe_set_order env) (array_get (ap_nodes_to_tensors p) i)) [0..int (length (gi_nodes g)) - 1]
      = map Some (map (pe_set_order env) (ap_nodes_to_tensors p))"
    by (rule nth_equalityI) (auto simp: len array_get_def)
  then show ?thesis unfolding GetTensorsToAllocate_def by (simp only: those_Some_map) simp
qed

lemma CalculateAllocations_total:
  assumes p: "fresh_plan g p" "aligned_for p" "roots_ok g p" and m: "0 < length (gi_nodes g)"
    and ord: "\<forall>xs. mset (pe_set_order env xs) = mset xs" "\<forall>c xs. mset (pe_sort env c xs) = mset xs"
  shows "\<exists>q js. CalculateAllocations env 0 (int (length (gi_nodes g)) - 1) g p = Some (kTfLiteOk, q, js)
    \<and> covered g q \<and> places p q \<and> (\<forall>t \<in> set js. tensor_ok g t)"
proof -
  let ?b = "int (length (gi_nodes g)) - 1" and ?need = "needs_allocation p (gi_tensors g)"
  let ?p1 = "p\<lparr>ap_arena := ResetAllocs (ap_arena p), ap_last_active_node := 0\<rparr>"
  note f = p(1) [unfolded fresh_plan_def]
  obtain ts where ts: "GetTensorsToAllocate env 0 ?b p = Some ts" using GetTensorsToAllocate_total [OF conjunct1 [OF f] m] by blast
  have ok: "\<forall>t \<in> set ts. tensor_ok g t" by (rule GetTensorsToAllocate_all(2) [OF conjunct1 [OF f] ord(1) m ts])
  have "\<forall>t \<in> set ts. ?need t \<noteq> None" using ok f by (auto simp: needs_allocation_def tensor_ok_get)
  then obtain needed where nd: "filter_opt ?need ts = Some needed" "set needed \<subseteq> set ts" using filter_opt_total by metis
  let ?js = "CreateTensorAllocationVector env ?p1 (gi_tensors g) needed"
  have js: "\<forall>t \<in> set ?js. tensor_ok g t" using ok nd(2) ord(2) unfolding CreateTensorAllocationVector_def by (metis set_mset_mset subsetD)
  have c: "covered g p" "covered g ?p1" using f by (simp_all add: covered_def no_alloc_def size_add_def)
  have "placeable g ?p1" "aligned_for ?p1" "roots_ok g ?p1" using f p by (simp_all add: placeable_def aligned_for_def roots_ok_def ResetAllocs_def)
  from allocate_tensors_total [OF c(2) this js] obtain q where
    q: "loop_status (allocate_tensor (gi_tensors g)) ?js ?p1 = Some (kTfLiteOk, q)" "covered g q" "places ?p1 q" by blast
  have last: "0 < ap_last_active_node p" using f by (simp add: kLastActiveNodeUndefined_def)
  show ?thesis
  proof (cases "needed = []")
    case True
    then show ?thesis using c(1) by (simp add: CalculateAllocations_def ts nd(1) covered_def places_def)
  next
    case False
    then show ?thesis using last js q
      by (auto simp: CalculateAllocations_def ts nd(1) Let_def covered_def places_def ResetAllocs_def)
  qed
qed

section \<open>Addresses\<close>

text \<open>Every tensor's place is within the committed buffer of its arena.\<close>

definition within_buffers :: "GraphInfo \<Rightarrow> ArenaPlanner \<Rightarrow> bool" where
  "within_buffers g p \<longleftrightarrow> length (ap_allocs p) = length (gi_tensors g) \<and> ar_committed (ap_arena p) \<and> ar_committed (ap_persistent_arena p)
     \<and> (\<forall>k < length (gi_tensors g).
          let n = size_add (aa_offset (ap_allocs p ! k)) (aa_size (ap_allocs p ! k))
          in (tt_allocation_type (gi_tensors g ! k) = kTfLiteArenaRw \<longrightarrow> n \<le> rb_data_size (ar_buffer (ap_arena p)))
             \<and> (tt_allocation_type (gi_tensors g ! k) = kTfLiteArenaRwPersistent \<longrightarrow> n \<le> rb_data_size (ar_buffer (ap_persistent_arena p))))"

definition no_buffer :: "SimpleMemoryArena \<Rightarrow> bool" where
  "no_buffer a \<longleftrightarrow> rb_data_size (ar_buffer a) = 0 \<and> pp_pointer (rb_buffer (ar_buffer a)) = None"

lemma arena_Commit_total: "no_buffer a \<Longrightarrow> \<exists>m b h'. arena_Commit env (a, h) = Some (m, b, h')"
  by (auto simp: no_buffer_def arena_Commit_def Resize_def AlignedRealloc_def AlignedFree_def split: prod.splits)

lemma planner_Commit_total:
  assumes "covered g p" "no_buffer (ap_arena p)" "no_buffer (ap_persistent_arena p)"
  shows "\<exists>moved q h'. planner_Commit env (p, h) = Some (moved, q, h') \<and> within_buffers g q \<and> ap_actual_tensor_id q = ap_actual_tensor_id p"
proof -
  obtain m a h1 where 1: "arena_Commit (pe_heap env) (ap_arena p, h) = Some (m, a, h1)" using arena_Commit_total [OF assms(2)] by blast
  obtain n b h2 where 2: "arena_Commit (pe_heap env) (ap_persistent_arena p, h1) = Some (n, b, h2)" using arena_Commit_total [OF assms(3)] by blast
  show ?thesis using assms(1) arena_Commit_result [OF 1] arena_Commit_result [OF 2]
    by (auto simp: planner_Commit_def 1 2 covered_def within_buffers_def Let_def intro: le_trans)
qed

lemma resolve_own_total:
  assumes w: "within_buffers g p" and us: "same_tensors (gi_tensors g) us" and t: "tensor_ok g t"
  shows "\<exists>vs. resolve_own p t us = Some (kTfLiteOk, vs) \<and> same_tensors (gi_tensors g) vs"
proof -
  have k: "nat t < length (gi_tensors g)" using tensor_ok_nat [OF t] by simp
  have len: "length us = length (gi_tensors g)" "length (ap_allocs p) = length (gi_tensors g)"
    using same_tensors_nth(1) [OF us] w by (simp_all add: within_buffers_def)
  have type: "tt_allocation_type (us ! nat t) = tt_allocation_type (gi_tensors g ! nat t)" by (rule same_tensors_nth(2) [OF us k])
  have "\<exists>d. ResolveAlloc (ap_arena p) (ap_allocs p ! nat t) = (kTfLiteOk, Some d)" if "tt_allocation_type (us ! nat t) = kTfLiteArenaRw"
    using that type w k by (auto simp: ResolveAlloc_def within_buffers_def Let_def)
  moreover have "\<exists>d. ResolveAlloc (ap_persistent_arena p) (ap_allocs p ! nat t) = (kTfLiteOk, Some d)" if "tt_allocation_type (us ! nat t) = kTfLiteArenaRwPersistent"
    using that type w k by (auto simp: ResolveAlloc_def within_buffers_def Let_def)
  ultimately show ?thesis using us
    by (auto simp: resolve_own_def tensor_ok_get [OF t] len Let_def same_tensors_data)
qed

lemma ResolveTensorAllocation_total:
  assumes w: "within_buffers g p" and r: "roots_ok g p" "flat p" and us: "same_tensors (gi_tensors g) us" and t: "tensor_ok g t"
  shows "\<exists>vs. ResolveTensorAllocation p t us = Some (kTfLiteOk, vs) \<and> same_tensors (gi_tensors g) vs"
proof -
  let ?s = "FindSharedTensor p t"
  have s: "tensor_ok g ?s" by (rule FindSharedTensor_ok [OF r(1) t])
  have len: "length us = length (gi_tensors g)" by (rule same_tensors_nth(1) [OF us])
  have root: "ResolveTensorAllocation p u us = resolve_own p u us" if "FindSharedTensor p u = u" "tensor_ok g u" for u
    using that by (subst ResolveTensorAllocation.simps) (simp add: tensor_ok_get len)
  show ?thesis
  proof (cases "?s \<noteq> t \<and> AreTensorsAllocatedInSameArena (us ! nat ?s) (us ! nat t)")
    case False
    then show ?thesis using resolve_own_total [OF w us t]
      by (subst ResolveTensorAllocation.simps) (auto simp: tensor_ok_get [OF t] tensor_ok_get [OF s] len Let_def)
  next
    case True
    have "FindSharedTensor p ?s = ?s" using r(2) by (auto simp: FindSharedTensor_def flat_def split: option.splits)
    from root [OF this s] resolve_own_total [OF w us s] obtain vs where
      vs: "ResolveTensorAllocation p ?s us = Some (kTfLiteOk, vs)" "same_tensors (gi_tensors g) vs" by auto
    have lv: "length vs = length (gi_tensors g)" by (rule same_tensors_nth(1) [OF vs(2)])
    show ?thesis using True vs
      by (subst ResolveTensorAllocation.simps) (simp add: tensor_ok_get [OF t] tensor_ok_get [OF s] len lv Let_def same_tensors_data)
  qed
qed

section \<open>Executing\<close>

lemma ExecuteAllocations_total:
  assumes p: "fresh_plan g p" "aligned_for p" "roots_ok g p" "flat p" and b: "no_buffer (ap_arena p)" "no_buffer (ap_persistent_arena p)"
    and m: "0 < length (gi_nodes g)" "\<forall>node \<in> set (gi_nodes g). \<forall>t \<in> set (tn_temporaries node). tensor_ok g t"
    and ord: "\<forall>xs. mset (pe_set_order env xs) = mset xs" "\<forall>c xs. mset (pe_sort env c xs) = mset xs"
  shows "\<exists>q g' h'. ExecuteAllocations env 0 (int (length (gi_nodes g)) - 1) (p, g, h) = Some (kTfLiteOk, q, g', h')"
proof -
  let ?n = "length (gi_tensors g)" and ?b = "int (length (gi_nodes g)) - 1"
  have len: "length (ap_alloc_node p) = ?n" "length (ap_dealloc_node p) = ?n" "length (ap_allocs p) = ?n"
    using p by (auto simp: fresh_plan_def plan_ok_def)
  have rs: "resize_vec (ap_alloc_node p) ?n v = ap_alloc_node p" "resize_vec (ap_dealloc_node p) ?n v = ap_dealloc_node p"
    "resize_vec (ap_allocs p) ?n w = ap_allocs p" for v w by (simp_all add: resize_vec_def len)
  obtain p2 where 2: "plan_temporaries 0 ?b g p = Some p2" "plan_ok g p2" "memory_frame p p2" "ap_actual_tensor_id p2 = ap_actual_tensor_id p"
    using plan_temporaries_total [OF _ m(2), of p 0 ?b] p(1) by (auto simp: fresh_plan_def)
  have f: "fresh_plan g p2" "aligned_for p2" "roots_ok g p2" "flat p2"
    using p 2 by (auto simp: fresh_plan_def memory_frame_def placeable_def plan_ok_def aligned_for_def roots_ok_def flat_def)
  obtain p3 js where 3: "CalculateAllocations env 0 ?b g p2 = Some (kTfLiteOk, p3, js)" "covered g p3" "places p2 p3" "\<forall>t \<in> set js. tensor_ok g t"
    using CalculateAllocations_total [OF f(1-3) m(1) ord] by blast
  have "no_buffer (ap_arena p3)" "no_buffer (ap_persistent_arena p3)" using b 2(3) 3(3) by (simp_all add: no_buffer_def places_def memory_frame_def)
  from planner_Commit_total [OF 3(2) this] obtain moved q h' where
    4: "planner_Commit env (p3, h) = Some (moved, q, h')" "within_buffers g q" "ap_actual_tensor_id q = ap_actual_tensor_id p3" by blast
  have le: "ap_actual_tensor_id q \<subseteq>\<^sub>m ap_actual_tensor_id p2" using 3(3) 4(3) by (simp add: places_def)
  note sh = roots_ok_le [OF f(3) le] flat_le [OF f(4) le]
  let ?js = "if moved then [0..int ?n - 1] else js"
  have ok: "\<forall>t \<in> set ?js. tensor_ok g t" using 3(4) by (auto simp: tensor_ok_def)
  have "\<exists>vs. loop_status (ResolveTensorAllocation q) ?js (gi_tensors g) = Some (kTfLiteOk, vs) \<and> same_tensors (gi_tensors g) vs"
  proof (rule loop_status_total [where P = "\<lambda>_ _. same_tensors (gi_tensors g)"])
    fix pre t post us assume "?js = pre @ t # post" "same_tensors (gi_tensors g) us"
    then show "\<exists>vs. ResolveTensorAllocation q t us = Some (kTfLiteOk, vs) \<and> same_tensors (gi_tensors g) vs"
      using ResolveTensorAllocation_total [OF 4(2) sh] ok by (metis in_set_conv_decomp)
  qed (simp add: same_tensors_def)
  then show ?thesis using 2(1) 3(1) 4(1) by (auto simp: ExecuteAllocations_def len rs Let_def)
qed



end
