(* ===== verification/SimplePlanner.thy ===== *)
theory SimplePlanner
  imports ArenaPlanner
begin

text \<open>
  The other planner of the TFLite interpreter (\<^verbatim>\<open>simple_planner.cc\<close>): a block of the system's allocator for
  every tensor. An operation is \<^term>\<open>None\<close> where an index is out of range, a block that is not live is freed, or an
  assertion fails.
\<close>

section \<open>Blocks\<close>

record SimpleAlloc =
  sa_size :: size_t
  sa_node :: int
  sa_ptr :: ptr

definition SimpleAlloc_new :: SimpleAlloc where
  "SimpleAlloc_new = \<lparr>sa_size = 0, sa_node = 0, sa_ptr = nullptr\<rparr>"

definition SimpleAlloc_alloc :: "heap_env \<Rightarrow> size_t \<Rightarrow> int \<Rightarrow> SimpleAlloc \<times> heap \<Rightarrow> (bool \<times> SimpleAlloc \<times> heap) option" where
  "SimpleAlloc_alloc env new_size new_first_node = (\<lambda>(x, h).
     if new_size = 0 then Some (False, x, h)
     else if sa_ptr x \<noteq> nullptr then None
     else let p = he_alloc env h 1 new_size
          in Some (True, \<lparr>sa_size = new_size, sa_node = new_first_node, sa_ptr = p\<rparr>, fresh_block env p new_size h))"

definition SimpleAlloc_free :: "SimpleAlloc \<times> heap \<Rightarrow> (SimpleAlloc \<times> heap) option" where
  "SimpleAlloc_free = (\<lambda>(x, h).
     case sa_ptr x of
       None \<Rightarrow> Some (SimpleAlloc_new, h)
     | Some a \<Rightarrow> if map_of h a = None then None else Some (SimpleAlloc_new, filter (\<lambda>(b, bs). b \<noteq> a) h))"

section \<open>The planner\<close>

record SimplePlanner =
  sl_allocs :: "SimpleAlloc list"
  sl_alloc_node :: "int list"
  sl_dealloc_node :: "int list"

definition SimplePlanner_new :: SimplePlanner where
  "SimplePlanner_new = \<lparr>sl_allocs = [], sl_alloc_node = [], sl_dealloc_node = []\<rparr>"

definition free_at :: "int \<Rightarrow> SimpleAlloc list \<times> heap \<Rightarrow> (SimpleAlloc list \<times> heap) option" where
  "free_at i = (\<lambda>(xs, h).
     Option.bind (array_get xs i) (\<lambda>x. Option.bind (SimpleAlloc_free (x, h)) (\<lambda>(x', h').
       map_option (\<lambda>xs'. (xs', h')) (array_set xs i x'))))"

definition FreeAllAllocations :: "SimplePlanner \<times> heap \<Rightarrow> (SimplePlanner \<times> heap) option" where
  "FreeAllAllocations = (\<lambda>(p, h).
     map_option (\<lambda>(xs, h'). (p\<lparr>sl_allocs := xs\<rparr>, h'))
       (loop_opt free_at [0..int (length (sl_allocs p)) - 1] (sl_allocs p, h)))"

definition SimplePlanner_delete :: "SimplePlanner \<times> heap \<Rightarrow> heap option" where
  "SimplePlanner_delete ph = map_option snd (FreeAllAllocations ph)"

definition simple_ResetAllocations :: "GraphInfo \<Rightarrow> SimplePlanner \<times> heap \<Rightarrow> (SimplePlanner \<times> heap) option" where
  "simple_ResetAllocations g ph =
     map_option (\<lambda>(p, h). (p\<lparr>sl_allocs := replicate (length (gi_tensors g)) SimpleAlloc_new\<rparr>, h)) (FreeAllAllocations ph)"

definition simple_reset_after ::
  "int \<Rightarrow> int \<Rightarrow> SimpleAlloc list \<times> TfLiteTensor list \<times> heap \<Rightarrow> (SimpleAlloc list \<times> TfLiteTensor list \<times> heap) option" where
  "simple_reset_after node i = (\<lambda>(xs, tensors, h).
     Option.bind (array_get xs i) (\<lambda>x.
       if sa_node x > node \<and> sa_size x > 0
       then Option.bind (array_get tensors i) (\<lambda>tensor.
              if tt_allocation_type tensor = kTfLiteArenaRw
              then Option.bind (free_at i (xs, h)) (\<lambda>(xs', h').
                     map_option (\<lambda>tensors'. (xs', tensors', h')) (array_set tensors i (tensor\<lparr>tt_data := nullptr\<rparr>)))
              else Some (xs, tensors, h))
       else Some (xs, tensors, h)))"

definition simple_ResetAllocationsAfter :: "int \<Rightarrow> SimplePlanner \<times> GraphInfo \<times> heap \<Rightarrow> (SimplePlanner \<times> GraphInfo \<times> heap) option" where
  "simple_ResetAllocationsAfter node = (\<lambda>(p, g, h).
     map_option (\<lambda>(xs, tensors, h'). (p\<lparr>sl_allocs := xs\<rparr>, g\<lparr>gi_tensors := tensors\<rparr>, h'))
       (loop_opt (simple_reset_after node) [0..int (length (sl_allocs p)) - 1] (sl_allocs p, gi_tensors g, h)))"

section \<open>Planning\<close>

definition simple_allocate :: "int \<Rightarrow> int \<Rightarrow> SimplePlanner \<Rightarrow> (TfLiteStatus \<times> SimplePlanner) option" where
  "simple_allocate node tensor p =
     Option.bind (array_get (sl_alloc_node p) tensor) (\<lambda>an.
       if an \<noteq> kNodeNotAssigned then Some (kTfLiteOk, p)
       else Option.bind (array_get (sl_dealloc_node p) tensor) (\<lambda>dn.
              if dn \<noteq> kNodeNotAssigned then Some (kTfLiteError, p)
              else map_option (\<lambda>ns. (kTfLiteOk, p\<lparr>sl_alloc_node := ns\<rparr>)) (array_set (sl_alloc_node p) tensor node)))"

definition simple_deallocate :: "int \<Rightarrow> int \<Rightarrow> SimplePlanner \<Rightarrow> (TfLiteStatus \<times> SimplePlanner) option" where
  "simple_deallocate node tensor p =
     Option.bind (array_get (sl_alloc_node p) tensor) (\<lambda>an.
       if an = kNodeNotAssigned then Some (kTfLiteOk, p)
       else Option.bind (array_get (sl_dealloc_node p) tensor) (\<lambda>dn.
              if dn \<noteq> kNodeNotAssigned then Some (kTfLiteError, p)
              else map_option (\<lambda>ns. (kTfLiteOk, p\<lparr>sl_dealloc_node := ns\<rparr>)) (array_set (sl_dealloc_node p) tensor node)))"

definition count_up :: "int \<Rightarrow> int list \<Rightarrow> int list option" where
  "count_up t rs = (if t = kTfLiteOptionalTensor then Some rs else array_upd rs t (\<lambda>r. r + 1))"

definition with_refcounts ::
  "int list \<Rightarrow> (TfLiteStatus \<times> SimplePlanner) option \<Rightarrow> (TfLiteStatus \<times> SimplePlanner \<times> int list) option" where
  "with_refcounts rs m = map_option (\<lambda>(status, p). (status, p, rs)) m"

definition simple_variable :: "int \<Rightarrow> SimplePlanner \<times> int list \<Rightarrow> (TfLiteStatus \<times> SimplePlanner \<times> int list) option" where
  "simple_variable t = (\<lambda>(p, rs).
     Option.bind (array_upd rs t (\<lambda>r. r + 1)) (\<lambda>rs'.
       if t = kTfLiteOptionalTensor then Some (kTfLiteError, p, rs') else with_refcounts rs' (simple_allocate 0 t p)))"

definition simple_input :: "int \<Rightarrow> SimplePlanner \<times> int list \<Rightarrow> (TfLiteStatus \<times> SimplePlanner \<times> int list) option" where
  "simple_input t = (\<lambda>(p, rs).
     if t = kTfLiteOptionalTensor then Some (kTfLiteOk, p, rs)
     else Option.bind (array_upd rs t (\<lambda>r. r + 1)) (\<lambda>rs'. with_refcounts rs' (simple_allocate 0 t p)))"

definition simple_use :: "int \<Rightarrow> int \<Rightarrow> SimplePlanner \<times> int list \<Rightarrow> (TfLiteStatus \<times> SimplePlanner \<times> int list) option" where
  "simple_use i t = (\<lambda>(p, rs).
     if t = kTfLiteOptionalTensor then Some (kTfLiteOk, p, rs)
     else Option.bind (array_upd rs t (\<lambda>c. c - 1)) (\<lambda>rs'.
            Option.bind (array_get rs' t) (\<lambda>c.
              if c = 0 then with_refcounts rs' (simple_deallocate i t p) else Some (kTfLiteOk, p, rs'))))"

text \<open>The outputs of a node are not tested for the optional tensor.\<close>

definition simple_node :: "int \<times> TfLiteNode \<Rightarrow> SimplePlanner \<times> int list \<Rightarrow> (TfLiteStatus \<times> SimplePlanner \<times> int list) option" where
  "simple_node = (\<lambda>(i, node) (p, rs).
     ensure_status (with_refcounts rs (loop_status (simple_allocate i) (tn_outputs node) p)) (loop_status (simple_use i) (tn_inputs node)))"

definition simple_plan :: "GraphInfo \<Rightarrow> SimplePlanner \<Rightarrow> (TfLiteStatus \<times> SimplePlanner) option" where
  "simple_plan g p =
     (let n = length (gi_tensors g);
          p0 = p\<lparr>sl_alloc_node := replicate n kNodeNotAssigned, sl_dealloc_node := replicate n kNodeNotAssigned\<rparr>
      in Option.bind (loop_opt count_up (gi_outputs g) (replicate n 0)) (\<lambda>rs0.
           map_option (\<lambda>(status, q, _). (status, q))
             (ensure_status (loop_status simple_variable (gi_variables g) (p0, rs0)) (\<lambda>s1.
                ensure_status (loop_status simple_input (gi_inputs g) s1) (\<lambda>(p2, rs2).
                  Option.bind (loop_opt count_up (node_uses g) rs2) (\<lambda>rs3.
                    loop_status simple_node (execution_nodes g) (p2, rs3)))))))"

definition simple_PlanAllocations :: "GraphInfo \<Rightarrow> SimplePlanner \<times> heap \<Rightarrow> (TfLiteStatus \<times> SimplePlanner \<times> heap) option" where
  "simple_PlanAllocations g ph =
     Option.bind (simple_ResetAllocations g ph) (\<lambda>(p, h). map_option (\<lambda>(status, q). (status, q, h)) (simple_plan g p))"

section \<open>Executing the plan\<close>

definition simple_temporary :: "int \<Rightarrow> int \<Rightarrow> SimplePlanner \<Rightarrow> SimplePlanner option" where
  "simple_temporary i t p =
     Option.bind (array_set (sl_alloc_node p) t i) (\<lambda>ns.
       map_option (\<lambda>ds. p\<lparr>sl_alloc_node := ns, sl_dealloc_node := ds\<rparr>) (array_set (sl_dealloc_node p) t i))"

definition simple_temporaries :: "int \<Rightarrow> int \<Rightarrow> GraphInfo \<Rightarrow> SimplePlanner \<Rightarrow> SimplePlanner option" where
  "simple_temporaries first_node last_node g =
     loop_opt (\<lambda>i. loop_opt (simple_temporary (int i)) (tn_temporaries (gi_nodes g ! i)))
       [to_size first_node ..< min (Suc (to_size last_node)) (length (gi_nodes g))]"

definition simple_ResolveTensorAllocation :: "SimpleAlloc list \<Rightarrow> int \<Rightarrow> TfLiteTensor list \<Rightarrow> TfLiteTensor list option" where
  "simple_ResolveTensorAllocation xs i tensors =
     Option.bind (array_get tensors i) (\<lambda>tensor.
       Option.bind (array_get xs i) (\<lambda>x.
         if tt_allocation_type tensor = kTfLiteArenaRw \<and> sa_size x \<noteq> 0 \<or> tt_allocation_type tensor = kTfLiteArenaRwPersistent
         then array_set tensors i (tensor\<lparr>tt_data := sa_ptr x\<rparr>)
         else Some tensors))"

definition alloc_at :: "heap_env \<Rightarrow> size_t \<Rightarrow> int \<Rightarrow> int \<Rightarrow> SimpleAlloc list \<times> heap \<Rightarrow> (bool \<times> SimpleAlloc list \<times> heap) option" where
  "alloc_at env n node i = (\<lambda>(xs, h).
     Option.bind (array_get xs i) (\<lambda>x. Option.bind (SimpleAlloc_alloc env n node (x, h)) (\<lambda>(allocated, x', h').
       map_option (\<lambda>xs'. (allocated, xs', h')) (array_set xs i x'))))"

text \<open>The block of one tensor: a new one where the tensor is first used in the range, unless it is persistent and has one.\<close>

definition place_tensor ::
  "heap_env \<Rightarrow> int \<Rightarrow> int \<Rightarrow> int \<Rightarrow> TfLiteTensor \<Rightarrow> SimpleAlloc \<Rightarrow> int \<Rightarrow> SimpleAlloc list \<times> heap \<Rightarrow> (bool \<times> SimpleAlloc list \<times> heap) option" where
  "place_tensor env first_node last_node an tensor x i = (\<lambda>(xs, h).
     if an \<ge> first_node \<and> an \<le> last_node
     then if tt_allocation_type tensor = kTfLiteArenaRw
          then Option.bind (if sa_size x \<noteq> 0 then free_at i (xs, h) else Some (xs, h)) (alloc_at env (tt_bytes tensor) an i)
          else if tt_allocation_type tensor = kTfLiteArenaRwPersistent \<and> sa_size x = 0
          then alloc_at env (tt_bytes tensor) an i (xs, h)
          else Some (False, xs, h)
     else Some (False, xs, h))"

definition execute_tensor ::
  "heap_env \<Rightarrow> int \<Rightarrow> int \<Rightarrow> int list \<Rightarrow> int \<Rightarrow> SimpleAlloc list \<times> TfLiteTensor list \<times> heap
    \<Rightarrow> (SimpleAlloc list \<times> TfLiteTensor list \<times> heap) option" where
  "execute_tensor env first_node last_node nodes i = (\<lambda>(xs, tensors, h).
     Option.bind (array_get nodes i) (\<lambda>an. Option.bind (array_get tensors i) (\<lambda>tensor. Option.bind (array_get xs i) (\<lambda>x.
       Option.bind (place_tensor env first_node last_node an tensor x i (xs, h)) (\<lambda>(allocated, xs', h').
         if allocated then map_option (\<lambda>tensors'. (xs', tensors', h')) (simple_ResolveTensorAllocation xs' i tensors)
         else Some (xs', tensors, h'))))))"

definition simple_ExecuteAllocations ::
  "heap_env \<Rightarrow> int \<Rightarrow> int \<Rightarrow> SimplePlanner \<times> GraphInfo \<times> heap \<Rightarrow> (SimplePlanner \<times> GraphInfo \<times> heap) option" where
  "simple_ExecuteAllocations env first_node last_node = (\<lambda>(p, g, h).
     let n = length (gi_tensors g);
         p1 = p\<lparr>sl_alloc_node := resize_vec (sl_alloc_node p) n kNodeNotAssigned,
                sl_dealloc_node := resize_vec (sl_dealloc_node p) n kNodeNotAssigned,
                sl_allocs := resize_vec (sl_allocs p) n SimpleAlloc_new\<rparr>
     in Option.bind (simple_temporaries first_node last_node g p1) (\<lambda>p2.
          map_option (\<lambda>(xs, tensors, h'). (p2\<lparr>sl_allocs := xs\<rparr>, g\<lparr>gi_tensors := tensors\<rparr>, h'))
            (loop_opt (execute_tensor env first_node last_node (sl_alloc_node p2)) [0..int n - 1] (sl_allocs p2, gi_tensors g, h))))"

section \<open>Giving memory back and taking it again\<close>

definition release_tensor :: "int \<Rightarrow> SimpleAlloc list \<times> TfLiteTensor list \<times> heap \<Rightarrow> (SimpleAlloc list \<times> TfLiteTensor list \<times> heap) option" where
  "release_tensor i = (\<lambda>(xs, tensors, h).
     Option.bind (array_get tensors i) (\<lambda>tensor.
       if tt_allocation_type tensor = kTfLiteArenaRw
       then Option.bind (free_at i (xs, h)) (\<lambda>(xs', h').
              map_option (\<lambda>tensors'. (xs', tensors', h')) (array_set tensors i (tensor\<lparr>tt_data := nullptr\<rparr>)))
       else Some (xs, tensors, h)))"

definition simple_ReleaseNonPersistentMemory :: "SimplePlanner \<times> GraphInfo \<times> heap \<Rightarrow> (SimplePlanner \<times> GraphInfo \<times> heap) option" where
  "simple_ReleaseNonPersistentMemory = (\<lambda>(p, g, h).
     map_option (\<lambda>(xs, tensors, h'). (p\<lparr>sl_allocs := xs\<rparr>, g\<lparr>gi_tensors := tensors\<rparr>, h'))
       (loop_opt release_tensor [0..int (length (gi_tensors g)) - 1] (sl_allocs p, gi_tensors g, h)))"

definition simple_AcquireNonPersistentMemory :: "SimplePlanner \<Rightarrow> GraphInfo \<Rightarrow> GraphInfo option" where
  "simple_AcquireNonPersistentMemory p g =
     map_option (\<lambda>tensors. g\<lparr>gi_tensors := tensors\<rparr>)
       (loop_opt (\<lambda>i tensors. Option.bind (array_get tensors i) (\<lambda>tensor.
            if tt_allocation_type tensor = kTfLiteArenaRw then simple_ResolveTensorAllocation (sl_allocs p) i tensors else Some tensors))
          [0..int (length (gi_tensors g)) - 1] (gi_tensors g))"

definition simple_HasNonPersistentMemory :: "SimplePlanner \<Rightarrow> bool" where
  "simple_HasNonPersistentMemory p = True"

end
