(* ===== verification/SimpleProps.thy ===== *)
theory SimpleProps
  imports SimplePlanner PlannerProps
begin

text \<open>
  The blocks of the simple planner: every block it holds is live, held once, and given back; and what is left of
  the memory after it has been released and acquired again.
\<close>

section \<open>Blocks held\<close>

lemma SimpleAlloc_new_simps [simp]: "sa_ptr SimpleAlloc_new = None" "sa_size SimpleAlloc_new = 0"
  by (simp_all add: SimpleAlloc_new_def)

definition live :: "heap \<Rightarrow> nat set" where
  "live h = fst ` set h"

lemma live_map_of: "map_of h a = None \<longleftrightarrow> a \<notin> live h"
  by (simp add: live_def map_of_eq_None_iff)

lemma live_filter: "live (filter (\<lambda>(b, bs). b \<noteq> a) h) = live h - {a}"
  by (auto simp: live_def image_iff)

definition holds :: "SimpleAlloc list \<Rightarrow> nat \<Rightarrow> bool" where
  "holds xs a \<longleftrightarrow> (\<exists>i < length xs. sa_ptr (xs ! i) = Some a)"

text \<open>The live blocks are those of others, \<open>H\<close>, and those held, each once.\<close>

definition blocks_ok :: "nat set \<Rightarrow> SimpleAlloc list \<Rightarrow> heap \<Rightarrow> bool" where
  "blocks_ok H xs h \<longleftrightarrow> (\<forall>a. a \<in> live h \<longleftrightarrow> a \<in> H \<or> holds xs a) \<and> (\<forall>a \<in> H. \<not> holds xs a)
     \<and> (\<forall>i < length xs. \<forall>j < length xs. sa_ptr (xs ! i) \<noteq> None \<longrightarrow> sa_ptr (xs ! i) = sa_ptr (xs ! j) \<longrightarrow> i = j)
     \<and> (\<forall>i < length xs. sa_size (xs ! i) = 0 \<longrightarrow> sa_ptr (xs ! i) = None)"

definition fresh_env :: "heap_env \<Rightarrow> bool" where
  "fresh_env env \<longleftrightarrow> (\<forall>h n m a. he_alloc env h n m = Some a \<longrightarrow> a \<notin> live h)"

lemma free_at_ok:
  assumes "blocks_ok H xs h" "i < length xs"
  shows "\<exists>h'. free_at (int i) (xs, h) = Some (xs[i := SimpleAlloc_new], h') \<and> blocks_ok H (xs[i := SimpleAlloc_new]) h'"
proof (cases "sa_ptr (xs ! i)")
  case None
  then have h: "holds (xs[i := SimpleAlloc_new]) a \<longleftrightarrow> holds xs a" for a
    using assms(2) by (auto simp: holds_def nth_list_update) (metis option.distinct(1))
  have "blocks_ok H (xs[i := SimpleAlloc_new]) h"
    using assms None unfolding blocks_ok_def h by (auto simp: nth_list_update)
  then show ?thesis using assms(2) None by (simp add: free_at_def SimpleAlloc_free_def)
next
  case (Some a)
  let ?xs = "xs[i := SimpleAlloc_new]" and ?h = "filter (\<lambda>(b, bs). b \<noteq> a) h"
  have once: "j = i" if "j < length xs" "sa_ptr (xs ! j) = Some a" for j
  proof -
    have "\<forall>i < length xs. \<forall>j < length xs. sa_ptr (xs ! i) \<noteq> None \<longrightarrow> sa_ptr (xs ! i) = sa_ptr (xs ! j) \<longrightarrow> i = j"
      using assms(1) unfolding blocks_ok_def by (elim conjE)
    from this [rule_format, of j i] show ?thesis using that Some assms(2) by simp
  qed
  have a: "a \<in> live h" "a \<notin> H" using assms Some by (auto simp: blocks_ok_def holds_def)
  have at: "?xs ! j = (if j = i then SimpleAlloc_new else xs ! j)" if "j < length xs" for j using that by (simp add: nth_list_update)
  have h: "holds ?xs b \<longleftrightarrow> holds xs b \<and> b \<noteq> a" for b
  proof
    assume "holds ?xs b"
    then obtain j where j: "j < length xs" "sa_ptr (?xs ! j) = Some b" by (auto simp: holds_def)
    with at [OF j(1)] have "j \<noteq> i" "sa_ptr (xs ! j) = Some b" by (auto split: if_splits)
    then show "holds xs b \<and> b \<noteq> a" using j(1) once [OF j(1)] by (auto simp: holds_def)
  next
    assume "holds xs b \<and> b \<noteq> a"
    then obtain j where j: "j < length xs" "sa_ptr (xs ! j) = Some b" "b \<noteq> a" by (auto simp: holds_def)
    with Some have "j \<noteq> i" by auto
    with j show "holds ?xs b" unfolding holds_def by (intro exI [of _ j]) simp
  qed
  have "blocks_ok H ?xs ?h"
    using assms a(2) unfolding blocks_ok_def h live_filter by (auto simp: nth_list_update)
  then show ?thesis using assms(2) Some a(1) by (simp add: free_at_def SimpleAlloc_free_def live_map_of)
qed

lemma alloc_at_ok:
  assumes "blocks_ok H xs h" "i < length xs" "fresh_env env" "alloc_at env n node (int i) (xs, h) = Some (b, ys, h')"
  shows "blocks_ok H ys h' \<and> length ys = length xs"
proof (cases "n = 0")
  case True
  then show ?thesis using assms by (auto simp: alloc_at_def SimpleAlloc_alloc_def)
next
  case False
  let ?p = "he_alloc env h 1 n"
  have free: "sa_ptr (xs ! i) = None" and ys: "ys = xs[i := \<lparr>sa_size = n, sa_node = node, sa_ptr = ?p\<rparr>]" and h': "h' = fresh_block env ?p n h"
    using assms(2,4) False by (auto simp: alloc_at_def SimpleAlloc_alloc_def Let_def split: if_splits)
  have lv: "live h' = live h \<union> set_option ?p" by (cases ?p) (auto simp: h' fresh_block_def live_def)
  have new: "?p = Some a \<Longrightarrow> a \<notin> live h" for a using assms(3) by (auto simp: fresh_env_def)
  have h: "holds ys a \<longleftrightarrow> holds xs a \<or> ?p = Some a" for a
    using assms(2) free by (auto simp: ys holds_def nth_list_update) (metis option.distinct(1))
  have "\<not> holds xs a" "a \<notin> H" if "?p = Some a" for a using new [OF that] assms(1) by (auto simp: blocks_ok_def)
  then show ?thesis using assms(1,2) False unfolding blocks_ok_def h lv by (auto simp: ys nth_list_update holds_def)
qed

section \<open>Operations\<close>

lemma upto_nat: "[0..int n - 1] = map int [0..<n]"
  using upto_int_upt [of 0 n] by simp

lemma FreeAllAllocations_ok:
  assumes "blocks_ok H (sl_allocs p) h"
  shows "\<exists>q h'. FreeAllAllocations (p, h) = Some (q, h') \<and> live h' = H \<and> blocks_ok H [] h'"
proof -
  let ?xs = "sl_allocs p" and ?n = "length (sl_allocs p)"
  let ?P = "\<lambda>pre post (ys, h). blocks_ok H ys h \<and> length ys = ?n \<and> (\<forall>i < ?n. int i \<in> set pre \<longrightarrow> ys ! i = SimpleAlloc_new)"
  have "\<exists>s'. loop_opt free_at [0..int ?n - 1] (?xs, h) = Some s' \<and> ?P [0..int ?n - 1] [] s'"
  proof (rule loop_opt_prefix)
    show "\<exists>s'. free_at k s = Some s' \<and> ?P (pre @ [k]) post s'" if "[0..int ?n - 1] = pre @ k # post" "?P pre (k # post) s" for pre k post s
    proof -
      obtain ys h where s: "s = (ys, h)" by (cases s)
      have "k \<in> set [0..int ?n - 1]" unfolding that(1) by simp
      then obtain i where k: "k = int i" "i < ?n" by (intro that [of "nat k"]) auto
      from that(2) s k(2) obtain h' where "free_at (int i) (ys, h) = Some (ys[i := SimpleAlloc_new], h')" "blocks_ok H (ys[i := SimpleAlloc_new]) h'"
        using free_at_ok [of H ys h i] by auto
      then show ?thesis using that(2) s k by (auto simp: nth_list_update)
    qed
  qed (use assms in simp)
  then obtain ys h' where y: "loop_opt free_at [0..int ?n - 1] (?xs, h) = Some (ys, h')" "blocks_ok H ys h'" "length ys = ?n"
    "\<forall>i < ?n. ys ! i = SimpleAlloc_new" by auto
  then have "\<not> holds ys a" for a by (auto simp: holds_def)
  then have "live h' = H" using y(2) unfolding blocks_ok_def by blast
  moreover from this have "blocks_ok H [] h'" by (simp add: blocks_ok_def holds_def)
  ultimately show ?thesis using y(1) by (simp add: FreeAllAllocations_def)
qed

lemma blocks_ok_replicate: "blocks_ok H [] h \<Longrightarrow> blocks_ok H (replicate n SimpleAlloc_new) h"
proof -
  have "\<not> holds (replicate n SimpleAlloc_new) a" "\<not> holds [] a" for a by (auto simp: holds_def)
  then show "blocks_ok H [] h \<Longrightarrow> ?thesis" by (simp add: blocks_ok_def)
qed

lemma blocks_ok_resize:
  assumes "blocks_ok H xs h" "length xs \<le> n"
  shows "blocks_ok H (resize_vec xs n SimpleAlloc_new) h"
proof -
  let ?ys = "resize_vec xs n SimpleAlloc_new"
  have y: "length ?ys = n" "\<And>i. i < n \<Longrightarrow> ?ys ! i = (if i < length xs then xs ! i else SimpleAlloc_new)"
    using assms(2) by (auto simp: resize_vec_def nth_append)
  have h: "holds ?ys a \<longleftrightarrow> holds xs a" for a
  proof
    show "holds ?ys a \<Longrightarrow> holds xs a" by (auto simp: holds_def y split: if_splits)
    show "holds xs a \<Longrightarrow> holds ?ys a" using assms(2) unfolding holds_def y(1) by (metis less_le_trans y(2))
  qed
  show ?thesis using assms unfolding blocks_ok_def h by (auto simp: y split: if_splits)
qed

lemma simple_reset_after_ok:
  assumes "blocks_ok H xs h" "simple_reset_after node i (xs, ts, h) = Some (ys, us, h')"
  shows "blocks_ok H ys h' \<and> length ys = length xs \<and> length us = length ts"
proof -
  have i: "i = int (nat i)" "nat i < length xs" using assms(2) by (auto simp: simple_reset_after_def array_get_def split: bind_splits if_splits)
  show ?thesis using free_at_ok [OF assms(1) i(2)] assms i
    by (auto simp: simple_reset_after_def split: bind_splits if_splits dest!: array_set_length)
qed

lemma release_tensor_ok:
  assumes "blocks_ok H xs h" "release_tensor i (xs, ts, h) = Some (ys, us, h')"
  shows "blocks_ok H ys h' \<and> length ys = length xs \<and> length us = length ts"
proof (cases "free_at i (xs, h)")
  case None
  then show ?thesis using assms by (auto simp: release_tensor_def split: bind_splits if_splits)
next
  case (Some r)
  then have i: "i = int (nat i)" "nat i < length xs" by (auto simp: free_at_def array_get_def split: bind_splits if_splits)
  show ?thesis using free_at_ok [OF assms(1) i(2)] assms(1,2) i(1)
    by (auto simp: release_tensor_def split: bind_splits if_splits dest!: array_set_length)
qed

lemma place_tensor_ok:
  assumes "blocks_ok H xs h" "fresh_env env" "i < length xs" "place_tensor env f l an tensor x (int i) (xs, h) = Some (b, ys, h')"
  shows "blocks_ok H ys h' \<and> length ys = length xs"
proof -
  obtain k where k: "free_at (int i) (xs, h) = Some (xs[i := SimpleAlloc_new], k)" "blocks_ok H (xs[i := SimpleAlloc_new]) k"
    using free_at_ok [OF assms(1,3)] by blast
  consider "ys = xs" "h' = h" | n where "alloc_at env n an (int i) (xs, h) = Some (b, ys, h')"
    | n where "alloc_at env n an (int i) (xs[i := SimpleAlloc_new], k) = Some (b, ys, h')"
    using assms(4) by (auto simp: place_tensor_def k(1) split: if_splits)
  then show ?thesis
  proof cases
    case 1
    then show ?thesis using assms(1) by simp
  next
    case 2
    then show ?thesis using alloc_at_ok [OF assms(1,3,2)] by blast
  next
    case 3
    then show ?thesis using alloc_at_ok [OF k(2) _ assms(2)] assms(3) by fastforce
  qed
qed

lemma execute_tensor_ok:
  assumes "blocks_ok H xs h" "fresh_env env" "execute_tensor env f l ns i (xs, ts, h) = Some (ys, us, h')"
  shows "blocks_ok H ys h' \<and> length ys = length xs \<and> length us = length ts"
proof -
  have i: "i = int (nat i)" "nat i < length xs" using assms(3) by (auto simp: execute_tensor_def array_get_def split: bind_splits if_splits)
  from assms(3) obtain an tensor x b where p: "place_tensor env f l an tensor x i (xs, h) = Some (b, ys, h')"
    and us: "us = ts \<or> simple_ResolveTensorAllocation ys i ts = Some us"
    by (auto simp: execute_tensor_def split: bind_splits if_splits)
  have "blocks_ok H ys h' \<and> length ys = length xs" using place_tensor_ok [OF assms(1,2) i(2)] p i(1) by metis
  moreover have "length us = length ts" using us by (auto simp: simple_ResolveTensorAllocation_def split: bind_splits if_splits dest: array_set_length)
  ultimately show ?thesis by simp
qed

text \<open>A step on the blocks, the tensors and the heap, repeated.\<close>

lemma loop_blocks:
  assumes "\<And>i xs ts h ys us h'. blocks_ok H xs h \<Longrightarrow> body i (xs, ts, h) = Some (ys, us, h') \<Longrightarrow> blocks_ok H ys h' \<and> length ys = length xs \<and> length us = length ts"
    and "loop_opt body js (xs, ts, h) = Some (ys, us, h')" "blocks_ok H xs h"
  shows "blocks_ok H ys h' \<and> length ys = length xs \<and> length us = length ts"
proof -
  have "(\<lambda>(ys, us, h'). blocks_ok H ys h' \<and> length ys = length xs \<and> length us = length ts) (ys, us, h')"
    by (rule loop_opt_invariant [OF assms(2)]) (use assms(1,3) in \<open>fastforce+\<close>)
  then show ?thesis by simp
qed

lemma loop_status_invariant:
  assumes "loop_status body js s = Some (status, s')" "P s"
    and "\<And>i s st t. P s \<Longrightarrow> body i s = Some (st, t) \<Longrightarrow> P t"
  shows "P s'"
  using assms(1,2) by (induction js arbitrary: s) (auto simp: ensure_status_def split: bind_splits if_splits dest: assms(3))

text \<open>Planning leaves the blocks alone.\<close>

lemma simple_allocate_allocs: "simple_allocate i t p = Some (st, q) \<Longrightarrow> sl_allocs q = sl_allocs p"
  by (auto simp: simple_allocate_def split: bind_splits if_splits)

lemma simple_deallocate_allocs: "simple_deallocate i t p = Some (st, q) \<Longrightarrow> sl_allocs q = sl_allocs p"
  by (auto simp: simple_deallocate_def split: bind_splits if_splits)

lemma simple_use_allocs: "simple_use i t s = Some (st, s') \<Longrightarrow> sl_allocs (fst s') = sl_allocs (fst s)"
  by (auto simp: simple_use_def with_refcounts_def split: bind_splits if_splits prod.splits dest: simple_deallocate_allocs)

lemma simple_node_allocs:
  assumes "simple_node x s = Some (st, s')"
  shows "sl_allocs (fst s') = sl_allocs (fst s)"
proof -
  obtain i node p rs where x: "x = (i, node)" "s = (p, rs)" by (cases x, cases s)
  have out: "sl_allocs q = sl_allocs p" if "loop_status (simple_allocate i) (tn_outputs node) p = Some (st, q)" for st q
    by (rule loop_status_invariant [OF that]) (auto dest: simple_allocate_allocs)
  have ins: "sl_allocs (fst s') = sl_allocs q" if "loop_status (simple_use i) (tn_inputs node) (q, rs) = Some (st, s')" for st q s'
    by (rule loop_status_invariant [OF that]) (auto dest: simple_use_allocs)
  show ?thesis using assms by (auto simp: x simple_node_def with_refcounts_def ensure_status_def split: bind_splits if_splits) (metis ins out)+
qed

lemma simple_plan_allocs:
  assumes "simple_plan g p = Some (st, q)"
  shows "sl_allocs q = sl_allocs p"
proof -
  have v: "sl_allocs (fst s') = sl_allocs (fst s)" if "loop_status simple_variable ts s = Some (st, s')" for ts s st s'
    by (rule loop_status_invariant [OF that])
      (auto simp: simple_variable_def with_refcounts_def split: bind_splits if_splits prod.splits dest: simple_allocate_allocs)
  have i: "sl_allocs (fst s') = sl_allocs (fst s)" if "loop_status simple_input ts s = Some (st, s')" for ts s st s'
    by (rule loop_status_invariant [OF that])
      (auto simp: simple_input_def with_refcounts_def split: bind_splits if_splits prod.splits dest: simple_allocate_allocs)
  have n: "sl_allocs (fst s') = sl_allocs (fst s)" if "loop_status simple_node ts s = Some (st, s')" for ts s st s'
    by (rule loop_status_invariant [OF that]) (auto dest: simple_node_allocs)
  show ?thesis using assms
    by (auto simp: simple_plan_def ensure_status_def Let_def split: bind_splits if_splits dest!: v i n)
qed

lemma simple_temporaries_allocs:
  assumes "simple_temporaries a b g p = Some q"
  shows "sl_allocs q = sl_allocs p"
proof -
  have "sl_allocs q = sl_allocs r" if "loop_opt (simple_temporary i) ts r = Some q" for i ts r q
    by (rule loop_opt_invariant [OF that]) (auto simp: simple_temporary_def split: bind_splits)
  then show ?thesis using loop_opt_invariant [OF assms [unfolded simple_temporaries_def], of "\<lambda>q. sl_allocs q = sl_allocs p"] by auto
qed

section \<open>Runs\<close>

text \<open>
  Any sequence of operations on a new planner. Between them the interpreter may change the graph, as long as it
  keeps the tensors it has.
\<close>

inductive simple_reachable :: "heap_env \<Rightarrow> heap \<Rightarrow> SimplePlanner \<times> GraphInfo \<times> heap \<Rightarrow> bool" for env h0 where
  start: "simple_reachable env h0 (SimplePlanner_new, g, h0)"
| graph: "simple_reachable env h0 (p, g, h) \<Longrightarrow> length (gi_tensors g) \<le> length (gi_tensors g') \<Longrightarrow> simple_reachable env h0 (p, g', h)"
| reset: "simple_reachable env h0 (p, g, h) \<Longrightarrow> simple_ResetAllocations g (p, h) = Some (p', h') \<Longrightarrow> simple_reachable env h0 (p', g, h')"
| after: "simple_reachable env h0 s \<Longrightarrow> simple_ResetAllocationsAfter n s = Some s' \<Longrightarrow> simple_reachable env h0 s'"
| plan: "simple_reachable env h0 (p, g, h) \<Longrightarrow> simple_PlanAllocations g (p, h) = Some (st, p', h') \<Longrightarrow> simple_reachable env h0 (p', g, h')"
| execute: "simple_reachable env h0 s \<Longrightarrow> simple_ExecuteAllocations env f l s = Some s' \<Longrightarrow> simple_reachable env h0 s'"
| release: "simple_reachable env h0 s \<Longrightarrow> simple_ReleaseNonPersistentMemory s = Some s' \<Longrightarrow> simple_reachable env h0 s'"
| acquire: "simple_reachable env h0 (p, g, h) \<Longrightarrow> simple_AcquireNonPersistentMemory p g = Some g' \<Longrightarrow> simple_reachable env h0 (p, g', h)"

definition simple_inv :: "heap \<Rightarrow> SimplePlanner \<times> GraphInfo \<times> heap \<Rightarrow> bool" where
  "simple_inv h0 = (\<lambda>(p, g, h). blocks_ok (live h0) (sl_allocs p) h \<and> length (sl_allocs p) \<le> length (gi_tensors g))"

lemma simple_reset_inv:
  assumes "simple_inv h0 (p, g, h)" "simple_ResetAllocations g (p, h) = Some (p', h')"
  shows "simple_inv h0 (p', g, h')"
proof -
  obtain q k where "FreeAllAllocations (p, h) = Some (q, k)" "blocks_ok (live h0) [] k"
    using FreeAllAllocations_ok [of "live h0" p h] assms(1) by (auto simp: simple_inv_def)
  then show ?thesis using assms(2) blocks_ok_replicate by (auto simp: simple_inv_def simple_ResetAllocations_def)
qed

lemma acquire_length:
  assumes "simple_AcquireNonPersistentMemory p g = Some g'"
  shows "length (gi_tensors g') = length (gi_tensors g)"
proof -
  from assms obtain ts where l: "loop_opt (\<lambda>i tensors. Option.bind (array_get tensors i) (\<lambda>tensor.
      if tt_allocation_type tensor = kTfLiteArenaRw then simple_ResolveTensorAllocation (sl_allocs p) i tensors else Some tensors))
      [0..int (length (gi_tensors g)) - 1] (gi_tensors g) = Some ts" "gi_tensors g' = ts"
    by (auto simp: simple_AcquireNonPersistentMemory_def)
  have "length ts = length (gi_tensors g)"
    by (rule loop_opt_invariant [OF l(1)])
      (auto simp: simple_ResolveTensorAllocation_def split: bind_splits if_splits dest: array_set_length)
  then show ?thesis using l(2) by simp
qed

lemma simple_reachable_inv:
  assumes "simple_reachable env h0 s" "fresh_env env"
  shows "simple_inv h0 s"
  using assms(1)
proof induction
  case (start g)
  then show ?case by (simp add: simple_inv_def SimplePlanner_new_def blocks_ok_def holds_def)
next
  case (graph p g h g')
  then show ?case by (simp add: simple_inv_def)
next
  case (reset p g h p' h')
  then show ?case by (simp add: simple_reset_inv)
next
  case (after s n s')
  then obtain p g h ys us h' js where s: "s = (p, g, h)" "loop_opt (simple_reset_after n) js (sl_allocs p, gi_tensors g, h) = Some (ys, us, h')"
      "s' = (p\<lparr>sl_allocs := ys\<rparr>, g\<lparr>gi_tensors := us\<rparr>, h')"
    by (cases s) (auto simp: simple_ResetAllocationsAfter_def)
  have "blocks_ok (live h0) (sl_allocs p) h" "length (sl_allocs p) \<le> length (gi_tensors g)" using after.IH by (auto simp: s(1) simple_inv_def)
  then show ?case using loop_blocks [OF simple_reset_after_ok s(2)] by (simp add: s(3) simple_inv_def)
next
  case (plan p g h st p' h')
  then obtain q k where "simple_ResetAllocations g (p, h) = Some (q, k)" "simple_plan g q = Some (st, p')" "h' = k"
    by (auto simp: simple_PlanAllocations_def split: bind_splits)
  then show ?case using simple_reset_inv [OF plan.IH] simple_plan_allocs by (auto simp: simple_inv_def)
next
  case (execute s f l s')
  obtain p g h where s: "s = (p, g, h)" by (cases s)
  let ?xs = "resize_vec (sl_allocs p) (length (gi_tensors g)) SimpleAlloc_new"
  let ?p1 = "p\<lparr>sl_alloc_node := resize_vec (sl_alloc_node p) (length (gi_tensors g)) kNodeNotAssigned,
      sl_dealloc_node := resize_vec (sl_dealloc_node p) (length (gi_tensors g)) kNodeNotAssigned, sl_allocs := ?xs\<rparr>"
  from execute(2) obtain p2 where t: "simple_temporaries f l g ?p1 = Some p2" and
    r: "map_option (\<lambda>(xs, tensors, h'). (p2\<lparr>sl_allocs := xs\<rparr>, g\<lparr>gi_tensors := tensors\<rparr>, h'))
      (loop_opt (execute_tensor env f l (sl_alloc_node p2)) [0..int (length (gi_tensors g)) - 1] (sl_allocs p2, gi_tensors g, h)) = Some s'"
    unfolding s simple_ExecuteAllocations_def Let_def prod.case bind_eq_Some_conv by blast
  have "sl_allocs p2 = ?xs" using simple_temporaries_allocs [OF t] by simp
  with r obtain ys us h' where l: "loop_opt (execute_tensor env f l (sl_alloc_node p2)) [0..int (length (gi_tensors g)) - 1] (?xs, gi_tensors g, h) = Some (ys, us, h')"
    and s': "s' = (p2\<lparr>sl_allocs := ys\<rparr>, g\<lparr>gi_tensors := us\<rparr>, h')"
    by auto
  have "blocks_ok (live h0) ?xs h" "length ?xs = length (gi_tensors g)" using execute.IH blocks_ok_resize by (auto simp: s simple_inv_def resize_vec_def)
  then show ?case using loop_blocks [OF execute_tensor_ok [OF _ assms(2)] l] by (simp add: s' simple_inv_def)
next
  case (release s s')
  then obtain p g h ys us h' js where s: "s = (p, g, h)" "loop_opt release_tensor js (sl_allocs p, gi_tensors g, h) = Some (ys, us, h')"
      "s' = (p\<lparr>sl_allocs := ys\<rparr>, g\<lparr>gi_tensors := us\<rparr>, h')"
    by (cases s) (auto simp: simple_ReleaseNonPersistentMemory_def)
  have "blocks_ok (live h0) (sl_allocs p) h" "length (sl_allocs p) \<le> length (gi_tensors g)" using release.IH by (auto simp: s(1) simple_inv_def)
  then show ?case using loop_blocks [OF release_tensor_ok s(2)] by (simp add: s(3) simple_inv_def)
next
  case (acquire p g h g')
  then show ?case by (simp add: simple_inv_def acquire_length)
qed

text \<open>C39: The simple planner frees every block it allocated, once, and no other. After any sequence of its operations
  on a graph that loses no tensors, interrupted by changes of the graph, its destructor frees only blocks that are
  live, and the live blocks left are those from before the planner was made. The allocator is any that never gives
  out a block that is live.\<close>

theorem simple_planner_frees_all:
  assumes "simple_reachable env h0 (p, g, h)" "fresh_env env"
  shows "\<exists>h'. SimplePlanner_delete (p, h) = Some h' \<and> fst ` set h' = fst ` set h0"
proof -
  have "blocks_ok (live h0) (sl_allocs p) h" using simple_reachable_inv [OF assms] by (simp add: simple_inv_def)
  from FreeAllAllocations_ok [OF this] show ?thesis by (auto simp: SimplePlanner_delete_def live_def)
qed

text \<open>An allocator that gives out the address above all live ones.\<close>

definition bump_env :: heap_env where
  "bump_env = \<lparr>he_has_aligned_alloc = False, he_alloc = (\<lambda>h n m. Some (Suc (foldr max (map fst h) 0))), he_junk = (\<lambda>a. 0)\<rparr>"

lemma bump_env_fresh: "fresh_env bump_env"
proof -
  have "a \<le> foldr max (map fst h) 0" if "a \<in> live h" for a and h :: heap
    using that by (induction h) (auto simp: live_def le_max_iff_disj)
  then show ?thesis by (force simp: fresh_env_def bump_env_def)
qed

definition one_graph :: "TfLiteTensor \<Rightarrow> GraphInfo" where
  "one_graph t = \<lparr>gi_tensors = [t], gi_nodes = [\<lparr>tn_inputs = [], tn_outputs = [0], tn_temporaries = [], tn_inplace_operator = 0, tn_might_have_side_effect = False\<rparr>],
     gi_num_total_nodes = 1, gi_node_index = [0], gi_inputs = [], gi_outputs = [0], gi_variables = []\<rparr>"

definition rw_bytes :: "size_t \<Rightarrow> ptr \<Rightarrow> TfLiteTensor" where
  "rw_bytes n a = \<lparr>tt_allocation_type = kTfLiteArenaRw, tt_bytes = n, tt_data = a\<rparr>"

definition one_planner :: "SimpleAlloc list \<Rightarrow> SimplePlanner" where
  "one_planner xs = \<lparr>sl_allocs = xs, sl_alloc_node = [0], sl_dealloc_node = [kNodeNotAssigned]\<rparr>"

definition other_block :: "nat \<times> u8 list" where
  "other_block = (7, [1, 2, 3])"

lemma one_plan:
  "simple_PlanAllocations (one_graph (rw_bytes 2 None)) (SimplePlanner_new, [other_block])
    = Some (kTfLiteOk, one_planner [SimpleAlloc_new], [other_block])"
  by (simp add: simple_PlanAllocations_def simple_ResetAllocations_def FreeAllAllocations_def SimplePlanner_new_def simple_plan_def one_graph_def
      one_planner_def count_up_def array_upd_def array_get_def array_set_def kTfLiteOptionalTensor_def kNodeNotAssigned_def node_uses_def
      execution_nodes_def simple_node_def with_refcounts_def simple_allocate_def ensure_status_def Let_def)

lemma one_execute:
  "simple_ExecuteAllocations bump_env 0 0 (one_planner [SimpleAlloc_new], one_graph (rw_bytes 2 None), [other_block])
    = Some (one_planner [\<lparr>sa_size = 2, sa_node = 0, sa_ptr = Some 8\<rparr>], one_graph (rw_bytes 2 (Some 8)), [(8, [0, 0]), other_block])"
  by (simp add: simple_ExecuteAllocations_def one_planner_def one_graph_def resize_vec_def simple_temporaries_def to_size_def
      execute_tensor_def place_tensor_def alloc_at_def SimpleAlloc_alloc_def simple_ResolveTensorAllocation_def rw_bytes_def array_get_def array_set_def
      bump_env_def fresh_block_def other_block_def SimpleAlloc_new_def Let_def numeral_2_eq_2)

theorem simple_planner_frees_all_witness:
  "\<exists>h'. SimplePlanner_delete (one_planner [\<lparr>sa_size = 2, sa_node = 0, sa_ptr = Some 8\<rparr>], [(8, [0, 0]), other_block]) = Some h'
    \<and> fst ` set h' = {7}"
proof -
  have "simple_reachable bump_env [other_block] (one_planner [SimpleAlloc_new], one_graph (rw_bytes 2 None), [other_block])"
    by (rule plan [OF start one_plan])
  from simple_planner_frees_all [OF execute [OF this one_execute] bump_env_fresh] show ?thesis by (simp add: other_block_def)
qed

section \<open>Acquiring memory again\<close>

lemma release_loop:
  assumes "loop_opt release_tensor js (xs, ts, h) = Some (ys, us, h')" "\<forall>j \<in> set js. 0 \<le> j"
  shows "length us = length ts \<and> (\<forall>k < length ts. tt_allocation_type (us ! k) = tt_allocation_type (ts ! k)
    \<and> (tt_allocation_type (ts ! k) = kTfLiteArenaRw \<longrightarrow>
        (int k \<in> set js \<longrightarrow> tt_data (us ! k) = None \<and> sa_size (ys ! k) = 0)
        \<and> (tt_data (ts ! k) = None \<and> sa_size (xs ! k) = 0 \<longrightarrow> tt_data (us ! k) = None \<and> sa_size (ys ! k) = 0)))"
  using assms
proof (induction js arbitrary: xs ts h)
  case (Cons j js)
  then obtain zs ws k where r: "release_tensor j (xs, ts, h) = Some (zs, ws, k)" "loop_opt release_tensor js (zs, ws, k) = Some (ys, us, h')"
    by (auto split: bind_splits)
  note IH = Cons.IH [OF r(2)]
  have j: "0 \<le> j" "nat j < length ts" using r(1) by (auto simp: release_tensor_def array_get_def split: bind_splits if_splits)
  show ?case
  proof (cases "tt_allocation_type (ts ! nat j) = kTfLiteArenaRw")
    case False
    then have "zs = xs" "ws = ts" using r(1) j by (auto simp: release_tensor_def array_get_def)
    then show ?thesis using IH Cons.prems(2) False j by auto
  next
    case True
    then have w: "ws = ts[nat j := (ts ! nat j)\<lparr>tt_data := None\<rparr>]" and z: "zs = xs[nat j := SimpleAlloc_new]" "nat j < length xs"
      using r(1) j by (auto simp: release_tensor_def free_at_def SimpleAlloc_free_def array_get_def array_set_def split: bind_splits if_splits option.splits)
    have at: "ws ! k = (if k = nat j then (ts ! nat j)\<lparr>tt_data := None\<rparr> else ts ! k)" "k = nat j \<or> zs ! k = xs ! k" "zs ! nat j = SimpleAlloc_new"
      if "k < length ts" for k using that z by (auto simp: w nth_list_update)
    have l: "length ws = length ts" by (simp add: w)
    show ?thesis
    proof (intro conjI allI impI)
      show "length us = length ts" using IH Cons.prems(2) l by simp
    next
      fix k assume k: "k < length ts"
      then have I: "tt_allocation_type (us ! k) = tt_allocation_type (ws ! k)
          \<and> (tt_allocation_type (ws ! k) = kTfLiteArenaRw \<longrightarrow>
              (int k \<in> set js \<longrightarrow> tt_data (us ! k) = None \<and> sa_size (ys ! k) = 0)
              \<and> (tt_data (ws ! k) = None \<and> sa_size (zs ! k) = 0 \<longrightarrow> tt_data (us ! k) = None \<and> sa_size (ys ! k) = 0))"
        using IH Cons.prems(2) l by simp
      show "tt_allocation_type (us ! k) = tt_allocation_type (ts ! k)" using I at(1) [OF k] by auto
      assume rw: "tt_allocation_type (ts ! k) = kTfLiteArenaRw"
      have both: "tt_data (us ! k) = None \<and> sa_size (ys ! k) = 0" if "int k \<in> set (j # js) \<or> tt_data (ts ! k) = None \<and> sa_size (xs ! k) = 0"
        using I at [OF k] rw that j(1) by (cases "k = nat j") auto
      show "int k \<in> set (j # js) \<Longrightarrow> tt_data (us ! k) = None" "int k \<in> set (j # js) \<Longrightarrow> sa_size (ys ! k) = 0" using both by auto
      show "tt_data (ts ! k) = None \<and> sa_size (xs ! k) = 0 \<Longrightarrow> tt_data (us ! k) = None"
        "tt_data (ts ! k) = None \<and> sa_size (xs ! k) = 0 \<Longrightarrow> sa_size (ys ! k) = 0" using both by auto
    qed
  qed
qed simp

text \<open>With the simple planner, memory that was released is not there after it is acquired again: acquiring only
  looks up the blocks, and releasing has freed and cleared them, so every tensor of the arena kind is left with a
  null address, while the planner still answers that it has non-persistent memory. (The arena planner allocates
  the buffer again.)\<close>

theorem simple_acquire_gives_nothing:
  assumes "simple_ReleaseNonPersistentMemory (p, g, h) = Some (p', g', h')" "simple_AcquireNonPersistentMemory p' g' = Some g''"
    and "k < length (gi_tensors g)" "tt_allocation_type (gi_tensors g ! k) = kTfLiteArenaRw"
  shows "tt_data (gi_tensors g'' ! k) = nullptr \<and> simple_HasNonPersistentMemory p'"
proof -
  let ?n = "length (gi_tensors g)"
  from assms(1) have "loop_opt release_tensor [0..int ?n - 1] (sl_allocs p, gi_tensors g, h) = Some (sl_allocs p', gi_tensors g', h')"
    by (auto simp: simple_ReleaseNonPersistentMemory_def)
  from release_loop [OF this] have len: "length (gi_tensors g') = ?n" and
    all: "\<And>j. j < ?n \<Longrightarrow> tt_allocation_type (gi_tensors g' ! j) = tt_allocation_type (gi_tensors g ! j)
      \<and> (tt_allocation_type (gi_tensors g ! j) = kTfLiteArenaRw \<longrightarrow> tt_data (gi_tensors g' ! j) = None \<and> sa_size (sl_allocs p' ! j) = 0)"
    by auto
  let ?body = "\<lambda>i tensors. Option.bind (array_get tensors i) (\<lambda>tensor.
      if tt_allocation_type tensor = kTfLiteArenaRw then simple_ResolveTensorAllocation (sl_allocs p') i tensors else Some tensors)"
  from assms(2) have l: "loop_opt ?body [0..int ?n - 1] (gi_tensors g') = Some (gi_tensors g'')"
    by (auto simp: simple_AcquireNonPersistentMemory_def len)
  have "gi_tensors g'' = gi_tensors g'"
  proof (rule loop_opt_invariant [OF l])
    fix i ts us assume "i \<in> set [0..int ?n - 1]" "ts = gi_tensors g'" "?body i ts = Some us"
    then show "us = gi_tensors g'" using all [of "nat i"] len
      by (auto simp: simple_ResolveTensorAllocation_def array_get_def nat_less_iff split: bind_splits if_splits)
  qed simp
  then show ?thesis using all [OF assms(3)] assms(4) by (simp add: simple_HasNonPersistentMemory_def)
qed

theorem simple_acquire_gives_nothing_witness:
  "\<exists>p' g' h' g''. simple_ReleaseNonPersistentMemory (one_planner [\<lparr>sa_size = 2, sa_node = 0, sa_ptr = Some 8\<rparr>], one_graph (rw_bytes 2 (Some 8)), [(8, [0, 0])])
      = Some (p', g', h') \<and> simple_AcquireNonPersistentMemory p' g' = Some g'' \<and> tt_data (gi_tensors g'' ! 0) = nullptr"
proof -
  have r: "simple_ReleaseNonPersistentMemory (one_planner [\<lparr>sa_size = 2, sa_node = 0, sa_ptr = Some 8\<rparr>], one_graph (rw_bytes 2 (Some 8)), [(8, [0, 0])])
      = Some (one_planner [SimpleAlloc_new], one_graph (rw_bytes 2 None), [])"
    by (simp add: simple_ReleaseNonPersistentMemory_def one_planner_def one_graph_def rw_bytes_def release_tensor_def free_at_def SimpleAlloc_free_def
        array_get_def array_set_def)
  have a: "simple_AcquireNonPersistentMemory (one_planner [SimpleAlloc_new]) (one_graph (rw_bytes 2 None)) = Some (one_graph (rw_bytes 2 None))"
    by (simp add: simple_AcquireNonPersistentMemory_def one_planner_def one_graph_def rw_bytes_def simple_ResolveTensorAllocation_def array_get_def)
  show ?thesis using simple_acquire_gives_nothing [OF r a, of 0] r a by (auto simp: one_graph_def rw_bytes_def)
qed

end
