(* ===== verification/SimplePlan.thy ===== *)
theory SimplePlan
  imports SimpleProps PlannerLives
begin

text \<open>
  The two planners agree: on a graph without in-place operators they give every tensor the same lifetime. What a
  plan promises is a locale that both satisfy.
\<close>

section \<open>Simulation of one planner by the other\<close>

definition agree :: "SimplePlanner \<Rightarrow> ArenaPlanner \<Rightarrow> bool" where
  "agree s p \<longleftrightarrow> sl_alloc_node s = ap_alloc_node p \<and> sl_dealloc_node s = ap_dealloc_node p"

lemma loop_status_forward:
  assumes "\<And>i s t t'. i \<in> set js \<Longrightarrow> R s t \<Longrightarrow> body' i t = Some (kTfLiteOk, t') \<Longrightarrow> \<exists>s'. body i s = Some (kTfLiteOk, s') \<and> R s' t'"
    and "R s t" "loop_status body' js t = Some (kTfLiteOk, t')"
  shows "\<exists>s'. loop_status body js s = Some (kTfLiteOk, s') \<and> R s' t'"
  using assms
proof (induction js arbitrary: s t)
  case (Cons j js)
  from Cons.prems(3) obtain u where u: "body' j t = Some (kTfLiteOk, u)" "loop_status body' js u = Some (kTfLiteOk, t')"
    by (auto simp: ensure_status_def split: bind_splits if_splits)
  with Cons.prems(1,2) obtain v where v: "body j s = Some (kTfLiteOk, v)" "R v u" by (metis list.set_intros(1))
  from Cons.IH [OF _ v(2) u(2)] Cons.prems(1) v(1) show ?case by (simp add: ensure_status_def)
qed simp

lemma allocate_agree:
  "agree s p \<Longrightarrow> planner_allocate i t p = Some (st, q) \<Longrightarrow>
   ap_refcounts q = ap_refcounts p \<and> ap_actual_tensor_id q = ap_actual_tensor_id p \<and> ap_preserve_all_tensors q = ap_preserve_all_tensors p
   \<and> (\<exists>s'. simple_allocate i t s = Some (st, s') \<and> agree s' q)"
  by (auto simp: planner_allocate_def simple_allocate_def agree_def split: bind_splits if_splits)

lemma deallocate_agree:
  "agree s p \<Longrightarrow> planner_deallocate i t p = Some (st, q) \<Longrightarrow>
   ap_actual_tensor_id q = ap_actual_tensor_id p \<and> ap_preserve_all_tensors q = ap_preserve_all_tensors p
   \<and> (\<exists>s'. simple_deallocate i t s = Some (st, s') \<and> agree s' q)"
  by (auto simp: planner_deallocate_def simple_deallocate_def agree_def split: bind_splits if_splits)

lemma queue_agree:
  "queue_tensor i t p = Some q \<Longrightarrow> agree s q = agree s p \<and> ap_refcounts q = ap_refcounts p \<and> ap_actual_tensor_id q = ap_actual_tensor_id p
   \<and> ap_preserve_all_tensors q = ap_preserve_all_tensors p"
  by (auto simp: queue_tensor_def agree_def)

text \<open>Before the nodes, the reference counts are part of the arena planner's state.\<close>

definition start_rel :: "SimplePlanner \<times> int list \<Rightarrow> ArenaPlanner \<Rightarrow> bool" where
  "start_rel = (\<lambda>(s, rs) p. agree s p \<and> rs = ap_refcounts p \<and> \<not> ap_preserve_all_tensors p)"

lemma start_forward:
  assumes "agree s p" "\<not> ap_preserve_all_tensors p" "ensure_status (planner_allocate 0 t p) (\<lambda>p2. status_ok (queue_tensor 0 t p2)) = Some (kTfLiteOk, q)"
  shows "\<exists>s'. with_refcounts (ap_refcounts p) (simple_allocate 0 t s) = Some (kTfLiteOk, s') \<and> start_rel s' q"
proof -
  from assms(3) obtain p2 where a: "planner_allocate 0 t p = Some (kTfLiteOk, p2)" and b: "queue_tensor 0 t p2 = Some q"
    by (auto simp: ensure_status_def status_ok_def split: bind_splits if_splits)
  from allocate_agree [OF assms(1) a] queue_agree [OF b] assms(2) show ?thesis by (auto simp: with_refcounts_def start_rel_def)
qed

lemma variable_forward:
  assumes "start_rel s p" "plan_variable t p = Some (kTfLiteOk, q)"
  shows "\<exists>s'. simple_variable t s = Some (kTfLiteOk, s') \<and> start_rel s' q"
proof -
  obtain x where x: "s = (x, ap_refcounts p)" "agree x p" "\<not> ap_preserve_all_tensors p" using assms(1) by (auto simp: start_rel_def)
  from assms(2) obtain rs where c: "array_upd (ap_refcounts p) t (\<lambda>r. r + 1) = Some rs" "t \<noteq> kTfLiteOptionalTensor"
    and e: "ensure_status (planner_allocate 0 t (p\<lparr>ap_refcounts := rs\<rparr>)) (\<lambda>p2. status_ok (queue_tensor 0 t p2)) = Some (kTfLiteOk, q)"
    by (auto simp: plan_variable_def count_reference_def split: bind_splits if_splits)
  have "agree x (p\<lparr>ap_refcounts := rs\<rparr>)" "\<not> ap_preserve_all_tensors (p\<lparr>ap_refcounts := rs\<rparr>)" using x(2,3) by (simp_all add: agree_def)
  from start_forward [OF this e] show ?thesis using c by (simp add: simple_variable_def x(1))
qed

lemma input_forward:
  assumes "start_rel s p" "plan_input t p = Some (kTfLiteOk, q)"
  shows "\<exists>s'. simple_input t s = Some (kTfLiteOk, s') \<and> start_rel s' q"
proof (cases "t = kTfLiteOptionalTensor")
  case True
  then show ?thesis using assms by (cases s) (simp add: simple_input_def plan_input_def)
next
  case False
  obtain x where x: "s = (x, ap_refcounts p)" "agree x p" "\<not> ap_preserve_all_tensors p" using assms(1) by (auto simp: start_rel_def)
  from assms(2) False obtain rs where c: "array_upd (ap_refcounts p) t (\<lambda>r. r + 1) = Some rs"
    and e: "ensure_status (planner_allocate 0 t (p\<lparr>ap_refcounts := rs\<rparr>)) (\<lambda>p2. status_ok (queue_tensor 0 t p2)) = Some (kTfLiteOk, q)"
    by (auto simp: plan_input_def count_reference_def split: bind_splits if_splits)
  have "agree x (p\<lparr>ap_refcounts := rs\<rparr>)" "\<not> ap_preserve_all_tensors (p\<lparr>ap_refcounts := rs\<rparr>)" using x(2,3) by (simp_all add: agree_def)
  from start_forward [OF this e] show ?thesis using c False by (simp add: simple_input_def x(1))
qed

text \<open>At the nodes they are beside it.\<close>

definition node_rel :: "SimplePlanner \<times> int list \<Rightarrow> ArenaPlanner \<times> int list \<Rightarrow> bool" where
  "node_rel = (\<lambda>(s, rs) (p, rc). agree s p \<and> rs = rc \<and> ap_actual_tensor_id p = Map.empty \<and> \<not> ap_preserve_all_tensors p)"

lemma use_forward:
  assumes "node_rel s p" "plan_use i t p = Some (kTfLiteOk, q)"
  shows "\<exists>s'. simple_use i t s = Some (kTfLiteOk, s') \<and> node_rel s' q"
proof -
  obtain x y rc where s: "s = (x, rc)" "p = (y, rc)" "agree x y" "ap_actual_tensor_id y = Map.empty" "\<not> ap_preserve_all_tensors y"
    using assms(1) by (cases s, cases p) (auto simp: node_rel_def)
  have f: "FindSharedTensor y t = t" by (simp add: FindSharedTensor_def s(4))
  show ?thesis using assms(2) s(3-5) deallocate_agree [OF s(3), of i t]
    by (auto simp: plan_use_def simple_use_def s(1,2) f node_rel_def with_refcounts_def split: bind_splits if_splits)
qed

lemma output_forward:
  assumes "node_rel (s, rc) (p, rc)" "plan_output i t p = Some (kTfLiteOk, q)" "t \<noteq> kTfLiteOptionalTensor"
  shows "\<exists>s'. simple_allocate i t s = Some (kTfLiteOk, s') \<and> node_rel (s', rc) (q, rc)"
proof -
  from assms(2,3) obtain p1 where a: "queue_tensor i t p = Some p1" and b: "planner_allocate i t p1 = Some (kTfLiteOk, q)"
    by (auto simp: plan_output_def split: bind_splits)
  have "agree s p1" using assms(1) queue_agree [OF a] by (simp add: node_rel_def)
  from allocate_agree [OF this b] show ?thesis using assms(1) queue_agree [OF a, of s] by (auto simp: node_rel_def)
qed

lemma node_forward:
  assumes "node_rel s p" "plan_node x p = Some (kTfLiteOk, q)" "\<forall>t \<in> set (tn_outputs (snd x)). t \<noteq> kTfLiteOptionalTensor"
  shows "\<exists>s'. simple_node x s = Some (kTfLiteOk, s') \<and> node_rel s' q"
proof -
  obtain i node where x: "x = (i, node)" by (cases x)
  obtain y z rc where s: "s = (y, rc)" "p = (z, rc)" using assms(1) by (cases s, cases p) (auto simp: node_rel_def)
  from assms(2) obtain z1 where o: "loop_status (plan_output i) (tn_outputs node) z = Some (kTfLiteOk, z1)"
    and r: "(if ap_preserve_all_tensors z1 then Some (kTfLiteOk, z1, rc) else loop_status (plan_use i) (tn_inputs node) (z1, rc)) = Some (kTfLiteOk, q)"
    by (auto simp: plan_node_def x s(2) split: bind_splits if_splits)
  have "\<exists>y1. loop_status (simple_allocate i) (tn_outputs node) y = Some (kTfLiteOk, y1) \<and> node_rel (y1, rc) (z1, rc)"
    by (rule loop_status_forward [OF _ _ o, where R = "\<lambda>y z. node_rel (y, rc) (z, rc)"]) (use assms(1,3) s x output_forward in auto)
  then obtain y1 where y1: "loop_status (simple_allocate i) (tn_outputs node) y = Some (kTfLiteOk, y1)" "node_rel (y1, rc) (z1, rc)" by blast
  from r y1(2) have u: "loop_status (plan_use i) (tn_inputs node) (z1, rc) = Some (kTfLiteOk, q)" by (simp add: node_rel_def)
  have "\<exists>s'. loop_status (simple_use i) (tn_inputs node) (y1, rc) = Some (kTfLiteOk, s') \<and> node_rel s' q"
    by (rule loop_status_forward [where R = node_rel, OF _ y1(2) u]) (use use_forward in auto)
  then show ?thesis by (auto simp: simple_node_def x s(1) y1(1) with_refcounts_def ensure_status_def)
qed

section \<open>The planners agree\<close>

definition no_inplace :: "GraphInfo \<Rightarrow> bool" where
  "no_inplace g \<longleftrightarrow> (\<forall>node \<in> set (gi_nodes g). tn_inplace_operator node = kTfLiteInplaceOpNone
     \<and> (\<forall>t \<in> set (tn_outputs node). t \<noteq> kTfLiteOptionalTensor))"

lemma count_used_keeps: "loop_opt count_used ts p = Some q \<Longrightarrow> loop_opt count_up ts (ap_refcounts p) = Some (ap_refcounts q) \<and> q = p\<lparr>ap_refcounts := ap_refcounts q\<rparr>"
proof (induction ts arbitrary: p)
  case (Cons t ts)
  then obtain r where r: "count_used t p = Some r" "loop_opt count_used ts r = Some q" by (auto split: bind_splits)
  then have "count_up t (ap_refcounts p) = Some (ap_refcounts r)" "r\<lparr>ap_refcounts := x\<rparr> = p\<lparr>ap_refcounts := x\<rparr>" for x
    by (auto simp: count_used_def count_up_def count_reference_def split: if_splits)
  then show ?case using Cons.IH [OF r(2)] by simp
qed simp

lemma identify_none: "no_inplace g \<Longrightarrow> IdentifyInPlaceTensors g p = Some (p\<lparr>ap_actual_tensor_id := Map.empty\<rparr>)"
proof -
  assume g: "no_inplace g"
  have "loop_opt (identify_in_place g) ns q = Some q" if "\<forall>n \<in> set ns. tn_inplace_operator n = kTfLiteInplaceOpNone" for ns q
    using that by (induction ns) (auto simp: identify_in_place_def split: list.splits)
  then show ?thesis using g by (simp add: IdentifyInPlaceTensors_def no_inplace_def)
qed

text \<open>What the arena planner does, the simple one does.\<close>

lemma plan_forward:
  assumes g: "no_inplace g" and np: "\<not> ap_preserve_all_tensors p" and run: "PlanAllocations g p = Some (kTfLiteOk, q)"
  shows "\<exists>s'. simple_plan g s = Some (kTfLiteOk, s') \<and> agree s' q \<and> ap_actual_tensor_id q = Map.empty"
proof -
  let ?n = "length (gi_tensors g)"
  let ?s = "s\<lparr>sl_alloc_node := replicate ?n kNodeNotAssigned, sl_dealloc_node := replicate ?n kNodeNotAssigned\<rparr>"
  from run obtain p1 p2 p3 p4 p5 rc where 1: "loop_opt count_used (gi_outputs g) (plan_reset g p) = Some p1"
    and 2: "loop_status plan_variable (gi_variables g) p1 = Some (kTfLiteOk, p2)" and 3: "loop_status plan_input (gi_inputs g) p2 = Some (kTfLiteOk, p3)"
    and 4: "loop_opt count_used (node_uses g) p3 = Some p4" and 5: "IdentifyInPlaceTensors g p4 = Some p5"
    and rc: "loop_opt (count_shared p5) (node_uses g) (ap_refcounts p3) = Some rc"
    and 6: "\<exists>rc'. loop_status plan_node (execution_nodes g) (p5, rc) = Some (kTfLiteOk, q, rc')"
    unfolding PlanAllocations_def
    by (auto simp: ensure_status_def split: bind_splits if_splits)
  have c: "loop_opt count_up (gi_outputs g) (replicate ?n 0) = Some (ap_refcounts p1)" and p1: "p1 = (plan_reset g p)\<lparr>ap_refcounts := ap_refcounts p1\<rparr>"
    using count_used_keeps [OF 1] by (simp_all add: plan_reset_def)
  have "agree ?s p1 \<and> \<not> ap_preserve_all_tensors p1" by (subst (1 2) p1) (simp add: agree_def plan_reset_def ResetAllocations_def np)
  then have "start_rel (?s, ap_refcounts p1) p1" by (simp add: start_rel_def)
  from loop_status_forward [where R = start_rel, OF _ this 2] variable_forward
  obtain s2 where s2: "loop_status simple_variable (gi_variables g) (?s, ap_refcounts p1) = Some (kTfLiteOk, s2)" "start_rel s2 p2" by blast
  from loop_status_forward [where R = start_rel, OF _ s2(2) 3] input_forward
  obtain s3 where s3: "loop_status simple_input (gi_inputs g) s2 = Some (kTfLiteOk, s3)" "start_rel s3 p3" by blast
  then obtain x where x: "s3 = (x, ap_refcounts p3)" "agree x p3" "\<not> ap_preserve_all_tensors p3" by (auto simp: start_rel_def)
  have p5: "p5 = p4\<lparr>ap_actual_tensor_id := Map.empty\<rparr>" using 5 identify_none [OF g] by simp
  have "count_shared p5 = count_up" by (simp add: fun_eq_iff count_shared_def count_up_def FindSharedTensor_def p5)
  then have c3: "loop_opt count_up (node_uses g) (ap_refcounts p3) = Some rc" using rc by simp
  have p4: "p4 = p3\<lparr>ap_refcounts := ap_refcounts p4\<rparr>" using count_used_keeps [OF 4] by simp
  have "agree x p4 \<and> \<not> ap_preserve_all_tensors p4" by (subst (1 2) p4) (use x in \<open>simp add: agree_def\<close>)
  then have r: "node_rel (x, rc) (p5, rc)" by (simp add: node_rel_def p5 agree_def)
  from 6 obtain rc' where 7: "loop_status plan_node (execution_nodes g) (p5, rc) = Some (kTfLiteOk, q, rc')" by blast
  have outs: "\<forall>t \<in> set (tn_outputs (snd y)). t \<noteq> kTfLiteOptionalTensor" if "y \<in> set (execution_nodes g)" for y
    using that g set_zip_rightD [of "fst y" "snd y"] by (fastforce simp: no_inplace_def execution_nodes_def)
  from loop_status_forward [where R = node_rel, OF _ r 7] node_forward outs
  obtain s7 where s7: "loop_status simple_node (execution_nodes g) (x, rc) = Some (kTfLiteOk, s7)" "node_rel s7 (q, rc')" by blast
  have "simple_plan g s = Some (kTfLiteOk, fst s7)"
    by (simp add: simple_plan_def Let_def c s2(1) s3(1) x(1) c3 s7(1) ensure_status_def case_prod_unfold)
  then show ?thesis using s7(2) by (auto simp: node_rel_def case_prod_unfold)
qed

text \<open>C9: On a graph whose indices are in range, without in-place operators and without optional outputs, both planners
  plan successfully and agree on the first and the last node of every tensor, whatever either of them did before: the
  arena planner, with its sharing of buffers and its two counts of references, refines the simple one.\<close>

theorem planners_agree:
  assumes "graph_ok g" "no_inplace g" "\<not> ap_preserve_all_tensors p"
  shows "\<exists>s' q. simple_plan g s = Some (kTfLiteOk, s') \<and> PlanAllocations g p = Some (kTfLiteOk, q)
    \<and> sl_alloc_node s' = ap_alloc_node q \<and> sl_dealloc_node s' = ap_dealloc_node q"
proof -
  obtain q where q: "PlanAllocations g p = Some (kTfLiteOk, q)" using plan_result [OF assms(1)] by blast
  from plan_forward [OF assms(2,3) q] show ?thesis using q by (auto simp: agree_def)
qed

definition chain_graph :: GraphInfo where
  "chain_graph = \<lparr>gi_tensors = replicate 3 sample_tensor, gi_nodes = [sample_node [0] [1] 0, sample_node [1, -1] [2] 0],
     gi_num_total_nodes = 2, gi_node_index = [0, 1], gi_inputs = [0], gi_outputs = [2], gi_variables = []\<rparr>"

lemma chain_graph_ok: "graph_ok chain_graph" "no_inplace chain_graph"
  by (simp_all add: graph_ok_def no_inplace_def chain_graph_def sample_node_def tensor_ok_def kTfLiteOptionalTensor_def kTfLiteInplaceOpNone_def)

theorem planners_agree_witness:
  "\<exists>s' q. simple_plan chain_graph SimplePlanner_new = Some (kTfLiteOk, s') \<and> PlanAllocations chain_graph (ArenaPlanner_new False 64) = Some (kTfLiteOk, q)
    \<and> sl_alloc_node s' = ap_alloc_node q \<and> sl_dealloc_node s' = ap_dealloc_node q"
  by (rule planners_agree [OF chain_graph_ok]) (simp add: ArenaPlanner_new_def)

section \<open>The contract of a planner\<close>

text \<open>
  What the interpreter relies on: planning succeeds, and a buffer lives from its first writer to its last reader.
  \<open>root\<close> is the tensor whose buffer a tensor uses.
\<close>

locale memory_planner =
  fixes plan :: "GraphInfo \<Rightarrow> 'p \<Rightarrow> (TfLiteStatus \<times> 'p) option" and accepts :: "GraphInfo \<Rightarrow> 'p \<Rightarrow> bool"
    and starts ends :: "'p \<Rightarrow> int list" and root :: "'p \<Rightarrow> int \<Rightarrow> int"
  assumes plan_total: "accepts g p \<Longrightarrow> \<exists>q. plan g p = Some (kTfLiteOk, q)"
    and written: "accepts g p \<Longrightarrow> plan g p = Some (kTfLiteOk, q) \<Longrightarrow> (j, t) \<in> set (outputs_of (execution_nodes g)) \<Longrightarrow>
      0 \<le> starts q ! nat t \<and> starts q ! nat t \<le> j"
    and read: "accepts g p \<Longrightarrow> plan g p = Some (kTfLiteOk, q) \<Longrightarrow> (i, node) \<in> set (execution_nodes g) \<Longrightarrow> t \<in> set (tn_inputs node) \<Longrightarrow>
      t \<noteq> kTfLiteOptionalTensor \<Longrightarrow> i \<le> ends q ! nat (root q t)"
    and given: "accepts g p \<Longrightarrow> plan g p = Some (kTfLiteOk, q) \<Longrightarrow> t \<in> start_tensors g \<Longrightarrow> starts q ! nat t = 0"
begin

definition ready :: "GraphInfo \<Rightarrow> int \<Rightarrow> int \<Rightarrow> bool" where
  "ready g i t \<longleftrightarrow> t \<in> start_tensors g \<or> (\<exists>j \<le> i. (j, t) \<in> set (outputs_of (execution_nodes g)))"

lemma live_at:
  assumes "accepts g p" "plan g p = Some (kTfLiteOk, q)" "(i, node) \<in> set (execution_nodes g)" "t \<in> set (tn_inputs node)"
    "t \<noteq> kTfLiteOptionalTensor" "root q t = t" "ready g i t" "0 \<le> i"
  shows "starts q ! nat t \<le> i \<and> i \<le> ends q ! nat t"
proof -
  have "i \<le> ends q ! nat t" using read [OF assms(1-5)] assms(6) by simp
  moreover have "starts q ! nat t \<le> i" using assms(7,8) written [OF assms(1,2)] given [OF assms(1,2)] by (force simp: ready_def)
  ultimately show ?thesis by simp
qed

lemma operands_meet:
  assumes "accepts g p" "plan g p = Some (kTfLiteOk, q)" "(i, node) \<in> set (execution_nodes g)" "0 \<le> i"
    and "t \<in> set (tn_inputs node)" "t \<noteq> kTfLiteOptionalTensor" "root q t = t" "ready g i t"
    and "u \<in> set (tn_inputs node)" "u \<noteq> kTfLiteOptionalTensor" "root q u = u" "ready g i u"
  shows "starts q ! nat t \<le> ends q ! nat u \<and> starts q ! nat u \<le> ends q ! nat t"
  using live_at [OF assms(1-3,5-8,4)] live_at [OF assms(1-3,9-12,4)] by linarith

end

lemma outputs_of_iff: "(j, t) \<in> set (outputs_of ns) \<longleftrightarrow> (\<exists>node. (j, node) \<in> set ns \<and> t \<in> set (tn_outputs node) \<and> t \<noteq> kTfLiteOptionalTensor)"
  by (auto simp: outputs_of_def)

lemma uses_of_iff: "(i, r) \<in> set (uses_of p ns) \<longleftrightarrow>
    (\<exists>node t. (i, node) \<in> set ns \<and> t \<in> set (tn_inputs node) \<and> t \<noteq> kTfLiteOptionalTensor \<and> r = FindSharedTensor p t)"
  by (auto simp: uses_of_def roots_def)

lemma plan_result_of:
  assumes "graph_ok g" "PlanAllocations g p = Some (kTfLiteOk, q)"
  shows "(j, r) \<in> set (uses_of q (execution_nodes g)) \<Longrightarrow> j \<le> ap_dealloc_node q ! nat r"
    "(j, t) \<in> set (outputs_of (execution_nodes g)) \<Longrightarrow> 0 \<le> ap_alloc_node q ! nat t \<and> ap_alloc_node q ! nat t \<le> j"
    "t \<in> start_tensors g \<Longrightarrow> ap_alloc_node q ! nat t = 0"
  using plan_result [OF assms(1), of p] assms(2) by auto

interpretation arena_planner: memory_planner PlanAllocations "\<lambda>g p. graph_ok g" ap_alloc_node ap_dealloc_node FindSharedTensor
proof
  show "\<exists>q. PlanAllocations g p = Some (kTfLiteOk, q)" if "graph_ok g" for g p using plan_result [OF that] by blast
  show "i \<le> ap_dealloc_node q ! nat (FindSharedTensor q t)"
    if "graph_ok g" "PlanAllocations g p = Some (kTfLiteOk, q)" "(i, node) \<in> set (execution_nodes g)" "t \<in> set (tn_inputs node)" "t \<noteq> kTfLiteOptionalTensor"
    for g p q i node t
    by (rule plan_result_of(1) [OF that(1,2)]) (use that(3-5) in \<open>auto simp: uses_of_iff\<close>)
qed (use plan_result_of in auto)

lemma arena_new_preserve: "\<not> ap_preserve_all_tensors (ArenaPlanner_new False n)"
  by (simp add: ArenaPlanner_new_def)

lemma simple_plan_total:
  assumes "graph_ok g" "no_inplace g"
  shows "\<exists>s'. simple_plan g s = Some (kTfLiteOk, s')"
proof -
  obtain q where "PlanAllocations g (ArenaPlanner_new False 64) = Some (kTfLiteOk, q)" using plan_result [OF assms(1)] by blast
  from plan_forward [OF assms(2) arena_new_preserve this] show ?thesis by blast
qed

lemma simple_as_arena:
  assumes "graph_ok g" "no_inplace g" "simple_plan g s = Some (kTfLiteOk, s')"
  shows "\<exists>q. PlanAllocations g (ArenaPlanner_new False 64) = Some (kTfLiteOk, q) \<and> agree s' q \<and> (\<forall>t. FindSharedTensor q t = t)"
proof -
  obtain q where q: "PlanAllocations g (ArenaPlanner_new False 64) = Some (kTfLiteOk, q)" using plan_result [OF assms(1)] by blast
  from plan_forward [OF assms(2) arena_new_preserve q, of s] show ?thesis using q assms(3) by (auto simp: FindSharedTensor_def)
qed

interpretation simple_planner: memory_planner simple_plan "\<lambda>g s. graph_ok g \<and> no_inplace g" sl_alloc_node sl_dealloc_node "\<lambda>s t. t"
proof
  show "\<exists>q. simple_plan g s = Some (kTfLiteOk, q)" if "graph_ok g \<and> no_inplace g" for g s
    using simple_plan_total that by blast
  show "i \<le> sl_dealloc_node q ! nat t"
    if "graph_ok g \<and> no_inplace g" "simple_plan g s = Some (kTfLiteOk, q)" "(i, node) \<in> set (execution_nodes g)" "t \<in> set (tn_inputs node)"
      "t \<noteq> kTfLiteOptionalTensor" for g s q i node t
    using simple_as_arena [of g s q] arena_planner.read [of g _ _ i node t] that by (fastforce simp: agree_def)
  show "0 \<le> sl_alloc_node q ! nat t \<and> sl_alloc_node q ! nat t \<le> j"
    if "graph_ok g \<and> no_inplace g" "simple_plan g s = Some (kTfLiteOk, q)" "(j, t) \<in> set (outputs_of (execution_nodes g))" for g s q j t
    using simple_as_arena [of g s q] arena_planner.written [of g _ _ j t] that by (auto simp: agree_def)
  show "sl_alloc_node q ! nat t = 0"
    if "graph_ok g \<and> no_inplace g" "simple_plan g s = Some (kTfLiteOk, q)" "t \<in> start_tensors g" for g s q t
    using simple_as_arena [of g s q] arena_planner.given [of g _ _ t] that by (auto simp: agree_def)
qed

text \<open>The operands of a node live together. Two tensors that own their buffers, that a node reads, and that were
  written by that node or an earlier one or given at the start, have lifetimes that meet: with the arena planner on any
  graph whose indices are in range, and with the simple planner where there are no in-place operators. Both follow from
  the contract of a planner.\<close>

theorem operands_live_together:
  assumes "graph_ok g" "(i, node) \<in> set (execution_nodes g)" "0 \<le> i"
    and "t \<in> set (tn_inputs node)" "t \<noteq> kTfLiteOptionalTensor" "t \<in> start_tensors g \<or> (\<exists>j \<le> i. (j, t) \<in> set (outputs_of (execution_nodes g)))"
    and "u \<in> set (tn_inputs node)" "u \<noteq> kTfLiteOptionalTensor" "u \<in> start_tensors g \<or> (\<exists>j \<le> i. (j, u) \<in> set (outputs_of (execution_nodes g)))"
  shows "(PlanAllocations g p = Some (kTfLiteOk, q) \<longrightarrow> FindSharedTensor q t = t \<longrightarrow> FindSharedTensor q u = u \<longrightarrow>
      ap_alloc_node q ! nat t \<le> ap_dealloc_node q ! nat u \<and> ap_alloc_node q ! nat u \<le> ap_dealloc_node q ! nat t)
    \<and> (no_inplace g \<longrightarrow> simple_plan g s = Some (kTfLiteOk, s') \<longrightarrow>
      sl_alloc_node s' ! nat t \<le> sl_dealloc_node s' ! nat u \<and> sl_alloc_node s' ! nat u \<le> sl_dealloc_node s' ! nat t)"
  using arena_planner.operands_meet [of g p q i node t u] simple_planner.operands_meet [of g s s' i node t u] assms
  by (simp add: arena_planner.ready_def simple_planner.ready_def)

theorem operands_live_together_witness:
  "PlanAllocations reuse_graph (ArenaPlanner_new False 64) = Some (kTfLiteOk, reuse_plan) \<and> FindSharedTensor reuse_plan 0 = 0
    \<and> ap_alloc_node reuse_plan ! 0 \<le> ap_dealloc_node reuse_plan ! 0"
proof -
  have n: "(0, sample_node [0] [1] 0) \<in> set (execution_nodes reuse_graph)" by (simp add: execution_nodes_def reuse_graph_def upto_rec1)
  have f: "FindSharedTensor reuse_plan 0 = 0" by code_simp
  have "ap_alloc_node reuse_plan ! 0 \<le> ap_dealloc_node reuse_plan ! 0"
    using operands_live_together [OF reuse_graph_ok n, of 0 0 "ArenaPlanner_new False 64" reuse_plan] reuse_plan_eq f
    by (simp add: sample_node_def kTfLiteOptionalTensor_def start_tensors_def reuse_graph_def)
  then show ?thesis using reuse_plan_eq f by blast
qed

end
