(* ===== verification/GraphPartition.thy ===== *)
theory GraphPartition
  imports ArenaPlanner "HOL-Library.Product_Lexorder"
begin

text \<open>
  The partition of a graph into subsets of nodes (\<^verbatim>\<open>graph_info.cc\<close>), by which the interpreter hands nodes to a
  delegate: all nodes of a subset go to the delegate or none, and the subsets run one after the other. An operation is
  \<^term>\<open>None\<close> where an index is out of range or the code does not return.
\<close>

section \<open>State\<close>

datatype NodeSubset_Type = kTfUnexplored | kTfPartition | kTfNonPartition

record NodeSubset =
  ns_type :: NodeSubset_Type
  ns_nodes :: "int list"
  ns_input_tensors :: "int list"
  ns_output_tensors :: "int list"

definition NodeSubset_new :: NodeSubset where
  "NodeSubset_new = \<lparr>ns_type = kTfUnexplored, ns_nodes = [], ns_input_tensors = [], ns_output_tensors = []\<rparr>"

type_synonym ControlEdge = "int \<times> int"

definition kEpochNotReady :: int where
  "kEpochNotReady = - 1"

definition kEpochAlwaysReady :: int where
  "kEpochAlwaysReady = - 2"

record Partitioner =
  pa_node_subsets :: "NodeSubset list"
  pa_node_type :: "NodeSubset_Type list"
  pa_tensor_epochs :: "int list"
  pa_node_epochs :: "int list"
  pa_greedily :: bool
  pa_control_edges :: "ControlEdge list"
  pa_num_incoming_control_edges :: "int list"
  pa_disable_node_fusion :: bool

definition Uniquefy :: "'a::linorder list \<Rightarrow> 'a list" where
  "Uniquefy items = remdups_adj (sort items)"

definition Partitioner_new :: "GraphInfo \<Rightarrow> int list \<Rightarrow> bool \<Rightarrow> ControlEdge list \<Rightarrow> bool \<Rightarrow> Partitioner option" where
  "Partitioner_new g nodes_to_partition greedily control_edges disable_node_fusion =
     map_option (\<lambda>types. \<lparr>pa_node_subsets = [], pa_node_type = types, pa_tensor_epochs = [], pa_node_epochs = [], pa_greedily = greedily,
          pa_control_edges = Uniquefy control_edges, pa_num_incoming_control_edges = replicate (length (gi_nodes g)) 0,
          pa_disable_node_fusion = disable_node_fusion\<rparr>)
       (loop_opt (\<lambda>node_index types. array_set types node_index kTfPartition) nodes_to_partition
          (replicate (gi_num_total_nodes g) kTfNonPartition))"

section \<open>One node\<close>

text \<open>The test that every input has an epoch, which stops at the first that has none.\<close>

fun inputs_ready :: "int list \<Rightarrow> int list \<Rightarrow> bool option" where
  "inputs_ready epochs [] = Some True"
| "inputs_ready epochs (t # ts) =
     (if t = kTfLiteOptionalTensor then inputs_ready epochs ts
      else Option.bind (array_get epochs t) (\<lambda>e. if e = kEpochNotReady then Some False else inputs_ready epochs ts))"

text \<open>The outputs of a node get the epoch of the node.\<close>

definition set_epoch :: "int \<Rightarrow> int \<Rightarrow> int list \<Rightarrow> int list option" where
  "set_epoch epoch t epochs = (if t = kTfLiteOptionalTensor then Some epochs else array_set epochs t epoch)"

text \<open>An input from elsewhere is one of the subset's, and an output of the subset it comes from.\<close>

definition note_input :: "int list \<Rightarrow> int \<Rightarrow> int \<Rightarrow> NodeSubset list \<Rightarrow> NodeSubset list option" where
  "note_input epochs current_epoch t subsets =
     (if t = kTfLiteOptionalTensor then Some subsets
      else Option.bind (array_get epochs t) (\<lambda>input_epoch.
        if input_epoch = current_epoch then Some subsets
        else Option.bind (array_upd subsets current_epoch (\<lambda>s. s\<lparr>ns_input_tensors := ns_input_tensors s @ [t]\<rparr>)) (\<lambda>subsets'.
          if input_epoch \<ge> 0
          then array_upd subsets' input_epoch (\<lambda>s. s\<lparr>ns_output_tensors := ns_output_tensors s @ [t]\<rparr>)
          else Some subsets')))"

text \<open>The edges from a node, a range of the sorted edges.\<close>

definition edges_from :: "int \<Rightarrow> ControlEdge list \<Rightarrow> ControlEdge list" where
  "edges_from node_index edges = takeWhile (\<lambda>e. fst e = node_index) (dropWhile (\<lambda>e. e < (node_index, 0)) edges)"

definition assign_node :: "TfLiteNode \<Rightarrow> int \<Rightarrow> int \<Rightarrow> NodeSubset_Type \<Rightarrow> Partitioner \<Rightarrow> Partitioner option" where
  "assign_node node node_index original_node_idx type p =
     (let current_epoch = int (length (pa_node_subsets p)) - 1
      in Option.bind (array_set (pa_node_epochs p) node_index current_epoch) (\<lambda>node_epochs.
         Option.bind (array_upd (pa_node_subsets p) current_epoch
                        (\<lambda>s. s\<lparr>ns_type := type, ns_nodes := ns_nodes s @ [original_node_idx]\<rparr>)) (\<lambda>subsets.
         Option.bind (loop_opt (set_epoch current_epoch) (tn_outputs node) (pa_tensor_epochs p)) (\<lambda>tensor_epochs.
         Option.bind (loop_opt (note_input tensor_epochs current_epoch) (tn_inputs node) subsets) (\<lambda>subsets'.
         map_option (\<lambda>incoming. p\<lparr>pa_node_epochs := node_epochs, pa_node_subsets := subsets', pa_tensor_epochs := tensor_epochs,
                                 pa_num_incoming_control_edges := incoming\<rparr>)
           (loop_opt (\<lambda>e incoming. array_upd incoming (snd e) (\<lambda>n. n - 1)) (edges_from node_index (pa_control_edges p))
              (pa_num_incoming_control_edges p)))))))"

definition UpdateNode :: "GraphInfo \<Rightarrow> int \<Rightarrow> Partitioner \<Rightarrow> (bool \<times> Partitioner) option" where
  "UpdateNode g node_index p =
     Option.bind (array_get (gi_nodes g) node_index) (\<lambda>node.
     Option.bind (array_get (pa_node_subsets p) (int (length (pa_node_subsets p)) - 1)) (\<lambda>current_subset.
       if pa_disable_node_fusion p \<and> ns_nodes current_subset \<noteq> [] then Some (False, p)
       else Option.bind (array_get (pa_node_epochs p) node_index) (\<lambda>epoch.
         if epoch \<noteq> kEpochNotReady then Some (False, p)
         else Option.bind (inputs_ready (pa_tensor_epochs p) (tn_inputs node)) (\<lambda>ready.
           if \<not> ready then Some (False, p)
           else Option.bind (array_get (pa_num_incoming_control_edges p) node_index) (\<lambda>incoming.
             if incoming \<noteq> 0 then Some (False, p)
             else Option.bind (array_get (gi_node_index g) node_index) (\<lambda>original_node_idx.
               Option.bind (array_get (pa_node_type p) original_node_idx) (\<lambda>type.
                 let current_type = (if ns_type current_subset = kTfUnexplored then type else ns_type current_subset)
                 in if current_type = type
                    then map_option (Pair True) (assign_node node node_index original_node_idx type p)
                    else Some (False, p))))))))"

section \<open>One subset\<close>

text \<open>One round over the nodes: whether to return from the surrounding loop, and whether a node was assigned.\<close>

fun sweep :: "GraphInfo \<Rightarrow> int list \<Rightarrow> bool \<Rightarrow> Partitioner \<Rightarrow> (bool \<times> bool \<times> Partitioner) option" where
  "sweep g [] did_something p = Some (False, did_something, p)"
| "sweep g (i # js) did_something p =
     Option.bind (UpdateNode g i p) (\<lambda>(updated, p').
       if updated then sweep g js True p'
       else if did_something \<and> \<not> pa_greedily p' then Some (True, did_something, p')
       else sweep g js did_something p')"

partial_function (option) sweep_all :: "GraphInfo \<Rightarrow> Partitioner \<Rightarrow> Partitioner option" where
  "sweep_all g p =
     Option.bind (sweep g [0..int (length (gi_nodes g)) - 1] False p) (\<lambda>(returned, did_something, p').
       if returned \<or> \<not> did_something then Some p' else sweep_all g p')"

definition BuildNodeSubset :: "GraphInfo \<Rightarrow> Partitioner \<Rightarrow> Partitioner option" where
  "BuildNodeSubset g p = sweep_all g (p\<lparr>pa_node_subsets := pa_node_subsets p @ [NodeSubset_new]\<rparr>)"

section \<open>The partition\<close>

partial_function (option) build_subsets :: "GraphInfo \<Rightarrow> Partitioner \<Rightarrow> Partitioner option" where
  "build_subsets g p =
     Option.bind (BuildNodeSubset g p) (\<lambda>p'.
       if ns_nodes (last (pa_node_subsets p')) = [] then Some (p'\<lparr>pa_node_subsets := butlast (pa_node_subsets p')\<rparr>)
       else build_subsets g p')"

definition mark_output :: "int list \<Rightarrow> int \<Rightarrow> NodeSubset list \<Rightarrow> NodeSubset list option" where
  "mark_output epochs output_index subsets =
     Option.bind (array_get epochs output_index) (\<lambda>output_epoch.
       if output_epoch = kEpochAlwaysReady then Some subsets
       else array_upd subsets output_epoch (\<lambda>s. s\<lparr>ns_output_tensors := ns_output_tensors s @ [output_index]\<rparr>))"

definition partition_reset :: "GraphInfo \<Rightarrow> Partitioner \<Rightarrow> Partitioner option" where
  "partition_reset g p =
     Option.bind (loop_opt (\<lambda>e incoming. array_upd incoming (snd e) (\<lambda>n. n + 1)) (pa_control_edges p)
                    (replicate (length (gi_nodes g)) 0)) (\<lambda>incoming.
       map_option (\<lambda>epochs. p\<lparr>pa_node_subsets := [], pa_tensor_epochs := epochs,
                              pa_node_epochs := replicate (length (gi_nodes g)) kEpochNotReady,
                              pa_num_incoming_control_edges := incoming\<rparr>)
         (loop_opt (set_epoch kEpochNotReady) (concat (map tn_outputs (gi_nodes g)))
            (replicate (length (gi_tensors g)) kEpochAlwaysReady)))"

definition Partition :: "GraphInfo \<Rightarrow> Partitioner \<Rightarrow> NodeSubset list option" where
  "Partition g p =
     Option.bind (partition_reset g p) (\<lambda>p1.
       Option.bind (build_subsets g p1) (\<lambda>p2.
         map_option (map (\<lambda>s. s\<lparr>ns_input_tensors := Uniquefy (ns_input_tensors s), ns_output_tensors := Uniquefy (ns_output_tensors s)\<rparr>))
           (loop_opt (mark_output (pa_tensor_epochs p2)) (gi_outputs g) (pa_node_subsets p2))))"

text \<open>The chain of the nodes with side effects.\<close>

fun side_effect_chain :: "int \<Rightarrow> (int \<times> TfLiteNode) list \<Rightarrow> ControlEdge list" where
  "side_effect_chain last_op [] = []"
| "side_effect_chain last_op ((i, node) # ns) =
     (if tn_might_have_side_effect node
      then (if last_op \<noteq> - 1 then [(last_op, i)] else []) @ side_effect_chain i ns
      else side_effect_chain last_op ns)"

definition default_control_edges :: "GraphInfo \<Rightarrow> bool \<Rightarrow> ControlEdge list" where
  "default_control_edges g greedily = (if greedily then side_effect_chain (- 1) (execution_nodes g) else [])"

definition PartitionGraphIntoIndependentNodeSubsets ::
  "GraphInfo \<Rightarrow> int list \<Rightarrow> bool \<Rightarrow> ControlEdge list option \<Rightarrow> bool \<Rightarrow> (TfLiteStatus \<times> NodeSubset list) option" where
  "PartitionGraphIntoIndependentNodeSubsets g nodes_to_partition greedily control_edges disable_node_fusion =
     (let edges = (case control_edges of Some es \<Rightarrow> es | None \<Rightarrow> default_control_edges g greedily)
      in Option.bind (Partitioner_new g nodes_to_partition greedily edges disable_node_fusion) (\<lambda>p.
           map_option (Pair kTfLiteOk) (Partition g p)))"

end
