(* ===== verification/PartitionProps.thy ===== *)
theory PartitionProps
  imports GraphPartition PlannerProps
begin

text \<open>
  The partition of a graph as a list of groups of nodes: what one step of the algorithm does to the groups, that it
  ends, and what the subsets are in the end.
\<close>

section \<open>Dependencies\<close>

abbreviation num_nodes :: "GraphInfo \<Rightarrow> nat" where
  "num_nodes g \<equiv> length (gi_nodes g)"

definition reads :: "GraphInfo \<Rightarrow> nat \<Rightarrow> int set" where
  "reads g i = {t \<in> set (tn_inputs (gi_nodes g ! i)). t \<noteq> kTfLiteOptionalTensor}"

definition writes :: "GraphInfo \<Rightarrow> nat \<Rightarrow> int set" where
  "writes g i = {t \<in> set (tn_outputs (gi_nodes g ! i)). t \<noteq> kTfLiteOptionalTensor}"

text \<open>The nodes a node waits for.\<close>

definition preds :: "GraphInfo \<Rightarrow> ControlEdge list \<Rightarrow> nat \<Rightarrow> nat set" where
  "preds g es j = {i. i < num_nodes g \<and> (writes g i \<inter> reads g j \<noteq> {} \<or> (int i, int j) \<in> set es)}"

text \<open>
  A graph in dependency order: every tensor has one writer, which comes before its readers, and control edges go
  forward. The indices of the nodes in the whole graph are distinct and in range.
\<close>

definition ordered_graph :: "GraphInfo \<Rightarrow> ControlEdge list \<Rightarrow> bool" where
  "ordered_graph g es \<longleftrightarrow>
     (\<forall>i < num_nodes g. \<forall>t \<in> reads g i \<union> writes g i. tensor_ok g t)
     \<and> (\<forall>i < num_nodes g. \<forall>j < num_nodes g. writes g i \<inter> writes g j \<noteq> {} \<longrightarrow> i = j)
     \<and> (\<forall>i < num_nodes g. \<forall>j < num_nodes g. writes g i \<inter> reads g j \<noteq> {} \<longrightarrow> i < j)
     \<and> (\<forall>(a, b) \<in> set es. 0 \<le> a \<and> a < b \<and> b < int (num_nodes g))
     \<and> length (gi_node_index g) = num_nodes g \<and> distinct (gi_node_index g)
     \<and> (\<forall>x \<in> set (gi_node_index g). 0 \<le> x \<and> x < int (gi_num_total_nodes g))
     \<and> (\<forall>t \<in> set (gi_outputs g). tensor_ok g t)"

lemma ordered_graph_less:
  assumes "ordered_graph g es"
  shows "i < num_nodes g \<Longrightarrow> j < num_nodes g \<Longrightarrow> t \<in> writes g i \<Longrightarrow> t \<in> reads g j \<Longrightarrow> i < j"
    "i < num_nodes g \<Longrightarrow> j < num_nodes g \<Longrightarrow> t \<in> writes g i \<Longrightarrow> t \<in> writes g j \<Longrightarrow> i = j"
    "(a, b) \<in> set es \<Longrightarrow> 0 \<le> a \<and> a < b \<and> b < int (num_nodes g)"
  using assms unfolding ordered_graph_def by blast+

lemma preds_less: "ordered_graph g es \<Longrightarrow> j < num_nodes g \<Longrightarrow> i \<in> preds g es j \<Longrightarrow> i < j"
  by (fastforce dest: ordered_graph_less simp: preds_def)

lemma ordered_graph_tensor: "ordered_graph g es \<Longrightarrow> i < num_nodes g \<Longrightarrow> t \<in> reads g i \<union> writes g i \<Longrightarrow> tensor_ok g t"
  unfolding ordered_graph_def by blast

section \<open>Loops over arrays\<close>

lemma array_upd_nat [simp]: "i < length xs \<Longrightarrow> array_upd xs (int i) f = Some (xs[i := f (xs ! i)])"
  by (simp add: array_upd_def)

text \<open>The epochs of some tensors.\<close>

lemma set_epoch_loop:
  assumes "\<forall>t \<in> set ts. t = kTfLiteOptionalTensor \<or> 0 \<le> t \<and> t < int (length xs)"
  shows "\<exists>ys. loop_opt (set_epoch c) ts xs = Some ys \<and> length ys = length xs
    \<and> (\<forall>k < length xs. ys ! k = (if int k \<in> set ts then c else xs ! k))"
  using assms
proof (induction ts arbitrary: xs)
  case (Cons t ts)
  show ?case
  proof (cases "t = kTfLiteOptionalTensor")
    case True
    then show ?thesis using Cons by (auto simp: set_epoch_def kTfLiteOptionalTensor_def)
  next
    case False
    then obtain m where m: "t = int m" "m < length xs" using Cons.prems by (metis list.set_intros(1) nonneg_int_cases of_nat_less_iff)
    obtain ys where ys: "loop_opt (set_epoch c) ts (xs[m := c]) = Some ys" "length ys = length xs"
        "\<forall>k < length xs. ys ! k = (if int k \<in> set ts then c else xs[m := c] ! k)"
      using Cons.IH [of "xs[m := c]"] Cons.prems by auto
    have "set_epoch c t xs = Some (xs[m := c])" using m False by (simp add: set_epoch_def)
    then show ?thesis using ys m by (auto simp: nth_list_update)
  qed
qed simp

lemma inputs_ready_iff:
  assumes "\<forall>t \<in> set ts. t = kTfLiteOptionalTensor \<or> 0 \<le> t \<and> t < int (length xs)"
  shows "inputs_ready xs ts = Some (\<forall>t \<in> set ts. t \<noteq> kTfLiteOptionalTensor \<longrightarrow> xs ! nat t \<noteq> kEpochNotReady)"
  using assms by (induction ts) (auto simp: array_get_def nat_less_iff)

text \<open>The inputs of a node, noted in the subsets.\<close>

definition same_nodes :: "NodeSubset list \<Rightarrow> NodeSubset list \<Rightarrow> bool" where
  "same_nodes ss ss' \<longleftrightarrow> map ns_nodes ss' = map ns_nodes ss \<and> map ns_type ss' = map ns_type ss"

lemma same_nodes_nth:
  assumes "same_nodes ss ss'"
  shows "length ss' = length ss" "k < length ss \<Longrightarrow> ns_nodes (ss' ! k) = ns_nodes (ss ! k)" "k < length ss \<Longrightarrow> ns_type (ss' ! k) = ns_type (ss ! k)"
proof -
  show l: "length ss' = length ss" using assms by (metis same_nodes_def length_map)
  show "k < length ss \<Longrightarrow> ns_nodes (ss' ! k) = ns_nodes (ss ! k)" "k < length ss \<Longrightarrow> ns_type (ss' ! k) = ns_type (ss ! k)"
    using assms l unfolding same_nodes_def by (metis nth_map)+
qed

lemma same_nodes_update:
  "same_nodes ss ss' \<Longrightarrow> ns_nodes x = ns_nodes (ss' ! k) \<Longrightarrow> ns_type x = ns_type (ss' ! k) \<Longrightarrow> same_nodes ss (ss'[k := x])"
  by (simp add: same_nodes_def map_update_same)

lemma note_input_one:
  assumes "c < length ss" "t = kTfLiteOptionalTensor \<or> 0 \<le> t \<and> t < int (length xs) \<and> xs ! nat t < int (length ss)"
  shows "\<exists>ss'. note_input xs (int c) t ss = Some ss' \<and> same_nodes ss ss'
    \<and> (\<forall>e < length ss. set (ns_input_tensors (ss' ! e))
         = set (ns_input_tensors (ss ! e)) \<union> (if e = c \<and> t \<noteq> kTfLiteOptionalTensor \<and> xs ! nat t \<noteq> int c then {t} else {}))
    \<and> (\<forall>e < length ss. set (ns_output_tensors (ss' ! e))
         = set (ns_output_tensors (ss ! e)) \<union> (if e \<noteq> c \<and> t \<noteq> kTfLiteOptionalTensor \<and> xs ! nat t = int e then {t} else {}))"
proof (cases "t = kTfLiteOptionalTensor \<or> xs ! nat t = int c")
  case True
  then show ?thesis using assms by (auto simp: note_input_def array_get_def same_nodes_def nat_less_iff)
next
  case False
  then have get: "array_get xs t = Some (xs ! nat t)" "xs ! nat t < int (length ss)" using assms(2) by (auto simp: array_get_def nat_less_iff)
  let ?ss = "ss[c := (ss ! c)\<lparr>ns_input_tensors := ns_input_tensors (ss ! c) @ [t]\<rparr>]"
  have s: "same_nodes ss ?ss" by (rule same_nodes_update) (simp_all add: same_nodes_def)
  show ?thesis
  proof (cases "xs ! nat t \<ge> 0")
    case True
    then obtain m where m: "xs ! nat t = int m" "m < length ss" "m \<noteq> c" using get(2) False by (metis nonneg_int_cases of_nat_less_iff)
    let ?ss' = "?ss[m := (ss ! m)\<lparr>ns_output_tensors := ns_output_tensors (ss ! m) @ [t]\<rparr>]"
    have "note_input xs (int c) t ss = Some ?ss'" using False assms(1) get m by (simp add: note_input_def)
    moreover have "same_nodes ss ?ss'" by (rule same_nodes_update [OF s]) (use m in simp_all)
    ultimately show ?thesis using False m assms(1) by (auto simp: nth_list_update)
  next
    case neg: False
    then have "note_input xs (int c) t ss = Some ?ss" using False assms(1) get by (simp add: note_input_def)
    then show ?thesis using False neg s assms(1) by (auto simp: nth_list_update)
  qed
qed

lemma note_input_loop:
  assumes "c < length ss" "\<forall>t \<in> set ts. t = kTfLiteOptionalTensor \<or> 0 \<le> t \<and> t < int (length xs) \<and> xs ! nat t < int (length ss)"
  shows "\<exists>ss'. loop_opt (note_input xs (int c)) ts ss = Some ss' \<and> same_nodes ss ss'
    \<and> (\<forall>e < length ss. set (ns_input_tensors (ss' ! e))
         = set (ns_input_tensors (ss ! e)) \<union> {t \<in> set ts. e = c \<and> t \<noteq> kTfLiteOptionalTensor \<and> xs ! nat t \<noteq> int c})
    \<and> (\<forall>e < length ss. set (ns_output_tensors (ss' ! e))
         = set (ns_output_tensors (ss ! e)) \<union> {t \<in> set ts. e \<noteq> c \<and> t \<noteq> kTfLiteOptionalTensor \<and> xs ! nat t = int e})"
  using assms
proof (induction ts arbitrary: ss)
  case Nil
  then show ?case by (simp add: same_nodes_def)
next
  case (Cons t ts)
  obtain s1 where 1: "note_input xs (int c) t ss = Some s1" "same_nodes ss s1"
    "\<And>e. e < length ss \<Longrightarrow> set (ns_input_tensors (s1 ! e))
         = set (ns_input_tensors (ss ! e)) \<union> (if e = c \<and> t \<noteq> kTfLiteOptionalTensor \<and> xs ! nat t \<noteq> int c then {t} else {})"
    "\<And>e. e < length ss \<Longrightarrow> set (ns_output_tensors (s1 ! e))
         = set (ns_output_tensors (ss ! e)) \<union> (if e \<noteq> c \<and> t \<noteq> kTfLiteOptionalTensor \<and> xs ! nat t = int e then {t} else {})"
    using note_input_one [of c ss t xs] Cons.prems by (metis list.set_intros(1))
  have len: "length s1 = length ss" by (rule same_nodes_nth(1) [OF 1(2)])
  obtain s2 where 2: "loop_opt (note_input xs (int c)) ts s1 = Some s2" "same_nodes s1 s2"
    "\<And>e. e < length ss \<Longrightarrow> set (ns_input_tensors (s2 ! e))
         = set (ns_input_tensors (s1 ! e)) \<union> {t \<in> set ts. e = c \<and> t \<noteq> kTfLiteOptionalTensor \<and> xs ! nat t \<noteq> int c}"
    "\<And>e. e < length ss \<Longrightarrow> set (ns_output_tensors (s2 ! e))
         = set (ns_output_tensors (s1 ! e)) \<union> {t \<in> set ts. e \<noteq> c \<and> t \<noteq> kTfLiteOptionalTensor \<and> xs ! nat t = int e}"
    using Cons.IH [of s1] Cons.prems len by auto
  have "same_nodes ss s2" using 1(2) 2(2) by (simp add: same_nodes_def)
  then show ?case using 1(1) 2(1) by (auto simp: 1(3,4) 2(3,4))
qed

section \<open>Control edges\<close>

lemma takeWhile_first_sorted:
  fixes es :: "ControlEdge list"
  assumes "sorted es" "\<forall>e \<in> set es. i \<le> fst e"
  shows "takeWhile (\<lambda>e. fst e = i) es = filter (\<lambda>e. fst e = i) es"
  using assms
proof (induction es)
  case (Cons e es)
  show ?case
  proof (cases "fst e = i")
    case False
    then have "fst x \<noteq> i" if "x \<in> set es" for x using Cons.prems that by (fastforce simp: less_eq_prod_def)
    then show ?thesis using False by (simp add: filter_empty_conv)
  qed (use Cons in simp)
qed simp

lemma edges_from_filter:
  assumes "sorted es" "\<forall>e \<in> set es. 0 \<le> snd e"
  shows "edges_from i es = filter (\<lambda>e. fst e = i) es"
  unfolding edges_from_def using assms
proof (induction es)
  case (Cons e es)
  show ?case
  proof (cases "e < (i, 0)")
    case True
    then have "fst e \<noteq> i" using Cons.prems(2) by (auto simp: less_prod_def)
    then show ?thesis using True Cons by simp
  next
    case False
    then have e: "i \<le> fst e" by (auto simp: less_prod_def)
    have "i \<le> fst x" if "x \<in> set es" for x
    proof -
      have "e \<le> x" using Cons.prems(1) that by simp
      then show ?thesis using e by (auto simp: less_eq_prod_def)
    qed
    then have "\<forall>x \<in> set (e # es). i \<le> fst x" using e by simp
    from takeWhile_first_sorted [OF Cons.prems(1) this] show ?thesis using False by simp
  qed
qed simp

lemma count_edges_loop:
  assumes "\<And>n. f n = n + d" "\<forall>e \<in> set es. 0 \<le> snd e \<and> snd e < int (length xs)"
  shows "\<exists>ys. loop_opt (\<lambda>e incoming. array_upd incoming (snd e) f) es xs = Some ys \<and> length ys = length xs
    \<and> (\<forall>k < length xs. ys ! k = xs ! k + d * int (length (filter (\<lambda>e. snd e = int k) es)))"
  using assms(2)
proof (induction es arbitrary: xs)
  case (Cons e es)
  obtain m where m: "snd e = int m" "m < length xs" using Cons.prems by (metis list.set_intros(1) nonneg_int_cases of_nat_less_iff)
  obtain ys where ys: "loop_opt (\<lambda>e incoming. array_upd incoming (snd e) f) es (xs[m := f (xs ! m)]) = Some ys" "length ys = length xs"
      "\<forall>k < length xs. ys ! k = xs[m := f (xs ! m)] ! k + d * int (length (filter (\<lambda>e. snd e = int k) es))"
    using Cons.IH [of "xs[m := f (xs ! m)]"] Cons.prems by auto
  have "\<forall>k < length xs. ys ! k = xs ! k + d * int (length (filter (\<lambda>x. snd x = int k) (e # es)))"
    using ys(3) m by (auto simp: nth_list_update assms(1) algebra_simps)
  then show ?case using ys(1,2) m by simp
qed simp

text \<open>The edges that a node still waits for.\<close>

definition waiting :: "ControlEdge list \<Rightarrow> nat set \<Rightarrow> nat \<Rightarrow> nat" where
  "waiting es D j = length (filter (\<lambda>e. snd e = int j \<and> fst e \<notin> int ` D) es)"

lemma waiting_zero: "waiting es D j = 0 \<longleftrightarrow> (\<forall>e \<in> set es. snd e = int j \<longrightarrow> fst e \<in> int ` D)"
  by (auto simp: waiting_def filter_empty_conv)

lemma waiting_insert:
  assumes "i \<notin> D"
  shows "int (waiting es (insert i D) j) = int (waiting es D j) - int (length (filter (\<lambda>e. snd e = int j) (filter (\<lambda>e. fst e = int i) es)))"
  using assms by (induction es) (auto simp: waiting_def)

section \<open>Groups\<close>

definition grouping :: "GraphInfo \<Rightarrow> ControlEdge list \<Rightarrow> nat list list \<Rightarrow> bool" where
  "grouping g es gs \<longleftrightarrow> distinct (concat gs) \<and> set (concat gs) \<subseteq> {..<num_nodes g}
     \<and> (\<forall>pre j post. concat gs = pre @ j # post \<longrightarrow> preds g es j \<subseteq> set pre)"

definition node_type_of :: "GraphInfo \<Rightarrow> Partitioner \<Rightarrow> nat \<Rightarrow> NodeSubset_Type" where
  "node_type_of g p i = pa_node_type p ! nat (gi_node_index g ! i)"

text \<open>The tensors a group takes from outside, and those it makes that others of the nodes \<open>D\<close> read.\<close>

definition group_inputs :: "GraphInfo \<Rightarrow> nat set \<Rightarrow> int set" where
  "group_inputs g X = (\<Union>i \<in> X. reads g i) - (\<Union>i \<in> X. writes g i)"

definition group_outputs :: "GraphInfo \<Rightarrow> nat set \<Rightarrow> nat set \<Rightarrow> int set" where
  "group_outputs g D X = (\<Union>i \<in> X. writes g i) \<inter> (\<Union>j \<in> D - X. reads g j)"

definition subset_for :: "GraphInfo \<Rightarrow> Partitioner \<Rightarrow> nat set \<Rightarrow> nat list \<Rightarrow> NodeSubset \<Rightarrow> bool" where
  "subset_for g p D x s \<longleftrightarrow> ns_nodes s = map (\<lambda>i. gi_node_index g ! i) x \<and> (\<forall>i \<in> set x. node_type_of g p i = ns_type s)
     \<and> (x = [] \<longrightarrow> ns_type s = kTfUnexplored) \<and> (pa_disable_node_fusion p \<longrightarrow> length x \<le> 1)
     \<and> set (ns_input_tensors s) = group_inputs g (set x) \<and> set (ns_output_tensors s) = group_outputs g D (set x)"

text \<open>A state of the algorithm with the groups \<open>gs\<close>.\<close>

definition sim :: "GraphInfo \<Rightarrow> ControlEdge list \<Rightarrow> nat list list \<Rightarrow> Partitioner \<Rightarrow> bool" where
  "sim g es gs p \<longleftrightarrow> grouping g es gs
     \<and> length (pa_tensor_epochs p) = length (gi_tensors g) \<and> length (pa_node_epochs p) = num_nodes g
     \<and> length (pa_num_incoming_control_edges p) = num_nodes g \<and> length (pa_node_type p) = gi_num_total_nodes g
     \<and> kTfUnexplored \<notin> set (pa_node_type p) \<and> pa_control_edges p = es
     \<and> (\<forall>i < num_nodes g. i \<notin> set (concat gs) \<longrightarrow>
          pa_node_epochs p ! i = kEpochNotReady \<and> (\<forall>t \<in> writes g i. pa_tensor_epochs p ! nat t = kEpochNotReady))
     \<and> (\<forall>e < length gs. \<forall>i \<in> set (gs ! e). pa_node_epochs p ! i = int e \<and> (\<forall>t \<in> writes g i. pa_tensor_epochs p ! nat t = int e))
     \<and> (\<forall>t. tensor_ok g t \<longrightarrow> (\<forall>i < num_nodes g. t \<notin> writes g i) \<longrightarrow> pa_tensor_epochs p ! nat t = kEpochAlwaysReady)
     \<and> (\<forall>j < num_nodes g. pa_num_incoming_control_edges p ! j = int (waiting es (set (concat gs)) j))
     \<and> length (pa_node_subsets p) = length gs
     \<and> (\<forall>e < length gs. subset_for g p (set (concat gs)) (gs ! e) (pa_node_subsets p ! e))"

lemma simD:
  assumes "sim g es gs p"
  shows "grouping g es gs" "length (pa_tensor_epochs p) = length (gi_tensors g)" "length (pa_node_epochs p) = num_nodes g"
    "length (pa_num_incoming_control_edges p) = num_nodes g" "length (pa_node_type p) = gi_num_total_nodes g"
    "kTfUnexplored \<notin> set (pa_node_type p)" "pa_control_edges p = es" "length (pa_node_subsets p) = length gs"
    "\<And>i. i < num_nodes g \<Longrightarrow> i \<notin> set (concat gs) \<Longrightarrow> pa_node_epochs p ! i = kEpochNotReady"
    "\<And>i t. i < num_nodes g \<Longrightarrow> i \<notin> set (concat gs) \<Longrightarrow> t \<in> writes g i \<Longrightarrow> pa_tensor_epochs p ! nat t = kEpochNotReady"
    "\<And>e i. e < length gs \<Longrightarrow> i \<in> set (gs ! e) \<Longrightarrow> pa_node_epochs p ! i = int e"
    "\<And>e i t. e < length gs \<Longrightarrow> i \<in> set (gs ! e) \<Longrightarrow> t \<in> writes g i \<Longrightarrow> pa_tensor_epochs p ! nat t = int e"
    "\<And>t. tensor_ok g t \<Longrightarrow> \<forall>i < num_nodes g. t \<notin> writes g i \<Longrightarrow> pa_tensor_epochs p ! nat t = kEpochAlwaysReady"
    "\<And>j. j < num_nodes g \<Longrightarrow> pa_num_incoming_control_edges p ! j = int (waiting es (set (concat gs)) j)"
    "\<And>e. e < length gs \<Longrightarrow> subset_for g p (set (concat gs)) (gs ! e) (pa_node_subsets p ! e)"
  using assms unfolding sim_def by blast+

lemma in_concat_nth: "i \<in> set (concat gs) \<longleftrightarrow> (\<exists>e < length gs. i \<in> set (gs ! e))"
  by (auto simp: in_set_conv_nth) (metis in_set_conv_nth)+

lemma sim_epochs:
  assumes s: "sim g es gs p" and g: "ordered_graph g es" and i: "i < num_nodes g"
  shows "pa_node_epochs p ! i = kEpochNotReady \<longleftrightarrow> i \<notin> set (concat gs)"
    "t \<in> reads g i \<Longrightarrow> pa_tensor_epochs p ! nat t = kEpochNotReady \<longleftrightarrow> (\<exists>k < num_nodes g. t \<in> writes g k \<and> k \<notin> set (concat gs))"
    "t \<in> reads g i \<Longrightarrow> pa_tensor_epochs p ! nat t < int (length gs)"
proof -
  note d = simD [OF s]
  have n: "kEpochNotReady \<noteq> int e" for e by (simp add: kEpochNotReady_def)
  show "pa_node_epochs p ! i = kEpochNotReady \<longleftrightarrow> i \<notin> set (concat gs)"
    using d(9) [OF i] d(11) n in_concat_nth by metis
  assume t: "t \<in> reads g i"
  have cases: "(\<exists>k < num_nodes g. t \<in> writes g k \<and> k \<notin> set (concat gs)) \<and> pa_tensor_epochs p ! nat t = kEpochNotReady
      \<or> (\<exists>e < length gs. \<exists>k < num_nodes g. t \<in> writes g k \<and> k \<in> set (concat gs) \<and> pa_tensor_epochs p ! nat t = int e)
      \<or> (\<forall>k < num_nodes g. t \<notin> writes g k) \<and> pa_tensor_epochs p ! nat t = kEpochAlwaysReady"
    using d(10,12,13) ordered_graph_tensor [OF g i, of t] t in_concat_nth by (metis UnI1)
  then show "pa_tensor_epochs p ! nat t = kEpochNotReady \<longleftrightarrow> (\<exists>k < num_nodes g. t \<in> writes g k \<and> k \<notin> set (concat gs))"
    using n ordered_graph_less(2) [OF g] by (auto simp: kEpochNotReady_def kEpochAlwaysReady_def)
  show "pa_tensor_epochs p ! nat t < int (length gs)" using cases by (auto simp: kEpochNotReady_def kEpochAlwaysReady_def)
qed

text \<open>When a node joins the last group \<open>x\<close>, behind the groups \<open>hs\<close>.\<close>

definition can_add :: "GraphInfo \<Rightarrow> ControlEdge list \<Rightarrow> Partitioner \<Rightarrow> nat list list \<Rightarrow> nat list \<Rightarrow> nat \<Rightarrow> bool" where
  "can_add g es p hs x i \<longleftrightarrow> \<not> (pa_disable_node_fusion p \<and> x \<noteq> []) \<and> i \<notin> set (concat hs @ x) \<and> preds g es i \<subseteq> set (concat hs @ x)
     \<and> (x = [] \<or> node_type_of g p i = node_type_of g p (hd x))"

lemma ordered_graph_index:
  assumes "ordered_graph g es" "i < num_nodes g"
  shows "array_get (gi_node_index g) (int i) = Some (gi_node_index g ! i)"
    "length ty = gi_num_total_nodes g \<Longrightarrow> array_get ty (gi_node_index g ! i) = Some (ty ! nat (gi_node_index g ! i))"
    "length ty = gi_num_total_nodes g \<Longrightarrow> ty ! nat (gi_node_index g ! i) \<in> set ty"
proof -
  have "i < length (gi_node_index g)" "0 \<le> gi_node_index g ! i \<and> gi_node_index g ! i < int (gi_num_total_nodes g)"
    using assms nth_mem [of i "gi_node_index g"] unfolding ordered_graph_def by auto
  then show "array_get (gi_node_index g) (int i) = Some (gi_node_index g ! i)"
    "length ty = gi_num_total_nodes g \<Longrightarrow> array_get ty (gi_node_index g ! i) = Some (ty ! nat (gi_node_index g ! i))"
    "length ty = gi_num_total_nodes g \<Longrightarrow> ty ! nat (gi_node_index g ! i) \<in> set ty"
    by (auto simp: array_get_def nat_less_iff)
qed

lemma node_tensors_ok:
  assumes "ordered_graph g es" "i < num_nodes g"
  shows "\<forall>t \<in> set (tn_inputs (gi_nodes g ! i)). t = kTfLiteOptionalTensor \<or> 0 \<le> t \<and> t < int (length (gi_tensors g))"
    "\<forall>t \<in> set (tn_outputs (gi_nodes g ! i)). t = kTfLiteOptionalTensor \<or> 0 \<le> t \<and> t < int (length (gi_tensors g))"
  using ordered_graph_tensor [OF assms] by (auto simp: reads_def writes_def tensor_ok_def)

lemma preds_ready:
  assumes s: "sim g es gs p" and g: "ordered_graph g es" and i: "i < num_nodes g"
  shows "inputs_ready (pa_tensor_epochs p) (tn_inputs (gi_nodes g ! i)) = Some (\<forall>t \<in> reads g i. pa_tensor_epochs p ! nat t \<noteq> kEpochNotReady)"
    "(\<forall>t \<in> reads g i. pa_tensor_epochs p ! nat t \<noteq> kEpochNotReady) \<and> pa_num_incoming_control_edges p ! i = 0 \<longleftrightarrow> preds g es i \<subseteq> set (concat gs)"
proof -
  note d = simD [OF s]
  have "\<forall>t \<in> set (tn_inputs (gi_nodes g ! i)). t = kTfLiteOptionalTensor \<or> 0 \<le> t \<and> t < int (length (pa_tensor_epochs p))"
    using node_tensors_ok(1) [OF g i] d(2) by simp
  from inputs_ready_iff [OF this]
  show "inputs_ready (pa_tensor_epochs p) (tn_inputs (gi_nodes g ! i)) = Some (\<forall>t \<in> reads g i. pa_tensor_epochs p ! nat t \<noteq> kEpochNotReady)"
    by (auto simp: reads_def)
  have 1: "(\<forall>t \<in> reads g i. pa_tensor_epochs p ! nat t \<noteq> kEpochNotReady) \<longleftrightarrow> (\<forall>k < num_nodes g. writes g k \<inter> reads g i \<noteq> {} \<longrightarrow> k \<in> set (concat gs))"
    using sim_epochs(2) [OF s g i] by blast
  have 2: "pa_num_incoming_control_edges p ! i = 0 \<longleftrightarrow> (\<forall>k < num_nodes g. (int k, int i) \<in> set es \<longrightarrow> k \<in> set (concat gs))"
  proof -
    have "pa_num_incoming_control_edges p ! i = 0 \<longleftrightarrow> (\<forall>e \<in> set es. snd e = int i \<longrightarrow> fst e \<in> int ` set (concat gs))"
      using d(14) [OF i] waiting_zero [of es "set (concat gs)" i] by simp
    also have "\<dots> \<longleftrightarrow> (\<forall>a. (a, int i) \<in> set es \<longrightarrow> a \<in> int ` set (concat gs))" by (metis fst_conv snd_conv prod.collapse)
    also have "\<dots> \<longleftrightarrow> (\<forall>k < num_nodes g. (int k, int i) \<in> set es \<longrightarrow> k \<in> set (concat gs))"
    proof
      assume r: "\<forall>k < num_nodes g. (int k, int i) \<in> set es \<longrightarrow> k \<in> set (concat gs)"
      show "\<forall>a. (a, int i) \<in> set es \<longrightarrow> a \<in> int ` set (concat gs)"
      proof (intro allI impI)
        fix a assume a: "(a, int i) \<in> set es"
        from ordered_graph_less(3) [OF g this] obtain k where "a = int k" "k < num_nodes g" by (metis nonneg_int_cases of_nat_less_iff order.strict_trans)
        with r a show "a \<in> int ` set (concat gs)" by auto
      qed
    qed (metis imageE of_nat_eq_iff)
    finally show ?thesis .
  qed
  show "(\<forall>t \<in> reads g i. pa_tensor_epochs p ! nat t \<noteq> kEpochNotReady) \<and> pa_num_incoming_control_edges p ! i = 0 \<longleftrightarrow> preds g es i \<subseteq> set (concat gs)"
    unfolding 1 2 preds_def by blast
qed

lemma UpdateNode_eq:
  assumes s: "sim g es (hs @ [x]) p" and g: "ordered_graph g es" and i: "i < num_nodes g"
  shows "UpdateNode g (int i) p = (if can_add g es p hs x i
    then map_option (Pair True) (assign_node (gi_nodes g ! i) (int i) (gi_node_index g ! i) (node_type_of g p i) p) else Some (False, p))"
proof -
  note d = simD [OF s]
  let ?s = "pa_node_subsets p ! length hs"
  have get: "array_get (pa_node_subsets p) (int (length (pa_node_subsets p)) - 1) = Some ?s" using d(8) by (simp add: array_get_def)
  have f: "subset_for g p (set (concat (hs @ [x]))) x ?s" using d(15) [of "length hs"] by simp
  then have nodes: "ns_nodes ?s \<noteq> [] \<longleftrightarrow> x \<noteq> []" by (simp add: subset_for_def)
  have un: "node_type_of g p i \<noteq> kTfUnexplored" using ordered_graph_index(3) [OF g i d(5)] d(6) by (auto simp: node_type_of_def)
  have type: "(if ns_type ?s = kTfUnexplored then node_type_of g p i else ns_type ?s) = node_type_of g p i
      \<longleftrightarrow> x = [] \<or> node_type_of g p i = node_type_of g p (hd x)"
  proof (cases "x = []")
    case False
    then have "ns_type ?s = node_type_of g p (hd x)" using f by (simp add: subset_for_def)
    moreover have "hd x \<in> set (concat (hs @ [x]))" using False by simp
    then have "hd x < num_nodes g" using d(1) unfolding grouping_def by blast
    then have "node_type_of g p (hd x) \<noteq> kTfUnexplored" using ordered_graph_index(3) [OF g _ d(5), of "hd x"] d(6) unfolding node_type_of_def by metis
    ultimately show ?thesis using False by auto
  qed (use f in \<open>simp add: subset_for_def\<close>)
  have concat: "set (concat (hs @ [x])) = set (concat hs @ x)" by simp
  note pr = preds_ready [OF s g i]
  show ?thesis
    unfolding UpdateNode_def can_add_def
    using i d(3,4) pr(2) sim_epochs(1) [OF s g i] type
    by (auto simp: get nodes pr(1) ordered_graph_index(1) [OF g i] ordered_graph_index(2) [OF g i d(5)] node_type_of_def [symmetric] Let_def)
qed

lemma grouping_preds:
  assumes "grouping g es gs" "j \<in> set (concat gs)"
  shows "preds g es j \<subseteq> set (concat gs)"
proof -
  obtain pre post where "concat gs = pre @ j # post" using split_list [OF assms(2)] by blast
  moreover from this assms(1) have "preds g es j \<subseteq> set pre" unfolding grouping_def by blast
  ultimately show ?thesis by auto
qed

lemma grouping_add:
  assumes s: "grouping g es (hs @ [x])" and i: "i < num_nodes g" "i \<notin> set (concat hs @ x)" "preds g es i \<subseteq> set (concat hs @ x)"
  shows "grouping g es (hs @ [x @ [i]])"
proof -
  let ?ds = "concat hs @ x"
  have old: "distinct ?ds" "set ?ds \<subseteq> {..<num_nodes g}" "\<And>pre j post. ?ds = pre @ j # post \<Longrightarrow> preds g es j \<subseteq> set pre"
    using s unfolding grouping_def by simp_all
  have "preds g es j \<subseteq> set pre" if e: "?ds @ [i] = pre @ j # post" for pre j post
  proof (cases post rule: rev_cases)
    case Nil
    then show ?thesis using e i(3) by simp
  next
    case (snoc ys y)
    then show ?thesis using e old(3) [of pre j ys] by simp
  qed
  moreover have "distinct (?ds @ [i])" "set (?ds @ [i]) \<subseteq> {..<num_nodes g}" using old(1,2) i(1,2) by auto
  moreover have "concat (hs @ [x @ [i]]) = ?ds @ [i]" by simp
  ultimately show ?thesis unfolding grouping_def by metis
qed

text \<open>How the inputs and outputs of the groups change.\<close>

lemma group_change:
  assumes g: "ordered_graph g es" and s: "grouping g es gs" and i: "i < num_nodes g" "i \<notin> set (concat gs)" and x: "set x \<subseteq> set (concat gs)"
  shows "group_inputs g (insert i (set x)) = group_inputs g (set x) \<union> (reads g i - (\<Union>k \<in> set x. writes g k))"
    "group_outputs g (insert i (set (concat gs))) (insert i (set x)) = group_outputs g (set (concat gs)) (set x)"
    "group_outputs g (insert i (set (concat gs))) (set x) = group_outputs g (set (concat gs)) (set x) \<union> ((\<Union>k \<in> set x. writes g k) \<inter> reads g i)"
proof -
  have r: "writes g i \<inter> reads g k = {}" if "k \<in> set (concat gs)" for k
  proof (rule ccontr)
    assume "writes g i \<inter> reads g k \<noteq> {}"
    then have "i \<in> preds g es k" using i(1) by (auto simp: preds_def)
    then show False using grouping_preds [OF s that] i(2) by blast
  qed
  have own: "writes g i \<inter> reads g i = {}" using ordered_graph_less(1) [OF g i(1) i(1)] by blast
  show "group_inputs g (insert i (set x)) = group_inputs g (set x) \<union> (reads g i - (\<Union>k \<in> set x. writes g k))"
    using r own x unfolding group_inputs_def by blast
  have d: "insert i (set (concat gs)) - insert i (set x) = set (concat gs) - set x" using i(2) by blast
  show "group_outputs g (insert i (set (concat gs))) (insert i (set x)) = group_outputs g (set (concat gs)) (set x)"
    unfolding group_outputs_def d using r by blast
  have d': "insert i (set (concat gs)) - set x = insert i (set (concat gs) - set x)" using i(2) x by blast
  show "group_outputs g (insert i (set (concat gs))) (set x) = group_outputs g (set (concat gs)) (set x) \<union> ((\<Union>k \<in> set x. writes g k) \<inter> reads g i)"
    unfolding group_outputs_def d' by blast
qed

text \<open>The group in which a tensor was written.\<close>

lemma sim_writer:
  assumes s: "sim g es gs p" and t: "tensor_ok g t" and e: "e < length gs"
  shows "pa_tensor_epochs p ! nat t = int e \<longleftrightarrow> t \<in> (\<Union>k \<in> set (gs ! e). writes g k)"
proof
  note d = simD [OF s]
  have lt: "k < num_nodes g" if "k \<in> set (concat gs)" for k using d(1) that unfolding grouping_def by blast
  assume a: "pa_tensor_epochs p ! nat t = int e"
  then obtain k where k: "k < num_nodes g" "t \<in> writes g k"
    using d(13) [OF t] by (force simp: kEpochAlwaysReady_def)
  with a d(10) have "k \<in> set (concat gs)" by (force simp: kEpochNotReady_def)
  then obtain f where f: "f < length gs" "k \<in> set (gs ! f)" unfolding in_concat_nth by blast
  from d(12) [OF this k(2)] a f(2) k(2) show "t \<in> (\<Union>k \<in> set (gs ! e). writes g k)" by auto
qed (use simD(12) [OF s e] in blast)

lemma assign_node_sim:
  assumes s: "sim g es (hs @ [x]) p" and g: "ordered_graph g es" "sorted es" and i: "i < num_nodes g" and a: "can_add g es p hs x i"
  shows "\<exists>p'. assign_node (gi_nodes g ! i) (int i) (gi_node_index g ! i) (node_type_of g p i) p = Some p' \<and> sim g es (hs @ [x @ [i]]) p'
    \<and> pa_greedily p' = pa_greedily p \<and> pa_disable_node_fusion p' = pa_disable_node_fusion p \<and> pa_node_type p' = pa_node_type p"
proof -
  note d = simD [OF s]
  let ?gs = "hs @ [x]" and ?gs' = "hs @ [x @ [i]]" and ?c = "length hs" and ?node = "gi_nodes g ! i"
  let ?D = "set (concat ?gs)" and ?te = "pa_tensor_epochs p" and ?ss = "pa_node_subsets p"
  have new: "i \<notin> ?D" "preds g es i \<subseteq> ?D" and fus: "pa_disable_node_fusion p \<longrightarrow> x = []"
    and ty: "x = [] \<or> node_type_of g p i = node_type_of g p (hd x)" using a by (auto simp: can_add_def)
  have c: "?c < length ?ss" "int (length ?ss) - 1 = int ?c" using d(8) by simp_all
  have D': "set (concat ?gs') = insert i ?D" by auto
  define s1 where "s1 = ?ss[?c := (?ss ! ?c)\<lparr>ns_type := node_type_of g p i, ns_nodes := ns_nodes (?ss ! ?c) @ [gi_node_index g ! i]\<rparr>]"
  have "\<forall>t \<in> set (tn_outputs ?node). t = kTfLiteOptionalTensor \<or> 0 \<le> t \<and> t < int (length ?te)" using node_tensors_ok(2) [OF g(1) i] d(2) by simp
  from set_epoch_loop [OF this, of "int ?c"] obtain te where te: "loop_opt (set_epoch (int ?c)) (tn_outputs ?node) ?te = Some te"
    "length te = length ?te" "\<forall>k < length ?te. te ! k = (if int k \<in> set (tn_outputs ?node) then int ?c else ?te ! k)" by blast
  have te_nth: "te ! nat t = (if t \<in> writes g i then int ?c else ?te ! nat t)" if "tensor_ok g t" for t
    using te(3) that tensor_ok_nat [OF that] tensor_ok_not_optional [OF that] d(2) by (simp add: writes_def)
  have own: "t \<notin> writes g i" if "t \<in> reads g i" for t using ordered_graph_less(1) [OF g(1) i i] that by blast
  have te_read: "te ! nat t = ?te ! nat t" if "t \<in> reads g i" for t
    using te_nth [OF ordered_graph_tensor [OF g(1) i]] own that by simp
  have te_other: "te ! nat t = ?te ! nat t" if "k < num_nodes g" "k \<noteq> i" "t \<in> writes g k" for k t
    using te_nth [OF ordered_graph_tensor [OF g(1) that(1)]] ordered_graph_less(2) [OF g(1) that(1) i] that by auto
  have "\<forall>t \<in> set (tn_inputs ?node). t = kTfLiteOptionalTensor \<or> 0 \<le> t \<and> t < int (length te) \<and> te ! nat t < int (length s1)"
  proof
    fix t assume t: "t \<in> set (tn_inputs ?node)"
    show "t = kTfLiteOptionalTensor \<or> 0 \<le> t \<and> t < int (length te) \<and> te ! nat t < int (length s1)"
    proof (cases "t = kTfLiteOptionalTensor")
      case False
      with t have r: "t \<in> reads g i" by (simp add: reads_def)
      then show ?thesis
        using node_tensors_ok(1) [OF g(1) i] t sim_epochs(3) [OF s g(1) i r] te_read [OF r] te(2) d(2,8) by (auto simp: s1_def)
    qed simp
  qed
  from note_input_loop [of ?c s1, OF _ this] c(1) obtain s2 where s2: "loop_opt (note_input te (int ?c)) (tn_inputs ?node) s1 = Some s2" "same_nodes s1 s2"
    "\<And>e. e < length s1 \<Longrightarrow> set (ns_input_tensors (s2 ! e))
       = set (ns_input_tensors (s1 ! e)) \<union> {t \<in> set (tn_inputs ?node). e = ?c \<and> t \<noteq> kTfLiteOptionalTensor \<and> te ! nat t \<noteq> int ?c}"
    "\<And>e. e < length s1 \<Longrightarrow> set (ns_output_tensors (s2 ! e))
       = set (ns_output_tensors (s1 ! e)) \<union> {t \<in> set (tn_inputs ?node). e \<noteq> ?c \<and> t \<noteq> kTfLiteOptionalTensor \<and> te ! nat t = int e}"
    by (auto simp: s1_def)
  have es: "\<forall>e \<in> set es. 0 \<le> snd e \<and> snd e < int (num_nodes g)" using ordered_graph_less(3) [OF g(1)] by fastforce
  then have ef: "edges_from (int i) es = filter (\<lambda>e. fst e = int i) es" using edges_from_filter [OF g(2)] by simp
  have step: "(n :: int) - 1 = n + - 1" for n by simp
  have "\<forall>e \<in> set (edges_from (int i) es). 0 \<le> snd e \<and> snd e < int (length (pa_num_incoming_control_edges p))" using es d(4) by (simp add: ef)
  from count_edges_loop [of "\<lambda>n. n - 1", OF step this] obtain inc where
    inc: "loop_opt (\<lambda>e incoming. array_upd incoming (snd e) (\<lambda>n. n - 1)) (edges_from (int i) es) (pa_num_incoming_control_edges p) = Some inc"
      "length inc = num_nodes g"
    and cnt: "\<forall>k < num_nodes g. inc ! k = pa_num_incoming_control_edges p ! k + - 1 * int (length (filter (\<lambda>e. snd e = int k) (filter (\<lambda>e. fst e = int i) es)))"
    unfolding d(4) ef by blast
  let ?p = "p\<lparr>pa_node_epochs := (pa_node_epochs p)[i := int ?c], pa_node_subsets := s2, pa_tensor_epochs := te, pa_num_incoming_control_edges := inc\<rparr>"
  have run: "assign_node ?node (int i) (gi_node_index g ! i) (node_type_of g p i) p = Some ?p"
    using i d(3,7) c te(1) s2(1) inc(1) by (simp add: assign_node_def s1_def)
  have len: "length s2 = length ?gs" "length s1 = length ?gs" using same_nodes_nth(1) [OF s2(2)] d(8) by (simp_all add: s1_def)
  have type: "node_type_of g ?p = node_type_of g p" by (simp add: node_type_of_def [abs_def])
  have sub: "subset_for g ?p (insert i ?D) (?gs' ! e) (s2 ! e)" if e: "e < length ?gs" for e
  proof -
    have xs: "set (?gs ! e) \<subseteq> ?D" using nth_mem [OF e] by (simp only: set_concat) blast
    note gc = group_change [OF g(1) d(1) i new(1) xs]
    have f: "subset_for g p ?D (?gs ! e) (?ss ! e)" by (rule d(15) [OF e])
    have ins: "set (ns_input_tensors (s1 ! e)) = group_inputs g (set (?gs ! e))" "set (ns_output_tensors (s1 ! e)) = group_outputs g ?D (set (?gs ! e))"
      using f c(1) by (auto simp: s1_def nth_list_update subset_for_def)
    have wr: "{t \<in> set (tn_inputs ?node). t \<noteq> kTfLiteOptionalTensor \<and> te ! nat t = int e} = (\<Union>k \<in> set (?gs ! e). writes g k) \<inter> reads g i"
      using sim_writer [OF s ordered_graph_tensor [OF g(1) i] e] te_read by (auto simp: reads_def)
    show ?thesis
    proof (cases "e = ?c")
      case True
      have wr': "{t \<in> set (tn_inputs ?node). t \<noteq> kTfLiteOptionalTensor \<and> te ! nat t \<noteq> int ?c} = reads g i - (\<Union>k \<in> set x. writes g k)"
        using wr True by (auto simp: reads_def)
      have "ns_nodes (s2 ! ?c) = map (\<lambda>k. gi_node_index g ! k) (x @ [i])" "ns_type (s2 ! ?c) = node_type_of g p i"
        using same_nodes_nth(2,3) [OF s2(2), of ?c] c(1) f True by (simp_all add: s1_def subset_for_def)
      moreover have "\<forall>k \<in> set x. node_type_of g p k = node_type_of g p i"
        using f True ty by (cases x) (auto simp: subset_for_def)
      ultimately show ?thesis using True fus s2(3,4) [of ?c] ins gc(1,2) wr' c(1) len by (simp add: subset_for_def type)
    next
      case False
      then have eh: "e < ?c" "?gs ! e = hs ! e" "?gs' ! e = hs ! e" "s1 ! e = ?ss ! e" using e by (simp_all add: nth_append s1_def)
      have "ns_nodes (s2 ! e) = ns_nodes (?ss ! e)" "ns_type (s2 ! e) = ns_type (?ss ! e)"
        using same_nodes_nth(2,3) [OF s2(2), of e] eh(4) e len by simp_all
      then show ?thesis using f s2(3,4) [of e] ins gc(3) wr False eh e len by (simp add: subset_for_def type)
    qed
  qed
  have "sim g es ?gs' ?p"
    unfolding sim_def D'
  proof (intro conjI allI impI ballI)
    show "grouping g es ?gs'" by (rule grouping_add [OF d(1) i]) (use new in simp_all)
    show "pa_num_incoming_control_edges ?p ! j = int (waiting es (insert i ?D) j)" if "j < num_nodes g" for j
      using cnt that d(14) [OF that] waiting_insert [OF new(1), of es j] by simp
    show "pa_node_epochs ?p ! k = kEpochNotReady" if "k < num_nodes g" "k \<notin> insert i ?D" for k using d(9) [OF that(1)] that by simp
    show "pa_tensor_epochs ?p ! nat t = kEpochNotReady" if "k < num_nodes g" "k \<notin> insert i ?D" "t \<in> writes g k" for k t
      using d(10) [OF that(1) _ that(3)] te_other [OF that(1) _ that(3)] that(2) by simp
    fix e k assume e: "e < length ?gs'" "k \<in> set (?gs' ! e)"
    have k: "k = i \<and> e = ?c \<or> k \<noteq> i \<and> k \<in> set (?gs ! e) \<and> k < num_nodes g"
    proof (cases "k = i")
      case True
      have "e = ?c" if "i \<notin> ?D" using e True that nth_mem [of e hs] by (cases "e = ?c") (auto simp: nth_append)
      then show ?thesis using True new(1) by simp
    next
      case False
      then have "k \<in> set (?gs ! e)" using e by (auto simp: nth_append split: if_splits)
      moreover have "k < num_nodes g" using calculation e(1) d(1) in_concat_nth [of k ?gs] unfolding grouping_def by force
      ultimately show ?thesis using False by simp
    qed
    show "pa_node_epochs ?p ! k = int e" using k d(11) [of e k] e(1) i d(3) by auto
    fix t assume "t \<in> writes g k"
    then show "pa_tensor_epochs ?p ! nat t = int e"
      using k d(12) [of e k t] e(1) te_other [of k t] te_nth [OF ordered_graph_tensor [OF g(1) i]] by auto
  next
    show "pa_tensor_epochs ?p ! nat t = kEpochAlwaysReady" if "tensor_ok g t" "\<forall>k < num_nodes g. t \<notin> writes g k" for t
      using d(13) [OF that] te_nth [OF that(1)] that(2) i by simp
  qed (use d te(2) inc(2) len sub in simp_all)
  then show ?thesis using run by simp
qed

section \<open>Rounds over the nodes\<close>

text \<open>The settings of the algorithm.\<close>

definition like :: "Partitioner \<Rightarrow> Partitioner \<Rightarrow> bool" where
  "like p q \<longleftrightarrow> pa_greedily q = pa_greedily p \<and> pa_disable_node_fusion q = pa_disable_node_fusion p \<and> pa_node_type q = pa_node_type p"

lemma like_trans: "like p q \<Longrightarrow> like q r \<Longrightarrow> like p r"
  by (simp add: like_def)

lemma can_add_like: "like p q \<Longrightarrow> can_add g es q hs x i \<longleftrightarrow> can_add g es p hs x i"
  by (simp add: like_def can_add_def node_type_of_def)

lemma UpdateNode_sim:
  assumes "sim g es (hs @ [x]) p" "ordered_graph g es" "sorted es" "i < num_nodes g"
  obtains p' where "can_add g es p hs x i" "UpdateNode g (int i) p = Some (True, p')" "sim g es (hs @ [x @ [i]]) p'" "like p p'"
  | "\<not> can_add g es p hs x i" "UpdateNode g (int i) p = Some (False, p)"
proof (cases "can_add g es p hs x i")
  case True
  from assign_node_sim [OF assms True] obtain p' where
    "assign_node (gi_nodes g ! i) (int i) (gi_node_index g ! i) (node_type_of g p i) p = Some p'" "sim g es (hs @ [x @ [i]]) p'" "like p p'"
    by (auto simp: like_def)
  then show ?thesis using that(1) True UpdateNode_eq [OF assms(1,2,4)] by simp
next
  case False
  then show ?thesis using that(2) UpdateNode_eq [OF assms(1,2,4)] by simp
qed

lemma can_add_first:
  assumes "ordered_graph g es" "i < num_nodes g" "i \<notin> set (concat hs)" "{..<i} \<subseteq> set (concat hs)"
  shows "can_add g es p hs [] i"
proof -
  have "preds g es i \<subseteq> {..<i}" using preds_less [OF assms(1,2)] by blast
  then show ?thesis using assms(3,4) by (simp add: can_add_def subset_iff)
qed

text \<open>
  One round extends the last group; it does something when it can. Without \<^verbatim>\<open>greedily\<close> the nodes keep their order: a round
  from the first node for an empty group, or from the next node after the group has begun.
\<close>

definition in_order :: "GraphInfo \<Rightarrow> nat list list \<Rightarrow> nat list \<Rightarrow> bool \<Rightarrow> nat list \<Rightarrow> bool" where
  "in_order g hs x did js \<longleftrightarrow> (\<exists>m k. m \<le> num_nodes g \<and> js = [m..<num_nodes g] \<and> concat hs @ x = [0..<k] \<and> (if did then m = k else x = [] \<and> m \<le> k))"

lemma sweep_total:
  assumes "sim g es (hs @ [x]) p" "ordered_graph g es" "sorted es" "set js \<subseteq> {..<num_nodes g}"
  shows "\<exists>r did' p' y. sweep g (map int js) did p = Some (r, did', p') \<and> sim g es (hs @ [x @ y]) p' \<and> like p p'
    \<and> (did' \<longleftrightarrow> did \<or> y \<noteq> []) \<and> ((\<exists>i \<in> set js. can_add g es p hs x i) \<longrightarrow> did')
    \<and> (\<not> pa_greedily p \<longrightarrow> in_order g hs x did js \<longrightarrow> (\<exists>k. concat hs @ x @ y = [0..<k] \<and> (r \<or> k = num_nodes g)))"
  using assms(1,4)
proof (induction js arbitrary: x p did)
  case Nil
  have le: "k \<le> num_nodes g" if "concat hs @ x = [0..<k]" for k
  proof -
    have "set [0..<k] \<subseteq> {..<num_nodes g}" using simD(1) [OF Nil(1)] that [symmetric] unfolding grouping_def by simp
    then show ?thesis by (cases k) auto
  qed
  have "\<exists>k. concat hs @ x = [0..<k] \<and> k = num_nodes g" if "in_order g hs x did []"
  proof -
    from that obtain m k where mk: "m \<le> num_nodes g" "[] = [m..<num_nodes g]" "concat hs @ x = [0..<k]" "m \<le> k"
      by (auto simp: in_order_def split: if_splits)
    have "num_nodes g \<le> m" using mk(2) by (metis diff_is_0_eq length_upt list.size(3))
    then have "k = num_nodes g" using mk(1,4) le [OF mk(3)] by linarith
    then show ?thesis using mk(3) by blast
  qed
  then show ?case using Nil(1) by (intro exI [of _ False] exI [of _ did] exI [of _ p] exI [of _ "[]"]) (simp add: like_def)
next
  case (Cons i js)
  then have i: "i < num_nodes g" by simp
  note s = Cons.prems(1)
  from s assms(2,3) i show ?case
  proof (cases rule: UpdateNode_sim)
    case (1 p')
    have "set js \<subseteq> {..<num_nodes g}" using Cons.prems(2) by simp
    from Cons.IH [OF 1(3) this, of True] obtain r did' q y where
      q: "sweep g (map int js) True p' = Some (r, did', q)" "sim g es (hs @ [(x @ [i]) @ y]) q" "like p' q" "did' \<longleftrightarrow> True \<or> y \<noteq> []"
      "\<not> pa_greedily p' \<longrightarrow> in_order g hs (x @ [i]) True js \<longrightarrow> (\<exists>k. concat hs @ (x @ [i]) @ y = [0..<k] \<and> (r \<or> k = num_nodes g))" by blast
    have step: "in_order g hs (x @ [i]) True js" if o: "in_order g hs x did (i # js)"
    proof -
      from o obtain m k where mk: "i # js = [m..<num_nodes g]" "concat hs @ x = [0..<k]" "if did then m = k else x = [] \<and> m \<le> k"
        by (auto simp: in_order_def)
      from mk(1) [symmetric] have m: "i = m" "js = [Suc m..<num_nodes g]" "m < num_nodes g" unfolding upt_eq_Cons_conv by auto
      have "i \<notin> set [0..<k]" using 1(1) mk(2) unfolding can_add_def by simp
      then have "m = k" using mk(3) m(1) by (auto split: if_splits)
      then have "concat hs @ x @ [i] = [0..<Suc k]" using mk(2) m(1) by (simp flip: append_assoc)
      then show ?thesis unfolding in_order_def using m(2,3) \<open>m = k\<close> by (metis Suc_leI)
    qed
    have run: "sweep g (map int (i # js)) did p = Some (r, did', q)" using 1(2) q(1) by simp
    have "\<exists>k. concat hs @ x @ i # y = [0..<k] \<and> (r \<or> k = num_nodes g)" if "\<not> pa_greedily p" "in_order g hs x did (i # js)"
      using q(5) step [OF that(2)] that(1) 1(4) by (simp add: like_def)
    then show ?thesis using run q(2-4) like_trans [OF 1(4)] by (intro exI [of _ r] exI [of _ did'] exI [of _ q] exI [of _ "i # y"]) simp
  next
    case 2
    show ?thesis
    proof (cases "did \<and> \<not> pa_greedily p")
      case True
      then have "sweep g (map int (i # js)) did p = Some (True, did, p)" using 2(2) by simp
      then show ?thesis using s True by (intro exI [of _ True] exI [of _ did] exI [of _ p] exI [of _ "[]"]) (auto simp: like_def in_order_def)
    next
      case False
      then have run: "sweep g (map int (i # js)) did p = sweep g (map int js) did p" using 2(2) by auto
      have step: "in_order g hs x did js" if o: "in_order g hs x did (i # js)" "\<not> pa_greedily p"
      proof -
        from o False obtain m k where mk: "i # js = [m..<num_nodes g]" "concat hs @ x = [0..<k]" "x = []" "m \<le> k"
          by (auto simp: in_order_def split: if_splits)
        from mk(1) [symmetric] have m: "i = m" "js = [Suc m..<num_nodes g]" "m < num_nodes g" unfolding upt_eq_Cons_conv by auto
        have c: "concat hs = [0..<k]" using mk(2,3) by simp
        have "m \<noteq> k" using can_add_first [OF assms(2) i, of hs p, unfolded c] 2(1) mk(3) m(1) by (auto simp: atLeast0LessThan)
        then have "Suc m \<le> num_nodes g \<and> js = [Suc m..<num_nodes g] \<and> concat hs @ x = [0..<k] \<and> (if did then Suc m = k else x = [] \<and> Suc m \<le> k)"
          using m mk False o(2) by simp
        then show ?thesis unfolding in_order_def by blast
      qed
      have "set js \<subseteq> {..<num_nodes g}" using Cons.prems(2) by simp
      from Cons.IH [OF s this, of did] obtain r did' q y where
        q: "sweep g (map int js) did p = Some (r, did', q)" "sim g es (hs @ [x @ y]) q" "like p q" "did' \<longleftrightarrow> did \<or> y \<noteq> []"
          "(\<exists>i \<in> set js. can_add g es p hs x i) \<longrightarrow> did'"
          "\<not> pa_greedily p \<longrightarrow> in_order g hs x did js \<longrightarrow> (\<exists>k. concat hs @ x @ y = [0..<k] \<and> (r \<or> k = num_nodes g))" by blast
      moreover have "(\<exists>k \<in> set (i # js). can_add g es p hs x k) \<longrightarrow> did'" using q(5) 2(1) by auto
      ultimately show ?thesis unfolding run using step by blast
    qed
  qed
qed

lemma upto_upt: "[0..int n - 1] = map int [0..<n]"
  by (rule nth_equalityI) simp_all

lemma sim_length: "sim g es gs p \<Longrightarrow> length (concat gs) \<le> num_nodes g"
  using simD(1) [of g es gs p] card_mono [of "{..<num_nodes g}" "set (concat gs)"] distinct_card [of "concat gs"]
  by (simp add: grouping_def)

text \<open>All rounds for one group.\<close>

lemma sweep_all_total:
  assumes "sim g es (hs @ [x]) p" "ordered_graph g es" "sorted es"
  shows "\<exists>p' y. sweep_all g p = Some p' \<and> sim g es (hs @ [x @ y]) p' \<and> like p p'
    \<and> ((\<exists>i < num_nodes g. can_add g es p hs x i) \<longrightarrow> y \<noteq> [])
    \<and> (\<not> pa_greedily p \<longrightarrow> x = [] \<longrightarrow> (\<exists>k. concat hs = [0..<k]) \<longrightarrow> (\<exists>k. concat hs @ y = [0..<k]))"
  using assms(1)
proof (induction "num_nodes g - length x" arbitrary: x p rule: less_induct)
  case less
  have all: "set [0..<num_nodes g] \<subseteq> {..<num_nodes g}" by auto
  from sweep_total [OF less.prems assms(2,3) all, of False] obtain r did p1 y where
    s: "sweep g (map int [0..<num_nodes g]) False p = Some (r, did, p1)" "sim g es (hs @ [x @ y]) p1" "like p p1" "did \<longleftrightarrow> False \<or> y \<noteq> []"
      "(\<exists>i \<in> set [0..<num_nodes g]. can_add g es p hs x i) \<longrightarrow> did"
    and o: "\<not> pa_greedily p \<longrightarrow> in_order g hs x False [0..<num_nodes g] \<longrightarrow> (\<exists>k. concat hs @ x @ y = [0..<k] \<and> (r \<or> k = num_nodes g))"
    by blast
  have prog: "(\<exists>i < num_nodes g. can_add g es p hs x i) \<longrightarrow> y \<noteq> []" using s(4,5) by auto
  have ord: "\<exists>k. concat hs @ y = [0..<k] \<and> (r \<or> k = num_nodes g)" if "\<not> pa_greedily p" "x = []" "\<exists>k. concat hs = [0..<k]"
    using o that by (auto simp: in_order_def)
  show ?case
  proof (cases "r \<or> \<not> did")
    case True
    then have "sweep_all g p = Some p1" using s(1) by (subst sweep_all.simps) (simp add: upto_upt)
    then show ?thesis using s(2,3) prog ord by blast
  next
    case False
    then have run: "sweep_all g p = sweep_all g p1" using s(1) by (subst sweep_all.simps) (simp add: upto_upt)
    have "length (x @ y) \<le> num_nodes g" using sim_length [OF s(2)] by simp
    then have "num_nodes g - length (x @ y) < num_nodes g - length x" using False s(4) by (cases y) auto
    from less.hyps [OF this s(2)] obtain p2 z where z: "sweep_all g p1 = Some p2" "sim g es (hs @ [x @ y @ z]) p2" "like p1 p2" by auto
    have "\<exists>k. concat hs @ y @ z = [0..<k]" if "\<not> pa_greedily p" "x = []" "\<exists>k. concat hs = [0..<k]"
    proof -
      have e: "concat hs @ y = [0..<num_nodes g]" using ord [OF that] False by blast
      have "length ((concat hs @ y) @ z) \<le> num_nodes g" using sim_length [OF z(2)] that(2) by simp
      then have "z = []" unfolding e by simp
      then show ?thesis using e by auto
    qed
    then show ?thesis using run z like_trans [OF s(3) z(3)] False s(4) by (intro exI [of _ p2] exI [of _ "y @ z"]) simp
  qed
qed

section \<open>All groups\<close>

lemma sim_push: "sim g es gs p \<Longrightarrow> sim g es (gs @ [[]]) (p\<lparr>pa_node_subsets := pa_node_subsets p @ [NodeSubset_new]\<rparr>)"
  unfolding sim_def grouping_def
  by (auto simp: nth_append less_Suc_eq subset_for_def NodeSubset_new_def group_inputs_def group_outputs_def node_type_of_def)

lemma sim_pop: "sim g es (gs @ [[]]) p \<Longrightarrow> sim g es gs (p\<lparr>pa_node_subsets := butlast (pa_node_subsets p)\<rparr>)"
  unfolding sim_def grouping_def
  by (auto simp: nth_append nth_butlast subset_for_def node_type_of_def dest: less_SucI)

lemma BuildNodeSubset_total:
  assumes "sim g es gs p" "ordered_graph g es" "sorted es"
  shows "\<exists>p' y. BuildNodeSubset g p = Some p' \<and> sim g es (gs @ [y]) p' \<and> like p p' \<and> (y = [] \<longrightarrow> set (concat gs) = {..<num_nodes g})
    \<and> (\<not> pa_greedily p \<longrightarrow> (\<exists>k. concat gs = [0..<k]) \<longrightarrow> (\<exists>k. concat gs @ y = [0..<k]))"
proof -
  let ?p = "p\<lparr>pa_node_subsets := pa_node_subsets p @ [NodeSubset_new]\<rparr>"
  from sweep_all_total [OF sim_push [OF assms(1)] assms(2,3)] obtain p' y where
    y: "sweep_all g ?p = Some p'" "sim g es (gs @ [y]) p'" "like ?p p'" "(\<exists>i < num_nodes g. can_add g es ?p gs [] i) \<Longrightarrow> y \<noteq> []"
      "\<not> pa_greedily ?p \<Longrightarrow> (\<exists>k. concat gs = [0..<k]) \<Longrightarrow> (\<exists>k. concat gs @ y = [0..<k])" by auto
  have sub: "set (concat gs) \<subseteq> {..<num_nodes g}" using simD(1) [OF assms(1)] by (simp add: grouping_def)
  have "set (concat gs) = {..<num_nodes g}" if "y = []"
  proof (rule ccontr)
    assume "set (concat gs) \<noteq> {..<num_nodes g}"
    then have ex: "\<exists>i. i < num_nodes g \<and> i \<notin> set (concat gs)" using sub by blast
    define i where "i = (LEAST i. i < num_nodes g \<and> i \<notin> set (concat gs))"
    have i: "i < num_nodes g \<and> i \<notin> set (concat gs)" unfolding i_def by (rule LeastI_ex [OF ex])
    have "k \<in> set (concat gs)" if "k < i" for k using not_less_Least [OF that [unfolded i_def]] that i by auto
    then have "can_add g es ?p gs [] i" using can_add_first [OF assms(2)] i by blast
    then show False using y(4) i that by blast
  qed
  moreover have "like p p'" using y(3) by (simp add: like_def)
  ultimately show ?thesis using y(1,2,5) by (auto simp: BuildNodeSubset_def)
qed

lemma build_subsets_total:
  assumes "sim g es gs p" "[] \<notin> set gs" "ordered_graph g es" "sorted es"
  shows "\<exists>p' gs'. build_subsets g p = Some p' \<and> sim g es gs' p' \<and> like p p' \<and> [] \<notin> set gs' \<and> set (concat gs') = {..<num_nodes g}
    \<and> (\<not> pa_greedily p \<longrightarrow> (\<exists>k. concat gs = [0..<k]) \<longrightarrow> (\<exists>k. concat gs' = [0..<k]))"
  using assms(1,2)
proof (induction "num_nodes g - length (concat gs)" arbitrary: gs p rule: less_induct)
  case less
  from BuildNodeSubset_total [OF less.prems(1) assms(3,4)] obtain p1 y where
    y: "BuildNodeSubset g p = Some p1" "sim g es (gs @ [y]) p1" "like p p1" "y = [] \<Longrightarrow> set (concat gs) = {..<num_nodes g}"
      "\<not> pa_greedily p \<Longrightarrow> (\<exists>k. concat gs = [0..<k]) \<Longrightarrow> (\<exists>k. concat gs @ y = [0..<k])" by blast
  have len: "length (pa_node_subsets p1) = Suc (length gs)" using simD(8) [OF y(2)] by simp
  then have "pa_node_subsets p1 \<noteq> []" by auto
  then have "last (pa_node_subsets p1) = pa_node_subsets p1 ! length gs" using len by (simp add: last_conv_nth)
  moreover have "subset_for g p1 (set (concat (gs @ [y]))) y (pa_node_subsets p1 ! length gs)" using simD(15) [OF y(2), of "length gs"] by simp
  ultimately have empty: "ns_nodes (last (pa_node_subsets p1)) = [] \<longleftrightarrow> y = []" by (simp add: subset_for_def)
  show ?case
  proof (cases "y = []")
    case True
    then have "build_subsets g p = Some (p1\<lparr>pa_node_subsets := butlast (pa_node_subsets p1)\<rparr>)"
      using empty y(1) by (subst build_subsets.simps) simp
    moreover have "sim g es gs (p1\<lparr>pa_node_subsets := butlast (pa_node_subsets p1)\<rparr>)" using sim_pop y(2) True by blast
    moreover have "like p (p1\<lparr>pa_node_subsets := butlast (pa_node_subsets p1)\<rparr>)" using y(3) by (simp add: like_def)
    ultimately show ?thesis using y(4) [OF True] less.prems(2) by blast
  next
    case False
    then have run: "build_subsets g p = build_subsets g p1" using empty y(1) by (subst build_subsets.simps) simp
    have "length (concat (gs @ [y])) \<le> num_nodes g" by (rule sim_length [OF y(2)])
    then have "num_nodes g - length (concat (gs @ [y])) < num_nodes g - length (concat gs)" using False by (cases y) auto
    from less.hyps [OF this y(2)] False less.prems(2) obtain p2 gs' where
      z: "build_subsets g p1 = Some p2" "sim g es gs' p2" "like p1 p2" "[] \<notin> set gs'" "set (concat gs') = {..<num_nodes g}"
        "\<not> pa_greedily p1 \<Longrightarrow> (\<exists>k. concat (gs @ [y]) = [0..<k]) \<Longrightarrow> (\<exists>k. concat gs' = [0..<k])" by auto
    have "pa_greedily p1 = pa_greedily p" using y(3) by (simp add: like_def)
    then show ?thesis using run z like_trans [OF y(3) z(3)] y(5) by (intro exI [of _ p2] exI [of _ gs']) simp
  qed
qed

end
