(* ===== verification/PartitionSpec.thy ===== *)
theory PartitionSpec
  imports PartitionProps
begin

text \<open>
  What the partition of a graph gives: every node once, in subsets of one kind, in an order that respects the
  dependencies, with exactly the tensors that cross the borders of each subset.
\<close>

section \<open>The start\<close>

lemma array_set_loop:
  assumes "\<forall>t \<in> set ts. 0 \<le> t \<and> t < int (length xs)"
  shows "\<exists>ys. loop_opt (\<lambda>t xs. array_set xs t c) ts xs = Some ys \<and> length ys = length xs
    \<and> (\<forall>k < length xs. ys ! k = (if int k \<in> set ts then c else xs ! k))"
  using assms
proof (induction ts arbitrary: xs)
  case (Cons t ts)
  obtain m where m: "t = int m" "m < length xs" using Cons.prems by (metis list.set_intros(1) nonneg_int_cases of_nat_less_iff)
  obtain ys where "loop_opt (\<lambda>t xs. array_set xs t c) ts (xs[m := c]) = Some ys" "length ys = length xs"
      "\<forall>k < length xs. ys ! k = (if int k \<in> set ts then c else xs[m := c] ! k)"
    using Cons.IH [of "xs[m := c]"] Cons.prems by auto
  then show ?case using m by (auto simp: nth_list_update)
qed simp

lemma Uniquefy_set [simp]: "set (Uniquefy xs) = set xs"
  by (simp add: Uniquefy_def)

lemma Uniquefy_sorted: "sorted (Uniquefy xs)"
  by (simp add: Uniquefy_def sorted_remdups_adj)

lemma Partitioner_new_total:
  assumes "\<forall>x \<in> set nodes. 0 \<le> x \<and> x < int (gi_num_total_nodes g)"
  shows "\<exists>p. Partitioner_new g nodes greedily es fus = Some p \<and> pa_greedily p = greedily \<and> pa_disable_node_fusion p = fus
    \<and> pa_control_edges p = Uniquefy es \<and> length (pa_node_type p) = gi_num_total_nodes g
    \<and> (\<forall>k < gi_num_total_nodes g. pa_node_type p ! k = (if int k \<in> set nodes then kTfPartition else kTfNonPartition))"
  using array_set_loop [of nodes "replicate (gi_num_total_nodes g) kTfNonPartition" kTfPartition] assms
  by (auto simp: Partitioner_new_def)

lemma ordered_graph_cong: "set es = set fs \<Longrightarrow> ordered_graph g es = ordered_graph g fs"
  by (simp add: ordered_graph_def)

lemma preds_cong: "set es = set fs \<Longrightarrow> preds g es = preds g fs"
  by (simp add: preds_def [abs_def])

lemma partition_reset_sim:
  assumes g: "ordered_graph g es" and p: "pa_control_edges p = es" "length (pa_node_type p) = gi_num_total_nodes g" "kTfUnexplored \<notin> set (pa_node_type p)"
  shows "\<exists>q. partition_reset g p = Some q \<and> sim g es [] q \<and> like p q"
proof -
  let ?n = "num_nodes g" and ?outs = "concat (map tn_outputs (gi_nodes g))"
  have es: "\<forall>e \<in> set es. 0 \<le> snd e \<and> snd e < int (length (replicate ?n (0 :: int)))" using ordered_graph_less(3) [OF g] by fastforce
  from count_edges_loop [of "\<lambda>n. n + 1", OF refl es] obtain inc where
    inc: "loop_opt (\<lambda>e incoming. array_upd incoming (snd e) (\<lambda>n. n + 1)) es (replicate ?n 0) = Some inc" "length inc = ?n"
      "\<forall>k < ?n. inc ! k = int (waiting es {} k)" by (auto simp: waiting_def)
  have out: "t \<in> set ?outs \<longleftrightarrow> (\<exists>i < ?n. t \<in> writes g i)" if "t \<noteq> kTfLiteOptionalTensor" for t
    using that by (auto simp: writes_def in_set_conv_nth) (metis in_set_conv_nth nth_mem)+
  have ok: "tensor_ok g t" if "t \<in> set ?outs" "t \<noteq> kTfLiteOptionalTensor" for t
    using out [OF that(2)] that(1) ordered_graph_tensor [OF g] by blast
  have "\<forall>t \<in> set ?outs. t = kTfLiteOptionalTensor \<or> 0 \<le> t \<and> t < int (length (replicate (length (gi_tensors g)) kEpochAlwaysReady))"
    using ok by (auto simp only: tensor_ok_def length_replicate)
  from set_epoch_loop [OF this, of kEpochNotReady] obtain te where te: "loop_opt (set_epoch kEpochNotReady) ?outs (replicate (length (gi_tensors g)) kEpochAlwaysReady) = Some te"
    "length te = length (gi_tensors g)" "\<forall>k < length (gi_tensors g). te ! k = (if int k \<in> set ?outs then kEpochNotReady else kEpochAlwaysReady)" by auto
  have nth: "te ! nat t = (if t \<in> set ?outs then kEpochNotReady else kEpochAlwaysReady)" if "tensor_ok g t" for t
    using te(3) tensor_ok_nat [OF that] by metis
  let ?q = "p\<lparr>pa_node_subsets := [], pa_tensor_epochs := te, pa_node_epochs := replicate ?n kEpochNotReady, pa_num_incoming_control_edges := inc\<rparr>"
  have "sim g es [] ?q"
    unfolding sim_def
  proof (intro conjI allI impI ballI)
    show "pa_tensor_epochs ?q ! nat t = kEpochNotReady" if "i < ?n" "t \<in> writes g i" for i t
      using that nth [of t] ordered_graph_tensor [OF g that(1)] out [of t] by (auto simp: writes_def)
    show "pa_tensor_epochs ?q ! nat t = kEpochAlwaysReady" if "tensor_ok g t" "\<forall>i < ?n. t \<notin> writes g i" for t
      using that nth [of t] out [OF tensor_ok_not_optional [OF that(1)]] by auto
  qed (use inc te(2) p in \<open>simp_all add: grouping_def\<close>)
  then show ?thesis using inc(1) te(1) p(1) by (auto simp: partition_reset_def like_def)
qed

section \<open>Outputs of the graph\<close>

lemma mark_output_loop:
  assumes "\<forall>t \<in> set ts. 0 \<le> t \<and> t < int (length xs) \<and> (xs ! nat t = kEpochAlwaysReady \<or> 0 \<le> xs ! nat t \<and> xs ! nat t < int (length ss))"
  shows "\<exists>ss'. loop_opt (mark_output xs) ts ss = Some ss' \<and> same_nodes ss ss' \<and> map ns_input_tensors ss' = map ns_input_tensors ss
    \<and> (\<forall>e < length ss. set (ns_output_tensors (ss' ! e)) = set (ns_output_tensors (ss ! e)) \<union> {t \<in> set ts. xs ! nat t = int e})"
  using assms
proof (induction ts arbitrary: ss)
  case Nil
  then show ?case by (simp add: same_nodes_def)
next
  case (Cons t ts)
  then have get: "array_get xs t = Some (xs ! nat t)" by (simp add: array_get_def nat_less_iff)
  show ?case
  proof (cases "xs ! nat t = kEpochAlwaysReady")
    case True
    then have "mark_output xs t ss = Some ss" by (simp add: mark_output_def get)
    moreover have "{u \<in> set (t # ts). xs ! nat u = int e} = {u \<in> set ts. xs ! nat u = int e}" for e
      using True by (auto simp: kEpochAlwaysReady_def)
    moreover have "\<forall>u \<in> set ts. 0 \<le> u \<and> u < int (length xs) \<and> (xs ! nat u = kEpochAlwaysReady \<or> 0 \<le> xs ! nat u \<and> xs ! nat u < int (length ss))"
      using Cons.prems by simp
    ultimately show ?thesis using Cons.IH [of ss] by (simp del: list.set)
  next
    case False
    then obtain m where m: "xs ! nat t = int m" "m < length ss" using Cons.prems by (metis list.set_intros(1) nonneg_int_cases of_nat_less_iff)
    let ?ss = "ss[m := (ss ! m)\<lparr>ns_output_tensors := ns_output_tensors (ss ! m) @ [t]\<rparr>]"
    have run: "mark_output xs t ss = Some ?ss" using False m by (simp add: mark_output_def get)
    have "\<forall>u \<in> set ts. 0 \<le> u \<and> u < int (length xs) \<and> (xs ! nat u = kEpochAlwaysReady \<or> 0 \<le> xs ! nat u \<and> xs ! nat u < int (length ?ss))"
      using Cons.prems by simp
    from Cons.IH [OF this] obtain s' where s': "loop_opt (mark_output xs) ts ?ss = Some s'" "same_nodes ?ss s'"
      "map ns_input_tensors s' = map ns_input_tensors ?ss"
      "\<forall>e < length ss. set (ns_output_tensors (s' ! e)) = set (ns_output_tensors (?ss ! e)) \<union> {u \<in> set ts. xs ! nat u = int e}" by auto
    have "same_nodes ss s'" using s'(2) by (simp add: same_nodes_def map_update_same)
    moreover have "map ns_input_tensors s' = map ns_input_tensors ss" using s'(3) by (simp add: map_update_same)
    moreover have "set (ns_output_tensors (s' ! e)) = set (ns_output_tensors (ss ! e)) \<union> {u \<in> set (t # ts). xs ! nat u = int e}" if "e < length ss" for e
      using s'(4) that m by (auto simp: nth_list_update)
    ultimately show ?thesis using run s'(1) by simp
  qed
qed

section \<open>The subsets\<close>

lemma Uniquefy_distinct: "distinct (Uniquefy xs)"
proof -
  have "distinct (remdups_adj ys)" if "sorted ys" for ys :: "'a list"
    using that by (induction ys rule: remdups_adj.induct) (auto simp: order.antisym)
  then show ?thesis by (simp add: Uniquefy_def)
qed

text \<open>The tensors that leave a group: read by nodes elsewhere, or outputs of the graph.\<close>

definition group_exports :: "GraphInfo \<Rightarrow> nat set \<Rightarrow> int set" where
  "group_exports g X = (\<Union>i \<in> X. writes g i) \<inter> ((\<Union>j \<in> {..<num_nodes g} - X. reads g j) \<union> set (gi_outputs g))"

definition subset_of_group :: "GraphInfo \<Rightarrow> int list \<Rightarrow> bool \<Rightarrow> nat list \<Rightarrow> NodeSubset \<Rightarrow> bool" where
  "subset_of_group g nodes fus x s \<longleftrightarrow> ns_nodes s = map (\<lambda>i. gi_node_index g ! i) x
     \<and> (\<forall>i \<in> set x. ns_type s = (if gi_node_index g ! i \<in> set nodes then kTfPartition else kTfNonPartition))
     \<and> (fus \<longrightarrow> length x = 1)
     \<and> sorted (ns_input_tensors s) \<and> distinct (ns_input_tensors s) \<and> set (ns_input_tensors s) = group_inputs g (set x)
     \<and> sorted (ns_output_tensors s) \<and> distinct (ns_output_tensors s) \<and> set (ns_output_tensors s) = group_exports g (set x)"

lemma Partition_total:
  assumes g: "ordered_graph g es" "sorted es"
    and p: "pa_control_edges p = es" "length (pa_node_type p) = gi_num_total_nodes g"
      "\<forall>k < gi_num_total_nodes g. pa_node_type p ! k = (if int k \<in> set nodes then kTfPartition else kTfNonPartition)"
  shows "\<exists>ss gs. Partition g p = Some ss \<and> grouping g es gs \<and> [] \<notin> set gs \<and> set (concat gs) = {..<num_nodes g}
    \<and> (\<not> pa_greedily p \<longrightarrow> concat gs = [0..<num_nodes g]) \<and> list_all2 (subset_of_group g nodes (pa_disable_node_fusion p)) gs ss"
proof -
  have un: "kTfUnexplored \<notin> set (pa_node_type p)" using p(2,3) by (auto simp: in_set_conv_nth)
  obtain p1 where 1: "partition_reset g p = Some p1" "sim g es [] p1" "like p p1" using partition_reset_sim [OF g(1) p(1,2) un] by blast
  obtain p2 gs where 2: "build_subsets g p1 = Some p2" "sim g es gs p2" "like p1 p2" "[] \<notin> set gs" "set (concat gs) = {..<num_nodes g}"
    "\<not> pa_greedily p1 \<longrightarrow> (\<exists>k. concat [] = [0..<k]) \<longrightarrow> (\<exists>k. concat gs = [0..<k])"
    using build_subsets_total [OF 1(2) _ g] by auto
  note d = simD [OF 2(2)]
  have same: "pa_greedily p1 = pa_greedily p" "pa_disable_node_fusion p2 = pa_disable_node_fusion p" "pa_node_type p2 = pa_node_type p"
    using 1(3) 2(3) by (simp_all add: like_def)
  have ok: "\<forall>t \<in> set (gi_outputs g). tensor_ok g t" using g(1) by (simp add: ordered_graph_def)
  have "\<forall>t \<in> set (gi_outputs g). 0 \<le> t \<and> t < int (length (pa_tensor_epochs p2)) \<and> (pa_tensor_epochs p2 ! nat t = kEpochAlwaysReady
      \<or> 0 \<le> pa_tensor_epochs p2 ! nat t \<and> pa_tensor_epochs p2 ! nat t < int (length (pa_node_subsets p2)))"
  proof (intro ballI conjI)
    fix t assume "t \<in> set (gi_outputs g)"
    then have t: "tensor_ok g t" using ok by blast
    then show "0 \<le> t" "t < int (length (pa_tensor_epochs p2))" using d(2) by (simp_all add: tensor_ok_def)
    show "pa_tensor_epochs p2 ! nat t = kEpochAlwaysReady \<or> 0 \<le> pa_tensor_epochs p2 ! nat t \<and> pa_tensor_epochs p2 ! nat t < int (length (pa_node_subsets p2))"
    proof (cases "\<forall>i < num_nodes g. t \<notin> writes g i")
      case False
      then obtain i where i: "i \<in> set (concat gs)" "t \<in> writes g i" unfolding 2(5) by auto
      then obtain e where "e < length gs" "i \<in> set (gs ! e)" unfolding in_concat_nth by blast
      from d(12) [OF this i(2)] this(1) show ?thesis by (simp add: d(8))
    qed (use d(13) [OF t] in blast)
  qed
  from mark_output_loop [OF this] obtain s3 where 3: "loop_opt (mark_output (pa_tensor_epochs p2)) (gi_outputs g) (pa_node_subsets p2) = Some s3"
    "same_nodes (pa_node_subsets p2) s3" "map ns_input_tensors s3 = map ns_input_tensors (pa_node_subsets p2)"
    "\<forall>e < length (pa_node_subsets p2). set (ns_output_tensors (s3 ! e))
       = set (ns_output_tensors (pa_node_subsets p2 ! e)) \<union> {t \<in> set (gi_outputs g). pa_tensor_epochs p2 ! nat t = int e}" by blast
  let ?u = "\<lambda>s. s\<lparr>ns_input_tensors := Uniquefy (ns_input_tensors s), ns_output_tensors := Uniquefy (ns_output_tensors s)\<rparr>"
  have len: "length s3 = length gs" using same_nodes_nth(1) [OF 3(2)] d(8) by simp
  have "subset_of_group g nodes (pa_disable_node_fusion p) (gs ! e) (?u (s3 ! e))" if e: "e < length gs" for e
  proof -
    have f: "subset_for g p2 (set (concat gs)) (gs ! e) (pa_node_subsets p2 ! e)" by (rule d(15) [OF e])
    have e': "e < length (pa_node_subsets p2)" using e d(8) by simp
    have ins: "ns_input_tensors (s3 ! e) = ns_input_tensors (pa_node_subsets p2 ! e)" using 3(3) e' len d(8) by (metis nth_map)
    have "{t \<in> set (gi_outputs g). pa_tensor_epochs p2 ! nat t = int e} = (\<Union>i \<in> set (gs ! e). writes g i) \<inter> set (gi_outputs g)"
      using sim_writer [OF 2(2) _ e] ok by blast
    then have outs: "set (ns_output_tensors (s3 ! e)) = group_exports g (set (gs ! e))"
      using 3(4) e' f unfolding subset_for_def group_outputs_def group_exports_def 2(5) by auto
    have "ns_type (s3 ! e) = (if gi_node_index g ! i \<in> set nodes then kTfPartition else kTfNonPartition)" if i: "i \<in> set (gs ! e)" for i
    proof -
      have "i < num_nodes g" using i e 2(5) in_concat_nth [of i gs] by blast
      then have "i < length (gi_node_index g)" using g(1) by (simp add: ordered_graph_def)
      then have "gi_node_index g ! i \<in> set (gi_node_index g)" by simp
      then have r: "0 \<le> gi_node_index g ! i \<and> gi_node_index g ! i < int (gi_num_total_nodes g)" using g(1) unfolding ordered_graph_def by blast
      have "ns_type (s3 ! e) = node_type_of g p2 i" using f i same_nodes_nth(3) [OF 3(2) e'] by (simp add: subset_for_def)
      then show ?thesis using p(3) r by (auto simp: node_type_of_def same(3) nat_less_iff)
    qed
    moreover have "gs ! e \<noteq> []" using 2(4) e by (metis nth_mem)
    then have "pa_disable_node_fusion p \<longrightarrow> length (gs ! e) = 1" using f same(2) by (cases "gs ! e") (auto simp: subset_for_def)
    ultimately show ?thesis using f ins outs same_nodes_nth(2) [OF 3(2) e']
      by (simp add: subset_of_group_def subset_for_def Uniquefy_sorted Uniquefy_distinct)
  qed
  then have "list_all2 (subset_of_group g nodes (pa_disable_node_fusion p)) gs (map ?u s3)" using len by (simp add: list_all2_conv_all_nth)
  moreover have "concat gs = [0..<num_nodes g]" if n: "\<not> pa_greedily p"
  proof -
    have "\<exists>k. concat [] = [0..<k]" by (rule exI [of _ 0]) simp
    then obtain k where k: "concat gs = [0..<k]" using 2(6) n same(1) by blast
    have "set [0..<k] = {..<num_nodes g}" using 2(5) by (simp only: k)
    then have "k = num_nodes g" by (simp add: atLeast0LessThan)
    then show ?thesis using k by simp
  qed
  moreover have "Partition g p = Some (map ?u s3)" using 1(1) 2(1) 3(1) by (simp add: Partition_def)
  ultimately show ?thesis using d(1) 2(4,5) by blast
qed

lemma partition_groups:
  assumes "ordered_graph g (case ce of Some es \<Rightarrow> es | None \<Rightarrow> default_control_edges g greedily)" (is "ordered_graph g ?es")
    and "\<forall>x \<in> set nodes. 0 \<le> x \<and> x < int (gi_num_total_nodes g)"
  shows "\<exists>ss gs. PartitionGraphIntoIndependentNodeSubsets g nodes greedily ce fus = Some (kTfLiteOk, ss)
    \<and> grouping g ?es gs \<and> [] \<notin> set gs \<and> set (concat gs) = {..<num_nodes g} \<and> (\<not> greedily \<longrightarrow> concat gs = [0..<num_nodes g])
    \<and> list_all2 (subset_of_group g nodes fus) gs ss"
proof -
  obtain p where p: "Partitioner_new g nodes greedily ?es fus = Some p" "pa_greedily p = greedily" "pa_disable_node_fusion p = fus"
    "pa_control_edges p = Uniquefy ?es" "length (pa_node_type p) = gi_num_total_nodes g"
    "\<forall>k < gi_num_total_nodes g. pa_node_type p ! k = (if int k \<in> set nodes then kTfPartition else kTfNonPartition)"
    using Partitioner_new_total [OF assms(2)] by blast
  have "ordered_graph g (Uniquefy ?es)" using assms(1) ordered_graph_cong [of "Uniquefy ?es" ?es g] by simp
  from Partition_total [OF this Uniquefy_sorted p(4-6)] obtain ss gs where r: "Partition g p = Some ss" "grouping g (Uniquefy ?es) gs" "[] \<notin> set gs"
    "set (concat gs) = {..<num_nodes g}" "\<not> greedily \<longrightarrow> concat gs = [0..<num_nodes g]" "list_all2 (subset_of_group g nodes fus) gs ss"
    using p(2,3) by blast
  have "grouping g ?es gs" using r(2) preds_cong [of "Uniquefy ?es" ?es g] by (simp add: grouping_def)
  moreover have "PartitionGraphIntoIndependentNodeSubsets g nodes greedily ce fus = Some (kTfLiteOk, ss)"
    using r(1) p(1) by (simp add: PartitionGraphIntoIndependentNodeSubsets_def)
  ultimately show ?thesis using r by blast
qed

section \<open>Properties\<close>

text \<open>C10: The partition of a graph in dependency order always ends. The subsets hold every node of the execution plan
  exactly once, none is empty, and each is of one kind: all its nodes were chosen for the delegate, or none was. Run one
  after the other, the subsets respect the dependencies: the nodes that write what a node reads, and those that control
  edges put before it, come earlier. Without fusion every subset is a single node.\<close>

theorem partition_correct:
  assumes "ordered_graph g es" "\<forall>x \<in> set nodes. 0 \<le> x \<and> x < int (gi_num_total_nodes g)"
  shows "\<exists>ss gs. PartitionGraphIntoIndependentNodeSubsets g nodes greedily (Some es) fus = Some (kTfLiteOk, ss)
    \<and> map ns_nodes ss = map (map (\<lambda>i. gi_node_index g ! i)) gs \<and> [] \<notin> set gs
    \<and> distinct (concat gs) \<and> set (concat gs) = {..<length (gi_nodes g)}
    \<and> (\<forall>pre j post. concat gs = pre @ j # post \<longrightarrow> preds g es j \<subseteq> set pre)
    \<and> (\<forall>s \<in> set ss. ns_type s = kTfPartition \<and> set (ns_nodes s) \<subseteq> set nodes \<or> ns_type s = kTfNonPartition \<and> set (ns_nodes s) \<inter> set nodes = {})
    \<and> (fus \<longrightarrow> (\<forall>s \<in> set ss. length (ns_nodes s) = 1))"
proof -
  obtain ss gs where r: "PartitionGraphIntoIndependentNodeSubsets g nodes greedily (Some es) fus = Some (kTfLiteOk, ss)"
    "grouping g es gs" "[] \<notin> set gs" "set (concat gs) = {..<num_nodes g}" and l: "list_all2 (subset_of_group g nodes fus) gs ss"
    using partition_groups [of g greedily "Some es" nodes fus] assms by auto
  have one: "(ns_type s = kTfPartition \<and> set (ns_nodes s) \<subseteq> set nodes \<or> ns_type s = kTfNonPartition \<and> set (ns_nodes s) \<inter> set nodes = {})
      \<and> (fus \<longrightarrow> length (ns_nodes s) = 1)" if "s \<in> set ss" for s
  proof -
    from l that obtain x where x: "x \<in> set gs" "subset_of_group g nodes fus x s" unfolding list_all2_conv_all_nth by (metis in_set_conv_nth)
    then have "x \<noteq> []" using r(3) by blast
    then have h: "hd x \<in> set x" by simp
    have n: "ns_nodes s = map (\<lambda>i. gi_node_index g ! i) x" "fus \<longrightarrow> length x = 1"
      and t: "\<And>i. i \<in> set x \<Longrightarrow> ns_type s = (if gi_node_index g ! i \<in> set nodes then kTfPartition else kTfNonPartition)"
      using x(2) unfolding subset_of_group_def by blast+
    have "gi_node_index g ! i \<in> set nodes \<longleftrightarrow> ns_type s = kTfPartition" if "i \<in> set x" for i using t [OF that] by simp
    then have "set (ns_nodes s) \<subseteq> set nodes \<or> ns_type s \<noteq> kTfPartition" "set (ns_nodes s) \<inter> set nodes = {} \<or> ns_type s = kTfPartition"
      using n(1) by auto
    then show ?thesis using t [OF h] n by (auto split: if_splits)
  qed
  have "map ns_nodes ss = map (map (\<lambda>i. gi_node_index g ! i)) gs"
    using l by (induction rule: list_all2_induct) (simp_all add: subset_of_group_def)
  then show ?thesis using r one unfolding grouping_def by blast
qed

text \<open>C11: Each subset of a partition lists exactly the tensors that cross its border, each once and in order: its inputs are
  the tensors its nodes read and do not write; its outputs are the tensors its nodes write that nodes of other subsets read
  or that are outputs of the graph. So a delegate that keeps all other tensors of a subset to itself hides nothing that is
  still needed.\<close>

theorem partition_boundary:
  assumes "ordered_graph g es" "\<forall>x \<in> set nodes. 0 \<le> x \<and> x < int (gi_num_total_nodes g)"
  shows "\<exists>ss gs. PartitionGraphIntoIndependentNodeSubsets g nodes greedily (Some es) fus = Some (kTfLiteOk, ss)
    \<and> map ns_nodes ss = map (map (\<lambda>i. gi_node_index g ! i)) gs \<and> length ss = length gs
    \<and> (\<forall>e < length gs. sorted (ns_input_tensors (ss ! e)) \<and> distinct (ns_input_tensors (ss ! e))
         \<and> set (ns_input_tensors (ss ! e)) = (\<Union>i \<in> set (gs ! e). reads g i) - (\<Union>i \<in> set (gs ! e). writes g i)
         \<and> sorted (ns_output_tensors (ss ! e)) \<and> distinct (ns_output_tensors (ss ! e))
         \<and> set (ns_output_tensors (ss ! e))
             = (\<Union>i \<in> set (gs ! e). writes g i) \<inter> ((\<Union>j \<in> {..<length (gi_nodes g)} - set (gs ! e). reads g j) \<union> set (gi_outputs g)))"
proof -
  obtain ss gs where r: "PartitionGraphIntoIndependentNodeSubsets g nodes greedily (Some es) fus = Some (kTfLiteOk, ss)"
    and l: "list_all2 (subset_of_group g nodes fus) gs ss"
    using partition_groups [of g greedily "Some es" nodes fus] assms by auto
  have "map ns_nodes ss = map (map (\<lambda>i. gi_node_index g ! i)) gs"
    using l by (induction rule: list_all2_induct) (simp_all add: subset_of_group_def)
  moreover have "length ss = length gs" using l by (simp add: list_all2_conv_all_nth)
  moreover have "\<forall>e < length gs. subset_of_group g nodes fus (gs ! e) (ss ! e)" using l by (simp add: list_all2_conv_all_nth)
  ultimately show ?thesis
    by (intro exI [of _ ss] exI [of _ gs]) (simp add: r subset_of_group_def group_inputs_def group_exports_def)
qed

text \<open>C12: Without \<^verbatim>\<open>greedily\<close> the partition keeps the execution order: the subsets are consecutive pieces of the execution
  plan. With no control edges given there are none in this case.\<close>

theorem partition_keeps_order:
  assumes "ordered_graph g (case ce of Some es \<Rightarrow> es | None \<Rightarrow> [])" "\<forall>x \<in> set nodes. 0 \<le> x \<and> x < int (gi_num_total_nodes g)"
  shows "\<exists>ss. PartitionGraphIntoIndependentNodeSubsets g nodes False ce fus = Some (kTfLiteOk, ss)
    \<and> concat (map ns_nodes ss) = gi_node_index g"
proof -
  have "ordered_graph g (case ce of Some es \<Rightarrow> es | None \<Rightarrow> default_control_edges g False)"
    using assms(1) by (cases ce) (simp_all add: default_control_edges_def)
  from partition_groups [OF this assms(2), of fus] obtain ss gs where
    r: "PartitionGraphIntoIndependentNodeSubsets g nodes False ce fus = Some (kTfLiteOk, ss)" "concat gs = [0..<num_nodes g]"
    and l: "list_all2 (subset_of_group g nodes fus) gs ss" by auto
  have "concat (map ns_nodes ss) = map (\<lambda>i. gi_node_index g ! i) (concat gs)"
    using l by (induction rule: list_all2_induct) (simp_all add: subset_of_group_def)
  also have "\<dots> = gi_node_index g"
  proof -
    have "length (gi_node_index g) = num_nodes g" using assms(1) by (simp add: ordered_graph_def)
    then show ?thesis unfolding r(2) by (metis map_nth)
  qed
  finally show ?thesis using r(1) by blast
qed

section \<open>Side effects\<close>

definition before :: "nat list \<Rightarrow> int \<Rightarrow> int \<Rightarrow> bool" where
  "before ds a b \<longleftrightarrow> (\<exists>pre j post. ds = pre @ j # post \<and> b = int j \<and> a \<in> int ` set pre)"

lemma before_trans:
  assumes "distinct ds" "before ds a b" "before ds b c"
  shows "before ds a c"
proof -
  obtain u j v where 1: "ds = u @ j # v" "b = int j" "a \<in> int ` set u" using assms(2) by (auto simp: before_def)
  obtain x k y where 2: "ds = x @ k # y" "c = int k" "j \<in> set x" using assms(3) 1(2) by (auto simp: before_def)
  obtain x1 x2 where x: "x = x1 @ j # x2" using split_list [OF 2(3)] by blast
  have "u @ j # v = x1 @ j # (x2 @ k # y)" using 1(1) 2(1) x by simp
  moreover have "j \<notin> set u" "j \<notin> set v" using assms(1) unfolding 1(1) by simp_all
  ultimately have "u = x1" by (simp add: append_Cons_eq_iff)
  then have "a \<in> int ` set x" using 1(3) x by auto
  then show ?thesis using 2(1,2) unfolding before_def by blast
qed

text \<open>The chain puts every node with side effects before the later ones.\<close>

lemma side_effect_chain_orders:
  assumes "\<forall>(a, b) \<in> set (side_effect_chain l ns). R a b" "\<And>a b c. R a b \<Longrightarrow> R b c \<Longrightarrow> R a c" "\<forall>x \<in> set ns. fst x \<noteq> - 1"
  shows "(l \<noteq> - 1 \<longrightarrow> (\<forall>(j, n) \<in> set ns. tn_might_have_side_effect n \<longrightarrow> R l j))
    \<and> sorted_wrt (\<lambda>(i, m) (j, n). tn_might_have_side_effect m \<longrightarrow> tn_might_have_side_effect n \<longrightarrow> R i j) ns"
  using assms(1,3)
proof (induction ns arbitrary: l)
  case (Cons x ns)
  obtain k node where x: "x = (k, node)" by (cases x)
  have k: "k \<noteq> - 1" "\<forall>y \<in> set ns. fst y \<noteq> - 1" using Cons.prems x by auto
  show ?case
  proof (cases "tn_might_have_side_effect node")
    case True
    then have tail: "\<forall>(a, b) \<in> set (side_effect_chain k ns). R a b" and head: "l \<noteq> - 1 \<Longrightarrow> R l k"
      using Cons.prems x by (auto split: if_splits)
    show ?thesis using Cons.IH [OF tail k(2)] k(1) head assms(2) x by (fastforce split: prod.splits)
  next
    case False
    then show ?thesis using Cons.IH [of l] Cons.prems x by auto
  qed
qed simp

lemma side_effect_chain_range:
  assumes "sorted_wrt (<) (map fst ns)" "\<forall>x \<in> set ns. 0 \<le> fst x \<and> l < fst x \<and> fst x < hi" "l = - 1 \<or> 0 \<le> l"
  shows "\<forall>(a, b) \<in> set (side_effect_chain l ns). 0 \<le> a \<and> a < b \<and> b < hi"
  using assms
proof (induction ns arbitrary: l)
  case (Cons x ns)
  obtain k node where x: "x = (k, node)" by (cases x)
  have "\<forall>(a, b) \<in> set (side_effect_chain m ns). 0 \<le> a \<and> a < b \<and> b < hi" if "m = k \<or> m = l" for m
    using Cons.IH [of m] Cons.prems that x by auto
  then show ?case using Cons.prems x by auto
qed simp

lemma execution_nodes_nth:
  assumes "i < num_nodes g"
  shows "execution_nodes g ! i = (int i, gi_nodes g ! i)" "length (execution_nodes g) = num_nodes g"
  using assms by (simp_all add: execution_nodes_def)

lemma default_edges_ordered:
  assumes "ordered_graph g []"
  shows "ordered_graph g (default_control_edges g greedily)"
proof -
  have m: "map fst (execution_nodes g) = [0..int (num_nodes g) - 1]" by (simp add: execution_nodes_def)
  have "sorted_wrt (<) [0..int n - 1]" for n by (simp add: sorted_wrt_iff_nth_less)
  then have 1: "sorted_wrt (<) (map fst (execution_nodes g))" by (simp only: m)
  have "fst x \<in> set [0..int (num_nodes g) - 1]" if "x \<in> set (execution_nodes g)" for x using that m by (metis image_eqI set_map)
  then have 2: "\<forall>x \<in> set (execution_nodes g). 0 \<le> fst x \<and> - 1 < fst x \<and> fst x < int (num_nodes g)" by fastforce
  have "\<forall>(a, b) \<in> set (default_control_edges g greedily). 0 \<le> a \<and> a < b \<and> b < int (num_nodes g)"
    using side_effect_chain_range [OF 1 2] by (simp add: default_control_edges_def)
  then show ?thesis using assms by (simp add: ordered_graph_def)
qed

text \<open>C13: With \<^verbatim>\<open>greedily\<close> and no control edges given, nodes that might have side effects keep their order: of two such
  nodes the one that comes first in the execution plan comes first in the partition.\<close>

theorem side_effects_keep_order:
  assumes "ordered_graph g []" "\<forall>x \<in> set nodes. 0 \<le> x \<and> x < int (gi_num_total_nodes g)"
  shows "\<exists>ss gs. PartitionGraphIntoIndependentNodeSubsets g nodes True None fus = Some (kTfLiteOk, ss)
    \<and> map ns_nodes ss = map (map (\<lambda>i. gi_node_index g ! i)) gs \<and> distinct (concat gs) \<and> set (concat gs) = {..<length (gi_nodes g)}
    \<and> (\<forall>j < length (gi_nodes g). \<forall>i < j. tn_might_have_side_effect (gi_nodes g ! i) \<longrightarrow> tn_might_have_side_effect (gi_nodes g ! j) \<longrightarrow>
         (\<exists>pre post. concat gs = pre @ j # post \<and> i \<in> set pre))"
proof -
  let ?es = "default_control_edges g True" and ?ns = "execution_nodes g"
  have g: "ordered_graph g (case None of Some es \<Rightarrow> es | None \<Rightarrow> ?es)" using default_edges_ordered [OF assms(1)] by simp
  from partition_groups [OF g assms(2), of fus] obtain ss gs where
    r: "PartitionGraphIntoIndependentNodeSubsets g nodes True None fus = Some (kTfLiteOk, ss)" "grouping g ?es gs" "set (concat gs) = {..<num_nodes g}"
    and l: "list_all2 (subset_of_group g nodes fus) gs ss" by auto
  have dist: "distinct (concat gs)" using r(2) unfolding grouping_def by blast
  have edge: "before (concat gs) a b" if e: "(a, b) \<in> set ?es" for a b
  proof -
    from ordered_graph_less(3) [OF default_edges_ordered [OF assms(1)] e] obtain i j where ij: "a = int i" "b = int j" "i < num_nodes g" "j < num_nodes g"
      by (metis nonneg_int_cases of_nat_less_iff order.strict_trans order.strict_implies_order order.trans)
    then have "j \<in> set (concat gs)" unfolding r(3) by simp
    from split_list [OF this] obtain pre post where s: "concat gs = pre @ j # post" by blast
    then have "preds g ?es j \<subseteq> set pre" using r(2) unfolding grouping_def by blast
    then have "i \<in> set pre" using ij e by (auto simp: preds_def)
    then show ?thesis using s ij by (auto simp: before_def)
  qed
  have "\<exists>pre post. concat gs = pre @ j # post \<and> i \<in> set pre"
    if "j < num_nodes g" "i < j" "tn_might_have_side_effect (gi_nodes g ! i)" "tn_might_have_side_effect (gi_nodes g ! j)" for i j
  proof -
    have 1: "\<forall>(a, b) \<in> set (side_effect_chain (- 1) ?ns). before (concat gs) a b" using edge by (auto simp: default_control_edges_def)
    have 2: "\<forall>x \<in> set ?ns. fst x \<noteq> - 1" by (auto simp: execution_nodes_def dest!: set_zip_leftD)
    have "i < num_nodes g" using that by simp
    then have "before (concat gs) (int i) (int j)"
      using sorted_wrt_nth_less [OF side_effect_chain_orders [OF 1 before_trans [OF dist] 2, THEN conjunct2] that(2)] that
      by (simp add: execution_nodes_nth)
    then show ?thesis by (auto simp: before_def)
  qed
  moreover have "map ns_nodes ss = map (map (\<lambda>i. gi_node_index g ! i)) gs"
    using l by (induction rule: list_all2_induct) (simp_all add: subset_of_group_def)
  ultimately show ?thesis using r dist by blast
qed

section \<open>An example\<close>

text \<open>The graph of the remarks in \<^verbatim>\<open>graph_info.h\<close>, with side effects of the nodes 3 and 4.\<close>

definition part_node :: "int list \<Rightarrow> int list \<Rightarrow> bool \<Rightarrow> TfLiteNode" where
  "part_node ins outs effect = \<lparr>tn_inputs = ins, tn_outputs = outs, tn_temporaries = [], tn_inplace_operator = 0, tn_might_have_side_effect = effect\<rparr>"

definition remark_graph :: GraphInfo where
  "remark_graph = \<lparr>gi_tensors = replicate 7 \<lparr>tt_allocation_type = kTfLiteArenaRw, tt_bytes = 16, tt_data = nullptr\<rparr>,
     gi_nodes = [part_node [0] [1] False, part_node [1] [2] False, part_node [2] [3] False, part_node [3] [4] True,
       part_node [2] [5] True, part_node [4, 5] [6] False],
     gi_num_total_nodes = 6, gi_node_index = [0, 1, 2, 3, 4, 5], gi_inputs = [0], gi_outputs = [6], gi_variables = []\<rparr>"

lemma remark_graph_ordered: "ordered_graph remark_graph []" "ordered_graph remark_graph [(3, 4)]"
  by (auto simp: ordered_graph_def remark_graph_def part_node_def reads_def writes_def tensor_ok_def kTfLiteOptionalTensor_def
      numeral_nat All_less_Suc)

lemma remark_graph_simps [simp]:
  "length (gi_nodes remark_graph) = 6" "gi_num_total_nodes remark_graph = 6" "gi_node_index remark_graph = [0, 1, 2, 3, 4, 5]"
  by (simp_all add: remark_graph_def)

theorem partition_correct_witness:
  "ordered_graph remark_graph [(3, 4)]
    \<and> (\<exists>ss gs. PartitionGraphIntoIndependentNodeSubsets remark_graph [2, 3] True (Some [(3, 4)]) False = Some (kTfLiteOk, ss)
      \<and> map ns_nodes ss = map (map (\<lambda>i. [0, 1, 2, 3, 4, 5] ! i)) gs \<and> [] \<notin> set gs \<and> distinct (concat gs) \<and> set (concat gs) = {..<6})"
  using partition_correct [OF remark_graph_ordered(2), of "[2, 3]" True False] remark_graph_ordered(2) by auto

theorem partition_boundary_witness:
  "ordered_graph remark_graph [(3, 4)]
    \<and> (\<exists>ss gs. PartitionGraphIntoIndependentNodeSubsets remark_graph [2, 3] True (Some [(3, 4)]) True = Some (kTfLiteOk, ss)
      \<and> map ns_nodes ss = map (map (\<lambda>i. [0, 1, 2, 3, 4, 5] ! i)) gs \<and> length ss = length gs)"
  using partition_boundary [OF remark_graph_ordered(2), of "[2, 3]" True True] remark_graph_ordered(2) by auto

theorem partition_keeps_order_witness:
  "\<exists>ss. PartitionGraphIntoIndependentNodeSubsets remark_graph [2, 3] False None False = Some (kTfLiteOk, ss)
    \<and> concat (map ns_nodes ss) = [0, 1, 2, 3, 4, 5]"
  using partition_keeps_order [of remark_graph None "[2, 3]" False] remark_graph_ordered(1) by simp

theorem side_effects_keep_order_witness:
  "\<exists>ss gs pre post. PartitionGraphIntoIndependentNodeSubsets remark_graph [2, 3] True None False = Some (kTfLiteOk, ss)
    \<and> map ns_nodes ss = map (map (\<lambda>i. [0, 1, 2, 3, 4, 5] ! i)) gs \<and> concat gs = pre @ 4 # post \<and> 3 \<in> set pre"
proof -
  have "tn_might_have_side_effect (gi_nodes remark_graph ! 3)" "tn_might_have_side_effect (gi_nodes remark_graph ! 4)"
    by (simp_all add: remark_graph_def part_node_def)
  moreover have "(3 :: nat) < 4" "4 < length (gi_nodes remark_graph)" "\<forall>x \<in> set [2, 3]. 0 \<le> x \<and> x < int (gi_num_total_nodes remark_graph)"
    by simp_all
  ultimately show ?thesis
    using side_effects_keep_order [OF remark_graph_ordered(1), of "[2, 3]" False, unfolded remark_graph_simps(3)] by metis
qed

end
