(* ===== verification/Spec2Isabelle.thy ===== *)
theory Spec2Isabelle
  imports Npublas PlannerTotal SimplePlan PartitionSpec
begin

text \<open>
  A verification development of this repository's matrix multiplication on a Qualcomm NPU: the C++ extension that
  PyTorch calls, its compiler server, and the memory planning of the TFLite interpreter that its fallback runs on.

  \<^bold>\<open>The program.\<close> Python calls the functions of \<^verbatim>\<open>npublas.cpp\<close> with float tensors. A product goes to
  \<^verbatim>\<open>tflite_manager.h\<close> (\<^verbatim>\<open>matmul_int8\<close>) or, in slices of the common dimension, to \<^verbatim>\<open>pipeline.h\<close>
  (\<^verbatim>\<open>matmul_tiled\<close>). Both make the operands into blocks of integer mantissas with one exponent, mean and
  precision per line (\<^verbatim>\<open>fixedpoint.h\<close>), give the integers to the accelerator through the engine of
  \<^verbatim>\<open>utils/execution.h\<close>, and scale the accumulators back to floats. Blocks live in a scratchpad over memory
  shared with the accelerator (\<^verbatim>\<open>fixedpoint.h\<close>); weights can be quantised ahead of time by tasks that fill a
  queue (\<^verbatim>\<open>fixedpoint.h\<close>). The engine loads a backend library (\<^verbatim>\<open>utils/qnn_hta_direct.h\<close>), compiles one
  graph per shape and caches it. Without a backend the product runs on a TFLite model, with or without a delegate;
  its graph is compiled by a server on a local socket (\<^verbatim>\<open>utils/qnn_server.cpp\<close>). The interpreter places the
  tensors of a model with one of two planners: the arena planner (\<^verbatim>\<open>arena_planner.cc\<close> on
  \<^verbatim>\<open>simple_memory_arena.cc\<close>) or the simple one (\<^verbatim>\<open>simple_planner.cc\<close>). A delegate gets its share of the model's
  nodes by a partition of the graph (\<^verbatim>\<open>graph_info.cc\<close>).

  \<^bold>\<open>Foundations.\<close>
  \<^item> \<^verbatim>\<open>Prelude\<close>: machine types, wrap-around, checked array access (\<^const>\<open>array_get\<close>, \<^const>\<open>array_set\<close>), loops that
    may fail (\<^const>\<open>loop_opt\<close>), schedules of a parallel loop, and the shared lemmas on words, lists and powers of two.
  \<^item> \<^verbatim>\<open>Float32\<close>: the type \<^verbatim>\<open>float\<close> as its bit pattern, with the arithmetic the sources use, computed on integers
    and rounded to nearest even; its lemmas relate patterns to real numbers.
  \<^item> \<^verbatim>\<open>Text\<close>: decimal printing and reading, for cache keys and requests.

  \<^bold>\<open>Numbers and memory\<close> (\<^verbatim>\<open>fixedpoint.h\<close>).
  \<^item> \<^verbatim>\<open>StochasticRound\<close>: the generator, powers of two by bit pattern, rounding of one float and of an array with four
    generators. Rounding is unbiased; the unrolled loop rounds each element once, with the noise of its index.
  \<^item> \<^verbatim>\<open>Rpcmem\<close>: the library for shared memory, loaded once, and the log of calls to the system's allocators.
  \<^item> \<^verbatim>\<open>Scratchpad\<close>: the allocator, its headers in an explicit heap. \<^verbatim>\<open>ScratchpadRefine\<close> relates the heap to a list
    of adjacent blocks, on which taking and releasing are functions on lists. \<^verbatim>\<open>ScratchpadSpec\<close> has the interface, the
    locale \<open>allocator\<close>, with the lemmas of its clients; \<^verbatim>\<open>ScratchpadProps\<close> interprets it on the code and has the runs
    as a step relation: live regions never overlap, a request and a release do what they promise and always return.
  \<^item> \<^verbatim>\<open>FixedPoint\<close>: the blocks. \<^verbatim>\<open>FixedPointGeometry\<close> shows the index arithmetic correct, \<^verbatim>\<open>FixedPointFit\<close> what
    fitting computes, \<^verbatim>\<open>FixedPointQuant\<close> and \<^verbatim>\<open>FixedPointProps\<close> what quantisation and dequantisation compute per
    element under any schedule and when they are defined, \<^verbatim>\<open>FixedPointRange\<close> how little of a block survives a
    round trip, \<^verbatim>\<open>FixedPointAlloc\<close> that construction and destruction are balanced. \<^verbatim>\<open>Blocks\<close>, \<^verbatim>\<open>Ownership\<close> and
    \<^verbatim>\<open>LineBlocks\<close> give the form in which the products use them: construct, fit, quantise, one block per line, and
    which pointers a client owns.
  \<^item> \<^verbatim>\<open>Prefetch\<close>: the queue (the locale \<open>fifo\<close>) and the tasks, completed in any order.

  \<^bold>\<open>The accelerator\<close> (\<^verbatim>\<open>utils/\<close>).
  \<^item> \<^verbatim>\<open>Qnn\<close>: the library's calls as the program makes them, with a log, and the loading of a backend.
  \<^item> \<^verbatim>\<open>Engine\<close>: the engine's state and its public operations; \<^verbatim>\<open>EngineProps\<close> has its reachable states, the handles it
    owns, which no run leaks, and the cache of graphs with its keys.
  \<^item> \<^verbatim>\<open>QnnServer\<close>: the server; every client is answered in order, compilation frees what it makes on every path,
    requests print and parse back, and a negative size ends the server.

  \<^bold>\<open>Products.\<close>
  \<^item> \<^verbatim>\<open>TfliteManager\<close>: models, their cache and \<^verbatim>\<open>matmul_int8\<close>. \<^verbatim>\<open>MatmulLoop\<close> and \<^verbatim>\<open>MatmulEngine\<close> show what the
    accelerator is given and what is made of its answer, \<^verbatim>\<open>Fallback\<close> the same for the TFLite model, with the life of
    models and the blocks that leak.
  \<^item> \<^verbatim>\<open>Pipeline\<close> and \<^verbatim>\<open>TiledProduct\<close>: the tiled product, the slices and their sum.
  \<^item> \<^verbatim>\<open>Npublas\<close>: the functions offered to Python, and a product after its preparation.

  \<^bold>\<open>Planning of memory and of delegates\<close> (\<^verbatim>\<open>include/tensorflow/lite/\<close>).
  \<^item> \<^verbatim>\<open>Arena\<close>: the growing buffer and best-fit placement; \<^verbatim>\<open>ArenaProps\<close> shows allocations in use together apart, and
    the purge of finished ones without effect.
  \<^item> \<^verbatim>\<open>ArenaPlanner\<close>: lifetimes, sharing of buffers, placement and addresses. \<^verbatim>\<open>PlannerProps\<close> and \<^verbatim>\<open>PlannerLives\<close>
    show that planning succeeds and that lifetimes cover the uses, \<^verbatim>\<open>PlannerApart\<close> that tensors in use together get
    disjoint addresses, \<^verbatim>\<open>PlannerTotal\<close> that executing a plan always returns with success.
  \<^item> \<^verbatim>\<open>SimplePlanner\<close> and \<^verbatim>\<open>SimpleProps\<close>: a block per tensor, each freed once. \<^verbatim>\<open>SimplePlan\<close>: the two planners agree,
    and both are instances of the locale \<open>memory_planner\<close>.
  \<^item> \<^verbatim>\<open>GraphPartition\<close>: the partition of the execution plan into subsets of nodes. \<^verbatim>\<open>PartitionProps\<close> has graphs in
    dependency order and the invariant of the partitioner: its epochs, edge counts and borders as functions of the
    groups built so far. \<^verbatim>\<open>PartitionSpec\<close> shows that the partition ends, holds every node once, respects data
    dependencies, control edges and the order of side effects, and lists exactly the tensors that cross its borders.

  \<^bold>\<open>State and errors.\<close> A class is a record with the fields of the source; an operation takes the state and returns
  it changed. A result is \<^term>\<open>None\<close> where the source has undefined behaviour (an index out of range, a dangling or
  null pointer, a shift by the width, a conversion out of range, a division by zero), throws, or does not return;
  status codes and early returns are values. The state of the whole extension is the record \<^typ>\<open>npu\<close>: engine,
  scratchpad, queue, caches. Mutexes make operations atomic, so interleavings of threads are sequences of operations.

  \<^bold>\<open>Environments.\<close> Code outside the repository answers through a parameter: \<^typ>\<open>os_env\<close> (dynamic linker and
  allocators), \<^typ>\<open>qnn_env\<close> (the accelerator's library), \<^typ>\<open>tflite_env\<close> and \<^typ>\<open>net_env\<close> (interpreter, delegate,
  socket), \<^typ>\<open>sock_env\<close> (the server's socket), \<^typ>\<open>heap_env\<close> (allocator of the arenas) and \<^typ>\<open>planner_env\<close> (the
  order of a hash set and of equal elements after \<^verbatim>\<open>std::sort\<close>). Their answers may depend on all calls before. What
  the theorems need of them is stated as hypotheses, such as \<^const>\<open>os_ok\<close> (allocators give out aligned memory that
  is not in use) or \<^const>\<open>qnn_complete\<close> (the library has the functions that free its handles), and each has a
  concrete instance in a witness.

  \<^bold>\<open>Bounds.\<close> Signed arithmetic wraps, as the build asks (\<^verbatim>\<open>-fno-strict-overflow\<close>). \<^verbatim>\<open>size_t\<close> is a natural number
  with the operations taken modulo \<open>2 ^ 64\<close>, \<^verbatim>\<open>int\<close> an integer with its range. Float operations are rounded one by one: the
  compiler does not fuse a multiplication and an addition, and a parallel reduction adds the threads' parts in an
  order the schedule gives. No fuel is used. The walk over the scratchpad's list and \<^const>\<open>ResolveTensorAllocation\<close>
  can run forever on a broken list, so they are partial functions; on reachable states and planned graphs they are
  shown to return. The loops \<^const>\<open>sweep_all\<close> and \<^const>\<open>build_subsets\<close> of the partition are partial functions too,
  and are shown to return on every graph in dependency order. Reference counts of the planners are unbounded integers, which no graph of fewer than \<open>2 ^ 31\<close> uses
  distinguishes from the code's. Equal offsets in \<^const>\<open>CalculateActiveAllocs\<close> keep their order.

  \<^bold>\<open>Not modelled.\<close> Console output and timing; the registration of the Python module; the Python package and servers,
  which only start the processes and forward calls; profiling hooks, debug dumps and the Windows variant of the aligned
  allocator in the arena. The rest of the TFLite tree and the accelerator's headers under \<^verbatim>\<open>include/\<close> are third-party
  code the program is built against: kernels, delegates, the flatbuffer schema and the interpreter around the planners.
\<close>

end
